(* ===== verification/JS_Prelude.thy ===== *)
theory JS_Prelude
  imports Complex_Main "HOL-Library.AList" "HOL-Library.List_Lexorder" "HOL-Library.Char_ord"
    "HOL-Library.Multiset"
begin

text \<open>
  Shared vocabulary of the development: what the TypeScript sources use of the language and of
  its standard library. Strings are lists of code units; the model covers the units 0 to 255,
  so the white space of \<open>String.prototype.trim\<close> is the Latin-1 part of the ECMAScript set.
  Numbers are exact rationals together with the two infinities and NaN; IEEE rounding is not
  modelled. JSON values keep the insertion order of object keys. A \<open>Map\<close> is an
  association list in insertion order, updated in place. A thrown error is the left injection
  of a sum. The last section holds the reachability predicate and the locales that several
  components interpret.
\<close>

named_theorems js_simps \<open>computation rules of the JavaScript helpers\<close>

section \<open>Strings\<close>

definition is_js_space :: "char \<Rightarrow> bool" where
  "is_js_space c \<longleftrightarrow>
     c = CHR 0x09 \<or> c = CHR 0x0A \<or> c = CHR 0x0B \<or> c = CHR 0x0C \<or> c = CHR 0x0D \<or>
     c = CHR '' '' \<or> c = CHR 0xA0"

definition trim_start :: "string \<Rightarrow> string" where
  "trim_start s = dropWhile is_js_space s"

definition trim :: "string \<Rightarrow> string" where
  "trim s = rev (dropWhile is_js_space (rev (trim_start s)))"

definition starts_with :: "string \<Rightarrow> string \<Rightarrow> bool" where
  "starts_with s p \<longleftrightarrow> take (length p) s = p"

fun str_includes :: "string \<Rightarrow> string \<Rightarrow> bool" where
  "str_includes [] p \<longleftrightarrow> p = []"
| "str_includes (c # s) p \<longleftrightarrow> starts_with (c # s) p \<or> str_includes s p"

fun join :: "string \<Rightarrow> string list \<Rightarrow> string" where
  "join sep [] = []"
| "join sep [x] = x"
| "join sep (x # y # xs) = x @ sep @ join sep (y # xs)"

definition is_digit :: "char \<Rightarrow> bool" where
  "is_digit c \<longleftrightarrow> CHR ''0'' \<le> c \<and> c \<le> CHR ''9''"

definition is_word_char :: "char \<Rightarrow> bool" where
  "is_word_char c \<longleftrightarrow> is_digit c \<or> (CHR ''a'' \<le> c \<and> c \<le> CHR ''z'') \<or>
     (CHR ''A'' \<le> c \<and> c \<le> CHR ''Z'') \<or> c = CHR ''_''"

definition digit_char :: "nat \<Rightarrow> char" where
  "digit_char d = char_of (48 + d)"

fun nat_str :: "nat \<Rightarrow> string" where
  "nat_str n = (if n < 10 then [digit_char n] else nat_str (n div 10) @ [digit_char (n mod 10)])"

declare nat_str.simps [simp del]

definition int_str :: "int \<Rightarrow> string" where
  "int_str i = (if i < 0 then CHR ''-'' # nat_str (nat (- i)) else nat_str (nat i))"

text \<open>\<open>s.split("\\n")\<close>.\<close>

fun split_on :: "char \<Rightarrow> string \<Rightarrow> string list" where
  "split_on d [] = [[]]"
| "split_on d (c # cs) =
     (if c = d then [] # split_on d cs
      else (case split_on d cs of [] \<Rightarrow> [[c]] | l # ls \<Rightarrow> (c # l) # ls))"

text \<open>\<open>toLowerCase\<close> on the letters of ASCII.\<close>

definition lower :: "char \<Rightarrow> char" where
  "lower c = (if CHR ''A'' \<le> c \<and> c \<le> CHR ''Z'' then char_of ((of_char c :: nat) + 32) else c)"

text \<open>A whole-word occurrence of one of the words, where \<open>w\<close> is the class of the character before.\<close>

fun has_word :: "string list \<Rightarrow> bool \<Rightarrow> string \<Rightarrow> bool" where
  "has_word ps w [] = False"
| "has_word ps w (c # cs) =
     (\<not> w \<and> list_ex (\<lambda>p. starts_with (c # cs) p \<and>
        (case drop (length p) (c # cs) of [] \<Rightarrow> True | d # _ \<Rightarrow> \<not> is_word_char d)) ps \<or>
      has_word ps (is_word_char c) cs)"

lemma length_trim_start [simp]: "length (trim_start s) \<le> length s"
  by (simp add: trim_start_def length_dropWhile_le)

lemma length_trim [simp]: "length (trim s) \<le> length s"
proof -
  have "length (trim s) \<le> length (trim_start s)"
    unfolding trim_def by (metis length_dropWhile_le length_rev)
  also have "\<dots> \<le> length s" by simp
  finally show ?thesis .
qed

lemma trim_Nil [simp, js_simps]: "trim [] = []"
  by (simp add: trim_def trim_start_def)

lemma trim_start_eq_Nil: "trim_start s = [] \<longleftrightarrow> (\<forall>c\<in>set s. is_js_space c)"
  by (simp add: trim_start_def dropWhile_eq_Nil_conv)

lemma trim_eq_Nil: "trim s = [] \<longleftrightarrow> (\<forall>c\<in>set s. is_js_space c)"
proof -
  have "trim s = [] \<longleftrightarrow> (\<forall>c\<in>set (trim_start s). is_js_space c)"
    by (simp add: trim_def)
  also have "\<dots> \<longleftrightarrow> trim_start s = []"
    by (metis dropWhile_eq_Nil_conv hd_dropWhile hd_in_set trim_start_def list.set(1) empty_iff)
  finally show ?thesis by (simp add: trim_start_eq_Nil)
qed

lemma trim_start_idem [simp]: "trim_start (trim_start s) = trim_start s"
  by (simp add: trim_start_def)

lemma trim_start_trim [simp]: "trim_start (trim s) = trim s"
proof (cases "trim s = []")
  case True
  then show ?thesis by (simp add: trim_start_def)
next
  case False
  let ?t = "trim_start s"
  have prefix_hd: "hd (trim s) = hd ?t"
  proof -
    have "trim s = take (length ?t - length (takeWhile is_js_space (rev ?t))) ?t"
      unfolding trim_def by (simp add: dropWhile_eq_drop rev_drop)
    with False show ?thesis by (metis hd_take take_eq_Nil not_gr_zero)
  qed
  from False have "?t \<noteq> []" by (auto simp: trim_def)
  then have "\<not> is_js_space (hd ?t)"
    unfolding trim_start_def by (rule hd_dropWhile)
  with prefix_hd have "\<not> is_js_space (hd (trim s))" by simp
  with False show ?thesis
    unfolding trim_start_def by (cases "trim s") auto
qed

lemma trim_idem [simp]: "trim (trim s) = trim s"
proof -
  have "trim (trim s) = rev (dropWhile is_js_space (rev (trim s)))"
    by (simp only: trim_def [of "trim s"] trim_start_trim)
  also have "\<dots> = trim s"
    by (simp add: trim_def)
  finally show ?thesis .
qed

lemma starts_with_append [simp, js_simps]: "starts_with (p @ s) p"
  by (simp add: starts_with_def)

lemma starts_withD: "starts_with s p \<Longrightarrow> \<exists>r. s = p @ r"
  unfolding starts_with_def by (metis append_take_drop_id)

section \<open>Numbers\<close>

datatype js_number = Fin rat | PosInf | NegInf | NaN

definition is_finite :: "js_number \<Rightarrow> bool" where
  "is_finite x \<longleftrightarrow> (\<exists>r. x = Fin r)"

lemma is_finite_simps [simp, js_simps, code]:
  "is_finite (Fin r) = True" "is_finite PosInf = False" "is_finite NegInf = False"
  "is_finite NaN = False"
  by (simp_all add: is_finite_def)

definition rat_is_int :: "rat \<Rightarrow> bool" where
  "rat_is_int r \<longleftrightarrow> snd (quotient_of r) = 1"

definition is_integer :: "js_number \<Rightarrow> bool" where
  "is_integer x = (case x of Fin r \<Rightarrow> rat_is_int r | _ \<Rightarrow> False)"

text \<open>
  The relational operators of the language on numbers: every comparison with NaN is false.
\<close>

fun num_lt :: "js_number \<Rightarrow> js_number \<Rightarrow> bool" where
  "num_lt (Fin a) (Fin b) = (a < b)"
| "num_lt NaN _ = False"
| "num_lt _ NaN = False"
| "num_lt NegInf b = (b \<noteq> NegInf)"
| "num_lt a PosInf = (a \<noteq> PosInf)"
| "num_lt _ _ = False"

text \<open>
  \<open>Number.prototype.toString\<close> for integers and for decimals with at most seventeen digits
  after the point.
\<close>

fun frac_digits :: "nat \<Rightarrow> rat \<Rightarrow> string" where
  "frac_digits 0 r = []"
| "frac_digits (Suc n) r =
     (if r = 0 then [] else
        (let d = floor (10 * r) in digit_char (nat d) # frac_digits n (10 * r - of_int d)))"

definition rat_str :: "rat \<Rightarrow> string" where
  "rat_str r =
     (if rat_is_int r then int_str (floor r)
      else (if r < 0 then ''-'' else []) @
        (let a = \<bar>r\<bar>; i = floor a in int_str i @ ''.'' @ frac_digits 17 (a - of_int i)))"

section \<open>JSON values\<close>

datatype json =
    JNull
  | JBool bool
  | JNum js_number
  | JStr string
  | JArr "json list"
  | JObj "(string \<times> json) list"

text \<open>
  Property access on a non-null value: the own property of an object, undefined
  (\<open>None\<close>) otherwise. \<open>typeof\<close> tests become the discriminators below; an absent
  property is \<open>None\<close>.
\<close>

fun jget :: "json \<Rightarrow> string \<Rightarrow> json option" where
  "jget (JObj kvs) k = map_of kvs k"
| "jget _ k = None"

text \<open>
  The properties every object inherits from \<open>Object.prototype\<close>: the \<open>in\<close> operator and
  an indexed read see them, \<open>Object.keys\<close> and \<open>Object.entries\<close> do not.
\<close>

definition PROTOTYPE_NAMES :: "string list" where
  "PROTOTYPE_NAMES = [''constructor'', ''__defineGetter__'', ''__defineSetter__'', ''hasOwnProperty'',
     ''__lookupGetter__'', ''__lookupSetter__'', ''isPrototypeOf'', ''propertyIsEnumerable'', ''toString'',
     ''valueOf'', ''__proto__'', ''toLocaleString'']"

definition js_in :: "string \<Rightarrow> (string \<times> 'v) list \<Rightarrow> bool" where
  "js_in k kvs \<longleftrightarrow> k \<in> fst ` set kvs \<or> k \<in> set PROTOTYPE_NAMES"

fun is_plain_object :: "json \<Rightarrow> bool" where
  "is_plain_object (JObj _) = True"
| "is_plain_object _ = False"

fun is_array :: "json \<Rightarrow> bool" where
  "is_array (JArr _) = True"
| "is_array _ = False"

text \<open>\<open>typeof v === "object" && v !== null\<close>: objects and arrays.\<close>

definition is_object :: "json \<Rightarrow> bool" where
  "is_object v \<longleftrightarrow> is_plain_object v \<or> is_array v"

fun truthy :: "json \<Rightarrow> bool" where
  "truthy JNull = False"
| "truthy (JBool b) = b"
| "truthy (JNum x) = (x \<noteq> Fin 0 \<and> x \<noteq> NaN)"
| "truthy (JStr s) = (s \<noteq> [])"
| "truthy (JArr _) = True"
| "truthy (JObj _) = True"

definition truthy_opt :: "json option \<Rightarrow> bool" where
  "truthy_opt v = (case v of None \<Rightarrow> False | Some x \<Rightarrow> truthy x)"

fun as_str :: "json option \<Rightarrow> string option" where
  "as_str (Some (JStr s)) = Some s"
| "as_str _ = None"

fun as_num :: "json option \<Rightarrow> js_number option" where
  "as_num (Some (JNum x)) = Some x"
| "as_num _ = None"

fun as_bool :: "json option \<Rightarrow> bool option" where
  "as_bool (Some (JBool b)) = Some b"
| "as_bool _ = None"

fun as_arr :: "json option \<Rightarrow> json list option" where
  "as_arr (Some (JArr xs)) = Some xs"
| "as_arr _ = None"

lemma as_str_eq_Some [simp]: "as_str v = Some s \<longleftrightarrow> v = Some (JStr s)"
  by (cases v rule: as_str.cases) auto

lemma as_num_eq_Some [simp]: "as_num v = Some x \<longleftrightarrow> v = Some (JNum x)"
  by (cases v rule: as_num.cases) auto

lemma as_bool_eq_Some [simp]: "as_bool v = Some b \<longleftrightarrow> v = Some (JBool b)"
  by (cases v rule: as_bool.cases) auto

lemma as_arr_eq_Some [simp]: "as_arr v = Some xs \<longleftrightarrow> v = Some (JArr xs)"
  by (cases v rule: as_arr.cases) auto

text \<open>Entries of an object are smaller than the object: the measure of recursions over JSON.\<close>

lemma map_of_json_size: "map_of kvs k = Some v \<Longrightarrow> size v < size (JObj kvs)"
proof (induction kvs)
  case (Cons kv kvs)
  then show ?case
    by (cases kv) (auto split: if_splits simp: size_list_estimation)
qed simp

lemma jget_size: "jget j k = Some v \<Longrightarrow> size v < size j"
  by (cases j) (auto dest: map_of_json_size)

section \<open>JSON text\<close>

definition hex_char :: "nat \<Rightarrow> char" where
  "hex_char d = (if d < 10 then char_of (48 + d) else char_of (87 + d))"

definition hex2 :: "nat \<Rightarrow> string" where
  "hex2 n = [hex_char (n div 16), hex_char (n mod 16)]"

text \<open>One code unit inside a JSON string literal (\<open>QuoteJSONString\<close>).\<close>

definition quote_char :: "char \<Rightarrow> string" where
  "quote_char c =
     (if c = CHR 0x22 then [CHR 0x5C, CHR 0x22]
      else if c = CHR 0x5C then [CHR 0x5C, CHR 0x5C]
      else if c = CHR 0x08 then [CHR 0x5C, CHR ''b'']
      else if c = CHR 0x0C then [CHR 0x5C, CHR ''f'']
      else if c = CHR 0x0A then [CHR 0x5C, CHR ''n'']
      else if c = CHR 0x0D then [CHR 0x5C, CHR ''r'']
      else if c = CHR 0x09 then [CHR 0x5C, CHR ''t'']
      else if (of_char c :: nat) < 32 then CHR 0x5C # CHR ''u'' # ''00'' @ hex2 (of_char c)
      else [c])"

definition quote_str :: "string \<Rightarrow> string" where
  "quote_str s = CHR 0x22 # concat (map quote_char s) @ [CHR 0x22]"

fun num_json :: "js_number \<Rightarrow> string" where
  "num_json (Fin r) = rat_str r"
| "num_json _ = ''null''"

text \<open>\<open>JSON.stringify\<close> without indentation: keys in insertion order.\<close>

fun stringify :: "json \<Rightarrow> string" where
  "stringify JNull = ''null''"
| "stringify (JBool b) = (if b then ''true'' else ''false'')"
| "stringify (JNum x) = num_json x"
| "stringify (JStr s) = quote_str s"
| "stringify (JArr xs) = ''['' @ join '','' (map stringify xs) @ '']''"
| "stringify (JObj kvs) = ''{'' @ join '','' (map (\<lambda>(k, v). quote_str k @ '':'' @ stringify v) kvs) @ ''}''"

text \<open>Sorting by distinct keys forgets the order of the entries.\<close>

lemma sort_key_perm:
  assumes "distinct (map fst xs)" "mset xs = mset ys"
  shows "sort_key fst xs = sort_key fst ys"
proof (rule map_sorted_distinct_set_unique [where f = fst])
  have sets: "set xs = set ys" using assms(2) by (metis set_mset_mset)
  have d: "distinct (map fst ys)"
    using assms by (metis mset_eq_imp_distinct_iff mset_map)
  show "inj_on fst (set (sort_key fst xs) \<union> set (sort_key fst ys))"
    using assms(1) sets by (simp add: distinct_map)
  show "sorted (map fst (sort_key fst xs))" "sorted (map fst (sort_key fst ys))" by simp_all
  show "distinct (map fst (sort_key fst xs))" "distinct (map fst (sort_key fst ys))"
    using assms(1) d by (simp_all add: distinct_map)
  show "set (sort_key fst xs) = set (sort_key fst ys)" using sets by simp
qed

text \<open>The literal of a string determines the string, and no number prints like another kind of value.\<close>

lemma hex_char_code: "d < 16 \<Longrightarrow> (of_char (hex_char d) :: nat) = (if d < 10 then 48 + d else 87 + d)"
  by (simp add: hex_char_def)

lemma hex_char_inj:
  assumes "a < 16" "b < 16" "hex_char a = hex_char b"
  shows "a = b"
proof -
  have "(if a < 10 then 48 + a else 87 + a) = (if b < 10 then 48 + b else 87 + b)"
    using hex_char_code [OF assms(1)] hex_char_code [OF assms(2)] assms(3) by simp
  then show ?thesis by (auto split: if_splits)
qed

lemma quote_char_nonempty [simp]: "quote_char c \<noteq> []"
  by (simp add: quote_char_def)

lemma quote_char_prefix:
  assumes "quote_char c @ xs = quote_char d @ ys"
  shows "c = d \<and> xs = ys"
proof (cases "length (quote_char c) = 6 \<and> length (quote_char d) = 6")
  case True
  have less: "of_char c < (32 :: nat)" "of_char d < (32 :: nat)" 
    using True by (auto simp: quote_char_def hex2_def split: if_splits)
  have q: "quote_char c = CHR 0x5C # CHR ''u'' # ''00'' @ hex2 (of_char c)"
     "quote_char d = CHR 0x5C # CHR ''u'' # ''00'' @ hex2 (of_char d)"
    using True by (auto simp: quote_char_def split: if_splits)
  have "hex_char (of_char c div 16) = hex_char (of_char d div 16)" "hex_char (of_char c mod 16) = hex_char (of_char d mod 16)"
     "xs = ys"
    using assms unfolding q by (auto simp: hex2_def)
  then have "of_char c div 16 = (of_char d div 16 :: nat)" "of_char c mod 16 = (of_char d mod 16 :: nat)"
    using less by (simp_all add: hex_char_inj)
  then have "of_char c = (of_char d :: nat)" by (metis div_mult_mod_eq)
  then show ?thesis using \<open>xs = ys\<close> by simp
next
  case False
  then show ?thesis using assms
    by (auto simp: quote_char_def hex2_def split: if_splits)
qed

lemma quote_char_not_end: "quote_char c @ xs \<noteq> CHR 0x22 # ys"
  by (simp add: quote_char_def)

lemma quote_str_inj: "quote_str s = quote_str t \<Longrightarrow> s = t"
proof -
  have "concat (map quote_char s) @ [CHR 0x22] = concat (map quote_char t) @ [CHR 0x22] \<Longrightarrow> s = t"
  proof (induction s arbitrary: t)
    case Nil
    then show ?case
      using quote_char_not_end [of _ _ "[]"] by (cases t) (auto dest: sym)
  next
    case (Cons c s)
    show ?case
    proof (cases t)
      case Nil
      then show ?thesis using Cons.prems quote_char_not_end [of c _ "[]"] by simp
    next
      case (Cons d t')
      then show ?thesis
        using Cons.IH [of t'] Cons.prems quote_char_prefix [of c _ d] by auto
    qed
  qed
  then show "quote_str s = quote_str t \<Longrightarrow> s = t" by (simp add: quote_str_def)
qed

text \<open>A printed number starts with a digit or a sign.\<close>

lemma nat_str_head: "\<exists>d cs. nat_str n = digit_char d # cs \<and> d < 10"
proof (induction n rule: nat_str.induct)
  case (1 n)
  then show ?case by (subst nat_str.simps) (cases "n < 10"; force)
qed

lemma int_str_head: "\<exists>c cs. int_str i = c # cs \<and> (c = CHR ''-'' \<or> (\<exists>d<10. c = digit_char d))"
  using nat_str_head [of "nat i"] by (auto simp: int_str_def)

lemma rat_str_head: "\<exists>c cs. rat_str r = c # cs \<and> (c = CHR ''-'' \<or> (\<exists>d<10. c = digit_char d))"
  using int_str_head [of "floor r"] int_str_head [of "floor \<bar>r\<bar>"] by (auto simp: rat_str_def Let_def)

lemma digit_char_neq:
  assumes "d < 10" "(of_char c :: nat) < 48 \<or> 57 < (of_char c :: nat)"
  shows "digit_char d \<noteq> c"
proof
  assume "digit_char d = c"
  then have "of_char c = (48 + d :: nat)" using assms(1) by (auto simp: digit_char_def)
  then show False using assms by simp
qed

lemma num_json_head: "\<exists>c cs. num_json x = c # cs \<and> c \<notin> {CHR 0x22, CHR ''t'', CHR ''f'', CHR ''['', CHR ''{''}"
proof (cases x)
  case (Fin r)
  obtain c cs where c: "rat_str r = c # cs" "c = CHR ''-'' \<or> (\<exists>d<10. c = digit_char d)" using rat_str_head by blast
  then show ?thesis by (auto simp: Fin digit_char_neq)
qed auto

text \<open>\<open>Number.parseInt\<close> on decimal digits, and printed numbers read back.\<close>

fun dec_val :: "string \<Rightarrow> nat \<Rightarrow> nat" where
  "dec_val [] n = n"
| "dec_val (c # cs) n = dec_val cs (10 * n + (of_char c - 48))"

lemma dec_val_append: "dec_val (xs @ ys) n = dec_val ys (dec_val xs n)"
  by (induction xs arbitrary: n) auto

lemma digit_char_val: "d < 10 \<Longrightarrow> of_char (digit_char d) - (48 :: nat) = d"
  by (simp add: digit_char_def)

lemma dec_val_nat_str: "dec_val (nat_str n) 0 = n"
proof (induction n rule: nat_str.induct)
  case (1 n)
  then show ?case
    by (subst nat_str.simps) (simp add: dec_val_append digit_char_val)
qed

lemma dec_val_zeros: "dec_val (replicate k CHR ''0'' @ s) 0 = dec_val s 0"
  by (induction k) auto

lemma is_digit_of_char: "is_digit c \<longleftrightarrow> 48 \<le> (of_char c :: nat) \<and> (of_char c :: nat) \<le> 57"
  by (simp add: is_digit_def less_eq_char_def)

lemma digit_char_is_digit: "d < 10 \<Longrightarrow> is_digit (digit_char d)"
  by (simp add: is_digit_of_char digit_char_def)

lemma nat_str_digits: "list_all is_digit (nat_str n)"
proof (induction n rule: nat_str.induct)
  case (1 n)
  then show ?case by (subst nat_str.simps) (simp add: digit_char_is_digit)
qed

lemma nat_str_nonempty [simp]: "nat_str n \<noteq> []"
  using nat_str_head [of n] by auto

section \<open>Results\<close>

text \<open>Sequencing of computations that may throw, and a loop whose body may throw.\<close>

fun andThen :: "'e + 'a \<Rightarrow> ('a \<Rightarrow> 'e + 'b) \<Rightarrow> 'e + 'b" where
  "andThen (Inl e) f = Inl e"
| "andThen (Inr x) f = f x"

lemma andThen_Inr [simp]: "andThen m f = Inr y \<longleftrightarrow> (\<exists>x. m = Inr x \<and> f x = Inr y)"
  by (cases m) auto

lemma andThen_cong [fundef_cong]:
  "m = m' \<Longrightarrow> (\<And>x. m' = Inr x \<Longrightarrow> f x = g x) \<Longrightarrow> andThen m f = andThen m' g"
  by (cases m') auto

fun for_each :: "('a \<Rightarrow> 'b \<Rightarrow> 'e + 'a) \<Rightarrow> 'a \<Rightarrow> 'b list \<Rightarrow> 'e + 'a" where
  "for_each f a [] = Inr a"
| "for_each f a (x # xs) = andThen (f a x) (\<lambda>b. for_each f b xs)"

lemma for_each_append:
  "for_each f a (xs @ ys) = andThen (for_each f a xs) (\<lambda>b. for_each f b ys)"
proof (induction xs arbitrary: a)
  case (Cons x xs)
  then show ?case by (cases "f a x") simp_all
qed simp

lemma for_each_invariant:
  assumes "for_each f a xs = Inr b" "P [] a"
    and "\<And>ys x u v. P ys u \<Longrightarrow> f u x = Inr v \<Longrightarrow> P (ys @ [x]) v"
  shows "P xs b"
proof -
  have "for_each f u zs = Inr b \<Longrightarrow> P ys u \<Longrightarrow> P (ys @ zs) b" for u ys zs
  proof (induction zs arbitrary: u ys)
    case (Cons z zs)
    then obtain v where v: "f u z = Inr v" "for_each f v zs = Inr b" by auto
    show ?case using Cons.IH [OF v(2) assms(3) [OF Cons.prems(2) v(1)]] by simp
  qed simp
  from this [OF assms(1,2)] show ?thesis by simp
qed

section \<open>Maps in insertion order\<close>

type_synonym ('k, 'v) js_map = "('k \<times> 'v) list"

abbreviation map_get :: "('k, 'v) js_map \<Rightarrow> 'k \<Rightarrow> 'v option" where
  "map_get m k \<equiv> map_of m k"

abbreviation map_set :: "'k \<Rightarrow> 'v \<Rightarrow> ('k, 'v) js_map \<Rightarrow> ('k, 'v) js_map" where
  "map_set k v m \<equiv> AList.update k v m"

abbreviation map_delete :: "'k \<Rightarrow> ('k, 'v) js_map \<Rightarrow> ('k, 'v) js_map" where
  "map_delete k m \<equiv> AList.delete k m"

definition map_ok :: "('k, 'v) js_map \<Rightarrow> bool" where
  "map_ok m \<longleftrightarrow> distinct (map fst m)"

lemma map_ok_simps [simp, js_simps]:
  "map_ok []" "map_ok m \<Longrightarrow> map_ok (map_set k v m)" "map_ok m \<Longrightarrow> map_ok (map_delete k m)"
  by (simp_all add: map_ok_def distinct_update distinct_delete)

lemma map_get_set [simp, js_simps]:
  "map_get (map_set k v m) k' = (if k' = k then Some v else map_get m k')"
  by (simp add: update_conv')

lemma map_get_delete [simp, js_simps]:
  "map_get (map_delete k m) k' = (if k' = k then None else map_get m k')"
  by (simp add: delete_conv')

lemma map_set_keys: "fst ` set (map_set k v m) = insert k (fst ` set m)"
  by (simp add: dom_update)

lemma map_delete_keys: "fst ` set (map_delete k m) = fst ` set m - {k}"
  by (auto simp: AList.delete_eq)

section \<open>Reachable states\<close>

text \<open>
  The states of a component that starts in a state satisfying \<open>init\<close> and moves by
  \<open>step\<close>, whose second argument is the event.
\<close>

inductive reach :: "('s \<Rightarrow> bool) \<Rightarrow> ('s \<Rightarrow> 'e \<Rightarrow> 's \<Rightarrow> bool) \<Rightarrow> 's \<Rightarrow> bool"
  for init step where
  reach_init: "init s \<Longrightarrow> reach init step s"
| reach_step: "reach init step s \<Longrightarrow> step s e t \<Longrightarrow> reach init step t"

text \<open>What an invariant of such a component has to provide.\<close>

locale machine_invariant =
  fixes init :: "'s \<Rightarrow> bool"
    and step :: "'s \<Rightarrow> 'e \<Rightarrow> 's \<Rightarrow> bool"
    and inv :: "'s \<Rightarrow> bool"
  assumes init_inv: "init s \<Longrightarrow> inv s"
    and step_inv: "inv s \<Longrightarrow> step s e t \<Longrightarrow> inv t"
begin

lemma reachable_inv: "reach init step s \<Longrightarrow> inv s"
  by (induction rule: reach.induct) (auto intro: init_inv step_inv)

end

end
