(* ===== verification/Harness_Core.thy ===== *)
theory Harness_Core
  imports JS_Prelude
begin

text \<open>
  The pure core of the harness control plane (\<open>harness-control-plane/\<close>): the closed
  vocabularies of \<open>types.ts\<close>, the lifecycle table and the forcing function
  \<open>nextAllowedActions\<close> of \<open>state-machine.ts\<close>, the recovery classifier of
  \<open>classifier.ts\<close>, the owner reconciliation of \<open>lifecycle-reconciliation.ts\<close> and
  the deferred seams of \<open>seams.ts\<close>. Persisting is an explicit list of written states.
\<close>

section \<open>Vocabularies (types.ts)\<close>

datatype harness = SayknowCli | Codex | Omx

datatype review_verdict = ApproveMergeReady | RequestChanges | OwnerConfirmationRequired

datatype lifecycle =
    LNew | Started | Submitted | Observing | Recovering | Validating | Finalizing
  | Completed | Blocked | Retired

datatype severity = Info | Warn | Critical

datatype git_delta = Clean | Dirty | ZeroDelta | UnknownDelta

datatype risk_kind = RiskNormal | PromptNotAccepted | DeletedWorktree | VanishedDirty

datatype recovery_classification =
    Continue | SendEnter | ReinjectPrompt | RestartClean | RestartPreserveDelta
  | FallbackCodexExec | HumanCheck

datatype receipt_family =
    FVanish | FPromptAcceptance | FValidation | FCompletion | FReviewVerdict
  | FReviewFailure | FPhaseRollup

datatype harness_verb =
    VStart | VSubmit | VObserve | VClassify | VRecover | VValidate | VFinalize | VRetire
  | VEvents | VMonitor | VOperate

text \<open>Severities in the order the router treats them.\<close>

instantiation severity :: linorder
begin
definition sev_rank :: "severity \<Rightarrow> nat" where
  "sev_rank s = (case s of Info \<Rightarrow> 0 | Warn \<Rightarrow> 1 | Critical \<Rightarrow> 2)"
definition less_eq_severity :: "severity \<Rightarrow> severity \<Rightarrow> bool" where
  "less_eq_severity a b \<longleftrightarrow> sev_rank a \<le> sev_rank b"
definition less_severity :: "severity \<Rightarrow> severity \<Rightarrow> bool" where
  "less_severity a b \<longleftrightarrow> sev_rank a < sev_rank b"
instance
  by standard (auto simp: less_eq_severity_def less_severity_def sev_rank_def split: severity.splits)
end

definition lifecycle_str :: "lifecycle \<Rightarrow> string" where
  "lifecycle_str l = (case l of
     LNew \<Rightarrow> ''new'' | Started \<Rightarrow> ''started'' | Submitted \<Rightarrow> ''submitted''
   | Observing \<Rightarrow> ''observing'' | Recovering \<Rightarrow> ''recovering'' | Validating \<Rightarrow> ''validating''
   | Finalizing \<Rightarrow> ''finalizing'' | Completed \<Rightarrow> ''completed'' | Blocked \<Rightarrow> ''blocked''
   | Retired \<Rightarrow> ''retired'')"

definition git_delta_str :: "git_delta \<Rightarrow> string" where
  "git_delta_str d = (case d of Clean \<Rightarrow> ''clean'' | Dirty \<Rightarrow> ''dirty''
   | ZeroDelta \<Rightarrow> ''zero-delta'' | UnknownDelta \<Rightarrow> ''unknown'')"

definition REVIEW_VERDICTS :: "string list" where
  "REVIEW_VERDICTS = [''APPROVE_MERGE_READY'', ''REQUEST_CHANGES'', ''OWNER_CONFIRMATION_REQUIRED'']"

definition isReviewVerdict :: "json option \<Rightarrow> bool" where
  "isReviewVerdict v = (case v of Some (JStr s) \<Rightarrow> s \<in> set REVIEW_VERDICTS | _ \<Rightarrow> False)"

record next_allowed_action =
  verb :: harness_verb
  available :: bool
  reason :: "string option"

record session_state_view =
  sv_sessionId :: string
  sv_lifecycle :: lifecycle
  sv_harness :: harness
  sv_ownerLive :: bool
  sv_blockers :: "string list"

record 'e primitive_response =
  pr_ok :: bool
  pr_state :: session_state_view
  pr_evidence :: 'e
  pr_nextAllowedActions :: "next_allowed_action list"

text \<open>
  The persisted session record. The session handle is carried along and never inspected by the
  operations modelled here, so its type is a parameter.
\<close>

record 'h session_state =
  schemaVersion :: int
  sessionId :: string
  s_lifecycle :: lifecycle
  s_harness :: harness
  handle :: 'h
  retries :: "(string, int) js_map"
  blockers :: "string list"
  createdAt :: string
  updatedAt :: string

record observation =
  o_lifecycle :: lifecycle
  o_ownerLive :: bool
  cwd :: string
  branch :: "string option"
  gitDelta :: git_delta
  lastActivityAt :: "string option"
  observedSignals :: "string list"
  risk :: risk_kind

record retry_budget =
  reinjectPrompt :: int
  zeroDeltaVanish :: int
  dirtyVanishPreserve :: int
  validationRepair :: int

record recovery_decision =
  classification :: recovery_classification
  d_reason :: string
  d_severity :: severity
  ownerRequired :: bool
  requiredReceiptFamily :: "receipt_family option"

definition DEFAULT_RETRY_BUDGET :: retry_budget where
  "DEFAULT_RETRY_BUDGET = \<lparr>reinjectPrompt = 2, zeroDeltaVanish = 1, dirtyVanishPreserve = 1,
     validationRepair = 2\<rparr>"

section \<open>The lifecycle table (state-machine.ts)\<close>

definition TERMINAL_LIFECYCLES :: "lifecycle list" where
  "TERMINAL_LIFECYCLES = [Completed, Retired]"

definition SUBMIT_READY_LIFECYCLES :: "lifecycle list" where
  "SUBMIT_READY_LIFECYCLES = [Started, Observing]"

fun TRANSITIONS :: "lifecycle \<Rightarrow> lifecycle list" where
  "TRANSITIONS LNew = [Started, Blocked, Retired]"
| "TRANSITIONS Started = [Submitted, Observing, Recovering, Blocked, Retired]"
| "TRANSITIONS Submitted = [Observing, Recovering, Validating, Blocked, Retired]"
| "TRANSITIONS Observing = [Submitted, Recovering, Validating, Finalizing, Blocked, Retired]"
| "TRANSITIONS Recovering = [Started, Submitted, Observing, Blocked, Retired]"
| "TRANSITIONS Validating = [Finalizing, Observing, Blocked, Retired]"
| "TRANSITIONS Finalizing = [Completed, Blocked, Retired]"
| "TRANSITIONS Completed = [Retired]"
| "TRANSITIONS Blocked = [Started, Submitted, Observing, Recovering, Validating, Retired]"
| "TRANSITIONS Retired = []"

definition isTerminal :: "lifecycle \<Rightarrow> bool" where
  "isTerminal l \<longleftrightarrow> l \<in> set TERMINAL_LIFECYCLES"

definition canTransition :: "lifecycle \<Rightarrow> lifecycle \<Rightarrow> bool" where
  "canTransition from to \<longleftrightarrow> to \<in> set (TRANSITIONS from)"

definition assertTransition :: "lifecycle \<Rightarrow> lifecycle \<Rightarrow> string + unit" where
  "assertTransition from to =
     (if from = to then Inr ()
      else if \<not> canTransition from to
        then Inl (''invalid_transition:'' @ lifecycle_str from @ ''->'' @ lifecycle_str to)
      else Inr ())"

definition submitUnavailableReason :: "lifecycle \<Rightarrow> bool \<Rightarrow> string option \<Rightarrow> string option" where
  "submitUnavailableReason l ownerLive gateReason =
     (if isTerminal l then Some (''lifecycle-terminal:'' @ lifecycle_str l)
      else if l = Blocked then Some ''lifecycle-blocked''
      else if l \<notin> set SUBMIT_READY_LIFECYCLES then Some (''lifecycle-not-idle:'' @ lifecycle_str l)
      else if \<not> ownerLive then Some ''owner-not-live''
      else gateReason)"

text \<open>The local helper \<open>add\<close> of \<open>nextAllowedActions\<close>.\<close>

definition add_action :: "harness_verb \<Rightarrow> bool \<Rightarrow> string option \<Rightarrow> next_allowed_action" where
  "add_action v avail r =
     (if avail then \<lparr>verb = v, available = True, reason = None\<rparr>
      else \<lparr>verb = v, available = False,
            reason = Some (case r of None \<Rightarrow> ''unavailable'' | Some x \<Rightarrow> x)\<rparr>)"

definition nextAllowedActions :: "lifecycle \<Rightarrow> bool \<Rightarrow> string option \<Rightarrow> next_allowed_action list" where
  "nextAllowedActions l ownerLive gateReason =
     (let terminal = isTerminal l;
          terminalReason = (if terminal then Some (''lifecycle-terminal:'' @ lifecycle_str l) else None);
          submitReason = submitUnavailableReason l ownerLive gateReason
      in [add_action VObserve True None,
          add_action VClassify True None,
          add_action VEvents True None,
          add_action VMonitor True None,
          add_action VStart False (Some ''session-already-exists''),
          add_action VSubmit (submitReason = None) submitReason,
          add_action VRecover (\<not> terminal) terminalReason,
          add_action VValidate (\<not> terminal) terminalReason,
          add_action VFinalize (\<not> terminal) terminalReason,
          add_action VRetire (l \<noteq> Retired) (if l = Retired then Some ''already-retired'' else None)])"

definition buildStateView :: "'h session_state \<Rightarrow> bool \<Rightarrow> session_state_view" where
  "buildStateView st ownerLive =
     \<lparr>sv_sessionId = sessionId st, sv_lifecycle = s_lifecycle st, sv_harness = s_harness st,
      sv_ownerLive = ownerLive, sv_blockers = blockers st\<rparr>"

definition buildResponse ::
  "'h session_state \<Rightarrow> bool \<Rightarrow> 'e \<Rightarrow> bool \<Rightarrow> 'e primitive_response" where
  "buildResponse st ownerLive evidence ok =
     \<lparr>pr_ok = ok, pr_state = buildStateView st ownerLive, pr_evidence = evidence,
      pr_nextAllowedActions = nextAllowedActions (s_lifecycle st) ownerLive None\<rparr>"

section \<open>Recovery classification (classifier.ts)\<close>

definition decision ::
  "recovery_classification \<Rightarrow> string \<Rightarrow> severity \<Rightarrow> bool \<Rightarrow> receipt_family option \<Rightarrow> recovery_decision" where
  "decision c r s ow f =
     \<lparr>classification = c, d_reason = r, d_severity = s, ownerRequired = ow,
      requiredReceiptFamily = f\<rparr>"

definition classifyRecovery :: "observation \<Rightarrow> retry_budget \<Rightarrow> recovery_decision" where
  "classifyRecovery ob budget =
     (if risk ob = DeletedWorktree
        then decision HumanCheck ''deleted-worktree-or-path-mismatch'' Critical False (Some FVanish)
      else if o_ownerLive ob then
        (if risk ob = PromptNotAccepted then
           (if reinjectPrompt budget > 0
              then decision ReinjectPrompt ''prompt-ack-without-agent-start'' Warn True
                     (Some FPromptAcceptance)
              else decision HumanCheck ''prompt-not-accepted-budget-exhausted'' Critical False None)
         else if ''validation-failed'' \<in> set (observedSignals ob) then
           (if validationRepair budget > 0
              then decision Continue ''validation-failed-repair-budget-remains'' Warn True
                     (Some FValidation)
              else decision HumanCheck ''validation-failed-budget-exhausted'' Critical False
                     (Some FValidation))
         else decision Continue ''owner-live-active'' Info True None)
      else (case gitDelta ob of
          Dirty \<Rightarrow>
            (if dirtyVanishPreserve budget > 0
               then decision RestartPreserveDelta ''owner-vanished-dirty-delta'' Critical True (Some FVanish)
               else decision FallbackCodexExec ''dirty-vanish-preserve-budget-exhausted'' Critical True
                      (Some FVanish))
        | ZeroDelta \<Rightarrow>
            (if zeroDeltaVanish budget > 0
               then decision RestartClean ''owner-vanished-zero-delta'' Warn True (Some FVanish)
               else decision FallbackCodexExec ''zero-delta-vanish-budget-exhausted'' Critical True
                      (Some FVanish))
        | Clean \<Rightarrow> decision RestartClean ''owner-vanished-clean'' Warn True (Some FVanish)
        | UnknownDelta \<Rightarrow>
            decision HumanCheck ''owner-vanished-unknown-delta'' Critical False (Some FVanish)))"

section \<open>Owner reconciliation (lifecycle-reconciliation.ts)\<close>

definition OWNER_STARTUP_BLOCKER :: string where
  "OWNER_STARTUP_BLOCKER = ''owner-died-before-first-prompt''"

definition isOwnerLivenessBlocker :: "string \<Rightarrow> bool" where
  "isOwnerLivenessBlocker b \<longleftrightarrow> b = ''detached-owner-not-live'' \<or> starts_with b ''owner-vanished:''"

definition needsVanishedOwnerBlock :: "'h session_state \<Rightarrow> observation \<Rightarrow> bool \<Rightarrow> bool" where
  "needsVanishedOwnerBlock st ob completedTerminal =
     (if o_ownerLive ob \<or> s_lifecycle st \<noteq> Observing then False
      else if completedTerminal \<or> ''completed'' \<in> set (observedSignals ob) then False
      else (\<exists>sig\<in>set (observedSignals ob).
              sig = ''prompt-accepted'' \<or> sig = ''tool-call'' \<or> sig = ''streaming''))"

definition add_blocker :: "string \<Rightarrow> string list \<Rightarrow> string list" where
  "add_blocker b bs = (if b \<in> set bs then bs else bs @ [b])"

text \<open>
  \<open>reconcileOwnerLifecycle\<close> runs three guarded updates in order, each of which writes the
  state out through \<open>persist\<close>. The second component collects the persisted states; the
  n-th call of \<open>nowIso\<close> is \<open>now n\<close>. \<open>completedTerminal\<close> is the presence of a
  completed terminal event, which is all the code tests.
\<close>

type_synonym 'h persisted = "'h session_state \<times> 'h session_state list"

definition persist_update ::
  "(nat \<Rightarrow> string) \<Rightarrow> ('h session_state \<Rightarrow> 'h session_state) \<Rightarrow> 'h persisted \<Rightarrow> 'h persisted" where
  "persist_update now f p =
     (let st = (f (fst p))\<lparr>updatedAt := now (length (snd p))\<rparr> in (st, snd p @ [st]))"

definition complete_step :: "observation \<Rightarrow> bool \<Rightarrow> (nat \<Rightarrow> string) \<Rightarrow> 'h persisted \<Rightarrow> 'h persisted" where
  "complete_step ob completedTerminal now p =
     (if completedTerminal \<and> \<not> o_ownerLive ob \<and> gitDelta ob = Clean \<and>
         s_lifecycle (fst p) \<noteq> Completed \<and> s_lifecycle (fst p) \<noteq> Retired
      then persist_update now
             (\<lambda>st. st\<lparr>s_lifecycle := Completed,
                      blockers := filter (\<lambda>b. \<not> isOwnerLivenessBlocker b) (blockers st)\<rparr>) p
      else p)"

definition vanish_step :: "observation \<Rightarrow> bool \<Rightarrow> (nat \<Rightarrow> string) \<Rightarrow> 'h persisted \<Rightarrow> 'h persisted" where
  "vanish_step ob completedTerminal now p =
     (if needsVanishedOwnerBlock (fst p) ob completedTerminal
      then persist_update now
             (\<lambda>st. st\<lparr>s_lifecycle := Blocked,
                      blockers := add_blocker (''owner-vanished:'' @ git_delta_str (gitDelta ob))
                                    (blockers st)\<rparr>) p
      else p)"

definition startup_step :: "bool \<Rightarrow> (nat \<Rightarrow> string) \<Rightarrow> 'h persisted \<Rightarrow> 'h persisted" where
  "startup_step startupBlocked now p =
     (if startupBlocked \<and> s_lifecycle (fst p) \<noteq> Completed \<and> s_lifecycle (fst p) \<noteq> Retired
      then persist_update now
             (\<lambda>st. st\<lparr>s_lifecycle := Blocked,
                      blockers := add_blocker OWNER_STARTUP_BLOCKER (blockers st)\<rparr>) p
      else p)"

definition reconcileOwnerLifecycle ::
  "'h session_state \<Rightarrow> observation \<Rightarrow> bool \<Rightarrow> bool \<Rightarrow> (nat \<Rightarrow> string) \<Rightarrow> 'h persisted" where
  "reconcileOwnerLifecycle st ob completedTerminal startupBlocked now =
     startup_step startupBlocked now
       (vanish_step ob completedTerminal now
         (complete_step ob completedTerminal now (st, [])))"

section \<open>Deferred seams (seams.ts)\<close>

definition SUPPORTED_HARNESSES :: "string list" where
  "SUPPORTED_HARNESSES = [''sayknow-cli'']"

definition DEFERRED_SEAMS :: "string list" where
  "DEFERRED_SEAMS = [''codex-adapter'', ''omx-adapter'', ''remote-transport'', ''global-daemon'',
     ''capability-token-auth'', ''web-viewer'', ''fleet-control-plane'', ''rich-tui-coview'']"

definition isHarnessSupported :: "string \<Rightarrow> bool" where
  "isHarnessSupported h \<longleftrightarrow> h \<in> set SUPPORTED_HARNESSES"

record unsupported_seam_result =
  us_ok :: bool
  us_error :: string
  us_name :: string
  us_supported :: "string list"
  us_deferred :: "string list"

definition unsupportedSeam :: "string \<Rightarrow> unsupported_seam_result" where
  "unsupportedSeam name =
     \<lparr>us_ok = False, us_error = ''seam_unsupported_in_v1:'' @ name, us_name = name,
      us_supported = SUPPORTED_HARNESSES, us_deferred = DEFERRED_SEAMS\<rparr>"

section \<open>Properties of the lifecycle table\<close>

lemmas lifecycle_defs =
  isTerminal_def TERMINAL_LIFECYCLES_def SUBMIT_READY_LIFECYCLES_def canTransition_def

text \<open>One lifecycle move as the table allows it; the event is the target.\<close>

inductive lifecycle_step :: "lifecycle \<Rightarrow> lifecycle \<Rightarrow> lifecycle \<Rightarrow> bool" where
  move: "assertTransition l l' = Inr () \<Longrightarrow> lifecycle_step l l' l'"

inductive_simps lifecycle_step_iff: "lifecycle_step l e l'"

lemma assertTransition_ok: "assertTransition l l' = Inr u \<longleftrightarrow> l = l' \<or> canTransition l l'"
  by (auto simp: assertTransition_def)

lemma canTransition_Completed: "canTransition l Completed \<longleftrightarrow> l = Finalizing"
  by (cases l) (auto simp: canTransition_def)

lemma canTransition_Finalizing: "canTransition l Finalizing \<longleftrightarrow> l = Observing \<or> l = Validating"
  by (cases l) (auto simp: canTransition_def)

lemma canTransition_Retired: "canTransition l Retired \<longleftrightarrow> l \<noteq> Retired"
  by (cases l) (auto simp: canTransition_def)

lemma canTransition_from_Completed: "canTransition Completed l \<longleftrightarrow> l = Retired"
  by (cases l) (auto simp: canTransition_def)

lemma canTransition_from_Retired: "\<not> canTransition Retired l"
  by (simp add: canTransition_def)

text \<open>
  Runs of the table with their visited states: a session that the table brings to
  \<open>completed\<close> was in \<open>finalizing\<close> before, and in \<open>observing\<close> or
  \<open>validating\<close> before that.
\<close>

inductive lifecycle_run :: "lifecycle list \<Rightarrow> bool" where
  run_start: "lifecycle_run [LNew]"
| run_move: "lifecycle_run (l # ls) \<Longrightarrow> canTransition l l' \<Longrightarrow> lifecycle_run (l' # l # ls)"

lemma lifecycle_run_completed:
  "lifecycle_run ls \<Longrightarrow> Completed \<in> set ls \<Longrightarrow>
     Finalizing \<in> set ls \<and> (Observing \<in> set ls \<or> Validating \<in> set ls)"
proof -
  have "lifecycle_run ls \<Longrightarrow> Finalizing \<in> set ls \<Longrightarrow> Observing \<in> set ls \<or> Validating \<in> set ls" for ls
    by (induction rule: lifecycle_run.induct) (auto simp: canTransition_Finalizing)
  moreover have "lifecycle_run ls \<Longrightarrow> Completed \<in> set ls \<Longrightarrow> Finalizing \<in> set ls" for ls
    by (induction rule: lifecycle_run.induct) (auto simp: canTransition_Completed)
  ultimately show "lifecycle_run ls \<Longrightarrow> Completed \<in> set ls \<Longrightarrow>
     Finalizing \<in> set ls \<and> (Observing \<in> set ls \<or> Validating \<in> set ls)" by blast
qed

lemma lifecycle_run_terminal_last:
  "lifecycle_run (l # ls) \<Longrightarrow> Retired \<notin> set ls \<and> (Completed \<in> set ls \<longrightarrow> l = Retired)"
proof (induction "l # ls" arbitrary: l ls rule: lifecycle_run.induct)
  case (run_move l ls l')
  have "l \<noteq> Retired" using run_move.hyps(3) by (auto simp: canTransition_from_Retired)
  then show ?case
    using run_move by (auto simp: canTransition_from_Completed)
qed simp

section \<open>Properties of the classifier\<close>

lemmas classify_splits = if_splits git_delta.splits

lemma decision_sel [simp]:
  "classification (decision c r s ow f) = c" "d_reason (decision c r s ow f) = r"
  "d_severity (decision c r s ow f) = s" "ownerRequired (decision c r s ow f) = ow"
  "requiredReceiptFamily (decision c r s ow f) = f"
  by (simp_all add: decision_def)

lemma classify_RestartClean:
  "classification (classifyRecovery ob b) = RestartClean \<Longrightarrow>
     \<not> o_ownerLive ob \<and> risk ob \<noteq> DeletedWorktree \<and>
     (gitDelta ob = Clean \<or> gitDelta ob = ZeroDelta \<and> zeroDeltaVanish b > 0)"
  by (auto simp: classifyRecovery_def split: classify_splits)

lemma classify_RestartPreserveDelta:
  "classification (classifyRecovery ob b) = RestartPreserveDelta \<longleftrightarrow>
     \<not> o_ownerLive ob \<and> risk ob \<noteq> DeletedWorktree \<and> gitDelta ob = Dirty \<and>
     dirtyVanishPreserve b > 0"
  by (auto simp: classifyRecovery_def split: git_delta.splits)

lemma classify_ReinjectPrompt:
  "classification (classifyRecovery ob b) = ReinjectPrompt \<Longrightarrow> reinjectPrompt b > 0 \<and> o_ownerLive ob"
  by (auto simp: classifyRecovery_def split: classify_splits)

lemma classify_never_SendEnter: "classification (classifyRecovery ob b) \<noteq> SendEnter"
  by (auto simp: classifyRecovery_def split: git_delta.splits)

lemma classify_HumanCheck_critical:
  "classification (classifyRecovery ob b) = HumanCheck \<Longrightarrow> d_severity (classifyRecovery ob b) = Critical"
  by (auto simp: classifyRecovery_def split: classify_splits)

section \<open>Properties of the reconciliation\<close>

lemma persist_update_sel [simp]:
  "s_lifecycle (fst (persist_update now f p)) = s_lifecycle (f (fst p))"
  "blockers (fst (persist_update now f p)) = blockers (f (fst p))"
  "snd (persist_update now f p) = snd p @ [fst (persist_update now f p)]"
  by (simp_all add: persist_update_def Let_def)

lemma set_add_blocker [simp]: "set (add_blocker b bs) = insert b (set bs)"
  by (auto simp: add_blocker_def)

lemma add_blocker_idem [simp]: "b \<in> set bs \<Longrightarrow> add_blocker b bs = bs"
  by (simp add: add_blocker_def)

text \<open>A persisted pair is current when the last state written is the state returned.\<close>

definition persisted_current :: "'h session_state \<Rightarrow> 'h persisted \<Rightarrow> bool" where
  "persisted_current st p \<longleftrightarrow> (if snd p = [] then fst p = st else fst p = last (snd p))"

lemma steps_current:
  "persisted_current st p \<Longrightarrow> persisted_current st (complete_step ob c now p)"
  "persisted_current st p \<Longrightarrow> persisted_current st (vanish_step ob c now p)"
  "persisted_current st p \<Longrightarrow> persisted_current st (startup_step b now p)"
  by (auto simp: persisted_current_def complete_step_def vanish_step_def startup_step_def)

lemma reconcile_current: "persisted_current st (reconcileOwnerLifecycle st ob c b now)"
  unfolding reconcileOwnerLifecycle_def
  by (intro steps_current) (simp add: persisted_current_def)

text \<open>
  Forcing function: every entry of \<open>nextAllowedActions\<close> gives a reason exactly when
  its verb is unavailable, the verbs are listed once each in a fixed order, the read-only verbs
  are always available, and \<open>submit\<close> is available exactly when the lifecycle is
  \<open>started\<close> or \<open>observing\<close>, an owner is live and the caller's gate gives no reason.
\<close>

theorem nextAllowedActions_forcing:
  "list_all (\<lambda>a. available a = (reason a = None)) (nextAllowedActions l live gate) \<and>
   map verb (nextAllowedActions l live gate) =
     [VObserve, VClassify, VEvents, VMonitor, VStart, VSubmit, VRecover, VValidate, VFinalize, VRetire] \<and>
   (\<lparr>verb = VSubmit, available = True, reason = None\<rparr> \<in> set (nextAllowedActions l live gate)) =
     ((l = Started \<or> l = Observing) \<and> live \<and> gate = None) \<and>
   (\<lparr>verb = VRecover, available = True, reason = None\<rparr> \<in> set (nextAllowedActions l live gate)) =
     (\<not> isTerminal l) \<and>
   (\<lparr>verb = VRetire, available = True, reason = None\<rparr> \<in> set (nextAllowedActions l live gate)) =
     canTransition l Retired"
proof -
  have submit: "(submitUnavailableReason l live gate = None) = ((l = Started \<or> l = Observing) \<and> live \<and> gate = None)"
    by (cases l) (auto simp: submitUnavailableReason_def lifecycle_defs)
  show ?thesis
    by (auto simp: nextAllowedActions_def add_action_def Let_def submit canTransition_Retired)
qed

text \<open>
  Lifecycle order: a session that the transition table brought to \<open>completed\<close> has
  been in \<open>finalizing\<close>, and in \<open>observing\<close> or \<open>validating\<close> before; nothing
  follows \<open>retired\<close>, and only \<open>retired\<close> follows \<open>completed\<close>.
\<close>

theorem completed_only_through_finalizing:
  assumes "lifecycle_run (l # ls)"
  shows "(Completed \<in> set (l # ls) \<longrightarrow>
            Finalizing \<in> set (l # ls) \<and> (Observing \<in> set (l # ls) \<or> Validating \<in> set (l # ls))) \<and>
         Retired \<notin> set ls \<and> (Completed \<in> set ls \<longrightarrow> l = Retired)"
  using lifecycle_run_completed [OF assms] lifecycle_run_terminal_last [OF assms] by blast

theorem completed_only_through_finalizing_witness:
  "lifecycle_run [Completed, Finalizing, Observing, Started, LNew] \<and>
   Finalizing \<in> set [Completed, Finalizing, Observing, Started, LNew]"
proof -
  have run: "lifecycle_run [Completed, Finalizing, Observing, Started, LNew]"
    by (intro lifecycle_run.intros) (simp_all add: canTransition_def)
  show ?thesis
    using run completed_only_through_finalizing [OF run] by simp
qed

text \<open>
  The classifier's data-loss invariants: a clean restart is decided only for a vanished
  owner with a clean or zero delta on an existing worktree, so never over a dirty or unknown
  delta; every restart or fallback requires a vanish receipt and a live owner; a deleted
  worktree always goes to a human; key injection is never decided; and a human check is always
  reported as critical.
\<close>

theorem classifyRecovery_never_destroys_delta:
  "(classification (classifyRecovery ob b) = RestartClean \<longrightarrow>
      \<not> o_ownerLive ob \<and> (gitDelta ob = Clean \<or> gitDelta ob = ZeroDelta) \<and> risk ob \<noteq> DeletedWorktree) \<and>
   (classification (classifyRecovery ob b) \<in> {RestartClean, RestartPreserveDelta, FallbackCodexExec} \<longrightarrow>
      requiredReceiptFamily (classifyRecovery ob b) = Some FVanish \<and> ownerRequired (classifyRecovery ob b)) \<and>
   (risk ob = DeletedWorktree \<longrightarrow> classification (classifyRecovery ob b) = HumanCheck) \<and>
   classification (classifyRecovery ob b) \<noteq> SendEnter \<and>
   (classification (classifyRecovery ob b) = HumanCheck \<longrightarrow> Warn < d_severity (classifyRecovery ob b))"
proof -
  have "classification (classifyRecovery ob b) \<in> {RestartClean, RestartPreserveDelta, FallbackCodexExec} \<longrightarrow>
      requiredReceiptFamily (classifyRecovery ob b) = Some FVanish \<and> ownerRequired (classifyRecovery ob b)"
    by (auto simp: classifyRecovery_def split: git_delta.splits)
  moreover have "risk ob = DeletedWorktree \<longrightarrow> classification (classifyRecovery ob b) = HumanCheck"
    by (simp add: classifyRecovery_def)
  moreover have "Warn < Critical" by (simp add: less_severity_def sev_rank_def)
  ultimately show ?thesis
    using classify_RestartClean [of ob b] classify_never_SendEnter [of ob b]
      classify_HumanCheck_critical [of ob b] by auto
qed

definition vanished_zero_delta :: observation where
  "vanished_zero_delta = \<lparr>o_lifecycle = Observing, o_ownerLive = False, cwd = ''/w'', branch = None,
     gitDelta = ZeroDelta, lastActivityAt = None, observedSignals = [''streaming''], risk = RiskNormal\<rparr>"

theorem classifyRecovery_never_destroys_delta_witness:
  "classification (classifyRecovery vanished_zero_delta DEFAULT_RETRY_BUDGET) = RestartClean \<and>
   requiredReceiptFamily (classifyRecovery vanished_zero_delta DEFAULT_RETRY_BUDGET) = Some FVanish"
proof -
  have c: "classification (classifyRecovery vanished_zero_delta DEFAULT_RETRY_BUDGET) = RestartClean"
    by (simp add: classifyRecovery_def vanished_zero_delta_def DEFAULT_RETRY_BUDGET_def)
  show ?thesis
    using c classifyRecovery_never_destroys_delta [of vanished_zero_delta DEFAULT_RETRY_BUDGET] by simp
qed

lemma steps_terminal:
  "isTerminal (s_lifecycle (fst p)) \<Longrightarrow> complete_step ob c now p = p"
  "isTerminal (s_lifecycle (fst p)) \<Longrightarrow> vanish_step ob c now p = p"
  "isTerminal (s_lifecycle (fst p)) \<Longrightarrow> startup_step b now p = p"
  by (auto simp: complete_step_def vanish_step_def startup_step_def needsVanishedOwnerBlock_def
      lifecycle_defs)

lemma reconcile_lifecycle:
  "s_lifecycle (fst (reconcileOwnerLifecycle st ob c b now)) =
     (if isTerminal (s_lifecycle st) then s_lifecycle st
      else if c \<and> \<not> o_ownerLive ob \<and> gitDelta ob = Clean then Completed
      else if needsVanishedOwnerBlock st ob c \<or> b then Blocked
      else s_lifecycle st)"
  by (auto simp: reconcileOwnerLifecycle_def complete_step_def vanish_step_def startup_step_def
      needsVanishedOwnerBlock_def lifecycle_defs)

lemma reconcile_blockers:
  "blockers (fst (reconcileOwnerLifecycle st ob c b now)) =
     (if isTerminal (s_lifecycle st) then blockers st
      else if c \<and> \<not> o_ownerLive ob \<and> gitDelta ob = Clean
        then filter (\<lambda>x. \<not> isOwnerLivenessBlocker x) (blockers st)
      else (let bs = (if needsVanishedOwnerBlock st ob c
                      then add_blocker (''owner-vanished:'' @ git_delta_str (gitDelta ob)) (blockers st)
                      else blockers st)
            in if b then add_blocker OWNER_STARTUP_BLOCKER bs else bs))"
  by (auto simp: reconcileOwnerLifecycle_def complete_step_def vanish_step_def startup_step_def
      needsVanishedOwnerBlock_def lifecycle_defs Let_def)

text \<open>
  Reconciliation is safe to repeat: a second run on the same evidence leaves lifecycle and
  blockers as the first run left them; the state returned is the last state persisted, or the
  unchanged input when nothing was persisted; a terminal session is never written; and a session
  becomes \<open>completed\<close> only with a completed terminal event, a dead owner and a clean delta.
\<close>

theorem reconcileOwnerLifecycle_idempotent:
  "s_lifecycle (fst (reconcileOwnerLifecycle (fst (reconcileOwnerLifecycle st ob c b now)) ob c b now')) =
     s_lifecycle (fst (reconcileOwnerLifecycle st ob c b now)) \<and>
   blockers (fst (reconcileOwnerLifecycle (fst (reconcileOwnerLifecycle st ob c b now)) ob c b now')) =
     blockers (fst (reconcileOwnerLifecycle st ob c b now)) \<and>
   persisted_current st (reconcileOwnerLifecycle st ob c b now) \<and>
   (isTerminal (s_lifecycle st) \<longrightarrow> reconcileOwnerLifecycle st ob c b now = (st, [])) \<and>
   (s_lifecycle (fst (reconcileOwnerLifecycle st ob c b now)) = Completed \<and> s_lifecycle st \<noteq> Completed \<longrightarrow>
      c \<and> \<not> o_ownerLive ob \<and> gitDelta ob = Clean)"
proof -
  have "isTerminal (s_lifecycle st) \<longrightarrow> reconcileOwnerLifecycle st ob c b now = (st, [])"
    by (simp add: reconcileOwnerLifecycle_def steps_terminal)
  moreover have "isTerminal Completed" "\<not> isTerminal Blocked" by (simp_all add: lifecycle_defs)
  ultimately show ?thesis
    using reconcile_current [of st ob c b now]
    by (auto simp: reconcile_lifecycle reconcile_blockers needsVanishedOwnerBlock_def Let_def
        add_blocker_def)
qed

definition observing_session :: "unit session_state" where
  "observing_session = \<lparr>schemaVersion = 1, sessionId = ''s1'', s_lifecycle = Observing,
     s_harness = SayknowCli, handle = (), retries = [], blockers = [''owner-vanished:dirty''],
     createdAt = ''t0'', updatedAt = ''t0''\<rparr>"

theorem reconcileOwnerLifecycle_idempotent_witness:
  "s_lifecycle (fst (reconcileOwnerLifecycle observing_session
      (vanished_zero_delta\<lparr>gitDelta := Clean\<rparr>) True False (\<lambda>_. ''t1''))) = Completed \<and>
   gitDelta (vanished_zero_delta\<lparr>gitDelta := Clean\<rparr>) = Clean"
proof -
  have "s_lifecycle (fst (reconcileOwnerLifecycle observing_session
      (vanished_zero_delta\<lparr>gitDelta := Clean\<rparr>) True False (\<lambda>_. ''t1''))) = Completed"
    by (simp add: reconcile_lifecycle lifecycle_defs observing_session_def vanished_zero_delta_def)
  moreover have "s_lifecycle observing_session \<noteq> Completed" by (simp add: observing_session_def)
  ultimately show ?thesis
    using reconcileOwnerLifecycle_idempotent [of observing_session
        "vanished_zero_delta\<lparr>gitDelta := Clean\<rparr>" True False "\<lambda>_. ''t1''" "\<lambda>_. ''t2''"] by blast
qed

end
