(* ===== verification/Harness_Receipts.thy ===== *)
theory Harness_Receipts
  imports Harness_Core
begin

text \<open>
  Receipts of the harness control plane: the canonical JSON text that is hashed, building and
  validating envelopes (\<open>receipts.ts\<close>), ingesting a batch of receipts into a lifecycle
  (\<open>receipt-ingest.ts\<close>) and the phase rollup builder (\<open>phase-rollup.ts\<close>). Receipts
  are JSON values, because the validators have to fail closed on malformed input. The SHA-256 of
  \<open>node:crypto\<close> is a parameter \<open>sha\<close> of every definition that uses it.
\<close>

section \<open>Canonical JSON\<close>

function canonicalJson :: "json \<Rightarrow> string" where
  "canonicalJson JNull = ''null''"
| "canonicalJson (JBool b) = (if b then ''true'' else ''false'')"
| "canonicalJson (JNum x) = num_json x"
| "canonicalJson (JStr s) = quote_str s"
| "canonicalJson (JArr xs) = ''['' @ join '','' (map canonicalJson xs) @ '']''"
| "canonicalJson (JObj kvs) =
     ''{'' @ join '','' (map (\<lambda>kv. quote_str (fst kv) @ '':'' @ canonicalJson (snd kv))
               (sort_key fst kvs)) @ ''}''"
  by pat_completeness auto
termination
proof (relation "measure size")
  show "wf (measure (size :: json \<Rightarrow> nat))" by simp
  show "(x, JArr xs) \<in> measure size" if "x \<in> set xs" for xs and x :: json
    using that by (simp add: size_list_estimation less_Suc_eq_le size_list_estimation')
  show "(snd kv, JObj kvs) \<in> measure size" if "kv \<in> set (sort_key fst kvs)" for kvs kv
  proof -
    have "size_prod (\<lambda>x. 0) size kv \<le> size_list (size_prod (\<lambda>x. 0) size) kvs"
      using that by (intro size_list_estimation') auto
    then show ?thesis by (cases kv) simp
  qed
qed

text \<open>The string conversion of a template literal.\<close>

function to_string :: "json \<Rightarrow> string" where
  "to_string JNull = ''null''"
| "to_string (JBool b) = (if b then ''true'' else ''false'')"
| "to_string (JNum x) = (case x of Fin r \<Rightarrow> rat_str r | PosInf \<Rightarrow> ''Infinity''
     | NegInf \<Rightarrow> ''-Infinity'' | NaN \<Rightarrow> ''NaN'')"
| "to_string (JStr s) = s"
| "to_string (JArr xs) = join '','' (map (\<lambda>x. if x = JNull then [] else to_string x) xs)"
| "to_string (JObj kvs) = ''[object Object]''"
  by pat_completeness auto
termination
  by (relation "measure size") (auto simp: less_Suc_eq_le size_list_estimation')

definition to_string_opt :: "json option \<Rightarrow> string" where
  "to_string_opt v = (case v of None \<Rightarrow> ''undefined'' | Some x \<Rightarrow> to_string x)"

section \<open>Envelopes (receipts.ts)\<close>

definition RECEIPT_SCHEMA_VERSION :: rat where "RECEIPT_SCHEMA_VERSION = 1"

record receipt_subject =
  rs_workspace :: string
  rs_branch :: "string option"
  rs_head :: "string option"
  rs_commit :: "string option"

definition str_or_null :: "string option \<Rightarrow> json" where
  "str_or_null v = (case v of None \<Rightarrow> JNull | Some s \<Rightarrow> JStr s)"

definition subject_json :: "receipt_subject \<Rightarrow> json" where
  "subject_json s = JObj [(''workspace'', JStr (rs_workspace s)), (''branch'', str_or_null (rs_branch s)),
     (''head'', str_or_null (rs_head s)), (''commit'', str_or_null (rs_commit s))]"

definition family_str :: "receipt_family \<Rightarrow> string" where
  "family_str f = (case f of FVanish \<Rightarrow> ''vanish'' | FPromptAcceptance \<Rightarrow> ''prompt-acceptance''
   | FValidation \<Rightarrow> ''validation'' | FCompletion \<Rightarrow> ''completion'' | FReviewVerdict \<Rightarrow> ''review-verdict''
   | FReviewFailure \<Rightarrow> ''review-failure'' | FPhaseRollup \<Rightarrow> ''phase-rollup'')"

record build_receipt_input =
  bi_receiptId :: string
  bi_sessionId :: string
  bi_family :: receipt_family
  bi_source :: string
  bi_subject :: receipt_subject
  bi_evidence :: json
  bi_artifactHashes :: "(string \<times> string) list"
  bi_createdAt :: string
  bi_valid :: bool

definition hashBasis :: "(string \<times> json) list \<Rightarrow> string" where
  "hashBasis kvs = canonicalJson (JObj kvs)"

definition receipt_base :: "build_receipt_input \<Rightarrow> (string \<times> json) list" where
  "receipt_base i =
     [(''receiptId'', JStr (bi_receiptId i)),
      (''schemaVersion'', JNum (Fin RECEIPT_SCHEMA_VERSION)),
      (''sessionId'', JStr (bi_sessionId i)),
      (''family'', JStr (family_str (bi_family i))),
      (''valid'', JBool (bi_valid i)),
      (''createdAt'', JStr (bi_createdAt i)),
      (''source'', JStr (bi_source i)),
      (''subject'', subject_json (bi_subject i)),
      (''evidence'', bi_evidence i),
      (''artifactHashes'', JObj (map (\<lambda>(k, v). (k, JStr v)) (bi_artifactHashes i)))]"

definition buildReceipt :: "(string \<Rightarrow> string) \<Rightarrow> build_receipt_input \<Rightarrow> json" where
  "buildReceipt sha i = JObj (receipt_base i @ [(''sha256'', JStr (sha (hashBasis (receipt_base i))))])"

record validation_outcome =
  valid :: bool
  reasons :: "string list"

definition isNonEmptyString :: "json option \<Rightarrow> bool" where
  "isNonEmptyString v = (case v of Some (JStr s) \<Rightarrow> s \<noteq> [] | _ \<Rightarrow> False)"

definition push_if :: "bool \<Rightarrow> string \<Rightarrow> string list" where
  "push_if c r = (if c then [r] else [])"

definition obj_opt :: "json option \<Rightarrow> bool" where
  "obj_opt v = (case v of Some (JObj _) \<Rightarrow> True | _ \<Rightarrow> False)"

definition jget_opt :: "json option \<Rightarrow> string \<Rightarrow> json option" where
  "jget_opt v k = (case v of None \<Rightarrow> None | Some x \<Rightarrow> jget x k)"

definition validateStructure :: "json \<Rightarrow> string list" where
  "validateStructure receipt =
     push_if (\<not> isNonEmptyString (jget receipt ''receiptId'')) ''envelope-missing-receiptId'' @
     push_if (\<not> isNonEmptyString (jget receipt ''sessionId'')) ''envelope-missing-sessionId'' @
     push_if (\<not> isNonEmptyString (jget receipt ''source'')) ''envelope-missing-source'' @
     push_if (\<not> isNonEmptyString (jget receipt ''createdAt'')) ''envelope-missing-createdAt'' @
     push_if (\<not> isNonEmptyString (jget receipt ''family'')) ''envelope-missing-family'' @
     push_if (as_bool (jget receipt ''valid'') = None) ''envelope-bad-valid'' @
     push_if (as_str (jget receipt ''sha256'') = None) ''envelope-missing-sha256'' @
     push_if (\<not> (obj_opt (jget receipt ''subject'') \<and>
                 isNonEmptyString (jget_opt (jget receipt ''subject'') ''workspace'')))
       ''envelope-bad-subject'' @
     push_if (\<not> obj_opt (jget receipt ''evidence'')) ''envelope-bad-evidence'' @
     push_if (\<not> obj_opt (jget receipt ''artifactHashes'')) ''envelope-bad-artifactHashes''"

subsection \<open>Family checks\<close>

text \<open>
  The evidence \<open>e\<close> of every family check may be absent, hence the option; a check on an
  absent or null value takes the branch of \<open>!e\<close>.
\<close>

definition includes_str :: "json option \<Rightarrow> string \<Rightarrow> bool" where
  "includes_str v s = (case v of Some (JArr xs) \<Rightarrow> JStr s \<in> set xs | _ \<Rightarrow> False)"

definition validateVanish :: "json option \<Rightarrow> string list" where
  "validateVanish e =
     (if \<not> truthy_opt e \<or> as_str (jget_opt e ''gitDelta'') = None then [''vanish-missing-evidence'']
      else
        (let protectedDelta = (jget_opt e ''gitDelta'' = Some (JStr ''dirty'') \<or>
                               jget_opt e ''gitDelta'' = Some (JStr ''unknown''))
         in (if protectedDelta then
               push_if (jget_opt e ''preservation'' = Some (JStr ''block''))
                 ''vanish-dirty-must-preserve-not-block'' @
               concat (map (\<lambda>action. push_if (\<not> includes_str (jget_opt e ''forbiddenActions'') action)
                             (''vanish-must-forbid-'' @ action))
                        [''restart-clean'', ''delete'', ''reset''])
             else []) @
            push_if (jget_opt e ''preservation'' = Some (JStr ''snapshot'') \<and>
                     \<not> truthy_opt (jget_opt e ''snapshotComplete''))
              ''vanish-snapshot-incomplete'' @
            push_if (jget_opt e ''preservation'' = Some (JStr ''stash'') \<and>
                     \<not> truthy_opt (jget_opt e ''stashRef''))
              ''vanish-stash-missing-ref''))"

text \<open>\<open>(x ?? 1) !== 0\<close>.\<close>

definition nonzero_depth :: "json option \<Rightarrow> bool" where
  "nonzero_depth v \<longleftrightarrow> v \<noteq> Some (JNum (Fin 0))"

text \<open>
  \<open>a > b\<close> for two numbers or two strings; any other pair of operands is incomparable
  here (the interface declares numbers).
\<close>

definition js_gt :: "json option \<Rightarrow> json option \<Rightarrow> bool" where
  "js_gt a b = (case (a, b) of
      (Some (JNum x), Some (JNum y)) \<Rightarrow> num_lt y x
    | (Some (JStr x), Some (JStr y)) \<Rightarrow> y < x
    | _ \<Rightarrow> False)"

definition validatePromptAcceptance :: "json option \<Rightarrow> string list" where
  "validatePromptAcceptance e =
     (if \<not> truthy_opt e then [''acceptance-missing-evidence'']
      else
        push_if (jget_opt e ''singleFlight'' \<noteq> Some (JBool True)) ''acceptance-not-single-flight'' @
        push_if (truthy_opt (jget_opt (jget_opt e ''preSubmitState'') ''isStreaming''))
          ''acceptance-pre-state-streaming'' @
        push_if (nonzero_depth (jget_opt (jget_opt e ''preSubmitState'') ''steeringQueueDepth''))
          ''acceptance-steering-queue-nonempty'' @
        push_if (nonzero_depth (jget_opt (jget_opt e ''preSubmitState'') ''followupQueueDepth''))
          ''acceptance-followup-queue-nonempty'' @
        push_if (\<not> js_gt (jget_opt e ''agentStartCursor'') (jget_opt e ''preSubmitCursor''))
          ''acceptance-agent-start-not-after-cursor'')"

definition validateValidation :: "json option \<Rightarrow> string list" where
  "validateValidation e =
     (if \<not> truthy_opt e \<or> as_str (jget_opt e ''exactCommand'') = None
        then [''validation-missing-evidence'']
      else if truthy_opt (jget_opt e ''pass'') then [] else [''validation-failed''])"

definition validateCompletion :: "json option \<Rightarrow> string list" where
  "validateCompletion e =
     (if \<not> truthy_opt e then [''completion-missing-evidence'']
      else
        push_if (\<not> truthy_opt (jget_opt e ''finalCommit'')) ''completion-missing-commit'' @
        push_if (\<not> truthy_opt (jget_opt e ''prUrl'') \<and> \<not> truthy_opt (jget_opt e ''issueArtifact''))
          ''completion-missing-pr-or-issue'' @
        push_if (case as_arr (jget_opt e ''requiredValidationReceiptIds'') of None \<Rightarrow> True | Some xs \<Rightarrow> xs = [])
          ''completion-missing-validation-receipts'' @
        push_if (case as_arr (jget_opt e ''blockers'') of None \<Rightarrow> False | Some xs \<Rightarrow> xs \<noteq> [])
          ''completion-has-blockers'')"

definition validateReviewVerdict :: "json option \<Rightarrow> string list" where
  "validateReviewVerdict e =
     (if \<not> truthy_opt e then [''review-verdict-missing-evidence'']
      else if \<not> isReviewVerdict (jget_opt e ''verdict'') then [''review-verdict-not-in-vocabulary'']
      else [])"

definition validateReviewFailure :: "json option \<Rightarrow> string list" where
  "validateReviewFailure e =
     (if \<not> truthy_opt e \<or> \<not> isNonEmptyString (jget_opt e ''reason'')
        then [''review-failure-missing-reason''] else [])"

subsection \<open>Phase rollups\<close>

definition is_hex_lower :: "char \<Rightarrow> bool" where
  "is_hex_lower c \<longleftrightarrow> is_digit c \<or> (CHR ''a'' \<le> c \<and> c \<le> CHR ''f'')"

text \<open>The pattern \<open>/^[0-9a-f]{64}$/\<close>.\<close>

definition SHA256_HEX :: "string \<Rightarrow> bool" where
  "SHA256_HEX s \<longleftrightarrow> length s = 64 \<and> list_all is_hex_lower s"

definition PHASE_ROLLUP_CHILD_STATUSES :: "string list" where
  "PHASE_ROLLUP_CHILD_STATUSES = [''completed'', ''failed'', ''aborted'', ''merge_failed'', ''paused'']"

text \<open>A finite, non-negative number; \<open>None\<close> where the code takes the error branch.\<close>

definition nonneg_num :: "json option \<Rightarrow> rat option" where
  "nonneg_num v = (case v of Some (JNum (Fin r)) \<Rightarrow> if r < 0 then None else Some r | _ \<Rightarrow> None)"

text \<open>\<open>ToNumber\<close> for the operands of the subtraction in \<open>numbersReconcile\<close>; strings
  and objects, which the caller has already reported, count as not a number.\<close>

definition js_to_number :: "json \<Rightarrow> js_number" where
  "js_to_number v = (case v of JNum x \<Rightarrow> x | JBool b \<Rightarrow> Fin (if b then 1 else 0) | _ \<Rightarrow> NaN)"

definition numbersReconcile :: "json option \<Rightarrow> rat option \<Rightarrow> bool" where
  "numbersReconcile actual expected =
     (case (actual, expected) of
        (Some JNull, x) \<Rightarrow> x = None
      | (_, None) \<Rightarrow> False
      | (None, _) \<Rightarrow> False
      | (Some v, Some x) \<Rightarrow>
          (case js_to_number v of Fin r \<Rightarrow> \<bar>r - x\<bar> \<le> 1 / 1000000000 | _ \<Rightarrow> False))"

definition sameIdSet :: "json list \<Rightarrow> string list \<Rightarrow> bool" where
  "sameIdSet actual expected \<longleftrightarrow>
     length actual = length expected \<and>
     list_all (\<lambda>v. case v of JStr s \<Rightarrow> s \<in> set expected | _ \<Rightarrow> False) actual \<and>
     length (remdups actual) = length (remdups expected)"

text \<open>The accumulators of the loop over the children.\<close>

record rollup_acc =
  ra_reasons :: "string list"
  ra_seen :: "string list"
  ra_completed :: nat
  ra_failed :: nat
  ra_tokens :: rat
  ra_cost :: rat
  ra_cloned :: rat
  ra_anyCost :: bool
  ra_anyCloned :: bool
  ra_lowRoi :: "string list"

definition rollup_acc0 :: rollup_acc where
  "rollup_acc0 = \<lparr>ra_reasons = [], ra_seen = [], ra_completed = 0, ra_failed = 0, ra_tokens = 0,
     ra_cost = 0, ra_cloned = 0, ra_anyCost = False, ra_anyCloned = False, ra_lowRoi = []\<rparr>"

definition child_reasons :: "string list \<Rightarrow> string \<Rightarrow> json \<Rightarrow> string list" where
  "child_reasons seen cid child =
     (let uri = jget child ''outputUri''; osha = jget child ''outputSha256''
      in push_if (cid \<in> set seen) (''phase-rollup-duplicate-child-id:'' @ cid) @
         push_if (case as_str (jget child ''status'') of None \<Rightarrow> True
                  | Some s \<Rightarrow> s \<notin> set PHASE_ROLLUP_CHILD_STATUSES)
           (''phase-rollup-child-bad-status:'' @ cid) @
         push_if (case as_str (jget child ''receiptSha256'') of None \<Rightarrow> True | Some s \<Rightarrow> \<not> SHA256_HEX s)
           (''phase-rollup-child-bad-receipt-hash:'' @ cid) @
         push_if (uri \<noteq> Some JNull \<and> \<not> isNonEmptyString uri)
           (''phase-rollup-child-bad-output-uri:'' @ cid) @
         push_if (osha \<noteq> Some JNull \<and> \<not> SHA256_HEX (to_string_opt osha))
           (''phase-rollup-child-bad-output-hash:'' @ cid) @
         push_if (osha \<noteq> Some JNull \<and> uri = Some JNull)
           (''phase-rollup-child-orphan-output-hash:'' @ cid) @
         push_if (uri \<noteq> Some JNull \<and> osha = Some JNull)
           (''phase-rollup-child-orphan-output-uri:'' @ cid) @
         push_if (nonneg_num (jget child ''tokens'') = None) (''phase-rollup-child-bad-tokens:'' @ cid) @
         push_if (jget child ''costTotal'' \<noteq> Some JNull \<and> nonneg_num (jget child ''costTotal'') = None)
           (''phase-rollup-child-bad-cost:'' @ cid) @
         push_if (jget child ''clonedTokens'' \<noteq> Some JNull \<and> nonneg_num (jget child ''clonedTokens'') = None)
           (''phase-rollup-child-bad-cloned-tokens:'' @ cid) @
         push_if (as_bool (jget child ''lowRoi'') = None) (''phase-rollup-child-bad-low-roi:'' @ cid))"

definition rat_or_0 :: "rat option \<Rightarrow> rat" where
  "rat_or_0 v = (case v of None \<Rightarrow> 0 | Some r \<Rightarrow> r)"

definition rollup_child :: "rollup_acc \<Rightarrow> json \<Rightarrow> rollup_acc" where
  "rollup_child a child =
     (case as_str (jget child ''id'') of
        None \<Rightarrow> a\<lparr>ra_reasons := ra_reasons a @ [''phase-rollup-child-missing-id'']\<rparr>
      | Some cid \<Rightarrow>
          (if cid = [] then a\<lparr>ra_reasons := ra_reasons a @ [''phase-rollup-child-missing-id'']\<rparr>
           else
             \<lparr>ra_reasons = ra_reasons a @ child_reasons (ra_seen a) cid child,
              ra_seen = ra_seen a @ [cid],
              ra_completed = ra_completed a + (if jget child ''status'' = Some (JStr ''completed'') then 1 else 0),
              ra_failed = ra_failed a +
                (if jget child ''status'' = Some (JStr ''failed'') \<or>
                    jget child ''status'' = Some (JStr ''merge_failed'') then 1 else 0),
              ra_tokens = ra_tokens a + rat_or_0 (nonneg_num (jget child ''tokens'')),
              ra_cost = ra_cost a + rat_or_0 (nonneg_num (jget child ''costTotal'')),
              ra_cloned = ra_cloned a + rat_or_0 (nonneg_num (jget child ''clonedTokens'')),
              ra_anyCost = (ra_anyCost a \<or> nonneg_num (jget child ''costTotal'') \<noteq> None),
              ra_anyCloned = (ra_anyCloned a \<or> nonneg_num (jget child ''clonedTokens'') \<noteq> None),
              ra_lowRoi = ra_lowRoi a @
                (if jget child ''lowRoi'' = Some (JBool True) then [cid] else [])\<rparr>))"

text \<open>The checks after the loop, on the accumulators and the declared aggregate.\<close>

definition aggregate_reasons :: "rollup_acc \<Rightarrow> nat \<Rightarrow> json option \<Rightarrow> string list" where
  "aggregate_reasons a childCount agg =
     (if \<not> truthy_opt agg \<or> as_num (jget_opt agg ''childCount'') = None
        then [''phase-rollup-missing-aggregate'']
      else
        push_if (jget_opt agg ''childCount'' \<noteq> Some (JNum (Fin (of_nat childCount))))
          ''phase-rollup-child-count-mismatch'' @
        push_if (jget_opt agg ''completed'' \<noteq> Some (JNum (Fin (of_nat (ra_completed a)))))
          ''phase-rollup-aggregate-completed-mismatch'' @
        push_if (jget_opt agg ''failed'' \<noteq> Some (JNum (Fin (of_nat (ra_failed a)))))
          ''phase-rollup-aggregate-failed-mismatch'' @
        concat (map (\<lambda>f. push_if (nonneg_num (jget_opt agg f) = None) (''phase-rollup-aggregate-bad-'' @ f))
          [''totalTokens'', ''completed'', ''failed'']) @
        concat (map (\<lambda>f. push_if (jget_opt agg f \<noteq> Some JNull \<and> nonneg_num (jget_opt agg f) = None)
                          (''phase-rollup-aggregate-bad-'' @ f))
          [''totalCostTotal'', ''totalClonedTokens'']) @
        push_if (jget_opt agg ''totalTokens'' \<noteq> Some (JNum (Fin (ra_tokens a))))
          ''phase-rollup-aggregate-tokens-mismatch'' @
        push_if (\<not> numbersReconcile (jget_opt agg ''totalCostTotal'')
                    (if ra_anyCost a then Some (ra_cost a) else None))
          ''phase-rollup-aggregate-cost-mismatch'' @
        push_if (\<not> numbersReconcile (jget_opt agg ''totalClonedTokens'')
                    (if ra_anyCloned a then Some (ra_cloned a) else None))
          ''phase-rollup-aggregate-cloned-tokens-mismatch'' @
        (case as_arr (jget_opt agg ''lowRoiChildIds'') of
           None \<Rightarrow> [''phase-rollup-aggregate-bad-lowRoiChildIds'']
         | Some ids \<Rightarrow> push_if (\<not> sameIdSet ids (ra_lowRoi a)) ''phase-rollup-aggregate-low-roi-mismatch''))"

definition validatePhaseRollup :: "json option \<Rightarrow> string list" where
  "validatePhaseRollup e =
     (if \<not> truthy_opt e \<or> \<not> isNonEmptyString (jget_opt e ''phase'') then [''phase-rollup-missing-phase'']
      else case as_arr (jget_opt e ''children'') of
        None \<Rightarrow> [''phase-rollup-empty-children'']
      | Some children \<Rightarrow>
          (if children = [] then [''phase-rollup-empty-children'']
           else (let a = foldl rollup_child rollup_acc0 children
                 in ra_reasons a @ aggregate_reasons a (length children) (jget_opt e ''aggregate''))))"

subsection \<open>Whole receipts\<close>

definition validateFamily :: "json \<Rightarrow> string list" where
  "validateFamily receipt =
     (let f = jget receipt ''family''; e = jget receipt ''evidence''
      in if f = Some (JStr ''vanish'') then validateVanish e
         else if f = Some (JStr ''prompt-acceptance'') then validatePromptAcceptance e
         else if f = Some (JStr ''validation'') then validateValidation e
         else if f = Some (JStr ''completion'') then validateCompletion e
         else if f = Some (JStr ''review-verdict'') then validateReviewVerdict e
         else if f = Some (JStr ''review-failure'') then validateReviewFailure e
         else if f = Some (JStr ''phase-rollup'') then validatePhaseRollup e
         else [''unknown-family:'' @ to_string_opt f])"

definition validateReceipt :: "(string \<Rightarrow> string) \<Rightarrow> json \<Rightarrow> validation_outcome" where
  "validateReceipt sha receipt =
     (case receipt of
        JObj kvs \<Rightarrow>
          (let rest = filter (\<lambda>kv. fst kv \<noteq> ''sha256'') kvs;
               rs = validateStructure receipt @
                    push_if (jget receipt ''sha256'' \<noteq> Some (JStr (sha (hashBasis rest)))) ''hash-mismatch'' @
                    push_if (jget receipt ''schemaVersion'' \<noteq> Some (JNum (Fin RECEIPT_SCHEMA_VERSION)))
                      ''schema-version-mismatch'' @
                    validateFamily receipt
           in \<lparr>valid = (rs = []), reasons = rs\<rparr>)
      | _ \<Rightarrow> \<lparr>valid = False, reasons = [''malformed-envelope'']\<rparr>)"

definition requiresVanishBeforeAction :: "recovery_classification \<Rightarrow> bool" where
  "requiresVanishBeforeAction c \<longleftrightarrow> c = RestartClean \<or> c = RestartPreserveDelta \<or> c = FallbackCodexExec"

section \<open>Ingesting receipts (receipt-ingest.ts)\<close>

definition RECEIPT_DIGEST_MAX_CHARS :: nat where "RECEIPT_DIGEST_MAX_CHARS = 280"

definition RECEIPT_FAMILY_LIFECYCLE_TARGETS :: "json option \<Rightarrow> lifecycle option" where
  "RECEIPT_FAMILY_LIFECYCLE_TARGETS f =
     (if f = Some (JStr ''completion'') \<or> f = Some (JStr ''review-verdict'') then Some Completed else None)"

definition evidenceContradiction :: "json \<Rightarrow> lifecycle \<Rightarrow> string option" where
  "evidenceContradiction receipt target =
     (let f = jget receipt ''family''; e = jget receipt ''evidence''
      in if f = Some (JStr ''completion'') \<and>
            jget_opt e ''finalLifecycle'' \<noteq> Some (JStr (lifecycle_str target))
         then Some (''evidence-lifecycle-mismatch:'' @ to_string_opt (jget_opt e ''finalLifecycle''))
         else if f = Some (JStr ''review-verdict'') \<and>
            jget_opt e ''verdict'' = Some (JStr ''OWNER_CONFIRMATION_REQUIRED'')
         then Some ''review-verdict-not-terminal''
         else None)"

record ingest_acc =
  ia_lifecycle :: lifecycle
  ia_accepted :: "json list"
  ia_rejected :: "(json \<times> string list) list"
  ia_transitions :: "(lifecycle \<times> lifecycle \<times> json option) list"

definition reject :: "json \<Rightarrow> string list \<Rightarrow> ingest_acc \<Rightarrow> ingest_acc" where
  "reject r rs a = a\<lparr>ia_rejected := ia_rejected a @ [(r, rs)]\<rparr>"

definition accept :: "json \<Rightarrow> ingest_acc \<Rightarrow> ingest_acc" where
  "accept r a = a\<lparr>ia_accepted := ia_accepted a @ [r]\<rparr>"

text \<open>The body of the loop over the receipts of a session with id \<open>sid\<close>.\<close>

definition ingest_one :: "(string \<Rightarrow> string) \<Rightarrow> string \<Rightarrow> ingest_acc \<Rightarrow> json \<Rightarrow> ingest_acc" where
  "ingest_one sha sid a receipt =
     (if \<not> valid (validateReceipt sha receipt) then reject receipt (reasons (validateReceipt sha receipt)) a
      else if jget receipt ''valid'' \<noteq> Some (JBool True) then reject receipt [''receipt-marked-invalid''] a
      else if jget receipt ''sessionId'' \<noteq> Some (JStr sid)
        then reject receipt [''session-mismatch:'' @ to_string_opt (jget receipt ''sessionId'')] a
      else case RECEIPT_FAMILY_LIFECYCLE_TARGETS (jget receipt ''family'') of
          None \<Rightarrow> accept receipt a
        | Some target \<Rightarrow>
            (if jget receipt ''family'' = Some (JStr ''review-verdict'') \<and>
                evidenceContradiction receipt target \<noteq> None
               then accept receipt a
             else case evidenceContradiction receipt target of
                 Some contradiction \<Rightarrow> reject receipt [contradiction] a
               | None \<Rightarrow>
                   (if \<not> canTransition (ia_lifecycle a) target
                      then reject receipt [''illegal-transition:'' @ lifecycle_str (ia_lifecycle a) @ ''->'' @
                                           lifecycle_str target] a
                    else accept receipt
                      (a\<lparr>ia_transitions := ia_transitions a @ [(ia_lifecycle a, target, jget receipt ''receiptId'')],
                         ia_lifecycle := target\<rparr>))))"

definition buildReceiptIngestDigest ::
  "nat \<Rightarrow> nat \<Rightarrow> (json \<times> string list) list \<Rightarrow> lifecycle \<Rightarrow> lifecycle \<Rightarrow> string" where
  "buildReceiptIngestDigest totalCount acceptedCount rejected initialLifecycle finalLifecycle =
     (let digest = ''ingested '' @ nat_str totalCount @ '' receipts: '' @ nat_str acceptedCount @ '' accepted, '' @
            nat_str (length rejected) @ '' rejected; lifecycle '' @ lifecycle_str initialLifecycle @ ''->'' @
            lifecycle_str finalLifecycle;
          summary = (\<lambda>(r, rs). (case jget r ''receiptId'' of
                          None \<Rightarrow> ''<malformed>'' | Some JNull \<Rightarrow> ''<malformed>'' | Some v \<Rightarrow> to_string v) @
                        ''('' @ join ''|'' rs @ '')'')
      in take RECEIPT_DIGEST_MAX_CHARS
           (if rejected \<noteq> [] then digest @ ''; rejected: '' @ join '','' (map summary rejected) else digest))"

record ingest_result =
  accepted :: "json list"
  rejected :: "(json \<times> string list) list"
  transitions :: "(lifecycle \<times> lifecycle \<times> json option) list"
  finalLifecycle :: lifecycle
  digest :: string

definition ingest_acc0 :: "lifecycle \<Rightarrow> ingest_acc" where
  "ingest_acc0 l = \<lparr>ia_lifecycle = l, ia_accepted = [], ia_rejected = [], ia_transitions = []\<rparr>"

definition ingestReceipts :: "(string \<Rightarrow> string) \<Rightarrow> 'h session_state \<Rightarrow> json list \<Rightarrow> ingest_result" where
  "ingestReceipts sha st rs =
     (let a = foldl (ingest_one sha (sessionId st)) (ingest_acc0 (s_lifecycle st)) rs
      in \<lparr>accepted = ia_accepted a, rejected = ia_rejected a, transitions = ia_transitions a,
          finalLifecycle = ia_lifecycle a,
          digest = buildReceiptIngestDigest (length rs) (length (ia_accepted a)) (ia_rejected a)
                     (s_lifecycle st) (ia_lifecycle a)\<rparr>)"

section \<open>Building phase rollups (phase-rollup.ts)\<close>

record task_roi =
  roi_tokens :: rat
  roi_clonedTokens :: "rat option"
  roi_costTotal :: "rat option"
  roi_lowRoi :: bool

text \<open>
  The fields of a task receipt that the rollup reads; \<open>tr_json\<close> is the whole receipt after
  the JSON round trip that precedes hashing.
\<close>

record task_receipt =
  tr_id :: string
  tr_status :: string
  tr_tokens :: rat
  tr_outputUri :: "string option"
  tr_outputSha :: "string option"
  tr_roi :: "task_roi option"
  tr_json :: json

definition truthy_str :: "string option \<Rightarrow> bool" where
  "truthy_str v = (case v of None \<Rightarrow> False | Some s \<Rightarrow> s \<noteq> [])"

definition num_or_null :: "rat option \<Rightarrow> json" where
  "num_or_null v = (case v of None \<Rightarrow> JNull | Some r \<Rightarrow> JNum (Fin r))"

definition child_tokens :: "task_receipt \<Rightarrow> rat" where
  "child_tokens r = (case tr_roi r of None \<Rightarrow> tr_tokens r | Some roi \<Rightarrow> roi_tokens roi)"

definition child_cost :: "task_receipt \<Rightarrow> rat option" where
  "child_cost r = Option.bind (tr_roi r) roi_costTotal"

definition child_cloned :: "task_receipt \<Rightarrow> rat option" where
  "child_cloned r = Option.bind (tr_roi r) roi_clonedTokens"

definition child_lowRoi :: "task_receipt \<Rightarrow> bool" where
  "child_lowRoi r = (case tr_roi r of None \<Rightarrow> False | Some roi \<Rightarrow> roi_lowRoi roi)"

definition childPointer :: "(string \<Rightarrow> string) \<Rightarrow> task_receipt \<Rightarrow> json" where
  "childPointer sha r =
     (let hasVerifiableRef = truthy_str (tr_outputUri r) \<and> truthy_str (tr_outputSha r)
      in JObj [(''id'', JStr (tr_id r)),
               (''status'', JStr (tr_status r)),
               (''outputUri'', if hasVerifiableRef then str_or_null (tr_outputUri r) else JNull),
               (''outputSha256'', if hasVerifiableRef then str_or_null (tr_outputSha r) else JNull),
               (''receiptSha256'', JStr (sha (canonicalJson (tr_json r)))),
               (''tokens'', JNum (Fin (child_tokens r))),
               (''costTotal'', num_or_null (child_cost r)),
               (''clonedTokens'', num_or_null (child_cloned r)),
               (''lowRoi'', JBool (child_lowRoi r))])"

text \<open>A total over the children that report the metric; null when none does.\<close>

definition optional_total :: "(task_receipt \<Rightarrow> rat option) \<Rightarrow> task_receipt list \<Rightarrow> json" where
  "optional_total f cs =
     (if list_ex (\<lambda>c. f c \<noteq> None) cs then JNum (Fin (foldl (\<lambda>t c. t + rat_or_0 (f c)) 0 cs)) else JNull)"

definition rollup_evidence :: "(string \<Rightarrow> string) \<Rightarrow> string \<Rightarrow> task_receipt list \<Rightarrow> json" where
  "rollup_evidence sha phase cs =
     JObj [(''phase'', JStr phase),
           (''children'', JArr (map (childPointer sha) cs)),
           (''aggregate'', JObj [
              (''childCount'', JNum (Fin (of_nat (length cs)))),
              (''completed'', JNum (Fin (of_nat (length (filter (\<lambda>c. tr_status c = ''completed'') cs))))),
              (''failed'', JNum (Fin (of_nat (length
                 (filter (\<lambda>c. tr_status c = ''failed'' \<or> tr_status c = ''merge_failed'') cs))))),
              (''totalTokens'', JNum (Fin (foldl (\<lambda>t c. t + child_tokens c) 0 cs))),
              (''totalCostTotal'', optional_total child_cost cs),
              (''totalClonedTokens'', optional_total child_cloned cs),
              (''lowRoiChildIds'', JArr (map (\<lambda>c. JStr (tr_id c)) (filter child_lowRoi cs)))])]"

definition buildPhaseRollupReceipt ::
  "(string \<Rightarrow> string) \<Rightarrow> string \<Rightarrow> string \<Rightarrow> string \<Rightarrow> receipt_subject \<Rightarrow> string \<Rightarrow> task_receipt list \<Rightarrow>
   string \<Rightarrow> json" where
  "buildPhaseRollupReceipt sha rid sid src subj phase cs created =
     buildReceipt sha \<lparr>bi_receiptId = rid, bi_sessionId = sid, bi_family = FPhaseRollup,
       bi_source = src, bi_subject = subj, bi_evidence = rollup_evidence sha phase cs,
       bi_artifactHashes = [], bi_createdAt = created, bi_valid = True\<rparr>"

section \<open>Validation of built receipts\<close>

lemma push_if_Nil [simp]: "push_if c r = [] \<longleftrightarrow> \<not> c"
  by (simp add: push_if_def)

lemma jget_opt_Some [simp]: "jget_opt (Some v) k = jget v k"
  by (simp add: jget_opt_def)

lemma isNonEmptyString_Str [simp]: "isNonEmptyString (Some (JStr s)) \<longleftrightarrow> s \<noteq> []"
  by (simp add: isNonEmptyString_def)

lemma isNonEmptyStringE:
  "isNonEmptyString v \<Longrightarrow> \<exists>s. v = Some (JStr s) \<and> s \<noteq> []"
  by (auto simp: isNonEmptyString_def split: option.splits json.splits)

lemma obj_opt_Obj [simp]: "obj_opt (Some (JObj kvs))"
  by (simp add: obj_opt_def)

lemma receipt_base_keys:
  "map fst (receipt_base i) = [''receiptId'', ''schemaVersion'', ''sessionId'', ''family'', ''valid'',
     ''createdAt'', ''source'', ''subject'', ''evidence'', ''artifactHashes'']"
  by (simp add: receipt_base_def)

lemma receipt_base_no_sha: "filter (\<lambda>kv. fst kv \<noteq> ''sha256'') (receipt_base i) = receipt_base i"
  by (simp add: receipt_base_def)

lemma family_str_nonempty [simp]: "family_str f \<noteq> []"
  by (cases f) (simp_all add: family_str_def)

lemma buildReceipt_get:
  "jget (buildReceipt sha i) ''receiptId'' = Some (JStr (bi_receiptId i))"
  "jget (buildReceipt sha i) ''schemaVersion'' = Some (JNum (Fin RECEIPT_SCHEMA_VERSION))"
  "jget (buildReceipt sha i) ''sessionId'' = Some (JStr (bi_sessionId i))"
  "jget (buildReceipt sha i) ''family'' = Some (JStr (family_str (bi_family i)))"
  "jget (buildReceipt sha i) ''valid'' = Some (JBool (bi_valid i))"
  "jget (buildReceipt sha i) ''createdAt'' = Some (JStr (bi_createdAt i))"
  "jget (buildReceipt sha i) ''source'' = Some (JStr (bi_source i))"
  "jget (buildReceipt sha i) ''subject'' = Some (subject_json (bi_subject i))"
  "jget (buildReceipt sha i) ''evidence'' = Some (bi_evidence i)"
  "obj_opt (jget (buildReceipt sha i) ''artifactHashes'')"
  "jget (buildReceipt sha i) ''sha256'' = Some (JStr (sha (hashBasis (receipt_base i))))"
  by (simp_all add: buildReceipt_def receipt_base_def)

definition family_check :: "receipt_family \<Rightarrow> json option \<Rightarrow> string list" where
  "family_check f = (case f of FVanish \<Rightarrow> validateVanish | FPromptAcceptance \<Rightarrow> validatePromptAcceptance
   | FValidation \<Rightarrow> validateValidation | FCompletion \<Rightarrow> validateCompletion
   | FReviewVerdict \<Rightarrow> validateReviewVerdict | FReviewFailure \<Rightarrow> validateReviewFailure
   | FPhaseRollup \<Rightarrow> validatePhaseRollup)"

lemma validateFamily_family_str:
  "jget r ''family'' = Some (JStr (family_str f)) \<Longrightarrow> validateFamily r = family_check f (jget r ''evidence'')"
  by (cases f) (simp_all add: validateFamily_def family_check_def family_str_def)

text \<open>The identity fields that every caller fills in before building a receipt.\<close>

definition input_ok :: "build_receipt_input \<Rightarrow> bool" where
  "input_ok i \<longleftrightarrow> bi_receiptId i \<noteq> [] \<and> bi_sessionId i \<noteq> [] \<and> bi_source i \<noteq> [] \<and>
     bi_createdAt i \<noteq> [] \<and> rs_workspace (bi_subject i) \<noteq> [] \<and> is_plain_object (bi_evidence i)"

lemma validateReceipt_buildReceipt:
  assumes "input_ok i"
  shows "validateReceipt sha (buildReceipt sha i) =
    \<lparr>valid = (family_check (bi_family i) (Some (bi_evidence i)) = []),
     reasons = family_check (bi_family i) (Some (bi_evidence i))\<rparr>"
proof -
  let ?r = "buildReceipt sha i"
  have struct: "validateStructure ?r = []"
    using assms by (cases "bi_evidence i")
      (simp_all add: validateStructure_def buildReceipt_get input_ok_def subject_json_def)
  have fam: "validateFamily ?r = family_check (bi_family i) (Some (bi_evidence i))"
    by (simp add: validateFamily_family_str [OF buildReceipt_get(4)] buildReceipt_get)
  obtain kvs where kvs: "?r = JObj kvs" and rest: "filter (\<lambda>kv. fst kv \<noteq> ''sha256'') kvs = receipt_base i"
    by (simp add: buildReceipt_def receipt_base_no_sha)
  have "validateReceipt sha ?r =
    (let rs = validateStructure ?r @
                    push_if (jget ?r ''sha256'' \<noteq> Some (JStr (sha (hashBasis (receipt_base i))))) ''hash-mismatch'' @
                    push_if (jget ?r ''schemaVersion'' \<noteq> Some (JNum (Fin RECEIPT_SCHEMA_VERSION)))
                      ''schema-version-mismatch'' @
                    validateFamily ?r
           in \<lparr>valid = (rs = []), reasons = rs\<rparr>)"
    unfolding validateReceipt_def Let_def by (simp add: kvs rest)
  then show ?thesis
    by (simp add: struct fam buildReceipt_get push_if_def Let_def)
qed

text \<open>
  What a receipt that validates has: the conjuncts are what the fail-closed checks of
  \<open>validateReceipt\<close> guarantee to every caller.
\<close>

lemma validateReceipt_valid:
  assumes "valid (validateReceipt sha r)"
  obtains kvs where "r = JObj kvs" "validateStructure r = []"
    "jget r ''sha256'' = Some (JStr (sha (hashBasis (filter (\<lambda>kv. fst kv \<noteq> ''sha256'') kvs))))"
    "jget r ''schemaVersion'' = Some (JNum (Fin RECEIPT_SCHEMA_VERSION))" "validateFamily r = []"
  using assms by (cases r) (auto simp: validateReceipt_def Let_def push_if_def split: if_splits)

section \<open>Canonical text depends on content only\<close>

text \<open>The canonical form of a value: object keys sorted at every level.\<close>

function canon :: "json \<Rightarrow> json" where
  "canon (JArr xs) = JArr (map canon xs)"
| "canon (JObj kvs) = JObj (map (\<lambda>kv. (fst kv, canon (snd kv))) (sort_key fst kvs))"
| "canon JNull = JNull"
| "canon (JBool b) = JBool b"
| "canon (JNum x) = JNum x"
| "canon (JStr s) = JStr s"
  by pat_completeness auto
termination
proof (relation "measure size")
  show "wf (measure (size :: json \<Rightarrow> nat))" by simp
  show "(x, JArr xs) \<in> measure size" if "x \<in> set xs" for xs and x :: json
    using that by (simp add: less_Suc_eq_le size_list_estimation')
  show "(snd kv, JObj kvs) \<in> measure size" if "kv \<in> set (sort_key fst kvs)" for kvs kv
  proof -
    have "size_prod (\<lambda>x. 0) size kv \<le> size_list (size_prod (\<lambda>x. 0) size) kvs"
      using that by (intro size_list_estimation') auto
    then show ?thesis by (cases kv) simp
  qed
qed

lemma sort_key_sorted_map:
  "sort_key fst (map (\<lambda>kv. (fst kv, f kv)) (sort_key fst kvs)) = map (\<lambda>kv. (fst kv, f kv)) (sort_key fst kvs)"
proof -
  have "map fst (map (\<lambda>kv. (fst kv, f kv)) (sort_key fst kvs)) = map fst (sort_key fst kvs)"
    by (simp add: comp_def)
  then have "sorted (map fst (map (\<lambda>kv. (fst kv, f kv)) (sort_key fst kvs)))"
    by (simp only: sorted_sort_key)
  then show ?thesis by (rule sort_key_id_if_sorted)
qed

lemma canonicalJson_canon: "canonicalJson (canon v) = canonicalJson v"
proof (induction v rule: canon.induct)
  case (1 xs)
  then have "map canonicalJson (map canon xs) = map canonicalJson xs" by simp
  then show ?case by (simp only: canon.simps canonicalJson.simps)
next
  case (2 kvs)
  let ?s = "sort_key fst kvs"
  have "map (\<lambda>kv. quote_str (fst kv) @ '':'' @ canonicalJson (snd kv))
          (map (\<lambda>kv. (fst kv, canon (snd kv))) ?s) =
        map (\<lambda>kv. quote_str (fst kv) @ '':'' @ canonicalJson (snd kv)) ?s"
    using "2.IH" by simp
  then show ?case
    by (simp only: canon.simps canonicalJson.simps sort_key_sorted_map)
qed simp_all

text \<open>
  The text that is hashed depends on the content of a receipt and not on the order in which
  its keys were written: reordering the entries of an object with distinct keys, at any depth,
  leaves \<open>canonicalJson\<close> and so the SHA-256 of the receipt unchanged.
\<close>

theorem canonicalJson_key_order:
  assumes "distinct (map fst kvs)" and "mset kvs = mset kvs'"
  shows "canonicalJson (JObj kvs) = canonicalJson (JObj kvs') \<and>
         canonicalJson (canon (JObj kvs')) = canonicalJson (JObj kvs)"
proof -
  have "sort_key fst kvs = sort_key fst kvs'" using assms by (rule sort_key_perm)
  then have "canonicalJson (JObj kvs) = canonicalJson (JObj kvs')" by (simp only: canonicalJson.simps)
  then show ?thesis by (simp only: canonicalJson_canon)
qed

theorem canonicalJson_key_order_witness:
  "canonicalJson (JObj [(''b'', JNull), (''a'', JBool True)]) =
   canonicalJson (JObj [(''a'', JBool True), (''b'', JNull)])"
  using canonicalJson_key_order [of "[(''b'', JNull), (''a'', JBool True)]" "[(''a'', JBool True), (''b'', JNull)]"]
  by simp

section \<open>Vanish receipts keep the delta\<close>

text \<open>
  The data-loss gate: a receipt of family \<open>vanish\<close> that validates carries the hash of
  its own content, and when its delta is dirty or unknown it forbids the clean restart, the
  deletion and the reset, does not block the work away, and names a stash or a complete snapshot
  when it claims one.
\<close>

theorem vanish_receipt_protects_delta:
  assumes "valid (validateReceipt sha r)" and "jget r ''family'' = Some (JStr ''vanish'')"
    and "jget r ''evidence'' = Some e"
    and "jget e ''gitDelta'' = Some (JStr ''dirty'') \<or> jget e ''gitDelta'' = Some (JStr ''unknown'')"
  shows "list_all (includes_str (jget e ''forbiddenActions'')) [''restart-clean'', ''delete'', ''reset''] \<and>
         jget e ''preservation'' \<noteq> Some (JStr ''block'') \<and>
         (jget e ''preservation'' = Some (JStr ''stash'') \<longrightarrow> truthy_opt (jget e ''stashRef'')) \<and>
         (jget e ''preservation'' = Some (JStr ''snapshot'') \<longrightarrow> truthy_opt (jget e ''snapshotComplete'')) \<and>
         (\<exists>kvs. r = JObj kvs \<and>
            jget r ''sha256'' = Some (JStr (sha (hashBasis (filter (\<lambda>kv. fst kv \<noteq> ''sha256'') kvs)))))"
proof -
  obtain kvs where kvs: "r = JObj kvs"
    "jget r ''sha256'' = Some (JStr (sha (hashBasis (filter (\<lambda>kv. fst kv \<noteq> ''sha256'') kvs))))"
    "validateFamily r = []"
    using validateReceipt_valid [OF assms(1)] by metis
  have "validateVanish (Some e) = []"
    using kvs(3) assms(2,3) by (simp add: validateFamily_def Let_def)
  then show ?thesis
    using assms(4) kvs(1,2) by (auto simp: validateVanish_def Let_def split: if_splits)
qed

definition dirty_vanish_input :: build_receipt_input where
  "dirty_vanish_input = \<lparr>bi_receiptId = ''r1'', bi_sessionId = ''s1'', bi_family = FVanish,
     bi_source = ''operate'',
     bi_subject = \<lparr>rs_workspace = ''/w'', rs_branch = None, rs_head = None, rs_commit = None\<rparr>,
     bi_evidence = JObj [(''gitDelta'', JStr ''dirty''), (''preservation'', JStr ''stash''),
       (''stashRef'', JStr ''abc''),
       (''forbiddenActions'', JArr [JStr ''restart-clean'', JStr ''delete'', JStr ''reset''])],
     bi_artifactHashes = [], bi_createdAt = ''t'', bi_valid = True\<rparr>"

theorem vanish_receipt_protects_delta_witness:
  "includes_str (jget (bi_evidence dirty_vanish_input) ''forbiddenActions'') ''reset''"
proof -
  let ?r = "buildReceipt (\<lambda>s. s) dirty_vanish_input"
  have "input_ok dirty_vanish_input" by (simp add: input_ok_def dirty_vanish_input_def)
  then have v: "valid (validateReceipt (\<lambda>s. s) ?r)"
    by (simp add: validateReceipt_buildReceipt)
      (simp add: dirty_vanish_input_def family_check_def validateVanish_def includes_str_def truthy_opt_def)
  have f: "jget ?r ''family'' = Some (JStr ''vanish'')"
    by (simp add: buildReceipt_get) (simp add: dirty_vanish_input_def family_str_def)
  have d: "jget (bi_evidence dirty_vanish_input) ''gitDelta'' = Some (JStr ''dirty'')"
    by (simp add: dirty_vanish_input_def)
  show ?thesis
    using vanish_receipt_protects_delta [OF v f buildReceipt_get(9) disjI1 [OF d]] by simp
qed

section \<open>Ingestion\<close>

text \<open>A list of moves from one lifecycle to another, each allowed by the table.\<close>

fun transition_chain :: "lifecycle \<Rightarrow> (lifecycle \<times> lifecycle \<times> json option) list \<Rightarrow> lifecycle \<Rightarrow> bool" where
  "transition_chain l [] l' \<longleftrightarrow> l = l'"
| "transition_chain l ((a, b, i) # ts) l' \<longleftrightarrow> a = l \<and> canTransition a b \<and> transition_chain b ts l'"

lemma transition_chain_snoc:
  "transition_chain l (ts @ [(a, b, i)]) l' \<longleftrightarrow> transition_chain l ts a \<and> canTransition a b \<and> b = l'"
  by (induction ts arbitrary: l) auto

text \<open>A receipt that may move the lifecycle of session \<open>sid\<close>.\<close>

definition trusted_for :: "(string \<Rightarrow> string) \<Rightarrow> string \<Rightarrow> json \<Rightarrow> bool" where
  "trusted_for sha sid r \<longleftrightarrow> valid (validateReceipt sha r) \<and> jget r ''valid'' = Some (JBool True) \<and>
     jget r ''sessionId'' = Some (JStr sid)"

text \<open>A receipt whose evidence claims that the session has ended.\<close>

definition terminal_claim :: "json \<Rightarrow> bool" where
  "terminal_claim r \<longleftrightarrow>
     jget r ''family'' = Some (JStr ''completion'') \<and>
       jget_opt (jget r ''evidence'') ''finalLifecycle'' = Some (JStr ''completed'') \<or>
     jget r ''family'' = Some (JStr ''review-verdict'') \<and>
       jget_opt (jget r ''evidence'') ''verdict'' \<noteq> Some (JStr ''OWNER_CONFIRMATION_REQUIRED'')"

definition ingest_inv :: "(string \<Rightarrow> string) \<Rightarrow> string \<Rightarrow> lifecycle \<Rightarrow> json list \<Rightarrow> ingest_acc \<Rightarrow> bool" where
  "ingest_inv sha sid l rs a \<longleftrightarrow>
     length (ia_accepted a) + length (ia_rejected a) = length rs \<and>
     set (ia_accepted a) \<union> fst ` set (ia_rejected a) = set rs \<and>
     list_all (trusted_for sha sid) (ia_accepted a) \<and>
     transition_chain l (ia_transitions a) (ia_lifecycle a) \<and>
     list_all (\<lambda>t. fst (snd t) = Completed \<and>
        (\<exists>r\<in>set (ia_accepted a). terminal_claim r \<and> snd (snd t) = jget r ''receiptId'')) (ia_transitions a)"

lemma ingest_inv_reject:
  "ingest_inv sha sid l rs a \<Longrightarrow> ingest_inv sha sid l (rs @ [r]) (reject r why a)"
  by (auto simp: ingest_inv_def reject_def)

lemma ingest_inv_accept:
  "ingest_inv sha sid l rs a \<Longrightarrow> trusted_for sha sid r \<Longrightarrow> ingest_inv sha sid l (rs @ [r]) (accept r a)"
  by (auto simp: ingest_inv_def accept_def list_all_iff)

lemma ingest_inv_move:
  assumes "ingest_inv sha sid l rs a" "trusted_for sha sid r" "terminal_claim r"
    and "canTransition (ia_lifecycle a) Completed"
  shows "ingest_inv sha sid l (rs @ [r]) (accept r
           (a\<lparr>ia_transitions := ia_transitions a @ [(ia_lifecycle a, Completed, jget r ''receiptId'')],
              ia_lifecycle := Completed\<rparr>))"
  using assms by (auto simp: ingest_inv_def accept_def list_all_iff transition_chain_snoc)

lemma lifecycle_target_cases:
  "RECEIPT_FAMILY_LIFECYCLE_TARGETS f = Some t \<Longrightarrow>
     t = Completed \<and> (f = Some (JStr ''completion'') \<or> f = Some (JStr ''review-verdict''))"
  by (auto simp: RECEIPT_FAMILY_LIFECYCLE_TARGETS_def split: if_splits)

lemma no_contradiction_terminal:
  assumes "RECEIPT_FAMILY_LIFECYCLE_TARGETS (jget r ''family'') = Some t"
    and "evidenceContradiction r t = None"
  shows "terminal_claim r"
  using lifecycle_target_cases [OF assms(1)] assms(2)
  by (auto simp: terminal_claim_def evidenceContradiction_def lifecycle_str_def Let_def split: if_splits)

lemma ingest_one_inv:
  assumes "ingest_inv sha sid l rs a"
  shows "ingest_inv sha sid l (rs @ [r]) (ingest_one sha sid a r)"
proof (cases "trusted_for sha sid r")
  case False
  then show ?thesis
    using assms by (auto simp: ingest_one_def trusted_for_def intro: ingest_inv_reject)
next
  case True
  then have one: "ingest_one sha sid a r = (case RECEIPT_FAMILY_LIFECYCLE_TARGETS (jget r ''family'') of
          None \<Rightarrow> accept r a
        | Some target \<Rightarrow>
            (if jget r ''family'' = Some (JStr ''review-verdict'') \<and> evidenceContradiction r target \<noteq> None
               then accept r a
             else case evidenceContradiction r target of
                 Some contradiction \<Rightarrow> reject r [contradiction] a
               | None \<Rightarrow>
                   (if \<not> canTransition (ia_lifecycle a) target
                      then reject r [''illegal-transition:'' @ lifecycle_str (ia_lifecycle a) @ ''->'' @
                                           lifecycle_str target] a
                    else accept r
                      (a\<lparr>ia_transitions := ia_transitions a @ [(ia_lifecycle a, target, jget r ''receiptId'')],
                         ia_lifecycle := target\<rparr>))))"
    by (simp add: ingest_one_def trusted_for_def)
  show ?thesis
  proof (cases "RECEIPT_FAMILY_LIFECYCLE_TARGETS (jget r ''family'')")
    case None
    then show ?thesis unfolding one using ingest_inv_accept [OF assms True] by simp
  next
    case (Some t)
    then have t: "t = Completed" by (simp add: lifecycle_target_cases)
    show ?thesis
      unfolding one Some
      using t ingest_inv_move [OF assms True no_contradiction_terminal [OF Some]]
        ingest_inv_accept [OF assms True] ingest_inv_reject [OF assms, of r]
      by (auto split: option.split)
  qed
qed

lemma ingest_fold_inv:
  "ingest_inv sha sid l rs a \<Longrightarrow> ingest_inv sha sid l (rs @ xs) (foldl (ingest_one sha sid) a xs)"
proof (induction xs arbitrary: a rs)
  case (Cons x xs)
  then show ?case using Cons.IH [OF ingest_one_inv [OF Cons.prems], of x] by simp
qed simp

lemma ingest_inv_init: "ingest_inv sha sid l [] (ingest_acc0 l)"
  by (simp add: ingest_inv_def ingest_acc0_def)

text \<open>A chain of moves into \<open>completed\<close> is empty or the single move out of \<open>finalizing\<close>.\<close>

lemma chain_to_completed:
  assumes "transition_chain l ts l'" "list_all (\<lambda>t. fst (snd t) = Completed) ts"
  shows "ts = [] \<and> l' = l \<or> (\<exists>i. ts = [(Finalizing, Completed, i)] \<and> l = Finalizing \<and> l' = Completed)"
proof (cases ts)
  case (Cons t us)
  then obtain i where t: "t = (Finalizing, Completed, i)" "l = Finalizing"
    using assms by (cases t) (auto simp: canTransition_Completed)
  have "us = []"
  proof (rule ccontr)
    assume "us \<noteq> []"
    then obtain u vs where "us = u # vs" by (cases us) auto
    then show False
      using assms Cons t by (cases u) (auto simp: canTransition_Completed)
  qed
  then show ?thesis using assms(1) Cons t by simp
qed (use assms in simp)

text \<open>
  C32. Ingestion decides every receipt and moves a session by proof only: each receipt is accepted
  or rejected; the accepted ones validate, are marked valid and belong to the session; the
  lifecycle changes at most once, from \<open>finalizing\<close> to \<open>completed\<close>, and then
  the recorded move names an accepted receipt whose own evidence claims the end of the session;
  the digest never exceeds its 280 characters.
\<close>

theorem ingestReceipts_moves_by_proof:
  assumes "r = ingestReceipts sha st rs"
  shows "length (accepted r) + length (rejected r) = length rs \<and>
         set (accepted r) \<union> fst ` set (rejected r) = set rs \<and>
         list_all (trusted_for sha (sessionId st)) (accepted r) \<and>
         (transitions r = [] \<and> finalLifecycle r = s_lifecycle st \<or>
          s_lifecycle st = Finalizing \<and> finalLifecycle r = Completed \<and>
          (\<exists>x\<in>set (accepted r). terminal_claim x \<and>
             transitions r = [(Finalizing, Completed, jget x ''receiptId'')])) \<and>
         length (digest r) \<le> RECEIPT_DIGEST_MAX_CHARS"
proof -
  let ?a = "foldl (ingest_one sha (sessionId st)) (ingest_acc0 (s_lifecycle st)) rs"
  have invs: "ingest_inv sha (sessionId st) (s_lifecycle st) rs ?a"
    using ingest_fold_inv [OF ingest_inv_init] by simp
  have r: "accepted r = ia_accepted ?a" "rejected r = ia_rejected ?a" "transitions r = ia_transitions ?a"
    "finalLifecycle r = ia_lifecycle ?a" "length (digest r) \<le> RECEIPT_DIGEST_MAX_CHARS"
    by (simp_all add: assms ingestReceipts_def Let_def buildReceiptIngestDigest_def)
  have "list_all (\<lambda>t. fst (snd t) = Completed) (ia_transitions ?a)"
    using invs by (auto simp: ingest_inv_def list_all_iff)
  with invs have "ia_transitions ?a = [] \<and> ia_lifecycle ?a = s_lifecycle st \<or>
      (\<exists>i. ia_transitions ?a = [(Finalizing, Completed, i)] \<and> s_lifecycle st = Finalizing \<and>
           ia_lifecycle ?a = Completed)"
    by (intro chain_to_completed) (auto simp: ingest_inv_def)
  then have move: "ia_transitions ?a = [] \<and> ia_lifecycle ?a = s_lifecycle st \<or>
      s_lifecycle st = Finalizing \<and> ia_lifecycle ?a = Completed \<and>
      (\<exists>x\<in>set (ia_accepted ?a). terminal_claim x \<and>
         ia_transitions ?a = [(Finalizing, Completed, jget x ''receiptId'')])"
    using invs by (auto simp: ingest_inv_def)
  have "length (ia_accepted ?a) + length (ia_rejected ?a) = length rs \<and>
      set (ia_accepted ?a) \<union> fst ` set (ia_rejected ?a) = set rs \<and>
      list_all (trusted_for sha (sessionId st)) (ia_accepted ?a)"
    using invs by (simp add: ingest_inv_def)
  with move show ?thesis unfolding r(1-4) using r(5) by blast
qed

definition verdict_input :: build_receipt_input where
  "verdict_input = dirty_vanish_input\<lparr>bi_family := FReviewVerdict,
     bi_evidence := JObj [(''verdict'', JStr ''REQUEST_CHANGES'')]\<rparr>"

definition finalizing_session :: "unit session_state" where
  "finalizing_session = observing_session\<lparr>s_lifecycle := Finalizing\<rparr>"

lemma verdict_trusted: "trusted_for (\<lambda>s. s) ''s1'' (buildReceipt (\<lambda>s. s) verdict_input)"
proof -
  have "input_ok verdict_input" by (simp add: input_ok_def verdict_input_def dirty_vanish_input_def)
  then show ?thesis
    by (simp add: trusted_for_def validateReceipt_buildReceipt buildReceipt_get)
      (simp add: verdict_input_def dirty_vanish_input_def family_check_def validateReviewVerdict_def
        isReviewVerdict_def REVIEW_VERDICTS_def truthy_opt_def)
qed

theorem ingestReceipts_moves_by_proof_witness:
  "finalLifecycle (ingestReceipts (\<lambda>s. s) finalizing_session [buildReceipt (\<lambda>s. s) verdict_input, JNull]) = Completed \<and>
   transitions (ingestReceipts (\<lambda>s. s) finalizing_session [buildReceipt (\<lambda>s. s) verdict_input, JNull]) \<noteq> []"
proof -
  let ?v = "buildReceipt (\<lambda>s. s) verdict_input"
  let ?r = "ingestReceipts (\<lambda>s. s) finalizing_session [?v, JNull]"
  have sid: "sessionId finalizing_session = ''s1''" "s_lifecycle finalizing_session = Finalizing"
    by (simp_all add: finalizing_session_def observing_session_def)
  have fam: "jget ?v ''family'' = Some (JStr ''review-verdict'')"
    "jget ?v ''evidence'' = Some (JObj [(''verdict'', JStr ''REQUEST_CHANGES'')])"
    by (simp_all add: buildReceipt_get) (simp_all add: verdict_input_def family_str_def)
  have "ingest_one (\<lambda>s. s) ''s1'' (ingest_acc0 Finalizing) ?v =
      accept ?v (ingest_acc0 Finalizing\<lparr>ia_transitions := [(Finalizing, Completed, jget ?v ''receiptId'')],
                                       ia_lifecycle := Completed\<rparr>)"
    using verdict_trusted
    by (simp add: ingest_one_def trusted_for_def fam evidenceContradiction_def ingest_acc0_def
        RECEIPT_FAMILY_LIFECYCLE_TARGETS_def canTransition_def)
  then have "finalLifecycle ?r = Completed"
    by (simp add: ingestReceipts_def sid Let_def ingest_one_def validateReceipt_def accept_def reject_def)
  with ingestReceipts_moves_by_proof [OF refl, of "\<lambda>s. s" finalizing_session "[?v, JNull]"] sid
  show ?thesis by auto
qed

end
