(* ===== verification/Harness_Rollup.thy ===== *)
theory Harness_Rollup
  imports Harness_Receipts
begin

text \<open>
  Agreement of the phase rollup builder (\<open>phase-rollup.ts\<close>) with the rollup validator
  (\<open>receipts.ts\<close>): the validator recomputes every aggregate from the children, so the
  builder's totals have to be the sums the validator's loop accumulates.
\<close>

section \<open>Children that the task runner produces\<close>

definition rollup_child_ok :: "task_receipt \<Rightarrow> bool" where
  "rollup_child_ok r \<longleftrightarrow> tr_id r \<noteq> [] \<and> tr_status r \<in> set PHASE_ROLLUP_CHILD_STATUSES \<and>
     0 \<le> child_tokens r \<and> 0 \<le> rat_or_0 (child_cost r) \<and> 0 \<le> rat_or_0 (child_cloned r) \<and>
     (truthy_str (tr_outputUri r) \<and> truthy_str (tr_outputSha r) \<longrightarrow> SHA256_HEX (the (tr_outputSha r)))"

lemma childPointer_get [simp]:
  "jget (childPointer sha r) ''id'' = Some (JStr (tr_id r))"
  "jget (childPointer sha r) ''status'' = Some (JStr (tr_status r))"
  "jget (childPointer sha r) ''receiptSha256'' = Some (JStr (sha (canonicalJson (tr_json r))))"
  "jget (childPointer sha r) ''tokens'' = Some (JNum (Fin (child_tokens r)))"
  "jget (childPointer sha r) ''costTotal'' = Some (num_or_null (child_cost r))"
  "jget (childPointer sha r) ''clonedTokens'' = Some (num_or_null (child_cloned r))"
  "jget (childPointer sha r) ''lowRoi'' = Some (JBool (child_lowRoi r))"
  "jget (childPointer sha r) ''outputUri'' =
     Some (if truthy_str (tr_outputUri r) \<and> truthy_str (tr_outputSha r) then str_or_null (tr_outputUri r) else JNull)"
  "jget (childPointer sha r) ''outputSha256'' =
     Some (if truthy_str (tr_outputUri r) \<and> truthy_str (tr_outputSha r) then str_or_null (tr_outputSha r) else JNull)"
  by (simp_all add: childPointer_def Let_def)

lemma nonneg_num_num_or_null:
  "0 \<le> rat_or_0 v \<Longrightarrow> nonneg_num (Some (num_or_null v)) = v"
  by (cases v) (auto simp: nonneg_num_def num_or_null_def rat_or_0_def)

lemma num_or_null_Null [simp]: "num_or_null v = JNull \<longleftrightarrow> v = None"
  by (cases v) (simp_all add: num_or_null_def)

lemma truthy_strE: "truthy_str v \<Longrightarrow> \<exists>s. v = Some s \<and> s \<noteq> []"
  by (cases v) (simp_all add: truthy_str_def)

lemma child_reasons_childPointer:
  assumes "rollup_child_ok r" "tr_id r \<notin> set seen" "SHA256_HEX (sha (canonicalJson (tr_json r)))"
  shows "child_reasons seen (tr_id r) (childPointer sha r) = []"
proof -
  have cost: "nonneg_num (Some (num_or_null (child_cost r))) = child_cost r"
    "nonneg_num (Some (num_or_null (child_cloned r))) = child_cloned r"
    "nonneg_num (Some (JNum (Fin (child_tokens r)))) = Some (child_tokens r)"
    using assms(1) by (simp_all add: rollup_child_ok_def nonneg_num_num_or_null) (simp add: nonneg_num_def)
  show ?thesis
    using assms
    by (auto simp: child_reasons_def cost rollup_child_ok_def str_or_null_def to_string_opt_def
        dest!: truthy_strE)
qed

lemma rollup_child_childPointer:
  assumes "rollup_child_ok r" "tr_id r \<notin> set (ra_seen a)" "SHA256_HEX (sha (canonicalJson (tr_json r)))"
  shows "rollup_child a (childPointer sha r) =
    \<lparr>ra_reasons = ra_reasons a, ra_seen = ra_seen a @ [tr_id r],
     ra_completed = ra_completed a + (if tr_status r = ''completed'' then 1 else 0),
     ra_failed = ra_failed a + (if tr_status r = ''failed'' \<or> tr_status r = ''merge_failed'' then 1 else 0),
     ra_tokens = ra_tokens a + child_tokens r,
     ra_cost = ra_cost a + rat_or_0 (child_cost r),
     ra_cloned = ra_cloned a + rat_or_0 (child_cloned r),
     ra_anyCost = (ra_anyCost a \<or> child_cost r \<noteq> None),
     ra_anyCloned = (ra_anyCloned a \<or> child_cloned r \<noteq> None),
     ra_lowRoi = ra_lowRoi a @ (if child_lowRoi r then [tr_id r] else [])\<rparr>"
proof -
  have "nonneg_num (Some (JNum (Fin (child_tokens r)))) = Some (child_tokens r)" "tr_id r \<noteq> []"
    "nonneg_num (Some (num_or_null (child_cost r))) = child_cost r"
    "nonneg_num (Some (num_or_null (child_cloned r))) = child_cloned r"
    using assms(1) by (simp_all add: rollup_child_ok_def nonneg_num_num_or_null) (simp add: nonneg_num_def)
  then show ?thesis
    using assms by (simp add: rollup_child_def child_reasons_childPointer rat_or_0_def)
qed

lemma foldl_rollup_child:
  assumes "list_all rollup_child_ok cs" "distinct (ra_seen a @ map tr_id cs)" "\<And>s. SHA256_HEX (sha s)"
  shows "foldl rollup_child a (map (childPointer sha) cs) =
    \<lparr>ra_reasons = ra_reasons a, ra_seen = ra_seen a @ map tr_id cs,
     ra_completed = ra_completed a + length (filter (\<lambda>c. tr_status c = ''completed'') cs),
     ra_failed = ra_failed a + length (filter (\<lambda>c. tr_status c = ''failed'' \<or> tr_status c = ''merge_failed'') cs),
     ra_tokens = foldl (\<lambda>t c. t + child_tokens c) (ra_tokens a) cs,
     ra_cost = foldl (\<lambda>t c. t + rat_or_0 (child_cost c)) (ra_cost a) cs,
     ra_cloned = foldl (\<lambda>t c. t + rat_or_0 (child_cloned c)) (ra_cloned a) cs,
     ra_anyCost = (ra_anyCost a \<or> list_ex (\<lambda>c. child_cost c \<noteq> None) cs),
     ra_anyCloned = (ra_anyCloned a \<or> list_ex (\<lambda>c. child_cloned c \<noteq> None) cs),
     ra_lowRoi = ra_lowRoi a @ map tr_id (filter child_lowRoi cs)\<rparr>"
  using assms(1,2)
proof (induction cs arbitrary: a)
  case (Cons c cs)
  have c: "rollup_child_ok c" "tr_id c \<notin> set (ra_seen a)" using Cons.prems by auto
  show ?case
    using Cons.prems by (simp add: rollup_child_childPointer [OF c assms(3)] Cons.IH)
qed simp

section \<open>Aggregates\<close>

lemma foldl_plus_nonneg:
  "0 \<le> (z :: rat) \<Longrightarrow> list_all (\<lambda>c. 0 \<le> f c) cs \<Longrightarrow> 0 \<le> foldl (\<lambda>t c. t + f c) z cs"
  by (induction cs arbitrary: z) auto

lemma sameIdSet_refl: "distinct ids \<Longrightarrow> sameIdSet (map JStr ids) ids"
proof -
  assume "distinct ids"
  then have "distinct (map JStr ids)" by (simp add: distinct_map inj_on_def)
  then show ?thesis
    using \<open>distinct ids\<close> by (simp add: sameIdSet_def list_all_iff distinct_remdups_id)
qed

lemma numbersReconcile_refl [simp]:
  "numbersReconcile (Some (JNum (Fin x))) (Some x)" "numbersReconcile (Some JNull) None"
  by (simp_all add: numbersReconcile_def js_to_number_def)

lemma nonneg_num_Fin: "0 \<le> x \<Longrightarrow> nonneg_num (Some (JNum (Fin x))) = Some x"
  by (simp add: nonneg_num_def)

lemma validatePhaseRollup_evidence:
  assumes "phase \<noteq> []" "cs \<noteq> []" "list_all rollup_child_ok cs" "distinct (map tr_id cs)"
    and "\<And>s. SHA256_HEX (sha s)"
  shows "validatePhaseRollup (Some (rollup_evidence sha phase cs)) = []"
proof -
  have d: "distinct (ra_seen rollup_acc0 @ map tr_id cs)" using assms(4) by (simp add: rollup_acc0_def)
  note acc = foldl_rollup_child [OF assms(3) d assms(5)]
  have low: "sameIdSet (map (\<lambda>c. JStr (tr_id c)) (filter child_lowRoi cs)) (map tr_id (filter child_lowRoi cs))"
    using sameIdSet_refl [of "map tr_id (filter child_lowRoi cs)"] assms(4)
    by (simp add: distinct_map_filter comp_def)
  have nonneg: "0 \<le> foldl (\<lambda>t c. t + child_tokens c) 0 cs" "0 \<le> foldl (\<lambda>t c. t + rat_or_0 (child_cost c)) 0 cs"
    "0 \<le> foldl (\<lambda>t c. t + rat_or_0 (child_cloned c)) 0 cs"
    using assms(3) by (auto intro!: foldl_plus_nonneg simp: list_all_iff rollup_child_ok_def)
  let ?a = "foldl rollup_child rollup_acc0 (map (childPointer sha) cs)"
  have "aggregate_reasons ?a (length cs) (jget (rollup_evidence sha phase cs) ''aggregate'') = []"
    using low nonneg
    by (simp add: aggregate_reasons_def rollup_evidence_def truthy_opt_def optional_total_def acc
        nonneg_num_Fin)
      (simp add: rollup_acc0_def)
  moreover have "ra_reasons ?a = []" by (simp add: acc) (simp add: rollup_acc0_def)
  ultimately show ?thesis
    using assms(1,2)
    by (simp add: validatePhaseRollup_def Let_def truthy_opt_def) (simp add: rollup_evidence_def)
qed

text \<open>
  C34. Builder and validator agree: for a non-empty phase whose children carry distinct non-empty
  ids, a known status, non-negative metrics and well-formed output hashes, the receipt that
  \<open>buildPhaseRollupReceipt\<close> produces passes \<open>validateReceipt\<close> without a reason, so
  every total of the builder reconciles with the validator's own recomputation. The hash function
  is only assumed to print 64 lower-case hexadecimal digits.
\<close>

theorem phase_rollup_receipt_validates:
  assumes "phase \<noteq> []" "cs \<noteq> []" "list_all rollup_child_ok cs" "distinct (map tr_id cs)"
    and "\<And>s. SHA256_HEX (sha s)"
    and "rid \<noteq> []" "sid \<noteq> []" "src \<noteq> []" "rs_workspace subj \<noteq> []" "created \<noteq> []"
  shows "validateReceipt sha (buildPhaseRollupReceipt sha rid sid src subj phase cs created) =
    \<lparr>valid = True, reasons = []\<rparr>"
proof -
  let ?i = "\<lparr>bi_receiptId = rid, bi_sessionId = sid, bi_family = FPhaseRollup,
       bi_source = src, bi_subject = subj, bi_evidence = rollup_evidence sha phase cs,
       bi_artifactHashes = [], bi_createdAt = created, bi_valid = True\<rparr>"
  have "input_ok ?i" using assms by (simp add: input_ok_def rollup_evidence_def)
  moreover have "family_check (bi_family ?i) (Some (bi_evidence ?i)) = []"
    using validatePhaseRollup_evidence [OF assms(1-5)] by (simp add: family_check_def)
  ultimately show ?thesis
    unfolding buildPhaseRollupReceipt_def by (simp add: validateReceipt_buildReceipt)
qed

definition done_child :: task_receipt where
  "done_child = \<lparr>tr_id = ''c1'', tr_status = ''completed'', tr_tokens = 10, tr_outputUri = None,
     tr_outputSha = None, tr_roi = Some \<lparr>roi_tokens = 12, roi_clonedTokens = None, roi_costTotal = Some (1/2),
     roi_lowRoi = True\<rparr>, tr_json = JNull\<rparr>"

theorem phase_rollup_receipt_validates_witness:
  "valid (validateReceipt (\<lambda>_. replicate 64 CHR ''a'')
     (buildPhaseRollupReceipt (\<lambda>_. replicate 64 CHR ''a'') ''r'' ''s'' ''src''
        \<lparr>rs_workspace = ''/w'', rs_branch = None, rs_head = None, rs_commit = None\<rparr> ''build''
        [done_child, done_child\<lparr>tr_id := ''c2'', tr_status := ''failed''\<rparr>] ''t''))"
  by (subst phase_rollup_receipt_validates)
    (simp_all add: done_child_def rollup_child_ok_def PHASE_ROLLUP_CHILD_STATUSES_def child_tokens_def
      child_cost_def child_cloned_def rat_or_0_def truthy_str_def SHA256_HEX_def is_hex_lower_def
      list_all_iff)

end
