(* ===== verification/Harness_Finalize.thy ===== *)
theory Harness_Finalize
  imports Harness_Receipts
begin

text \<open>
  The receipt store of a session (\<open>storage.ts\<close>, \<open>writeReceiptImmutable\<close> and
  \<open>readReceiptIndex\<close>) and the evidence-gated finalizer (\<open>finalize.ts\<close>) that runs
  on it. The store of one session is the map from receipt paths to file contents together with
  the lines of \<open>receipts.jsonl\<close>. Git, gh, the validation commands, the clock and the random
  suffix of receipt ids are parameters.
\<close>

section \<open>The receipt store (storage.ts)\<close>

definition is_alnum :: "char \<Rightarrow> bool" where
  "is_alnum c \<longleftrightarrow> is_word_char c \<and> c \<noteq> CHR ''_''"

text \<open>The pattern \<open>/^[A-Za-z0-9][A-Za-z0-9._-]{0,127}$/\<close>.\<close>

fun SESSION_ID_RE :: "string \<Rightarrow> bool" where
  "SESSION_ID_RE [] \<longleftrightarrow> False"
| "SESSION_ID_RE (c # cs) \<longleftrightarrow> is_alnum c \<and> length cs \<le> 127 \<and>
     list_all (\<lambda>x. is_alnum x \<or> x = CHR ''.'' \<or> x = CHR ''_'' \<or> x = CHR ''-'') cs"

datatype storage_error =
    UnsafeSessionId string
  | UnsafeReceiptId string
  | ReceiptImmutableConflict receipt_family string
  | MissingReceiptFile receipt_family string

text \<open>The path of a receipt file is determined by its family directory and its id.\<close>

type_synonym receipt_path = "receipt_family \<times> string"

record receipt_index_entry =
  ri_receiptId :: string
  ri_family :: receipt_family
  ri_valid :: "json option"
  ri_createdAt :: "json option"
  ri_path :: receipt_path

record receipt_store =
  st_files :: "(receipt_path, json) js_map"
  st_index :: "receipt_index_entry list"

definition empty_store :: receipt_store where
  "empty_store = \<lparr>st_files = [], st_index = []\<rparr>"

definition assertSafeSessionId :: "string \<Rightarrow> storage_error + unit" where
  "assertSafeSessionId i = (if SESSION_ID_RE i then Inr () else Inl (UnsafeSessionId i))"

definition writeReceiptImmutable ::
  "string \<Rightarrow> receipt_family \<Rightarrow> string \<Rightarrow> json \<Rightarrow> receipt_store \<Rightarrow>
   storage_error + (receipt_index_entry \<times> receipt_store)" where
  "writeReceiptImmutable sid f rid v s =
     andThen (assertSafeSessionId sid) (\<lambda>_.
       if \<not> SESSION_ID_RE rid then Inl (UnsafeReceiptId rid)
       else if map_get (st_files s) (f, rid) \<noteq> None then Inl (ReceiptImmutableConflict f rid)
       else (let entry = \<lparr>ri_receiptId = rid, ri_family = f, ri_valid = jget v ''valid'',
                          ri_createdAt = jget v ''createdAt'', ri_path = (f, rid)\<rparr>
             in Inr (entry, s\<lparr>st_files := map_set (f, rid) v (st_files s),
                             st_index := st_index s @ [entry]\<rparr>)))"

definition readReceiptIndex :: "receipt_family option \<Rightarrow> receipt_store \<Rightarrow> receipt_index_entry list" where
  "readReceiptIndex f s = filter (\<lambda>e. case f of None \<Rightarrow> True | Some x \<Rightarrow> ri_family e = x) (st_index s)"

definition readReceiptFile :: "receipt_path \<Rightarrow> receipt_store \<Rightarrow> storage_error + json" where
  "readReceiptFile p s = (case map_get (st_files s) p of
     None \<Rightarrow> Inl (MissingReceiptFile (fst p) (snd p)) | Some v \<Rightarrow> Inr v)"

text \<open>
  The contract of a write-once store: a successful write finds its key unused, stores the value
  and leaves every other key alone.
\<close>

locale write_once =
  fixes put :: "'k \<Rightarrow> 'v \<Rightarrow> 's \<Rightarrow> 'e + 's"
    and get :: "'s \<Rightarrow> 'k \<Rightarrow> 'v option"
  assumes put_fresh: "put k v s = Inr t \<Longrightarrow> get s k = None"
    and put_get: "put k v s = Inr t \<Longrightarrow> get t k = Some v"
    and put_other: "put k v s = Inr t \<Longrightarrow> k' \<noteq> k \<Longrightarrow> get t k' = get s k'"
begin

lemma put_keeps: "put k v s = Inr t \<Longrightarrow> get s k' = Some w \<Longrightarrow> get t k' = Some w"
  using put_fresh put_other by (metis option.distinct(1))

lemma puts_keep:
  "for_each (\<lambda>s kv. put (fst kv) (snd kv) s) s kvs = Inr t \<Longrightarrow> get s k = Some w \<Longrightarrow> get t k = Some w"
  by (induction kvs arbitrary: s) (auto intro: put_keeps)

lemma puts_get:
  "for_each (\<lambda>s kv. put (fst kv) (snd kv) s) s kvs = Inr t \<Longrightarrow> (k, w) \<in> set kvs \<Longrightarrow> get t k = Some w"
  by (induction kvs arbitrary: s) (auto intro: puts_keep [OF _ put_get])

lemma puts_distinct:
  "for_each (\<lambda>s kv. put (fst kv) (snd kv) s) s kvs = Inr t \<Longrightarrow> distinct (map fst kvs)"
proof (induction kvs arbitrary: s)
  case (Cons kv kvs)
  then obtain u where u: "put (fst kv) (snd kv) s = Inr u"
    "for_each (\<lambda>s kv. put (fst kv) (snd kv) s) u kvs = Inr t" by auto
  have "fst kv \<notin> fst ` set kvs"
  proof
    assume "fst kv \<in> fst ` set kvs"
    then obtain w where w: "(fst kv, w) \<in> set kvs" by force
    then obtain as bs where split: "kvs = as @ (fst kv, w) # bs" by (meson split_list)
    obtain m m' where "for_each (\<lambda>s kv. put (fst kv) (snd kv) s) u as = Inr m" "put (fst kv) w m = Inr m'"
      using u(2) unfolding split for_each_append by auto
    then show False
      using puts_keep [of u as m] put_get [OF u(1)] put_fresh by fastforce
  qed
  then show ?case using Cons.IH [OF u(2)] by simp
qed simp

end

definition put_receipt :: "string \<Rightarrow> receipt_path \<Rightarrow> json \<Rightarrow> receipt_store \<Rightarrow> storage_error + receipt_store" where
  "put_receipt sid p v s = andThen (writeReceiptImmutable sid (fst p) (snd p) v s) (\<lambda>r. Inr (snd r))"

lemma writeReceiptImmutable_Inr:
  "writeReceiptImmutable sid f rid v s = Inr (e, t) \<longleftrightarrow>
     SESSION_ID_RE sid \<and> SESSION_ID_RE rid \<and> map_get (st_files s) (f, rid) = None \<and>
     e = \<lparr>ri_receiptId = rid, ri_family = f, ri_valid = jget v ''valid'',
          ri_createdAt = jget v ''createdAt'', ri_path = (f, rid)\<rparr> \<and>
     t = s\<lparr>st_files := map_set (f, rid) v (st_files s), st_index := st_index s @ [e]\<rparr>"
  by (auto simp: writeReceiptImmutable_def assertSafeSessionId_def Let_def)

interpretation receipts: write_once "put_receipt sid" "\<lambda>s. map_get (st_files s)" for sid
  by unfold_locales (auto simp: put_receipt_def writeReceiptImmutable_Inr)

section \<open>Verdicts in assistant text (types.ts)\<close>

text \<open>The alternatives of the pattern, in order, with the verdict each stands for.\<close>

definition VERDICT_TOKENS :: "(string \<times> string) list" where
  "VERDICT_TOKENS = map (\<lambda>v. (v, v)) REVIEW_VERDICTS @ [(''MERGE_READY'', ''APPROVE_MERGE_READY'')]"

definition word_hd :: "string \<Rightarrow> bool" where
  "word_hd s = (case s of [] \<Rightarrow> False | c # _ \<Rightarrow> is_word_char c)"

text \<open>
  A match of \<open>\\b(...)\\b\<close> at the front of \<open>s\<close>, where \<open>w\<close> says whether the
  character before is a word character.
\<close>

definition match_token :: "bool \<Rightarrow> string \<Rightarrow> (string \<times> string) option" where
  "match_token w s =
     (if w = word_hd s then None
      else find (\<lambda>(t, v). starts_with s t \<and> word_hd (drop (length t) s) = False) VERDICT_TOKENS)"

lemma find_SomeD: "find P xs = Some x \<Longrightarrow> P x \<and> x \<in> set xs"
  by (auto simp: find_Some_iff)

lemma match_tokenD: "match_token w s = Some (t, v) \<Longrightarrow> t \<noteq> [] \<and> v \<in> set REVIEW_VERDICTS"
  by (auto simp: match_token_def VERDICT_TOKENS_def REVIEW_VERDICTS_def split: if_splits dest: find_SomeD)

function scan_verdict :: "bool \<Rightarrow> string \<Rightarrow> string option \<Rightarrow> string option" where
  "scan_verdict w s lst =
     (case s of [] \<Rightarrow> lst
      | c # cs \<Rightarrow> (case match_token w s of
            None \<Rightarrow> scan_verdict (is_word_char c) cs lst
          | Some (t, v) \<Rightarrow> scan_verdict True (drop (length t) s) (Some v)))"
  by pat_completeness auto
termination
  by (relation "measure (\<lambda>(w, s, l). length s)") (auto dest: match_tokenD)

declare scan_verdict.simps [simp del]

lemma scan_verdict_Nil: "scan_verdict w [] l = l"
  by (simp add: scan_verdict.simps)

lemma scan_verdict_match:
  "match_token w s = Some (t, v) \<Longrightarrow> s \<noteq> [] \<Longrightarrow> scan_verdict w s l = scan_verdict True (drop (length t) s) (Some v)"
  by (subst scan_verdict.simps) (auto split: list.split)

lemma scan_verdict_skip:
  "match_token w (c # cs) = None \<Longrightarrow> scan_verdict w (c # cs) l = scan_verdict (is_word_char c) cs l"
  by (subst scan_verdict.simps) simp

definition extractReviewVerdict :: "string option \<Rightarrow> string option" where
  "extractReviewVerdict text =
     (case text of None \<Rightarrow> None | Some t \<Rightarrow> if t = [] then None else scan_verdict False t None)"

section \<open>The finalizer (finalize.ts)\<close>

record validation_command_spec =
  vs_name :: string
  vs_command :: string

record validation_run =
  vr_exactCommand :: string
  vr_cwd :: string
  vr_exitStatus :: int
  vr_pass :: bool

text \<open>The first argument of \<open>fc_runValidation\<close> is the number of the call.\<close>

record finalize_checks =
  fc_runValidation :: "nat \<Rightarrow> validation_command_spec \<Rightarrow> validation_run"
  fc_resolveCommit :: "string option"
  fc_commitOnBranch :: "string \<Rightarrow> string \<Rightarrow> bool"
  fc_prUrl :: "string option"
  fc_issueArtifact :: "string option"

record finalize_options =
  fo_sessionId :: string
  fo_workspace :: string
  fo_branch :: string
  fo_requireTests :: bool
  fo_requireCommit :: bool
  fo_requirePr :: bool
  fo_reviewOnly :: bool
  fo_verdict :: "string option"
  fo_assistantText :: "string option"
  fo_prTarget :: "string option"
  fo_validationCommands :: "validation_command_spec list"
  fo_checks :: finalize_checks

text \<open>
  What the code takes from outside: the hash, the clock in milliseconds and as an ISO string, the
  random suffix of the n-th receipt, and the ellipsis character, which lies outside the modelled
  code units.
\<close>

record finalize_env =
  fe_sha :: "string \<Rightarrow> string"
  fe_time :: "nat \<Rightarrow> nat"
  fe_iso :: "nat \<Rightarrow> string"
  fe_rand :: "nat \<Rightarrow> string"
  fe_ellipsis :: string

record finalize_validation =
  fv_name :: string
  fv_valid :: bool
  fv_exitStatus :: int

record finalize_result =
  fr_completed :: bool
  fr_receiptPath :: "receipt_path option"
  fr_validation :: "finalize_validation list"
  fr_commitHash :: "string option"
  fr_prUrl :: "string option"
  fr_verdict :: "string option"
  fr_issueArtifact :: "string option"
  fr_blockers :: "string list"

definition receiptId :: "finalize_env \<Rightarrow> string \<Rightarrow> nat \<Rightarrow> string" where
  "receiptId env prefix n = prefix @ ''-'' @ nat_str (fe_time env n) @ ''-'' @ fe_rand env n"

text \<open>\<open>text.replace(/\\s+/g, " ")\<close>: every run of white space becomes one space.\<close>

fun collapse_spaces :: "bool \<Rightarrow> string \<Rightarrow> string" where
  "collapse_spaces in_run [] = []"
| "collapse_spaces in_run (c # cs) =
     (if is_js_space c then (if in_run then [] else '' '') @ collapse_spaces True cs
      else c # collapse_spaces False cs)"

definition boundedAssistantSummary :: "string \<Rightarrow> string option \<Rightarrow> string option" where
  "boundedAssistantSummary ellipsis text =
     (case text of None \<Rightarrow> None
      | Some t \<Rightarrow>
          (let collapsed = trim (collapse_spaces False t)
           in if t = [] \<or> collapsed = [] then None
              else Some (if length collapsed > 280 then take 280 collapsed @ ellipsis else collapsed)))"

record validation_acc =
  va_store :: receipt_store
  va_validation :: "finalize_validation list"
  va_ids :: "string list"
  va_blockers :: "string list"

definition commit_subject :: "finalize_options \<Rightarrow> string option \<Rightarrow> receipt_subject" where
  "commit_subject opts commit =
     \<lparr>rs_workspace = fo_workspace opts, rs_branch = Some (fo_branch opts), rs_head = commit, rs_commit = commit\<rparr>"

definition validation_receipt ::
  "finalize_env \<Rightarrow> finalize_options \<Rightarrow> nat \<Rightarrow> validation_command_spec \<Rightarrow> json" where
  "validation_receipt env opts n spec =
     (let commit = fc_resolveCommit (fo_checks opts); r = fc_runValidation (fo_checks opts) n spec
      in buildReceipt (fe_sha env)
           \<lparr>bi_receiptId = receiptId env ''val'' n, bi_sessionId = fo_sessionId opts, bi_family = FValidation,
            bi_source = ''finalizer'', bi_subject = commit_subject opts commit,
            bi_evidence = JObj [(''command'', JStr (vs_name spec)), (''exactCommand'', JStr (vr_exactCommand r)),
              (''cwd'', JStr (vr_cwd r)), (''exitStatus'', JNum (Fin (of_int (vr_exitStatus r)))),
              (''pass'', JBool (vr_pass r)), (''commitUnderTest'', str_or_null commit)],
            bi_artifactHashes = [], bi_createdAt = fe_iso env n, bi_valid = vr_pass r\<rparr>)"

text \<open>The body of the loop over the validation commands.\<close>

definition validate_one ::
  "finalize_env \<Rightarrow> finalize_options \<Rightarrow> validation_acc \<Rightarrow> validation_command_spec \<Rightarrow> storage_error + validation_acc" where
  "validate_one env opts a spec =
     (let n = length (va_ids a);
          rid = receiptId env ''val'' n;
          receipt = validation_receipt env opts n spec;
          ok = valid (validateReceipt (fe_sha env) receipt)
      in andThen (writeReceiptImmutable (fo_sessionId opts) FValidation rid receipt (va_store a)) (\<lambda>(entry, st).
           Inr \<lparr>va_store = st,
                va_validation = va_validation a @ [\<lparr>fv_name = vs_name spec, fv_valid = ok,
                  fv_exitStatus = vr_exitStatus (fc_runValidation (fo_checks opts) n spec)\<rparr>],
                va_ids = va_ids a @ [rid],
                va_blockers = va_blockers a @
                  push_if (fo_requireTests opts \<and> \<not> ok) (''validation-failed:'' @ vs_name spec)\<rparr>))"

text \<open>The body of the loop that reads the persisted validation receipts back.\<close>

definition check_persisted ::
  "(string \<Rightarrow> string) \<Rightarrow> receipt_store \<Rightarrow> string option \<Rightarrow> string list \<Rightarrow> string \<Rightarrow> storage_error + string list" where
  "check_persisted sha st commit bs i =
     (case find (\<lambda>e. ri_receiptId e = i) (readReceiptIndex (Some FValidation) st) of
        None \<Rightarrow> Inr (bs @ [''missing-validation-receipt:'' @ i])
      | Some entry \<Rightarrow> andThen (readReceiptFile (ri_path entry) st) (\<lambda>receipt. Inr (bs @
          (if \<not> valid (validateReceipt sha receipt) then [''validation-receipt-invalid:'' @ i]
           else push_if (truthy_str commit \<and>
                         jget_opt (jget receipt ''evidence'') ''commitUnderTest'' \<noteq> Some (str_or_null commit))
                  (''validation-stale-commit:'' @ i)))))"

definition commit_blockers :: "finalize_options \<Rightarrow> string list" where
  "commit_blockers opts =
     (if \<not> fo_requireCommit opts then []
      else (case fc_resolveCommit (fo_checks opts) of
          None \<Rightarrow> [''missing-commit'']
        | Some c \<Rightarrow> (if c = [] then [''missing-commit'']
            else push_if (\<not> fc_commitOnBranch (fo_checks opts) c (fo_branch opts)) ''commit-not-on-branch'')))"

definition artifact_blockers :: "finalize_options \<Rightarrow> string list" where
  "artifact_blockers opts =
     push_if (fo_requirePr opts \<and> \<not> truthy_str (fc_prUrl (fo_checks opts)) \<and>
              \<not> truthy_str (fc_issueArtifact (fo_checks opts))) ''missing-pr-or-issue''"

definition completion_evidence :: "finalize_env \<Rightarrow> finalize_options \<Rightarrow> string list \<Rightarrow> json" where
  "completion_evidence env opts ids =
     JObj [(''finalCommit'', JStr (case fc_resolveCommit (fo_checks opts) of None \<Rightarrow> [] | Some c \<Rightarrow> c)),
           (''branch'', JStr (fo_branch opts)),
           (''prUrl'', str_or_null (fc_prUrl (fo_checks opts))),
           (''issueArtifact'', str_or_null (fc_issueArtifact (fo_checks opts))),
           (''requiredValidationReceiptIds'', JArr (map JStr ids)),
           (''finalLifecycle'', JStr ''completed''),
           (''finalizedAt'', JStr (fe_iso env (length ids))),
           (''blockers'', JArr [])]"

definition completion_receipt :: "finalize_env \<Rightarrow> finalize_options \<Rightarrow> string list \<Rightarrow> json" where
  "completion_receipt env opts ids =
     buildReceipt (fe_sha env)
       \<lparr>bi_receiptId = receiptId env ''done'' (length ids), bi_sessionId = fo_sessionId opts,
        bi_family = FCompletion, bi_source = ''finalizer'',
        bi_subject = commit_subject opts (fc_resolveCommit (fo_checks opts)),
        bi_evidence = completion_evidence env opts ids, bi_artifactHashes = [],
        bi_createdAt = fe_iso env (Suc (length ids)), bi_valid = True\<rparr>"

definition finalize_base :: "finalize_options \<Rightarrow> validation_acc \<Rightarrow> finalize_result" where
  "finalize_base opts a =
     \<lparr>fr_completed = False, fr_receiptPath = None, fr_validation = va_validation a,
      fr_commitHash = fc_resolveCommit (fo_checks opts), fr_prUrl = fc_prUrl (fo_checks opts), fr_verdict = None,
      fr_issueArtifact = fc_issueArtifact (fo_checks opts), fr_blockers = []\<rparr>"

text \<open>\<open>runReviewFinalize\<close>.\<close>

definition review_verdict_of :: "finalize_options \<Rightarrow> string option" where
  "review_verdict_of opts =
     (case fo_verdict opts of
        None \<Rightarrow> extractReviewVerdict (fo_assistantText opts)
      | Some v \<Rightarrow> if isReviewVerdict (Some (JStr v)) then Some v else None)"

definition review_subject :: "finalize_options \<Rightarrow> receipt_subject" where
  "review_subject opts =
     \<lparr>rs_workspace = fo_workspace opts, rs_branch = Some (fo_branch opts), rs_head = None, rs_commit = None\<rparr>"

definition review_failure_evidence :: "finalize_env \<Rightarrow> finalize_options \<Rightarrow> string \<Rightarrow> json" where
  "review_failure_evidence env opts why =
     JObj ([(''reason'', JStr why), (''prTarget'', str_or_null (fo_prTarget opts)),
            (''failedAt'', JStr (fe_iso env 0)), (''fallback'', JStr ''operator-or-omx-review'')] @
           (if truthy_str (fo_assistantText opts)
            then (let d = fe_sha env (the (fo_assistantText opts))
                  in if d = [] then [] else [(''assistantDigest'', JStr d)])
            else []) @
           (case boundedAssistantSummary (fe_ellipsis env) (fo_assistantText opts) of
              None \<Rightarrow> [] | Some x \<Rightarrow> [(''assistantSummary'', JStr x)]))"

definition review_verdict_evidence :: "finalize_env \<Rightarrow> finalize_options \<Rightarrow> string \<Rightarrow> json" where
  "review_verdict_evidence env opts verdict =
     (let explicitValid = isReviewVerdict (map_option JStr (fo_verdict opts))
      in JObj ([(''verdict'', JStr verdict), (''prTarget'', str_or_null (fo_prTarget opts)),
            (''finalizedAt'', JStr (fe_iso env 0)),
            (''summaryRef'', JStr (''verdict:'' @ verdict @
                (case fo_prTarget opts of None \<Rightarrow> [] | Some t \<Rightarrow> ''@'' @ t))),
            (''verdictSource'', JStr (if explicitValid then ''input'' else ''assistant''))] @
           (if \<not> explicitValid \<and> truthy_str (fo_assistantText opts)
            then (let d = fe_sha env (the (fo_assistantText opts))
                  in if d = [] then [] else [(''assistantDigest'', JStr d)])
            else [])))"

definition review_receipt ::
  "finalize_env \<Rightarrow> finalize_options \<Rightarrow> receipt_family \<Rightarrow> string \<Rightarrow> json \<Rightarrow> json" where
  "review_receipt env opts f rid ev =
     buildReceipt (fe_sha env)
       \<lparr>bi_receiptId = rid, bi_sessionId = fo_sessionId opts, bi_family = f, bi_source = ''finalizer'',
        bi_subject = review_subject opts, bi_evidence = ev, bi_artifactHashes = [],
        bi_createdAt = fe_iso env 1, bi_valid = True\<rparr>"

definition review_base :: "finalize_result" where
  "review_base = \<lparr>fr_completed = False, fr_receiptPath = None, fr_validation = [], fr_commitHash = None,
     fr_prUrl = None, fr_verdict = None, fr_issueArtifact = None, fr_blockers = []\<rparr>"

definition runReviewFinalize ::
  "finalize_env \<Rightarrow> finalize_options \<Rightarrow> receipt_store \<Rightarrow> storage_error + (finalize_result \<times> receipt_store)" where
  "runReviewFinalize env opts st =
     (case review_verdict_of opts of
        None \<Rightarrow>
          (let why = (if fo_verdict opts \<noteq> None then ''review-verdict-invalid'' else ''review-verdict-missing'');
               rid = receiptId env ''revfail'' 0;
               receipt = review_receipt env opts FReviewFailure rid (review_failure_evidence env opts why);
               outcome = validateReceipt (fe_sha env) receipt
           in andThen (writeReceiptImmutable (fo_sessionId opts) FReviewFailure rid receipt st) (\<lambda>(entry, st').
                Inr (review_base\<lparr>fr_receiptPath := Some (ri_path entry),
                       fr_blockers := (if valid outcome then [why] else why # reasons outcome)\<rparr>, st')))
      | Some verdict \<Rightarrow>
          (let rid = receiptId env ''verdict'' 0;
               receipt = review_receipt env opts FReviewVerdict rid (review_verdict_evidence env opts verdict);
               outcome = validateReceipt (fe_sha env) receipt;
               humanActionRequired = (verdict = ''OWNER_CONFIRMATION_REQUIRED'')
           in andThen (writeReceiptImmutable (fo_sessionId opts) FReviewVerdict rid receipt st) (\<lambda>(entry, st').
                Inr (review_base\<lparr>fr_completed := valid outcome \<and> \<not> humanActionRequired,
                       fr_receiptPath := Some (ri_path entry), fr_verdict := Some verdict,
                       fr_blockers := (if \<not> valid outcome then reasons outcome
                                       else if humanActionRequired then [''owner-confirmation-required''] else [])\<rparr>,
                     st'))))"

definition validation_acc0 :: "receipt_store \<Rightarrow> validation_acc" where
  "validation_acc0 st = \<lparr>va_store = st, va_validation = [], va_ids = [], va_blockers = []\<rparr>"

text \<open>The blockers of steps 1 to 3, before the persisted receipts are read back.\<close>

definition gate_blockers :: "finalize_options \<Rightarrow> validation_acc \<Rightarrow> string list" where
  "gate_blockers opts a =
     va_blockers a @
     push_if (fo_requireTests opts \<and> fo_validationCommands opts = []) ''validation-required-but-none-run'' @
     commit_blockers opts @ artifact_blockers opts"

definition finalize_gate ::
  "finalize_env \<Rightarrow> finalize_options \<Rightarrow> validation_acc \<Rightarrow> storage_error + string list" where
  "finalize_gate env opts a =
     (let bs = gate_blockers opts a
      in if bs = [] then for_each (check_persisted (fe_sha env) (va_store a) (fc_resolveCommit (fo_checks opts))) [] (va_ids a)
         else Inr bs)"

definition runFinalize ::
  "finalize_env \<Rightarrow> finalize_options \<Rightarrow> receipt_store \<Rightarrow> storage_error + (finalize_result \<times> receipt_store)" where
  "runFinalize env opts st =
     (if fo_reviewOnly opts then runReviewFinalize env opts st
      else andThen (for_each (validate_one env opts) (validation_acc0 st) (fo_validationCommands opts)) (\<lambda>a.
        andThen (finalize_gate env opts a) (\<lambda>bs.
          if bs \<noteq> [] then Inr (finalize_base opts a\<lparr>fr_blockers := bs\<rparr>, va_store a)
          else
            (let receipt = completion_receipt env opts (va_ids a);
                 outcome = validateReceipt (fe_sha env) receipt;
                 rid = receiptId env ''done'' (length (va_ids a))
             in andThen (writeReceiptImmutable (fo_sessionId opts) FCompletion rid receipt (va_store a)) (\<lambda>(entry, st').
                  Inr (finalize_base opts a\<lparr>fr_completed := valid outcome, fr_receiptPath := Some (ri_path entry),
                         fr_blockers := (if valid outcome then [] else reasons outcome)\<rparr>, st'))))))"

section \<open>What the store guarantees\<close>

text \<open>
  Receipts are write-once: after any sequence of successful writes every receipt of the
  sequence reads back as written, the paths written are pairwise distinct, and every receipt that
  was there before is unchanged, so no later step can rewrite evidence.
\<close>

theorem receipts_are_immutable:
  assumes "for_each (\<lambda>s kv. put_receipt sid (fst kv) (snd kv) s) s kvs = Inr t"
  shows "(\<forall>kv\<in>set kvs. readReceiptFile (fst kv) t = Inr (snd kv)) \<and> distinct (map fst kvs) \<and>
         (\<forall>p v. readReceiptFile p s = Inr v \<longrightarrow> readReceiptFile p t = Inr v)"
proof -
  have read: "readReceiptFile p s = Inr v \<longleftrightarrow> map_get (st_files s) p = Some v" for p s v
    by (simp add: readReceiptFile_def split: option.split)
  show ?thesis
    using receipts.puts_get [OF assms] receipts.puts_distinct [OF assms] receipts.puts_keep [OF assms]
    by (auto simp: read)
qed

theorem receipts_are_immutable_witness:
  "\<exists>t. for_each (\<lambda>s kv. put_receipt ''s1'' (fst kv) (snd kv) s) empty_store
        [((FVanish, ''a''), JNull), ((FVanish, ''b''), JBool True)] = Inr t \<and>
      readReceiptFile (FVanish, ''a'') t = Inr JNull"
proof -
  let ?kvs = "[((FVanish, ''a''), JNull), ((FVanish, ''b''), JBool True)]"
  obtain t where t: "for_each (\<lambda>s kv. put_receipt ''s1'' (fst kv) (snd kv) s) empty_store ?kvs = Inr t"
    by (simp add: put_receipt_def writeReceiptImmutable_def assertSafeSessionId_def empty_store_def Let_def
        is_alnum_def is_word_char_def is_digit_def)
  show ?thesis
    using receipts_are_immutable [OF t] t by auto
qed

section \<open>What the finalizer guarantees\<close>

definition store_ok :: "receipt_store \<Rightarrow> bool" where
  "store_ok s \<longleftrightarrow> list_all (\<lambda>e. ri_path e = (ri_family e, ri_receiptId e)) (st_index s)"

lemma store_ok_empty [simp]: "store_ok empty_store"
  by (simp add: store_ok_def empty_store_def)

lemma store_ok_write: "store_ok s \<Longrightarrow> writeReceiptImmutable sid f rid v s = Inr (e, t) \<Longrightarrow> store_ok t"
  by (auto simp: store_ok_def writeReceiptImmutable_Inr)

lemma write_get:
  "writeReceiptImmutable sid f rid v s = Inr (e, t) \<Longrightarrow> map_get (st_files t) p = (if p = (f, rid) then Some v else map_get (st_files s) p)"
  by (auto simp: writeReceiptImmutable_Inr)

text \<open>A validation receipt validates only if its command passed.\<close>

lemma validation_receipt_valid:
  assumes "valid (validateReceipt sha (validation_receipt env opts n spec))"
  shows "vr_pass (fc_runValidation (fo_checks opts) n spec)"
proof -
  let ?r = "validation_receipt env opts n spec"
  obtain kvs where fam: "validateFamily ?r = []" using validateReceipt_valid [OF assms] by metis
  have f: "jget ?r ''family'' = Some (JStr (family_str FValidation))"
    by (simp add: validation_receipt_def Let_def buildReceipt_get)
  have e: "jget_opt (jget ?r ''evidence'') ''pass'' = Some (JBool (vr_pass (fc_runValidation (fo_checks opts) n spec)))"
    by (simp add: validation_receipt_def Let_def buildReceipt_get)
  have "validateValidation (jget ?r ''evidence'') = []"
    using fam by (simp add: validateFamily_family_str [OF f] family_check_def)
  then show ?thesis
    by (auto simp: validateValidation_def e truthy_opt_def split: if_splits)
qed

text \<open>What the loop over the validation commands has established after a prefix of them.\<close>

definition validation_inv ::
  "finalize_env \<Rightarrow> finalize_options \<Rightarrow> validation_command_spec list \<Rightarrow> validation_acc \<Rightarrow> bool" where
  "validation_inv env opts specs a \<longleftrightarrow>
     store_ok (va_store a) \<and>
     va_ids a = map (receiptId env ''val'') [0..<length specs] \<and>
     va_validation a = map (\<lambda>n. \<lparr>fv_name = vs_name (specs ! n),
        fv_valid = valid (validateReceipt (fe_sha env) (validation_receipt env opts n (specs ! n))),
        fv_exitStatus = vr_exitStatus (fc_runValidation (fo_checks opts) n (specs ! n))\<rparr>) [0..<length specs] \<and>
     (\<forall>n<length specs. map_get (st_files (va_store a)) (FValidation, receiptId env ''val'' n) =
        Some (validation_receipt env opts n (specs ! n)))"

lemma validation_inv_step:
  assumes "validation_inv env opts specs a" "validate_one env opts a spec = Inr b"
  shows "validation_inv env opts (specs @ [spec]) b"
proof -
  let ?n = "length specs"
  have n: "length (va_ids a) = ?n" using assms(1) by (simp add: validation_inv_def)
  obtain e st where w: "writeReceiptImmutable (fo_sessionId opts) FValidation (receiptId env ''val'' ?n)
      (validation_receipt env opts ?n spec) (va_store a) = Inr (e, st)"
    and b: "va_store b = st" "va_ids b = va_ids a @ [receiptId env ''val'' ?n]"
      "va_validation b = va_validation a @ [\<lparr>fv_name = vs_name spec,
        fv_valid = valid (validateReceipt (fe_sha env) (validation_receipt env opts ?n spec)),
        fv_exitStatus = vr_exitStatus (fc_runValidation (fo_checks opts) ?n spec)\<rparr>]"
    using assms(2) by (auto simp: validate_one_def n Let_def)
  have fresh: "map_get (st_files (va_store a)) (FValidation, receiptId env ''val'' ?n) = None"
    using w by (simp add: writeReceiptImmutable_Inr)
  have "receiptId env ''val'' n \<noteq> receiptId env ''val'' ?n" if "n < ?n" for n
    using assms(1) that fresh by (auto simp: validation_inv_def)
  then show ?thesis
    using assms(1) store_ok_write [OF _ w] write_get [OF w]
    by (auto simp: validation_inv_def b nth_append less_Suc_eq)
qed

lemma validation_loop_inv:
  "for_each (validate_one env opts) (validation_acc0 st) specs = Inr a \<Longrightarrow> store_ok st \<Longrightarrow>
     validation_inv env opts specs a"
  by (erule for_each_invariant) (auto simp: validation_inv_def [of _ _ "[]"] validation_acc0_def
      intro: validation_inv_step)

lemma check_persisted_all:
  assumes "for_each (check_persisted sha st commit) [] ids = Inr []"
  shows "\<forall>i\<in>set ids. check_persisted sha st commit [] i = Inr []"
proof -
  have grow: "\<exists>d. v = u @ d \<and> check_persisted sha st commit [] x = Inr d"
    if "check_persisted sha st commit u x = Inr v" for u x v
    using that by (auto simp: check_persisted_def split: option.splits)
  have "([] :: string list) = [] \<longrightarrow> (\<forall>i\<in>set ids. check_persisted sha st commit [] i = Inr [])"
    by (rule for_each_invariant [OF assms, where P = "\<lambda>ys bs. bs = [] \<longrightarrow>
          (\<forall>i\<in>set ys. check_persisted sha st commit [] i = Inr [])"]) (auto dest: grow)
  then show ?thesis by simp
qed

lemma check_persisted_valid:
  assumes "check_persisted sha st commit [] i = Inr []" "store_ok st"
    and "map_get (st_files st) (FValidation, i) = Some r"
  shows "valid (validateReceipt sha r)"
proof -
  obtain e where e: "find (\<lambda>e. ri_receiptId e = i) (readReceiptIndex (Some FValidation) st) = Some e"
    using assms(1) by (auto simp: check_persisted_def split: option.splits)
  then have "ri_path e = (FValidation, i)"
    using assms(2) by (auto dest!: find_SomeD simp: readReceiptIndex_def store_ok_def list_all_iff)
  then show ?thesis
    using assms(1,3) e by (auto simp: check_persisted_def readReceiptFile_def split: if_splits)
qed

lemma completion_receipt_valid:
  assumes "valid (validateReceipt sha (completion_receipt env opts ids))"
  shows "truthy_str (fc_resolveCommit (fo_checks opts)) \<and> ids \<noteq> [] \<and>
         (truthy_str (fc_prUrl (fo_checks opts)) \<or> truthy_str (fc_issueArtifact (fo_checks opts)))"
proof -
  let ?r = "completion_receipt env opts ids"
  have fam: "validateFamily ?r = []" using validateReceipt_valid [OF assms] by metis
  have f: "jget ?r ''family'' = Some (JStr (family_str FCompletion))"
    by (simp add: completion_receipt_def buildReceipt_get)
  have e: "jget ?r ''evidence'' = Some (completion_evidence env opts ids)"
    by (simp add: completion_receipt_def buildReceipt_get)
  have "validateCompletion (Some (completion_evidence env opts ids)) = []"
    using fam by (simp add: validateFamily_family_str [OF f] family_check_def e)
  then show ?thesis
    by (auto simp: validateCompletion_def completion_evidence_def truthy_opt_def truthy_str_def
        str_or_null_def split: option.splits)
qed

text \<open>The gate passes only on receipts that are all valid.\<close>

lemma finalize_gate_passed:
  assumes "validation_inv env opts specs a" "finalize_gate env opts a = Inr []"
  shows "list_all fv_valid (va_validation a) \<and> gate_blockers opts a = []"
proof -
  have gate: "gate_blockers opts a = []"
    "for_each (check_persisted (fe_sha env) (va_store a) (fc_resolveCommit (fo_checks opts))) [] (va_ids a) = Inr []"
    using assms(2) by (auto simp: finalize_gate_def Let_def split: if_splits)
  have ok: "valid (validateReceipt (fe_sha env) (validation_receipt env opts n (specs ! n)))"
    if "n < length specs" for n
  proof (rule check_persisted_valid)
    show "store_ok (va_store a)" using assms(1) by (simp add: validation_inv_def)
    show "check_persisted (fe_sha env) (va_store a) (fc_resolveCommit (fo_checks opts)) []
        (receiptId env ''val'' n) = Inr []"
      using check_persisted_all [OF gate(2)] assms(1) that by (simp add: validation_inv_def)
    show "map_get (st_files (va_store a)) (FValidation, receiptId env ''val'' n) =
        Some (validation_receipt env opts n (specs ! n))"
      using assms(1) that by (simp add: validation_inv_def)
  qed
  have "va_validation a = map (\<lambda>n. \<lparr>fv_name = vs_name (specs ! n),
        fv_valid = valid (validateReceipt (fe_sha env) (validation_receipt env opts n (specs ! n))),
        fv_exitStatus = vr_exitStatus (fc_runValidation (fo_checks opts) n (specs ! n))\<rparr>) [0..<length specs]"
    using assms(1) by (simp add: validation_inv_def)
  then show ?thesis using gate(1) ok by (simp add: list_all_iff)
qed

lemma runFinalize_completed:
  assumes "runFinalize env opts st = Inr (r, st')" "fr_completed r" "\<not> fo_reviewOnly opts" "store_ok st"
  obtains a where "validation_inv env opts (fo_validationCommands opts) a"
    "finalize_gate env opts a = Inr []" "fr_validation r = va_validation a" "fr_blockers r = []"
    "valid (validateReceipt (fe_sha env) (completion_receipt env opts (va_ids a)))"
    "fr_receiptPath r = Some (FCompletion, receiptId env ''done'' (length (va_ids a)))"
    "readReceiptFile (FCompletion, receiptId env ''done'' (length (va_ids a))) st' =
       Inr (completion_receipt env opts (va_ids a))"
proof -
  obtain a where a: "for_each (validate_one env opts) (validation_acc0 st) (fo_validationCommands opts) = Inr a"
    using assms(1,3) by (auto simp: runFinalize_def)
  obtain bs where bs: "finalize_gate env opts a = Inr bs"
    using assms(1,3) by (auto simp: runFinalize_def a)
  have "bs = []"
    using assms(1-3) by (auto simp: runFinalize_def a bs finalize_base_def split: if_splits)
  then have run: "andThen (writeReceiptImmutable (fo_sessionId opts) FCompletion
        (receiptId env ''done'' (length (va_ids a))) (completion_receipt env opts (va_ids a)) (va_store a))
      (\<lambda>(entry, st'). Inr (finalize_base opts a\<lparr>
         fr_completed := valid (validateReceipt (fe_sha env) (completion_receipt env opts (va_ids a))),
         fr_receiptPath := Some (ri_path entry),
         fr_blockers := (if valid (validateReceipt (fe_sha env) (completion_receipt env opts (va_ids a))) then []
           else reasons (validateReceipt (fe_sha env) (completion_receipt env opts (va_ids a))))\<rparr>, st')) = Inr (r, st')"
    using assms(1,3) by (simp add: runFinalize_def a bs Let_def)
  show ?thesis
  proof (rule that [of a])
    show "validation_inv env opts (fo_validationCommands opts) a" by (rule validation_loop_inv [OF a assms(4)])
    show "finalize_gate env opts a = Inr []" using bs \<open>bs = []\<close> by simp
  qed (use run assms(2) in \<open>auto simp: finalize_base_def writeReceiptImmutable_Inr readReceiptFile_def\<close>)
qed

lemma runFinalize_evidence_gated_core:
  assumes "runFinalize env opts st = Inr (r, st')" "fr_completed r" "\<not> fo_reviewOnly opts" "store_ok st"
  shows "fo_validationCommands opts \<noteq> [] \<and>
         (\<forall>n<length (fo_validationCommands opts).
            vr_pass (fc_runValidation (fo_checks opts) n (fo_validationCommands opts ! n))) \<and>
         length (fr_validation r) = length (fo_validationCommands opts) \<and>
         list_all fv_valid (fr_validation r) \<and>
         (\<exists>c. fc_resolveCommit (fo_checks opts) = Some c \<and> c \<noteq> [] \<and>
            (fo_requireCommit opts \<longrightarrow> fc_commitOnBranch (fo_checks opts) c (fo_branch opts))) \<and>
         (truthy_str (fc_prUrl (fo_checks opts)) \<or> truthy_str (fc_issueArtifact (fo_checks opts))) \<and>
         fr_blockers r = [] \<and>
         (\<exists>p v. fr_receiptPath r = Some p \<and> readReceiptFile p st' = Inr v \<and> valid (validateReceipt (fe_sha env) v))"
proof -
  obtain a where a: "validation_inv env opts (fo_validationCommands opts) a"
    "finalize_gate env opts a = Inr []" "fr_validation r = va_validation a" "fr_blockers r = []"
    "valid (validateReceipt (fe_sha env) (completion_receipt env opts (va_ids a)))"
    "fr_receiptPath r = Some (FCompletion, receiptId env ''done'' (length (va_ids a)))"
    "readReceiptFile (FCompletion, receiptId env ''done'' (length (va_ids a))) st' =
       Inr (completion_receipt env opts (va_ids a))"
    by (rule runFinalize_completed [OF assms])
  note gate = finalize_gate_passed [OF a(1,2)]
  have passes: "vr_pass (fc_runValidation (fo_checks opts) n (fo_validationCommands opts ! n))"
    if "n < length (fo_validationCommands opts)" for n
    using gate a(1) that by (intro validation_receipt_valid [where sha = "fe_sha env" and env = env])
      (auto simp: validation_inv_def list_all_iff)
  have "commit_blockers opts = []" using gate by (simp add: gate_blockers_def)
  then have "fo_requireCommit opts \<longrightarrow> (\<exists>c. fc_resolveCommit (fo_checks opts) = Some c \<and>
      fc_commitOnBranch (fo_checks opts) c (fo_branch opts))"
    by (auto simp: commit_blockers_def split: option.splits if_splits)
  then have "\<exists>c. fc_resolveCommit (fo_checks opts) = Some c \<and> c \<noteq> [] \<and>
      (fo_requireCommit opts \<longrightarrow> fc_commitOnBranch (fo_checks opts) c (fo_branch opts))"
    using completion_receipt_valid [OF a(5)] by (auto simp: truthy_str_def split: option.splits)
  moreover have "fo_validationCommands opts \<noteq> []"
    using completion_receipt_valid [OF a(5)] a(1) by (auto simp: validation_inv_def)
  ultimately show ?thesis
    using passes gate a completion_receipt_valid [OF a(5)]
    by (auto simp: validation_inv_def)
qed


definition demo_env :: finalize_env where
  "demo_env = \<lparr>fe_sha = (\<lambda>_. ''h''), fe_time = (\<lambda>n. n), fe_iso = (\<lambda>_. ''t''), fe_rand = (\<lambda>_. ''ab''),
     fe_ellipsis = ''..''\<rparr>"

definition demo_opts :: finalize_options where
  "demo_opts = \<lparr>fo_sessionId = ''s1'', fo_workspace = ''/w'', fo_branch = ''main'', fo_requireTests = True,
     fo_requireCommit = True, fo_requirePr = True, fo_reviewOnly = False, fo_verdict = None,
     fo_assistantText = None, fo_prTarget = None,
     fo_validationCommands = [\<lparr>vs_name = ''test'', vs_command = ''bun test''\<rparr>],
     fo_checks = \<lparr>fc_runValidation = (\<lambda>_ s. \<lparr>vr_exactCommand = vs_command s, vr_cwd = ''/w'',
        vr_exitStatus = 0, vr_pass = True\<rparr>), fc_resolveCommit = Some ''abc'',
        fc_commitOnBranch = (\<lambda>_ b. b = ''main''), fc_prUrl = Some ''pr'', fc_issueArtifact = None\<rparr>\<rparr>"

lemma demo_completes: "\<exists>r st. runFinalize demo_env demo_opts empty_store = Inr (r, st) \<and> fr_completed r"
proof -
  have "case runFinalize demo_env demo_opts empty_store of Inl _ \<Rightarrow> False | Inr p \<Rightarrow> fr_completed (fst p)"
    by code_simp
  then show ?thesis by (auto split: sum.splits)
qed


section \<open>Review-only sessions\<close>

lemma scan_verdict_vocabulary:
  "scan_verdict w s l = Some v \<Longrightarrow> (\<And>x. l = Some x \<Longrightarrow> x \<in> set REVIEW_VERDICTS) \<Longrightarrow> v \<in> set REVIEW_VERDICTS"
proof (induction s arbitrary: w l rule: length_induct)
  case (1 s)
  show ?case
  proof (cases s)
    case Nil
    then show ?thesis using 1 by (simp add: scan_verdict_Nil)
  next
    case (Cons c cs)
    show ?thesis
    proof (cases "match_token w s")
      case None
      then have "scan_verdict (is_word_char c) cs l = Some v" using 1 Cons by (simp add: scan_verdict_skip)
      moreover have "length cs < length s" using Cons by simp
      ultimately show ?thesis using 1 by blast
    next
      case (Some tv)
      obtain t u where tv: "tv = (t, u)" by (cases tv)
      have t: "t \<noteq> []" "u \<in> set REVIEW_VERDICTS" using match_tokenD [of w s t u] Some tv by simp_all
      have "scan_verdict True (drop (length t) s) (Some u) = Some v"
        using 1 scan_verdict_match [of w s t u l] Some tv Cons by simp
      moreover have "length (drop (length t) s) < length s" using t(1) Cons by (cases t) auto
      ultimately show ?thesis using "1.IH" t(2) by blast
    qed
  qed
qed

lemma token_no_space: "(t, v) \<in> set VERDICT_TOKENS \<Longrightarrow> CHR '' '' \<notin> set t"
  by (auto simp: VERDICT_TOKENS_def REVIEW_VERDICTS_def)

lemma starts_with_before_space:
  assumes "starts_with (s @ CHR '' '' # v) t" "CHR '' '' \<notin> set t"
  shows "length t \<le> length s"
proof (rule ccontr)
  assume "\<not> length t \<le> length s"
  then have "t = take (length t) (s @ CHR '' '' # v)" "length s < length t"
    using assms(1) by (simp_all add: starts_with_def)
  then have "t ! length s = CHR '' ''" by (metis nth_append_length nth_take)
  then show False using \<open>length s < length t\<close> assms(2) nth_mem by metis
qed

lemma scan_verdict_last:
  assumes "v \<in> set REVIEW_VERDICTS"
  shows "scan_verdict w (s @ CHR '' '' # v) l = Some v"
proof (induction s arbitrary: w l rule: length_induct)
  case (1 s)
  show ?case
  proof (cases "match_token w (s @ CHR '' '' # v)")
    case (Some tv)
    obtain t u where tv: "tv = (t, u)" by (cases tv)
    have t: "starts_with (s @ CHR '' '' # v) t" "(t, u) \<in> set VERDICT_TOKENS" "t \<noteq> []"
      using Some match_tokenD [of w _ t u] tv
      by (auto simp: match_token_def split: if_splits dest!: find_SomeD)
    have len: "length t \<le> length s" by (rule starts_with_before_space [OF t(1) token_no_space [OF t(2)]])
    then have "scan_verdict w (s @ CHR '' '' # v) l = scan_verdict True (drop (length t) s @ CHR '' '' # v) (Some u)"
      using scan_verdict_match [of w "s @ CHR '' '' # v" t u l] Some tv by simp
    moreover have "length (drop (length t) s) < length s" using t(3) len by (cases t) auto
    ultimately show ?thesis using 1 by simp
  next
    case None
    show ?thesis
    proof (cases s)
      case Nil
      have "scan_verdict False v l = Some v"
        using assms by (auto simp: REVIEW_VERDICTS_def scan_verdict.simps match_token_def VERDICT_TOKENS_def
            word_hd_def is_word_char_def is_digit_def starts_with_def)
      then show ?thesis
        using None Nil by (simp add: scan_verdict_skip) (simp add: is_word_char_def is_digit_def)
    next
      case (Cons c cs)
      then have "scan_verdict w (s @ CHR '' '' # v) l = scan_verdict (is_word_char c) (cs @ CHR '' '' # v) l"
        using None by (simp add: scan_verdict_skip)
      then show ?thesis using 1 Cons by simp
    qed
  qed
qed

lemma extractReviewVerdict_vocabulary: "extractReviewVerdict t = Some v \<Longrightarrow> v \<in> set REVIEW_VERDICTS"
  by (auto simp: extractReviewVerdict_def split: option.splits if_splits dest: scan_verdict_vocabulary)

text \<open>
  The last verdict wins: an assistant text that ends in a verdict of the closed vocabulary,
  after a space, yields exactly that verdict whatever stands before it; and every extracted
  verdict belongs to the vocabulary.
\<close>

theorem extractReviewVerdict_last_wins:
  "(v \<in> set REVIEW_VERDICTS \<longrightarrow> extractReviewVerdict (Some (s @ '' '' @ v)) = Some v) \<and>
   (extractReviewVerdict t = Some u \<longrightarrow> u \<in> set REVIEW_VERDICTS)"
  by (simp add: extractReviewVerdict_def scan_verdict_last)
    (metis extractReviewVerdict_def extractReviewVerdict_vocabulary)

theorem extractReviewVerdict_last_wins_witness:
  "extractReviewVerdict (Some (''APPROVE_MERGE_READY was premature:'' @ '' '' @ ''REQUEST_CHANGES'')) =
     Some ''REQUEST_CHANGES''"
  using extractReviewVerdict_last_wins [of "''REQUEST_CHANGES''" "''APPROVE_MERGE_READY was premature:''"]
  by (simp add: REVIEW_VERDICTS_def)

lemma review_verdict_of_vocabulary: "review_verdict_of opts = Some v \<Longrightarrow> v \<in> set REVIEW_VERDICTS"
  by (auto simp: review_verdict_of_def isReviewVerdict_def split: option.splits if_splits
      dest: extractReviewVerdict_vocabulary)

text \<open>
  A review session ends by a verdict and by nothing else: the review finalizer reports
  \<open>completed\<close> only for a valid \<open>APPROVE_MERGE_READY\<close> or \<open>REQUEST_CHANGES\<close>
  verdict with no blocker; a verdict that needs owner confirmation, a missing or an invalid one
  leave a blocker; an explicit verdict outside the vocabulary is never replaced by one found in
  the assistant's text; no commit and no pull request is ever reported; and a receipt is always
  written.
\<close>

theorem runReviewFinalize_verdict_gated:
  assumes "runFinalize env opts st = Inr (r, st')" "fo_reviewOnly opts"
  shows "(fr_completed r \<longrightarrow> fr_verdict r = Some ''APPROVE_MERGE_READY'' \<or> fr_verdict r = Some ''REQUEST_CHANGES'') \<and>
         (fr_completed r \<longleftrightarrow> fr_blockers r = []) \<and>
         (\<forall>v. fo_verdict opts = Some v \<and> v \<notin> set REVIEW_VERDICTS \<longrightarrow> fr_verdict r = None \<and> \<not> fr_completed r) \<and>
         fr_commitHash r = None \<and> fr_prUrl r = None \<and> fr_issueArtifact r = None \<and>
         (\<exists>p v. fr_receiptPath r = Some p \<and> readReceiptFile p st' = Inr v)"
proof -
  have out: "valid (validateReceipt sha x) \<longleftrightarrow> reasons (validateReceipt sha x) = []" for sha x
    by (cases x) (simp_all add: validateReceipt_def Let_def)
  have run: "runReviewFinalize env opts st = Inr (r, st')" using assms by (simp add: runFinalize_def)
  show ?thesis
  proof (cases "review_verdict_of opts")
    case None
    then show ?thesis
      using run by (auto simp: runReviewFinalize_def Let_def review_base_def writeReceiptImmutable_Inr
          readReceiptFile_def split: if_splits)
  next
    case (Some v)
    have vocab: "v = ''APPROVE_MERGE_READY'' \<or> v = ''REQUEST_CHANGES'' \<or> v = ''OWNER_CONFIRMATION_REQUIRED''"
      using review_verdict_of_vocabulary [OF Some] by (simp add: REVIEW_VERDICTS_def)
    have explicit: "fo_verdict opts = Some u \<Longrightarrow> u \<in> set REVIEW_VERDICTS" for u
      using Some by (auto simp: review_verdict_of_def isReviewVerdict_def split: if_splits)
    let ?vo = "validateReceipt (fe_sha env) (review_receipt env opts FReviewVerdict
        (receiptId env ''verdict'' 0) (review_verdict_evidence env opts v))"
    let ?p = "(FReviewVerdict, receiptId env ''verdict'' 0)"
    have r: "fr_completed r \<longleftrightarrow> reasons ?vo = [] \<and> v \<noteq> ''OWNER_CONFIRMATION_REQUIRED''"
      "fr_verdict r = Some v" "fr_receiptPath r = Some ?p" "readReceiptFile ?p st' =
         Inr (review_receipt env opts FReviewVerdict (receiptId env ''verdict'' 0) (review_verdict_evidence env opts v))"
      "fr_commitHash r = None" "fr_prUrl r = None" "fr_issueArtifact r = None"
      "fr_blockers r = (if reasons ?vo \<noteq> [] then reasons ?vo
         else if v = ''OWNER_CONFIRMATION_REQUIRED'' then [''owner-confirmation-required''] else [])"
      using run by (auto simp: runReviewFinalize_def Some Let_def review_base_def writeReceiptImmutable_Inr out
          readReceiptFile_def)
    have "fr_completed r \<longleftrightarrow> fr_blockers r = []" by (simp add: r(1,8))
    with vocab explicit r show ?thesis by blast
  qed
qed

theorem runReviewFinalize_verdict_gated_witness:
  "\<exists>r st. runFinalize demo_env (demo_opts\<lparr>fo_reviewOnly := True, fo_verdict := Some ''LGTM''\<rparr>) empty_store =
      Inr (r, st) \<and> \<not> fr_completed r \<and> fr_blockers r \<noteq> []"
proof -
  let ?o = "demo_opts\<lparr>fo_reviewOnly := True, fo_verdict := Some ''LGTM''\<rparr>"
  have "case runFinalize demo_env ?o empty_store of Inl _ \<Rightarrow> False | Inr p \<Rightarrow> True" by code_simp
  then obtain r st where r: "runFinalize demo_env ?o empty_store = Inr (r, st)"
    by (auto split: sum.splits)
  have opt: "fo_reviewOnly ?o" "fo_verdict ?o = Some ''LGTM''" "''LGTM'' \<notin> set REVIEW_VERDICTS"
    by (simp_all add: REVIEW_VERDICTS_def)
  have "\<not> fr_completed r \<and> fr_blockers r \<noteq> []"
    using runReviewFinalize_verdict_gated [OF r opt(1)] opt(2,3) by blast
  with r show ?thesis by blast
qed

end
