(* ===== verification/Harness_Operate.thy ===== *)
theory Harness_Operate
  imports Harness_Finalize
begin

text \<open>
  The autonomous loop of the harness (\<open>operate.ts\<close>) with what it calls: single-flight
  prompt acceptance (\<open>session-transport.ts\<close>), worktree preservation (\<open>preserve.ts\<close>),
  the classifier, vanish receipts and the finalizer. Observations, transport replies, git and the
  clock are parameters, indexed by the number of the call. The loop of the code counts up to
  \<open>maxIterations\<close>; the model recurses on the iterations that remain, so no fuel is added.
  The trace records the emitted events and the actions of the loop in order.
\<close>

section \<open>Single-flight acceptance (session-transport.ts)\<close>

record session_state_snapshot =
  isStreaming :: bool
  steeringQueueDepth :: int
  followupQueueDepth :: int

text \<open>The replies of one submission: state, event cursor, command id and ack, agent start.\<close>

record transport_replies =
  tr_state :: session_state_snapshot
  tr_cursor :: int
  tr_commandId :: string
  tr_ack :: bool
  tr_agentStart :: "int option"

record acceptance_result =
  ar_accepted :: bool
  ar_reason :: string
  ar_commandId :: "string option"
  ar_preSubmitCursor :: int
  ar_agentStartCursor :: "int option"
  ar_preSubmitState :: session_state_snapshot
  ar_promptSent :: bool

definition singleFlightAccept :: "transport_replies \<Rightarrow> acceptance_result" where
  "singleFlightAccept t =
     (let pre = tr_state t;
          result = (\<lambda>ok why cmd start sent. \<lparr>ar_accepted = ok, ar_reason = why, ar_commandId = cmd,
             ar_preSubmitCursor = tr_cursor t, ar_agentStartCursor = start, ar_preSubmitState = pre,
             ar_promptSent = sent\<rparr>)
      in if isStreaming pre \<or> steeringQueueDepth pre > 0 \<or> followupQueueDepth pre > 0
           then result False ''pre-state-not-idle'' None None False
         else if \<not> tr_ack t then result False ''no-ack'' (Some (tr_commandId t)) None True
         else (case tr_agentStart t of
             None \<Rightarrow> result False ''no-agent-start-within-timeout'' (Some (tr_commandId t)) None True
           | Some c \<Rightarrow> result True ''protocol-ack-single-flight'' (Some (tr_commandId t)) (Some c) True))"

section \<open>Worktree preservation (preserve.ts)\<close>

text \<open>
  What git and the file system answer; \<open>None\<close> is a command or a read that throws.
  \<open>gv_read\<close> gives the size and the hash of an untracked file.
\<close>

record git_view =
  gv_diff :: "string option"
  gv_untracked :: "string option"
  gv_read :: "string \<Rightarrow> (nat \<times> string) option"
  gv_stashCreate :: "string option"
  gv_stashStore :: bool

record untracked_entry =
  ue_path :: string
  ue_size :: int
  ue_sha256 :: string

record preserve_result =
  p_gitDelta :: git_delta
  p_trackedDiff :: string
  p_trackedDiffSha256 :: string
  p_untrackedManifest :: "untracked_entry list"
  p_stashRef :: "string option"
  p_snapshotComplete :: bool

definition preserveDirtyWorktree :: "(string \<Rightarrow> string) \<Rightarrow> git_view \<Rightarrow> preserve_result" where
  "preserveDirtyWorktree sha g =
     (let trackedDiff = (case gv_diff g of None \<Rightarrow> [] | Some d \<Rightarrow> d);
          untracked = (case gv_untracked g of None \<Rightarrow> []
            | Some txt \<Rightarrow> filter (\<lambda>s. s \<noteq> []) (map trim (split_on (CHR 0x0A) txt)));
          manifest = map (\<lambda>rel. case gv_read g rel of
              Some (sz, h) \<Rightarrow> \<lparr>ue_path = rel, ue_size = int sz, ue_sha256 = h\<rparr>
            | None \<Rightarrow> \<lparr>ue_path = rel, ue_size = -1, ue_sha256 = ''unreadable''\<rparr>) untracked;
          stashRef = (case gv_stashCreate g of None \<Rightarrow> None
            | Some out \<Rightarrow> (let oid = trim out in if oid \<noteq> [] \<and> gv_stashStore g then Some oid else None));
          dirty = (trim trackedDiff \<noteq> [] \<or> manifest \<noteq> []);
          trackedCaptured = (trim trackedDiff = [] \<or> stashRef \<noteq> None);
          untrackedCaptured = list_all (\<lambda>e. ue_sha256 e \<noteq> ''unreadable'') manifest
      in \<lparr>p_gitDelta = (if dirty then Dirty else Clean), p_trackedDiff = trackedDiff,
          p_trackedDiffSha256 = sha trackedDiff, p_untrackedManifest = manifest, p_stashRef = stashRef,
          p_snapshotComplete = (trackedCaptured \<and> untrackedCaptured)\<rparr>)"

section \<open>The loop (operate.ts)\<close>

definition classification_str :: "recovery_classification \<Rightarrow> string" where
  "classification_str c = (case c of Continue \<Rightarrow> ''continue'' | SendEnter \<Rightarrow> ''send-enter''
   | ReinjectPrompt \<Rightarrow> ''reinject-prompt'' | RestartClean \<Rightarrow> ''restart-clean''
   | RestartPreserveDelta \<Rightarrow> ''restart-preserve-delta'' | FallbackCodexExec \<Rightarrow> ''fallback-codex-exec''
   | HumanCheck \<Rightarrow> ''human-check'')"

record operate_options =
  oo_sessionId :: string
  oo_workspace :: string
  oo_branch :: string
  oo_finalizeChecks :: finalize_checks
  oo_validationCommands :: "validation_command_spec list"
  oo_retryBudget :: retry_budget
  oo_maxIterations :: nat

text \<open>
  \<open>oe_transport t n\<close> are the replies of the n-th submission, on the t-th transport that the
  factory has created; \<open>oe_preserve n\<close> is the result of preserving for the n-th receipt.
\<close>

record operate_env =
  oe_fin :: finalize_env
  oe_observe :: "nat \<Rightarrow> observation"
  oe_transport :: "nat \<Rightarrow> nat \<Rightarrow> transport_replies"
  oe_hasFactory :: bool
  oe_preserve :: "nat \<Rightarrow> preserve_result"

datatype op_event =
    OpEmit severity string
  | OpVanish string recovery_classification bool
  | OpAct recovery_classification
  | OpSubmit bool

record op_state =
  os_lifecycle :: lifecycle
  os_accepted :: bool
  os_iterations :: nat
  os_classifications :: "recovery_classification list"
  os_vanishReceiptIds :: "string list"
  os_blockers :: "string list"
  os_budget :: retry_budget
  os_store :: receipt_store
  os_transport :: nat
  os_submits :: nat
  os_trace :: "op_event list"

definition log_ops :: "op_event list \<Rightarrow> op_state \<Rightarrow> op_state" where
  "log_ops es s = s\<lparr>os_trace := os_trace s @ es\<rparr>"

definition is_protected_delta :: "observation \<Rightarrow> bool" where
  "is_protected_delta ob \<longleftrightarrow> gitDelta ob = Dirty \<or> gitDelta ob = UnknownDelta"

definition entry_json :: "untracked_entry \<Rightarrow> json" where
  "entry_json e = JObj [(''path'', JStr (ue_path e)), (''size'', JNum (Fin (of_int (ue_size e)))),
     (''sha256'', JStr (ue_sha256 e))]"

definition vanish_evidence :: "observation \<Rightarrow> recovery_classification \<Rightarrow> preserve_result \<Rightarrow> json" where
  "vanish_evidence ob c p =
     (let dirty = is_protected_delta ob;
          stashRef = (if dirty then p_stashRef p else None)
      in JObj [(''classification'', JStr (classification_str c)),
            (''gitDelta'', JStr (git_delta_str (gitDelta ob))),
            (''gitStatusPorcelain'', JStr (if dirty
               then ''tracked-diff-sha:'' @ p_trackedDiffSha256 p @ '';untracked:'' @
                    nat_str (length (p_untrackedManifest p)) @ '';stash:'' @
                    (case p_stashRef p of None \<Rightarrow> ''none'' | Some r \<Rightarrow> r)
               else join '','' (observedSignals ob))),
            (''untrackedManifest'', JArr (if dirty then map entry_json (p_untrackedManifest p) else [])),
            (''preservation'', JStr (if dirty \<and> truthy_str stashRef then ''stash'' else ''snapshot'')),
            (''stashRef'', str_or_null stashRef),
            (''snapshotComplete'', JBool (if dirty then p_snapshotComplete p else True)),
            (''forbiddenActions'', JArr (if dirty then map JStr [''restart-clean'', ''delete'', ''reset''] else []))])"

definition vanish_input ::
  "operate_env \<Rightarrow> operate_options \<Rightarrow> observation \<Rightarrow> recovery_classification \<Rightarrow> nat \<Rightarrow> build_receipt_input" where
  "vanish_input env opts ob c n =
     \<lparr>bi_receiptId = receiptId (oe_fin env) ''vanish'' n, bi_sessionId = oo_sessionId opts, bi_family = FVanish,
      bi_source = ''operate'',
      bi_subject = \<lparr>rs_workspace = oo_workspace opts, rs_branch = Some (oo_branch opts), rs_head = None, rs_commit = None\<rparr>,
      bi_evidence = vanish_evidence ob c (oe_preserve env n), bi_artifactHashes = [],
      bi_createdAt = fe_iso (oe_fin env) n, bi_valid = True\<rparr>"

text \<open>\<open>writeVanish\<close>: the first component is whether the receipt that was written is valid.\<close>

definition writeVanish ::
  "operate_env \<Rightarrow> operate_options \<Rightarrow> observation \<Rightarrow> recovery_classification \<Rightarrow> op_state \<Rightarrow>
   storage_error + (bool \<times> op_state)" where
  "writeVanish env opts ob c s =
     (let i = vanish_input env opts ob c (length (os_vanishReceiptIds s));
          receipt = buildReceipt (fe_sha (oe_fin env)) i;
          ok = valid (validateReceipt (fe_sha (oe_fin env)) receipt)
      in andThen (writeReceiptImmutable (oo_sessionId opts) FVanish (bi_receiptId i) receipt (os_store s)) (\<lambda>(entry, st).
           Inr (ok, log_ops [OpVanish (bi_receiptId i) c ok, OpEmit (if ok then Critical else Warn) ''vanish_receipt'']
             (s\<lparr>os_store := st, os_vanishReceiptIds := os_vanishReceiptIds s @ [bi_receiptId i]\<rparr>))))"

definition submit :: "operate_env \<Rightarrow> op_state \<Rightarrow> op_state" where
  "submit env s =
     (let acc = ar_accepted (singleFlightAccept (oe_transport env (os_transport s) (os_submits s)))
      in log_ops [OpSubmit acc, OpEmit (if acc then Info else Warn) (if acc then ''prompt_accepted'' else ''prompt_not_accepted'')]
           (s\<lparr>os_accepted := acc, os_submits := os_submits s + 1\<rparr>))"

definition block :: "string \<Rightarrow> op_state \<Rightarrow> op_state" where
  "block why s = s\<lparr>os_lifecycle := Blocked, os_blockers := os_blockers s @ [why]\<rparr>"

text \<open>The transport of a restart: a fresh one if there is a factory.\<close>

definition recreate_transport :: "operate_env \<Rightarrow> op_state \<Rightarrow> op_state" where
  "recreate_transport env s = (if oe_hasFactory env then s\<lparr>os_transport := os_transport s + 1\<rparr> else s)"

text \<open>
  The action of one classification, after its receipt; the flag says whether the loop goes on.
\<close>

definition act :: "operate_env \<Rightarrow> recovery_classification \<Rightarrow> op_state \<Rightarrow> bool \<times> op_state" where
  "act env c s0 =
     (let s = log_ops [OpAct c] s0; b = os_budget s
      in case c of
        ReinjectPrompt \<Rightarrow> (True, submit env (s\<lparr>os_budget := b\<lparr>reinjectPrompt := max 0 (reinjectPrompt b - 1)\<rparr>\<rparr>))
      | RestartClean \<Rightarrow>
          (True, submit env (recreate_transport env (s\<lparr>os_budget := b\<lparr>zeroDeltaVanish := max 0 (zeroDeltaVanish b - 1)\<rparr>\<rparr>)))
      | RestartPreserveDelta \<Rightarrow>
          (True, submit env (recreate_transport env
             (s\<lparr>os_budget := b\<lparr>dirtyVanishPreserve := max 0 (dirtyVanishPreserve b - 1)\<rparr>\<rparr>)))
      | FallbackCodexExec \<Rightarrow> (False, block ''fallback-codex-exec-requested'' s)
      | HumanCheck \<Rightarrow> (False, block ''human-check-required'' s)
      | _ \<Rightarrow> (True, s))"

text \<open>One iteration of the loop.\<close>

definition op_step :: "operate_env \<Rightarrow> operate_options \<Rightarrow> op_state \<Rightarrow> storage_error + (bool \<times> op_state)" where
  "op_step env opts s0 =
     (let ob = oe_observe env (os_iterations s0);
          d = classifyRecovery ob (os_budget s0);
          c = classification d;
          s = log_ops [OpEmit (d_severity d) (''classified:'' @ classification_str c)]
                (s0\<lparr>os_iterations := os_iterations s0 + 1, os_classifications := os_classifications s0 @ [c]\<rparr>)
      in if c = Continue then
           (if ''completed'' \<in> set (observedSignals ob) \<or> o_lifecycle ob = Finalizing
              then Inr (False, s\<lparr>os_lifecycle := Finalizing\<rparr>)
            else Inr (True, s\<lparr>os_lifecycle := (if os_accepted s then Observing else Submitted)\<rparr>))
         else if requiresVanishBeforeAction c then
           andThen (writeVanish env opts ob c s) (\<lambda>(safe, s').
             Inr (if safe then act env c s' else (False, block ''invalid-vanish-receipt'' s')))
         else Inr (act env c s))"

fun operate_loop :: "operate_env \<Rightarrow> operate_options \<Rightarrow> nat \<Rightarrow> op_state \<Rightarrow> storage_error + op_state" where
  "operate_loop env opts 0 s = Inr s"
| "operate_loop env opts (Suc n) s =
     andThen (op_step env opts s) (\<lambda>(go_on, s'). if go_on then operate_loop env opts n s' else Inr s')"

record operate_result =
  or_completed :: bool
  or_lifecycle :: lifecycle
  or_iterations :: nat
  or_classifications :: "recovery_classification list"
  or_vanishReceiptIds :: "string list"
  or_finalize :: "finalize_result option"
  or_blockers :: "string list"
  or_trace :: "op_event list"

definition op_init :: "operate_env \<Rightarrow> operate_options \<Rightarrow> receipt_store \<Rightarrow> op_state" where
  "op_init env opts st =
     (let s = submit env \<lparr>os_lifecycle = Started, os_accepted = False, os_iterations = 0, os_classifications = [],
            os_vanishReceiptIds = [], os_blockers = [], os_budget = oo_retryBudget opts, os_store = st,
            os_transport = 0, os_submits = 0, os_trace = [OpEmit Info ''operate_started'']\<rparr>
      in s\<lparr>os_lifecycle := (if os_accepted s then Observing else Submitted)\<rparr>)"

definition op_finalize_options :: "operate_options \<Rightarrow> finalize_options" where
  "op_finalize_options opts =
     \<lparr>fo_sessionId = oo_sessionId opts, fo_workspace = oo_workspace opts, fo_branch = oo_branch opts,
      fo_requireTests = True, fo_requireCommit = True, fo_requirePr = True, fo_reviewOnly = False,
      fo_verdict = None, fo_assistantText = None, fo_prTarget = None,
      fo_validationCommands = oo_validationCommands opts, fo_checks = oo_finalizeChecks opts\<rparr>"

definition op_result :: "op_state \<Rightarrow> op_event \<Rightarrow> operate_result" where
  "op_result s e =
     \<lparr>or_completed = False, or_lifecycle = os_lifecycle s, or_iterations = os_iterations s,
      or_classifications = os_classifications s, or_vanishReceiptIds = os_vanishReceiptIds s,
      or_finalize = None, or_blockers = os_blockers s, or_trace = os_trace s @ [e]\<rparr>"

definition operate ::
  "operate_env \<Rightarrow> operate_options \<Rightarrow> receipt_store \<Rightarrow> storage_error + (operate_result \<times> receipt_store)" where
  "operate env opts st =
     andThen (operate_loop env opts (oo_maxIterations opts) (op_init env opts st)) (\<lambda>s.
       if os_lifecycle s = Blocked then Inr (op_result s (OpEmit Critical ''operate_blocked''), os_store s)
       else if os_lifecycle s \<noteq> Finalizing
         then Inr (op_result s (OpEmit Info ''operate_observation_window_ended''), os_store s)
       else andThen (runFinalize (oe_fin env) (op_finalize_options opts) (os_store s)) (\<lambda>(f, st').
         Inr ((op_result s (OpEmit (if fr_completed f then Info else Critical) ''operate_finalized''))
                \<lparr>or_completed := fr_completed f, or_lifecycle := (if fr_completed f then Completed else Blocked),
                 or_finalize := Some f, or_blockers := fr_blockers f\<rparr>, st')))"

section \<open>Rules for the loop\<close>

text \<open>
  An invariant \<open>P\<close> of the running loop and what \<open>Q\<close> holds when it ends: after
  an iteration that breaks, or when the iterations are used up.
\<close>

lemma operate_loop_rule:
  assumes "operate_loop env opts n s = Inr t" "P s"
    and "\<And>u v. P u \<Longrightarrow> op_step env opts u = Inr (True, v) \<Longrightarrow> P v"
    and "\<And>u v. P u \<Longrightarrow> op_step env opts u = Inr (False, v) \<Longrightarrow> Q v"
    and "\<And>u. P u \<Longrightarrow> Q u"
  shows "Q t"
  using assms(1,2)
proof (induction n arbitrary: s)
  case (Suc n)
  then obtain b v where v: "op_step env opts s = Inr (b, v)" by auto
  then show ?case
    using Suc assms(3,4) by (cases b) auto
qed (use assms(5) in simp)

lemma submit_sel [simp]:
  "os_lifecycle (submit env s) = os_lifecycle s" "os_iterations (submit env s) = os_iterations s"
  "os_classifications (submit env s) = os_classifications s" "os_budget (submit env s) = os_budget s"
  "os_store (submit env s) = os_store s" "os_blockers (submit env s) = os_blockers s"
  by (simp_all add: submit_def Let_def log_ops_def)

lemma recreate_transport_sel [simp]:
  "os_lifecycle (recreate_transport env s) = os_lifecycle s" "os_iterations (recreate_transport env s) = os_iterations s"
  "os_classifications (recreate_transport env s) = os_classifications s"
  "os_budget (recreate_transport env s) = os_budget s" "os_store (recreate_transport env s) = os_store s"
  "os_trace (recreate_transport env s) = os_trace s"
  by (simp_all add: recreate_transport_def)

lemma block_sel [simp]:
  "os_lifecycle (block why s) = Blocked" "os_iterations (block why s) = os_iterations s"
  "os_classifications (block why s) = os_classifications s" "os_budget (block why s) = os_budget s"
  "os_store (block why s) = os_store s" "os_trace (block why s) = os_trace s"
  by (simp_all add: block_def)

lemma log_ops_sel [simp]:
  "os_lifecycle (log_ops es s) = os_lifecycle s" "os_iterations (log_ops es s) = os_iterations s"
  "os_classifications (log_ops es s) = os_classifications s" "os_budget (log_ops es s) = os_budget s"
  "os_store (log_ops es s) = os_store s" "os_trace (log_ops es s) = os_trace s @ es"
  "os_accepted (log_ops es s) = os_accepted s"
  by (simp_all add: log_ops_def)

lemma writeVanish_sel:
  assumes "writeVanish env opts ob c s = Inr (ok, t)"
  shows "os_lifecycle t = os_lifecycle s" "os_iterations t = os_iterations s"
    "os_classifications t = os_classifications s" "os_budget t = os_budget s"
    "store_ok (os_store s) \<Longrightarrow> store_ok (os_store t)"
    "\<exists>i e. os_trace t = os_trace s @ [OpVanish i c ok, OpEmit e ''vanish_receipt''] \<and>
       readReceiptFile (FVanish, i) (os_store t) =
         Inr (buildReceipt (fe_sha (oe_fin env)) (vanish_input env opts ob c (length (os_vanishReceiptIds s)))) \<and>
       ok = valid (validateReceipt (fe_sha (oe_fin env))
         (buildReceipt (fe_sha (oe_fin env)) (vanish_input env opts ob c (length (os_vanishReceiptIds s)))))"
  using assms by (auto simp: writeVanish_def Let_def log_ops_def readReceiptFile_def write_get store_ok_write)

lemma act_sel:
  assumes "act env c s = (b, t)"
  shows "os_iterations t = os_iterations s" "os_classifications t = os_classifications s" "os_store t = os_store s"
    "os_lifecycle t = (if c = FallbackCodexExec \<or> c = HumanCheck then Blocked else os_lifecycle s)"
    "b \<longleftrightarrow> c \<noteq> FallbackCodexExec \<and> c \<noteq> HumanCheck"
    "reinjectPrompt (os_budget t) =
       (if c = ReinjectPrompt then max 0 (reinjectPrompt (os_budget s) - 1) else reinjectPrompt (os_budget s))"
    "dirtyVanishPreserve (os_budget t) =
       (if c = RestartPreserveDelta then max 0 (dirtyVanishPreserve (os_budget s) - 1)
        else dirtyVanishPreserve (os_budget s))"
    "c = FallbackCodexExec \<or> c = HumanCheck \<Longrightarrow> os_blockers t \<noteq> []"
  using assms by (cases c; force simp: act_def Let_def block_def)+

section \<open>Vanish receipts come first\<close>

text \<open>
  A monitor over the trace: a valid vanish receipt arms its classification, an action disarms,
  and an action that needs a receipt has to find its own classification armed.
\<close>

definition arm :: "bool \<times> recovery_classification option \<Rightarrow> op_event \<Rightarrow> bool \<times> recovery_classification option" where
  "arm m e = (case e of
      OpVanish i c ok \<Rightarrow> (fst m, if ok then Some c else None)
    | OpAct c \<Rightarrow> (fst m \<and> (requiresVanishBeforeAction c \<longrightarrow> snd m = Some c), None)
    | _ \<Rightarrow> m)"

abbreviation monitor :: "op_event list \<Rightarrow> bool \<times> recovery_classification option" where
  "monitor tr \<equiv> foldl arm (True, None) tr"

definition vanish_guarded :: "op_event list \<Rightarrow> bool" where
  "vanish_guarded tr \<longleftrightarrow> fst (monitor tr)"

lemma arm_simps [simp]:
  "arm m (OpEmit sv k) = m" "arm m (OpSubmit a) = m"
  "arm m (OpVanish i c ok) = (fst m, if ok then Some c else None)"
  "arm m (OpAct c) = (fst m \<and> (requiresVanishBeforeAction c \<longrightarrow> snd m = Some c), None)"
  by (simp_all add: arm_def)

lemma monitor_submit [simp]: "monitor (os_trace (submit env s)) = monitor (os_trace s)"
  by (simp add: submit_def Let_def)

lemma act_guarded:
  assumes "vanish_guarded (os_trace s)" "requiresVanishBeforeAction c \<longrightarrow> snd (monitor (os_trace s)) = Some c"
  shows "vanish_guarded (os_trace (snd (act env c s)))"
  using assms by (cases c) (simp_all add: act_def Let_def vanish_guarded_def)

lemma op_step_guarded:
  assumes "vanish_guarded (os_trace s)" "op_step env opts s = Inr (b, t)"
  shows "vanish_guarded (os_trace t)"
proof -
  let ?ob = "oe_observe env (os_iterations s)"
  let ?d = "classifyRecovery ?ob (os_budget s)"
  let ?c = "classification ?d"
  let ?s = "log_ops [OpEmit (d_severity ?d) (''classified:'' @ classification_str ?c)]
      (s\<lparr>os_iterations := os_iterations s + 1, os_classifications := os_classifications s @ [?c]\<rparr>)"
  have s: "vanish_guarded (os_trace ?s)" using assms(1) by (simp add: vanish_guarded_def)
  show ?thesis
  proof (cases "requiresVanishBeforeAction ?c")
    case False
    then show ?thesis
      using assms(2) s act_guarded [OF s, of ?c env]
      by (auto simp: op_step_def Let_def split: if_splits)
  next
    case True
    then obtain ok u where w: "writeVanish env opts ?ob ?c ?s = Inr (ok, u)"
      and t: "(b, t) = (if ok then act env ?c u else (False, block ''invalid-vanish-receipt'' u))"
      using assms(2) by (auto simp: op_step_def Let_def requiresVanishBeforeAction_def)
    obtain i e where tr: "os_trace u = os_trace ?s @ [OpVanish i ?c ok, OpEmit e ''vanish_receipt'']"
      using writeVanish_sel(6) [OF w] by blast
    have g: "vanish_guarded (os_trace u)" "ok \<Longrightarrow> snd (monitor (os_trace u)) = Some ?c"
      using s by (simp_all add: tr vanish_guarded_def)
    show ?thesis
    proof (cases ok)
      case True
      then have "t = snd (act env ?c u)" using t by (metis snd_conv)
      then show ?thesis using act_guarded [OF g(1)] g(2) True by simp
    next
      case False
      then show ?thesis using t g(1) by simp
    qed
  qed
qed

text \<open>The state \<open>u\<close> after classifying as \<open>c\<close> and, if needed, writing a receipt.\<close>

definition advanced :: "op_state \<Rightarrow> recovery_classification \<Rightarrow> op_state \<Rightarrow> bool" where
  "advanced s c u \<longleftrightarrow> os_iterations u = Suc (os_iterations s) \<and>
     os_classifications u = os_classifications s @ [c] \<and> os_budget u = os_budget s \<and>
     os_lifecycle u = os_lifecycle s \<and> (store_ok (os_store s) \<longrightarrow> store_ok (os_store u))"

abbreviation step_class :: "operate_env \<Rightarrow> op_state \<Rightarrow> recovery_classification" where
  "step_class env s \<equiv> classification (classifyRecovery (oe_observe env (os_iterations s)) (os_budget s))"

lemma op_step_cases:
  assumes "op_step env opts s = Inr (b, t)"
  obtains
    (finalizing) u where "step_class env s = Continue" "\<not> b" "advanced s Continue u"
      "''completed'' \<in> set (observedSignals (oe_observe env (os_iterations s))) \<or>
       o_lifecycle (oe_observe env (os_iterations s)) = Finalizing" "t = u\<lparr>os_lifecycle := Finalizing\<rparr>"
  | (continuing) u l where "step_class env s = Continue" "b" "advanced s Continue u"
      "l = Observing \<or> l = Submitted" "t = u\<lparr>os_lifecycle := l\<rparr>"
  | (acted) u where "advanced s (step_class env s) u" "act env (step_class env s) u = (b, t)"
      "step_class env s \<noteq> Continue"
  | (refused) u where "advanced s (step_class env s) u" "\<not> b" "t = block ''invalid-vanish-receipt'' u"
      "step_class env s \<noteq> Continue"
proof -
  let ?ob = "oe_observe env (os_iterations s)"
  let ?d = "classifyRecovery ?ob (os_budget s)"
  let ?c = "classification ?d"
  let ?s = "log_ops [OpEmit (d_severity ?d) (''classified:'' @ classification_str ?c)]
      (s\<lparr>os_iterations := os_iterations s + 1, os_classifications := os_classifications s @ [?c]\<rparr>)"
  have adv: "advanced s ?c ?s" by (simp add: advanced_def)
  show thesis
  proof (cases "?c = Continue")
    case True
    show thesis
    proof (cases "''completed'' \<in> set (observedSignals ?ob) \<or> o_lifecycle ?ob = Finalizing")
      case fin: True
      then have "\<not> b" "t = ?s\<lparr>os_lifecycle := Finalizing\<rparr>"
        using assms True by (simp_all add: op_step_def Let_def)
      then show thesis using finalizing [of ?s] True adv fin by simp
    next
      case False
      then have "b" "t = ?s\<lparr>os_lifecycle := (if os_accepted ?s then Observing else Submitted)\<rparr>"
        using assms True by (simp_all add: op_step_def Let_def)
      then show thesis
        using continuing [of ?s "if os_accepted ?s then Observing else Submitted"] True adv by simp
    qed
  next
    case ne: False
    show thesis
    proof (cases "requiresVanishBeforeAction ?c")
      case False
      then have "act env ?c ?s = (b, t)" using assms ne by (simp add: op_step_def Let_def)
      then show thesis using acted [of ?s] adv ne by simp
    next
      case True
      then obtain ok u where w: "writeVanish env opts ?ob ?c ?s = Inr (ok, u)"
        and t: "(if ok then act env ?c u else (False, block ''invalid-vanish-receipt'' u)) = (b, t)"
        using assms ne by (auto simp: op_step_def Let_def)
      have "advanced s ?c u"
        using adv writeVanish_sel(1-5) [OF w] by (simp add: advanced_def)
      then show thesis
        using acted [of u] refused [of u] t ne by (cases ok) auto
    qed
  qed
qed

text \<open>One iteration classifies the observation of its own number and counts itself.\<close>

lemma op_step_classifies:
  assumes "op_step env opts s = Inr (b, t)"
  shows "os_iterations t = Suc (os_iterations s)"
    "os_classifications t = os_classifications s @ [step_class env s]"
    "store_ok (os_store s) \<Longrightarrow> store_ok (os_store t)"
  using assms by (cases rule: op_step_cases; simp add: advanced_def act_sel)+

lemma classifications_inv:
  assumes "operate_loop env opts n s = Inr t" "length (os_classifications s) = os_iterations s"
    and "\<forall>i<os_iterations s. os_classifications s ! i = RestartClean \<longrightarrow>
           gitDelta (oe_observe env i) = Clean \<or> gitDelta (oe_observe env i) = ZeroDelta"
  shows "length (os_classifications t) = os_iterations t \<and>
         (\<forall>i<os_iterations t. os_classifications t ! i = RestartClean \<longrightarrow>
            gitDelta (oe_observe env i) = Clean \<or> gitDelta (oe_observe env i) = ZeroDelta)"
proof -
  let ?P = "\<lambda>s. length (os_classifications s) = os_iterations s \<and>
         (\<forall>i<os_iterations s. os_classifications s ! i = RestartClean \<longrightarrow>
            gitDelta (oe_observe env i) = Clean \<or> gitDelta (oe_observe env i) = ZeroDelta)"
  have "?P u \<Longrightarrow> op_step env opts u = Inr (b, v) \<Longrightarrow> ?P v" for b u v
    using op_step_classifies [of env opts u b v]
    by (auto simp: nth_append less_Suc_eq dest!: classify_RestartClean)
  then show ?thesis
    using operate_loop_rule [OF assms(1), of ?P ?P] assms(2,3) by blast
qed

lemma loop_guarded:
  "operate_loop env opts n s = Inr t \<Longrightarrow> vanish_guarded (os_trace s) \<Longrightarrow> vanish_guarded (os_trace t)"
  by (rule operate_loop_rule [where P = "\<lambda>s. vanish_guarded (os_trace s)"]) (auto intro: op_step_guarded)

lemma op_init_sel:
  "os_iterations (op_init env opts st) = 0" "os_classifications (op_init env opts st) = []"
  "os_budget (op_init env opts st) = oo_retryBudget opts" "os_store (op_init env opts st) = st"
  "os_lifecycle (op_init env opts st) = Observing \<or> os_lifecycle (op_init env opts st) = Submitted"
  "vanish_guarded (os_trace (op_init env opts st))"
  by (simp_all add: op_init_def Let_def vanish_guarded_def)

text \<open>What a run of \<open>operate\<close> consists of.\<close>

lemma operate_run:
  assumes "operate env opts st = Inr (r, st')"
  obtains s e where "operate_loop env opts (oo_maxIterations opts) (op_init env opts st) = Inr s"
    "or_iterations r = os_iterations s" "or_classifications r = os_classifications s"
    "or_trace r = os_trace s @ [OpEmit e (if os_lifecycle s = Blocked then ''operate_blocked''
       else if os_lifecycle s \<noteq> Finalizing then ''operate_observation_window_ended'' else ''operate_finalized'')]"
  using assms by (auto simp: operate_def op_result_def split: if_splits)

text \<open>
  C1. No destructive recovery without proof: in the trace of every run, whatever is observed and
  whatever the transport, git and the clock answer, each clean restart, preserving restart and
  fallback is preceded by a vanish receipt that was written and validated for that very
  classification and for no earlier action; and a clean restart is only ever classified on an
  observation whose delta is clean or zero, never over dirty or unknown work.
\<close>

theorem operate_vanish_before_action:
  assumes "operate env opts st = Inr (r, st')"
  shows "vanish_guarded (or_trace r) \<and> length (or_classifications r) = or_iterations r \<and>
         (\<forall>i<or_iterations r. or_classifications r ! i = RestartClean \<longrightarrow>
            gitDelta (oe_observe env i) = Clean \<or> gitDelta (oe_observe env i) = ZeroDelta)"
proof -
  obtain s e where s: "operate_loop env opts (oo_maxIterations opts) (op_init env opts st) = Inr s"
    "or_iterations r = os_iterations s" "or_classifications r = os_classifications s"
    "or_trace r = os_trace s @ [OpEmit e (if os_lifecycle s = Blocked then ''operate_blocked''
       else if os_lifecycle s \<noteq> Finalizing then ''operate_observation_window_ended'' else ''operate_finalized'')]"
    by (rule operate_run [OF assms])
  have "vanish_guarded (os_trace s)" by (rule loop_guarded [OF s(1) op_init_sel(6)])
  then show ?thesis
    using classifications_inv [OF s(1)] s(2-4) by (simp add: op_init_sel vanish_guarded_def)
qed

section \<open>Retry budgets\<close>

abbreviation count_of :: "recovery_classification \<Rightarrow> op_state \<Rightarrow> int" where
  "count_of c s \<equiv> int (count_list (os_classifications s) c)"

text \<open>Each retry spends one unit: what was used and what is left stay within the first budget.\<close>

definition budget_inv :: "retry_budget \<Rightarrow> op_state \<Rightarrow> bool" where
  "budget_inv b s \<longleftrightarrow>
     count_of ReinjectPrompt s + max 0 (reinjectPrompt (os_budget s)) = max 0 (reinjectPrompt b) \<and>
     count_of RestartPreserveDelta s + max 0 (dirtyVanishPreserve (os_budget s)) = max 0 (dirtyVanishPreserve b)"

definition budget_post :: "retry_budget \<Rightarrow> op_state \<Rightarrow> bool" where
  "budget_post b s \<longleftrightarrow> count_of ReinjectPrompt s \<le> max 0 (reinjectPrompt b) \<and>
     count_of RestartPreserveDelta s \<le> max 0 (dirtyVanishPreserve b)"

lemma budget_inv_post: "budget_inv b s \<Longrightarrow> budget_post b s"
  by (auto simp: budget_inv_def budget_post_def)

lemma op_step_goes_on:
  assumes "op_step env opts s = Inr (True, t)"
  shows "reinjectPrompt (os_budget t) =
       (if step_class env s = ReinjectPrompt
        then max 0 (reinjectPrompt (os_budget s) - 1) else reinjectPrompt (os_budget s))"
    "dirtyVanishPreserve (os_budget t) =
       (if step_class env s = RestartPreserveDelta
        then max 0 (dirtyVanishPreserve (os_budget s) - 1) else dirtyVanishPreserve (os_budget s))"
  using assms by (cases rule: op_step_cases; simp add: advanced_def act_sel)+

lemma op_step_budget_inv:
  assumes "budget_inv b s" "op_step env opts s = Inr (True, t)"
  shows "budget_inv b t"
  using assms(1) op_step_classifies(2) [OF assms(2)] op_step_goes_on [OF assms(2)]
    classify_ReinjectPrompt [of "oe_observe env (os_iterations s)" "os_budget s"]
    classify_RestartPreserveDelta [of "oe_observe env (os_iterations s)" "os_budget s"]
  by (auto simp: budget_inv_def)

lemma op_step_budget_post:
  assumes "budget_inv b s" "op_step env opts s = Inr (go_on, t)"
  shows "budget_post b t"
  using assms(1) op_step_classifies(2) [OF assms(2)]
    classify_ReinjectPrompt [of "oe_observe env (os_iterations s)" "os_budget s"]
    classify_RestartPreserveDelta [of "oe_observe env (os_iterations s)" "os_budget s"]
  by (auto simp: budget_inv_def budget_post_def)

lemma operate_loop_iterations:
  "operate_loop env opts n s = Inr t \<Longrightarrow> os_iterations t \<le> os_iterations s + n"
proof (induction n arbitrary: s)
  case (Suc n)
  then obtain b v where v: "op_step env opts s = Inr (b, v)" by auto
  then show ?case
    using Suc op_step_classifies(1) [OF v] by (cases b) (auto dest: Suc.IH)
qed simp

text \<open>
  C35. The loop is bounded: it runs at most \<open>maxIterations\<close> iterations, reinjects the prompt
  at most as often as the reinjection budget allows and restarts over a dirty delta at most as
  often as the preservation budget allows, for every sequence of observations.
\<close>

theorem operate_bounded:
  assumes "operate env opts st = Inr (r, st')"
  shows "or_iterations r \<le> oo_maxIterations opts \<and>
         count_list (or_classifications r) ReinjectPrompt \<le> nat (reinjectPrompt (oo_retryBudget opts)) \<and>
         count_list (or_classifications r) RestartPreserveDelta \<le> nat (dirtyVanishPreserve (oo_retryBudget opts))"
proof -
  obtain s e where s: "operate_loop env opts (oo_maxIterations opts) (op_init env opts st) = Inr s"
    "or_iterations r = os_iterations s" "or_classifications r = os_classifications s"
    by (rule operate_run [OF assms]) blast
  have "budget_post (oo_retryBudget opts) s"
  proof (rule operate_loop_rule [OF s(1), where P = "budget_inv (oo_retryBudget opts)"])
    show "budget_inv (oo_retryBudget opts) (op_init env opts st)"
      by (simp add: budget_inv_def op_init_sel)
  qed (auto intro: op_step_budget_inv op_step_budget_post budget_inv_post)
  then show ?thesis
    using operate_loop_iterations [OF s(1)] s(2,3) by (auto simp: budget_post_def op_init_sel)
qed

section \<open>How a run ends\<close>

definition end_signal :: "operate_env \<Rightarrow> op_state \<Rightarrow> bool" where
  "end_signal env s \<longleftrightarrow> 0 < os_iterations s \<and>
     (let ob = oe_observe env (os_iterations s - 1)
      in ''completed'' \<in> set (observedSignals ob) \<or> o_lifecycle ob = Finalizing)"

definition loop_end :: "operate_env \<Rightarrow> op_state \<Rightarrow> bool" where
  "loop_end env s \<longleftrightarrow>
     os_lifecycle s = Observing \<or> os_lifecycle s = Submitted \<or>
     os_lifecycle s = Blocked \<and> os_blockers s \<noteq> [] \<or>
     os_lifecycle s = Finalizing \<and> end_signal env s"

lemma loop_ends:
  assumes "operate_loop env opts n s = Inr t" "os_lifecycle s = Observing \<or> os_lifecycle s = Submitted"
  shows "loop_end env t"
proof (rule operate_loop_rule [OF assms(1), where P = "\<lambda>s. os_lifecycle s = Observing \<or> os_lifecycle s = Submitted"])
  fix u v :: op_state
  assume P: "os_lifecycle u = Observing \<or> os_lifecycle u = Submitted"
  show "os_lifecycle v = Observing \<or> os_lifecycle v = Submitted" if "op_step env opts u = Inr (True, v)"
    using that
  proof (cases rule: op_step_cases)
    case (acted w)
    then show ?thesis using P act_sel(4,5) [OF acted(2)] by (auto simp: advanced_def)
  qed simp_all
  show "loop_end env v" if "op_step env opts u = Inr (False, v)"
    using that
  proof (cases rule: op_step_cases)
    case (finalizing w)
    then show ?thesis by (simp add: loop_end_def end_signal_def advanced_def)
  next
    case (acted w)
    then show ?thesis using act_sel(4,5,8) [OF acted(2)] by (auto simp: loop_end_def)
  qed (simp_all add: loop_end_def block_def)
qed (use assms(2) in \<open>auto simp: loop_end_def\<close>)

lemma loop_store_ok:
  "operate_loop env opts n s = Inr t \<Longrightarrow> store_ok (os_store s) \<Longrightarrow> store_ok (os_store t)"
  by (rule operate_loop_rule [where P = "\<lambda>s. store_ok (os_store s)"]) (auto dest: op_step_classifies(3))

lemma runFinalize_blocked:
  assumes "runFinalize env opts st = Inr (f, st')" "\<not> fr_completed f" "\<not> fo_reviewOnly opts"
  shows "fr_blockers f \<noteq> []"
proof -
  have out: "valid (validateReceipt sha x) \<longleftrightarrow> reasons (validateReceipt sha x) = []" for sha x
    by (cases x) (simp_all add: validateReceipt_def Let_def)
  show ?thesis
    using assms by (auto simp: runFinalize_def Let_def finalize_base_def out split: if_splits)
qed

text \<open>
  C2. A run is reported completed only on evidence: \<open>operate\<close> returns \<open>completed\<close>
  exactly with the lifecycle \<open>completed\<close>, and then its last observation carried the completed
  signal or was finalizing, at least one validation command ran and all of them passed, the commit
  is on the session's branch and a pull request or issue exists. A run that ends blocked names at
  least one blocker, and a run that ends neither way is still observing or submitted, so it can
  be resumed.
\<close>

theorem operate_completes_on_evidence:
  assumes "operate env opts st = Inr (r, st')" "store_ok st"
  shows "(or_completed r \<longleftrightarrow> or_lifecycle r = Completed) \<and>
         (or_completed r \<longrightarrow>
            (let ob = oe_observe env (or_iterations r - 1)
             in ''completed'' \<in> set (observedSignals ob) \<or> o_lifecycle ob = Finalizing) \<and>
            oo_validationCommands opts \<noteq> [] \<and>
            (\<forall>n<length (oo_validationCommands opts).
               vr_pass (fc_runValidation (oo_finalizeChecks opts) n (oo_validationCommands opts ! n))) \<and>
            (\<exists>c. fc_resolveCommit (oo_finalizeChecks opts) = Some c \<and>
               fc_commitOnBranch (oo_finalizeChecks opts) c (oo_branch opts)) \<and>
            (truthy_str (fc_prUrl (oo_finalizeChecks opts)) \<or> truthy_str (fc_issueArtifact (oo_finalizeChecks opts)))) \<and>
         (or_lifecycle r = Blocked \<longrightarrow> or_blockers r \<noteq> []) \<and>
         or_lifecycle r \<in> {Completed, Blocked, Observing, Submitted}"
proof -
  obtain s where s: "operate_loop env opts (oo_maxIterations opts) (op_init env opts st) = Inr s"
    using assms(1) by (auto simp: operate_def)
  have fin: "loop_end env s" "store_ok (os_store s)"
    using loop_ends [OF s] loop_store_ok [OF s] assms(2) op_init_sel(4,5) [of env opts st] by simp_all
  show ?thesis
  proof (cases "os_lifecycle s = Finalizing")
    case False
    then show ?thesis
      using assms(1) fin by (auto simp: operate_def s op_result_def loop_end_def split: if_splits)
  next
    case True
    then obtain f where f: "runFinalize (oe_fin env) (op_finalize_options opts) (os_store s) = Inr (f, st')"
      and r: "r = (op_result s (OpEmit (if fr_completed f then Info else Critical) ''operate_finalized''))
                \<lparr>or_completed := fr_completed f, or_lifecycle := (if fr_completed f then Completed else Blocked),
                 or_finalize := Some f, or_blockers := fr_blockers f\<rparr>"
      using assms(1) by (auto simp: operate_def s)
    have nr: "\<not> fo_reviewOnly (op_finalize_options opts)" by (simp add: op_finalize_options_def)
    have "end_signal env s" using fin True by (simp add: loop_end_def)
    then show ?thesis
      using runFinalize_evidence_gated_core [OF f _ nr fin(2)] runFinalize_blocked [OF f _ nr] r
      by (auto simp: end_signal_def op_result_def op_finalize_options_def Let_def)
  qed
qed

section \<open>Preservation and vanish receipts\<close>

lemma git_delta_str_inject [simp]: "git_delta_str a = git_delta_str b \<longleftrightarrow> a = b"
  by (cases a; cases b; simp add: git_delta_str_def)

lemma validateVanish_evidence:
  "validateVanish (Some (vanish_evidence ob c p)) = [] \<longleftrightarrow>
     (is_protected_delta ob \<longrightarrow> truthy_str (p_stashRef p) \<or> p_snapshotComplete p)"
proof -
  have d: "git_delta_str (gitDelta ob) = ''dirty'' \<or> git_delta_str (gitDelta ob) = ''unknown'' \<longleftrightarrow> is_protected_delta ob"
    by (cases "gitDelta ob") (simp_all add: git_delta_str_def is_protected_delta_def)
  show ?thesis
    using d by (cases "is_protected_delta ob"; cases "p_stashRef p")
      (auto simp: validateVanish_def vanish_evidence_def Let_def includes_str_def truthy_opt_def str_or_null_def
        truthy_str_def)
qed

text \<open>
  What lets a destructive recovery pass: the receipt that \<open>writeVanish\<close> builds validates
  exactly when the delta is not protected, or the tracked changes were stashed, or the snapshot
  is complete. In particular, with real git answers, a dirty worktree whose tracked changes could
  neither be stashed nor are absent never yields a valid receipt, so its owner is not restarted.
  A stash alone is enough, also when untracked files could not be read.
\<close>

theorem vanish_receipt_valid_iff:
  assumes "oo_workspace opts \<noteq> []" "oo_sessionId opts \<noteq> []" "fe_iso (oe_fin env) n \<noteq> []"
  shows "(valid (validateReceipt sha (buildReceipt sha (vanish_input env opts ob c n))) \<longleftrightarrow>
            (is_protected_delta ob \<longrightarrow> truthy_str (p_stashRef (oe_preserve env n)) \<or> p_snapshotComplete (oe_preserve env n))) \<and>
         (is_protected_delta ob \<and> oe_preserve env n = preserveDirtyWorktree sha' g \<and>
          (\<exists>d. gv_diff g = Some d \<and> trim d \<noteq> []) \<and> (gv_stashCreate g = None \<or> \<not> gv_stashStore g) \<longrightarrow>
            \<not> valid (validateReceipt sha (buildReceipt sha (vanish_input env opts ob c n))))"
proof -
  let ?i = "vanish_input env opts ob c n"
  have "input_ok ?i"
    using assms by (simp add: input_ok_def vanish_input_def receiptId_def vanish_evidence_def Let_def)
  then have "valid (validateReceipt sha (buildReceipt sha ?i)) \<longleftrightarrow>
      (is_protected_delta ob \<longrightarrow> truthy_str (p_stashRef (oe_preserve env n)) \<or> p_snapshotComplete (oe_preserve env n))"
    using validateVanish_evidence [of ob c "oe_preserve env n"]
    by (simp add: validateReceipt_buildReceipt) (simp add: vanish_input_def family_check_def)
  moreover have "\<not> truthy_str (p_stashRef (preserveDirtyWorktree sha' g)) \<and> \<not> p_snapshotComplete (preserveDirtyWorktree sha' g)"
    if "\<exists>d. gv_diff g = Some d \<and> trim d \<noteq> []" "gv_stashCreate g = None \<or> \<not> gv_stashStore g"
    using that by (auto simp: preserveDirtyWorktree_def Let_def truthy_str_def split: option.splits)
  ultimately show ?thesis by auto
qed

section \<open>Runs\<close>

definition demo_replies :: transport_replies where
  "demo_replies = \<lparr>tr_state = \<lparr>isStreaming = False, steeringQueueDepth = 0, followupQueueDepth = 0\<rparr>,
     tr_cursor = 3, tr_commandId = ''c'', tr_ack = True, tr_agentStart = Some 4\<rparr>"

definition demo_git :: git_view where
  "demo_git = \<lparr>gv_diff = Some ''diff'', gv_untracked = Some ''new.ts'', gv_read = (\<lambda>_. None),
     gv_stashCreate = Some ''oid'', gv_stashStore = True\<rparr>"

text \<open>The owner vanishes over dirty work, is restarted, and then completes.\<close>

definition demo_operate_env :: operate_env where
  "demo_operate_env = \<lparr>oe_fin = demo_env,
     oe_observe = (\<lambda>n. if n = 0 then vanished_zero_delta\<lparr>gitDelta := Dirty\<rparr>
        else vanished_zero_delta\<lparr>o_ownerLive := True, observedSignals := [''completed'']\<rparr>),
     oe_transport = (\<lambda>_ _. demo_replies), oe_hasFactory = True,
     oe_preserve = (\<lambda>_. preserveDirtyWorktree (\<lambda>_. ''h'') demo_git)\<rparr>"

definition demo_operate_options :: operate_options where
  "demo_operate_options = \<lparr>oo_sessionId = ''s1'', oo_workspace = ''/w'', oo_branch = ''main'',
     oo_finalizeChecks = fo_checks demo_opts, oo_validationCommands = fo_validationCommands demo_opts,
     oo_retryBudget = DEFAULT_RETRY_BUDGET, oo_maxIterations = 10\<rparr>"

theorem vanish_receipt_valid_iff_witness:
  "valid (validateReceipt (\<lambda>_. ''h'') (buildReceipt (\<lambda>_. ''h'')
     (vanish_input demo_operate_env demo_operate_options (vanished_zero_delta\<lparr>gitDelta := Dirty\<rparr>) RestartPreserveDelta 0))) \<and>
   \<not> p_snapshotComplete (preserveDirtyWorktree (\<lambda>_. ''h'') demo_git)"
proof -
  have p: "truthy_str (p_stashRef (oe_preserve demo_operate_env 0))"
    "\<not> p_snapshotComplete (preserveDirtyWorktree (\<lambda>_. ''h'') demo_git)" by code_simp+
  have "oo_workspace demo_operate_options \<noteq> []" "oo_sessionId demo_operate_options \<noteq> []"
    "fe_iso (oe_fin demo_operate_env) 0 \<noteq> []"
    by (simp_all add: demo_operate_options_def demo_operate_env_def demo_env_def)
  from vanish_receipt_valid_iff [OF this] p show ?thesis by blast
qed

lemma demo_operate_run:
  "\<exists>r st. operate demo_operate_env demo_operate_options empty_store = Inr (r, st) \<and> or_completed r \<and>
     or_classifications r = [RestartPreserveDelta, Continue]"
proof -
  have "case operate demo_operate_env demo_operate_options empty_store of Inl _ \<Rightarrow> False
     | Inr p \<Rightarrow> or_completed (fst p) \<and> or_classifications (fst p) = [RestartPreserveDelta, Continue]"
    by code_simp
  then show ?thesis by (auto split: sum.splits)
qed

theorem operate_vanish_before_action_witness:
  "\<exists>r st. operate demo_operate_env demo_operate_options empty_store = Inr (r, st) \<and>
     RestartPreserveDelta \<in> set (or_classifications r) \<and> vanish_guarded (or_trace r)"
proof -
  obtain r st where r: "operate demo_operate_env demo_operate_options empty_store = Inr (r, st)"
    "or_classifications r = [RestartPreserveDelta, Continue]"
    using demo_operate_run by blast
  show ?thesis using operate_vanish_before_action [OF r(1)] r by auto
qed

theorem operate_bounded_witness:
  "\<exists>r st. operate demo_operate_env demo_operate_options empty_store = Inr (r, st) \<and> or_iterations r \<le> 10"
proof -
  obtain r st where r: "operate demo_operate_env demo_operate_options empty_store = Inr (r, st)"
    using demo_operate_run by blast
  have "oo_maxIterations demo_operate_options = 10" by (simp add: demo_operate_options_def)
  then show ?thesis using operate_bounded [OF r] r by auto
qed

theorem operate_completes_on_evidence_witness:
  "\<exists>r st. operate demo_operate_env demo_operate_options empty_store = Inr (r, st) \<and> or_completed r \<and>
     or_lifecycle r = Completed"
proof -
  obtain r st where r: "operate demo_operate_env demo_operate_options empty_store = Inr (r, st)" "or_completed r"
    using demo_operate_run by blast
  show ?thesis using operate_completes_on_evidence [OF r(1) store_ok_empty] r by blast
qed

end
