(* ===== verification/Session_Lease.thy ===== *)
theory Session_Lease
  imports JS_Prelude
begin

text \<open>
  The owner lease of a harness session (\<open>session-lease.ts\<close>). Every operation runs under the
  lease mutation lock, so the model makes each of them one atomic step on the lease file and the
  socket files beside it. Times are milliseconds (the ISO strings of the file denote them); the
  clock value and the process probe of an operation are its arguments. The random token and its
  hash are arguments as well.
\<close>

section \<open>Leases\<close>

datatype endpoint_kind = UnixSocket | Fifo

record lease_writer =
  lw_ownerId :: string
  lw_leaseEpoch :: nat

record session_lease =
  l_ownerId :: string
  l_sessionId :: string
  l_pid :: nat
  l_leaseTokenHash :: string
  l_endpoint :: "(endpoint_kind \<times> string) option"
  l_eventsPath :: string
  l_heartbeatAt :: int
  l_expiresAt :: int
  l_leaseEpoch :: nat
  l_writer :: lease_writer

datatype lease_error = LeaseHeld string | NoLease string | NotLeaseHolder string

datatype lease_status = SMissing | SLive | SExpiredAlive | SDead | SEpermAlive

datatype pid_status = PidAlive | PidDead | PidEperm

text \<open>The lease file and the socket files of one session.\<close>

record lease_files =
  lf_lease :: "session_lease option"
  lf_sockets :: "string list"

definition isExpired :: "session_lease \<Rightarrow> int \<Rightarrow> bool" where
  "isExpired l now \<longleftrightarrow> l_expiresAt l \<le> now"

definition classifyLeaseStatus :: "session_lease option \<Rightarrow> int \<Rightarrow> (nat \<Rightarrow> pid_status) \<Rightarrow> lease_status" where
  "classifyLeaseStatus lease now probe =
     (case lease of None \<Rightarrow> SMissing
      | Some l \<Rightarrow> (case probe (l_pid l) of PidDead \<Rightarrow> SDead | PidEperm \<Rightarrow> SEpermAlive
          | PidAlive \<Rightarrow> if isExpired l now then SExpiredAlive else SLive))"

text \<open>A probe may answer by a boolean.\<close>

definition classifyProbeFromBoolean :: "(nat \<Rightarrow> bool + pid_status) \<Rightarrow> nat \<Rightarrow> pid_status" where
  "classifyProbeFromBoolean probe pid = (case probe pid of
     Inl b \<Rightarrow> if b then PidAlive else PidDead | Inr s \<Rightarrow> s)"

definition isOwnerAlive :: "nat \<Rightarrow> (nat \<Rightarrow> pid_status) \<Rightarrow> bool" where
  "isOwnerAlive pid probe \<longleftrightarrow> probe pid \<noteq> PidDead"

definition isStale :: "session_lease \<Rightarrow> int \<Rightarrow> (nat \<Rightarrow> pid_status) \<Rightarrow> bool" where
  "isStale l now probe \<longleftrightarrow> isExpired l now \<or> \<not> isOwnerAlive (l_pid l) probe"

record acquire_options =
  ao_ownerId :: string
  ao_pid :: nat
  ao_endpoint :: "(endpoint_kind \<times> string) option"
  ao_eventsPath :: string
  ao_ttlMs :: nat
  ao_tokenHash :: string

text \<open>
  The code reads the lease a second time before a takeover and refuses when owner or epoch have
  changed; under the lock both reads return the same file, so the second test cannot fail here.
\<close>

definition acquireLease ::
  "string \<Rightarrow> acquire_options \<Rightarrow> int \<Rightarrow> (nat \<Rightarrow> pid_status) \<Rightarrow> lease_files \<Rightarrow>
   lease_error + (session_lease \<times> lease_files)" where
  "acquireLease sid opts now probe f =
     (let existing = lf_lease f;
          mine = (case existing of None \<Rightarrow> False | Some l \<Rightarrow> l_ownerId l = ao_ownerId opts);
          priorEpoch = (case existing of None \<Rightarrow> 0 | Some l \<Rightarrow> l_leaseEpoch l);
          epoch = (if mine then priorEpoch else priorEpoch + 1);
          lease = \<lparr>l_ownerId = ao_ownerId opts, l_sessionId = sid, l_pid = ao_pid opts,
            l_leaseTokenHash = ao_tokenHash opts, l_endpoint = ao_endpoint opts,
            l_eventsPath = ao_eventsPath opts, l_heartbeatAt = now, l_expiresAt = now + int (ao_ttlMs opts),
            l_leaseEpoch = epoch, l_writer = \<lparr>lw_ownerId = ao_ownerId opts, lw_leaseEpoch = epoch\<rparr>\<rparr>
      in if existing \<noteq> None \<and> \<not> mine \<and> classifyLeaseStatus existing now probe \<noteq> SDead
           then Inl (LeaseHeld sid)
         else Inr (lease, f\<lparr>lf_lease := Some lease\<rparr>))"

definition heartbeat ::
  "string \<Rightarrow> string \<Rightarrow> nat \<Rightarrow> int \<Rightarrow> lease_files \<Rightarrow> lease_error + (session_lease \<times> lease_files)" where
  "heartbeat sid ownerId ttlMs now f =
     (case lf_lease f of None \<Rightarrow> Inl (NoLease sid)
      | Some l \<Rightarrow> (if l_ownerId l \<noteq> ownerId then Inl (NotLeaseHolder sid)
          else (let next = l\<lparr>l_heartbeatAt := now, l_expiresAt := now + int ttlMs\<rparr>
                in Inr (next, f\<lparr>lf_lease := Some next\<rparr>))))"

definition canWriteEvents :: "session_lease \<Rightarrow> string \<Rightarrow> int \<Rightarrow> bool" where
  "canWriteEvents l ownerId now \<longleftrightarrow> l_ownerId l = ownerId \<and> \<not> isExpired l now"

definition releaseLease :: "string \<Rightarrow> string \<Rightarrow> lease_files \<Rightarrow> lease_error + lease_files" where
  "releaseLease sid ownerId f =
     (case lf_lease f of None \<Rightarrow> Inr f
      | Some l \<Rightarrow> (if l_ownerId l \<noteq> ownerId then Inl (NotLeaseHolder sid)
          else Inr (f\<lparr>lf_lease := None\<rparr>)))"

text \<open>
  \<open>controlSock\<close> is the socket path of the session directory and \<open>socketPath\<close> the path
  \<open>controlSocketPath\<close> gives (\<open>None\<close> when it throws), both resolved.
\<close>

definition isOwnedUnixEndpointPath :: "string option \<Rightarrow> string \<Rightarrow> string \<Rightarrow> bool" where
  "isOwnedUnixEndpointPath socketPath endpointPath controlSock \<longleftrightarrow>
     endpointPath = controlSock \<or> socketPath = Some endpointPath"

definition reapDeadOwnerArtifacts ::
  "string \<Rightarrow> string option \<Rightarrow> string \<Rightarrow> nat \<Rightarrow> int \<Rightarrow> (nat \<Rightarrow> pid_status) \<Rightarrow> lease_files \<Rightarrow> bool \<times> lease_files" where
  "reapDeadOwnerArtifacts controlSock socketPath expectedOwnerId expectedEpoch now probe f =
     (case lf_lease f of None \<Rightarrow> (False, f)
      | Some l \<Rightarrow>
          (if l_ownerId l \<noteq> expectedOwnerId \<or> l_leaseEpoch l \<noteq> expectedEpoch then (False, f)
           else if classifyLeaseStatus (Some l) now probe \<noteq> SDead then (False, f)
           else (let owned = (case l_endpoint l of
                       Some (UnixSocket, p) \<Rightarrow> if isOwnedUnixEndpointPath socketPath p controlSock then [p] else []
                     | _ \<Rightarrow> [])
                 in (True, f\<lparr>lf_lease := None,
                             lf_sockets := filter (\<lambda>s. s \<notin> set (controlSock # owned)) (lf_sockets f)\<rparr>))))"

section \<open>The lease as a state machine\<close>

datatype lease_event =
    EAcquire acquire_options int "nat \<Rightarrow> pid_status"
  | EHeartbeat string nat int
  | ERelease string
  | EReap string nat int "nat \<Rightarrow> pid_status"

text \<open>One operation of any process on the files of session \<open>sid\<close>; a failing one writes nothing.\<close>

inductive lease_step :: "string \<Rightarrow> lease_files \<Rightarrow> lease_event \<Rightarrow> lease_files \<Rightarrow> bool" for sid where
  step_acquire: "acquireLease sid opts now probe f = Inr (l, g) \<Longrightarrow> lease_step sid f (EAcquire opts now probe) g"
| step_heartbeat: "heartbeat sid ow ttl now f = Inr (l, g) \<Longrightarrow> lease_step sid f (EHeartbeat ow ttl now) g"
| step_release: "releaseLease sid ow f = Inr g \<Longrightarrow> lease_step sid f (ERelease ow) g"
| step_reap: "reapDeadOwnerArtifacts cs sp ow ep now probe f = (b, g) \<Longrightarrow> lease_step sid f (EReap ow ep now probe) g"

inductive_cases lease_stepE: "lease_step sid f e g"
inductive_simps lease_step_acquire: "lease_step sid f (EAcquire opts now probe) g"
inductive_simps lease_step_heartbeat: "lease_step sid f (EHeartbeat ow ttl now) g"
inductive_simps lease_step_release: "lease_step sid f (ERelease ow) g"
inductive_simps lease_step_reap: "lease_step sid f (EReap ow ep now probe) g"

lemmas lease_ops = acquireLease_def heartbeat_def releaseLease_def reapDeadOwnerArtifacts_def Let_def

definition lease_init :: "lease_files \<Rightarrow> bool" where
  "lease_init f \<longleftrightarrow> lf_lease f = None"

definition lease_ok :: "string \<Rightarrow> session_lease \<Rightarrow> bool" where
  "lease_ok sid l \<longleftrightarrow> l_sessionId l = sid \<and> 1 \<le> l_leaseEpoch l \<and> l_heartbeatAt l \<le> l_expiresAt l \<and>
     l_writer l = \<lparr>lw_ownerId = l_ownerId l, lw_leaseEpoch = l_leaseEpoch l\<rparr>"

definition files_ok :: "string \<Rightarrow> lease_files \<Rightarrow> bool" where
  "files_ok sid f \<longleftrightarrow> (case lf_lease f of None \<Rightarrow> True | Some l \<Rightarrow> lease_ok sid l)"

lemma lease_step_ok: "files_ok sid f \<Longrightarrow> lease_step sid f e g \<Longrightarrow> files_ok sid g"
  by (erule lease_stepE)
    (auto simp: files_ok_def lease_ok_def lease_ops split: option.splits if_splits endpoint_kind.splits)

interpretation lease_machine: machine_invariant lease_init "lease_step sid" "files_ok sid" for sid
  by unfold_locales (simp add: lease_init_def files_ok_def, rule lease_step_ok)

text \<open>
  Every lease file that any interleaving of acquisitions, heartbeats, releases and reaps can
  produce is well formed: it belongs to its session, its epoch is at least one, it does not
  expire before its heartbeat, and its writer record names the owner and the epoch of the lease.
\<close>

theorem reachable_lease_ok:
  assumes "reach lease_init (lease_step sid) f" "lf_lease f = Some l"
  shows "l_sessionId l = sid \<and> 1 \<le> l_leaseEpoch l \<and> l_heartbeatAt l \<le> l_expiresAt l \<and>
         lw_ownerId (l_writer l) = l_ownerId l \<and> lw_leaseEpoch (l_writer l) = l_leaseEpoch l"
  using lease_machine.reachable_inv [OF assms(1)] assms(2) by (simp add: files_ok_def lease_ok_def)

definition demo_acquire :: "string \<Rightarrow> nat \<Rightarrow> acquire_options" where
  "demo_acquire ow pid = \<lparr>ao_ownerId = ow, ao_pid = pid, ao_endpoint = None, ao_eventsPath = ''e'', ao_ttlMs = 100,
     ao_tokenHash = ''h''\<rparr>"

definition held_by_A :: lease_files where
  "held_by_A = (case acquireLease ''s'' (demo_acquire ''A'' 7) 0 (\<lambda>_. PidAlive) \<lparr>lf_lease = None, lf_sockets = []\<rparr> of
     Inr (l, f) \<Rightarrow> f | Inl _ \<Rightarrow> \<lparr>lf_lease = None, lf_sockets = []\<rparr>)"

lemma held_by_A: "reach lease_init (lease_step ''s'') held_by_A"
  "\<exists>l. lf_lease held_by_A = Some l \<and> l_ownerId l = ''A'' \<and> l_pid l = 7 \<and> l_leaseEpoch l = 1 \<and> l_expiresAt l = 100"
proof -
  let ?f = "\<lparr>lf_lease = None, lf_sockets = []\<rparr>"
  have "lease_step ''s'' ?f (EAcquire (demo_acquire ''A'' 7) 0 (\<lambda>_. PidAlive)) held_by_A"
    by (simp add: lease_step_acquire held_by_A_def acquireLease_def Let_def)
  then show "reach lease_init (lease_step ''s'') held_by_A"
    using reach_step [OF reach_init [of lease_init ?f]] by (simp add: lease_init_def)
  show "\<exists>l. lf_lease held_by_A = Some l \<and> l_ownerId l = ''A'' \<and> l_pid l = 7 \<and> l_leaseEpoch l = 1 \<and> l_expiresAt l = 100"
    by (simp add: held_by_A_def acquireLease_def Let_def demo_acquire_def)
qed

theorem reachable_lease_ok_witness:
  "\<exists>l. lf_lease held_by_A = Some l \<and> lw_ownerId (l_writer l) = l_ownerId l"
  using reachable_lease_ok [OF held_by_A(1)] held_by_A(2) by blast

section \<open>Ownership\<close>

text \<open>
  C30. A held lease changes hands safely: whatever operation any process performs on it, the lease
  keeps its owner and epoch, or its own owner released it, or the process of the owner is dead
  at that moment and the lease was taken over under the next epoch or reaped by a caller that
  named its owner and epoch.
\<close>

theorem lease_changes_hands_safely:
  assumes "lease_step sid f e g" "lf_lease f = Some l"
  shows "(\<exists>l'. lf_lease g = Some l' \<and> l_ownerId l' = l_ownerId l \<and> l_leaseEpoch l' = l_leaseEpoch l) \<or>
         e = ERelease (l_ownerId l) \<and> lf_lease g = None \<or>
         (\<exists>opts now probe l'. e = EAcquire opts now probe \<and> probe (l_pid l) = PidDead \<and> lf_lease g = Some l' \<and>
            l_ownerId l' = ao_ownerId opts \<and> l_leaseEpoch l' = Suc (l_leaseEpoch l)) \<or>
         (\<exists>now probe. e = EReap (l_ownerId l) (l_leaseEpoch l) now probe \<and> probe (l_pid l) = PidDead \<and>
            lf_lease g = None)"
  using assms(1)
proof (cases rule: lease_step.cases)
  case (step_acquire opts now probe l0)
  then show ?thesis
    using assms(2) by (auto simp: acquireLease_def classifyLeaseStatus_def Let_def split: if_splits pid_status.splits)
next
  case (step_heartbeat ow ttl now l0)
  then show ?thesis using assms(2) by (auto simp: heartbeat_def Let_def split: if_splits)
next
  case (step_release ow)
  then show ?thesis using assms(2) by (auto simp: releaseLease_def split: if_splits)
next
  case (step_reap cs sp ow ep now probe b)
  then show ?thesis
    using assms(2) by (auto simp: reapDeadOwnerArtifacts_def classifyLeaseStatus_def Let_def
        split: if_splits pid_status.splits)
qed

theorem lease_changes_hands_safely_witness:
  "\<exists>g. lease_step ''s'' held_by_A (EAcquire (demo_acquire ''B'' 8) 50 (\<lambda>_. PidDead)) g \<and>
       (\<exists>l'. lf_lease g = Some l' \<and> l_leaseEpoch l' = 2)"
proof -
  obtain l where l: "lf_lease held_by_A = Some l" "l_ownerId l = ''A''" "l_pid l = 7" "l_leaseEpoch l = 1"
    using held_by_A(2) by blast
  let ?e = "EAcquire (demo_acquire ''B'' 8) 50 (\<lambda>_. PidDead)"
  obtain g where g: "lease_step ''s'' held_by_A ?e g" "\<exists>l'. lf_lease g = Some l' \<and> l_ownerId l' = ''B''"
    using l by (auto simp: lease_step_acquire acquireLease_def Let_def classifyLeaseStatus_def demo_acquire_def)
  show ?thesis
    using lease_changes_hands_safely [OF g(1) l(1)] g l by fastforce
qed

text \<open>
  The successive leases of a session while the lease file exists, newest first.
\<close>

inductive lease_history :: "string \<Rightarrow> lease_files \<Rightarrow> session_lease list \<Rightarrow> bool" for sid where
  history_start: "lf_lease f = Some l \<Longrightarrow> lease_history sid f [l]"
| history_step: "lease_history sid f ls \<Longrightarrow> lease_step sid f e g \<Longrightarrow> lf_lease g = Some l \<Longrightarrow>
     lease_history sid g (l # ls)"

lemma lease_history_hd: "lease_history sid f ls \<Longrightarrow> ls \<noteq> [] \<and> lf_lease f = Some (hd ls)"
  by (induction rule: lease_history.induct) auto

definition not_older :: "session_lease \<Rightarrow> session_lease \<Rightarrow> bool" where
  "not_older new old \<longleftrightarrow> l_leaseEpoch old < l_leaseEpoch new \<or>
     l_leaseEpoch old = l_leaseEpoch new \<and> l_ownerId old = l_ownerId new"

lemma not_older_trans: "not_older a b \<Longrightarrow> not_older b c \<Longrightarrow> not_older a c"
  by (auto simp: not_older_def)

lemma lease_step_not_older:
  assumes "lease_step sid f e g" "lf_lease f = Some l" "lf_lease g = Some l'"
  shows "not_older l' l"
  using assms
proof (cases rule: lease_step.cases)
  case (step_acquire opts now probe l0)
  then show ?thesis using assms(2,3) by (auto simp: acquireLease_def not_older_def Let_def split: if_splits)
next
  case (step_heartbeat ow ttl now l0)
  then show ?thesis using assms(2,3) by (auto simp: heartbeat_def not_older_def Let_def split: if_splits)
next
  case (step_release ow)
  then show ?thesis using assms(2,3) by (auto simp: releaseLease_def split: if_splits)
next
  case (step_reap cs sp ow ep now probe b)
  then show ?thesis
    using assms(2,3) by (auto simp: reapDeadOwnerArtifacts_def not_older_def Let_def split: if_splits)
qed

text \<open>
  The epoch fences writers: along any history of a lease file, epochs never decrease and two
  leases of the same epoch have the same owner, so an owner that was replaced can be told from its
  successor by the epoch alone.
\<close>

theorem lease_epoch_fences:
  "lease_history sid f ls \<Longrightarrow> sorted_wrt not_older ls"
proof (induction rule: lease_history.induct)
  case (history_step f ls e g l)
  then obtain k ks where ls: "ls = k # ks" "lf_lease f = Some k"
    using lease_history_hd by (metis list.exhaust_sel)
  have "not_older l k" by (rule lease_step_not_older [OF history_step.hyps(2) ls(2) history_step.hyps(3)])
  then show ?case
    using history_step.IH ls(1) by (auto intro: not_older_trans)
qed simp

theorem lease_epoch_fences_witness:
  "\<exists>g l l'. lease_history ''s'' g [l', l] \<and> not_older l' l \<and> l_ownerId l' = ''B'' \<and> l_ownerId l = ''A''"
proof -
  obtain l where l: "lf_lease held_by_A = Some l" "l_ownerId l = ''A''" "l_pid l = 7"
    using held_by_A(2) by blast
  obtain g l' where g: "lease_step ''s'' held_by_A (EAcquire (demo_acquire ''B'' 8) 50 (\<lambda>_. PidDead)) g"
    "lf_lease g = Some l'" "l_ownerId l' = ''B''"
    using l by (auto simp: lease_step_acquire acquireLease_def Let_def classifyLeaseStatus_def demo_acquire_def)
  have h: "lease_history ''s'' g [l', l]"
    by (rule history_step [OF history_start [OF l(1)] g(1,2)])
  show ?thesis using lease_epoch_fences [OF h] h g l by auto
qed

text \<open>
  An expired lease of a live process is not taken over: once such a lease has expired its
  owner may no longer append events, and still every other owner's acquisition fails with
  \<open>lease_held\<close>; the lease becomes free only by a release of its owner or by the owner's
  death, although the lease counts as stale.
\<close>

theorem expired_alive_lease_blocks_takeover:
  assumes "lf_lease f = Some l" "isExpired l now" "probe (l_pid l) \<noteq> PidDead" "l_ownerId l \<noteq> ao_ownerId opts"
  shows "acquireLease sid opts now probe f = Inl (LeaseHeld sid) \<and> \<not> canWriteEvents l ow now \<and> isStale l now probe"
  using assms by (auto simp: acquireLease_def classifyLeaseStatus_def canWriteEvents_def isStale_def Let_def
      split: pid_status.splits)

theorem expired_alive_lease_blocks_takeover_witness:
  "acquireLease ''s'' (demo_acquire ''B'' 8) 200 (\<lambda>_. PidAlive) held_by_A = Inl (LeaseHeld ''s'')"
proof -
  obtain l where l: "lf_lease held_by_A = Some l" "l_ownerId l = ''A''" "l_expiresAt l = 100"
    using held_by_A(2) by blast
  show ?thesis
    using expired_alive_lease_blocks_takeover [of held_by_A l 200 "\<lambda>_. PidAlive" "demo_acquire ''B'' 8"] l
    by (simp add: isExpired_def demo_acquire_def)
qed

end
