(* ===== verification/Goals.thy ===== *)
theory Goals
  imports JS_Prelude
begin

text \<open>
  Goal mode (\<open>goals/state.ts\<close>, \<open>goals/runtime.ts\<close>): goals as they are read from disk,
  the text that is shown to the model, and the \<open>GoalRuntime\<close> class with its usage accounting.
  The accounting queue of the class runs one operation at a time, so every operation is one step.
  The host's state, the persisted entries and the emitted events are fields of the model; the
  clock, the usage counters and the id of a new goal are arguments, and the clock is read once per
  operation. Token counts and milliseconds are integers.
\<close>

section \<open>Goals (state.ts)\<close>

datatype goal_status = GActive | GPaused | GComplete | GDropped

datatype goal_provenance = Ultragoal string string | UserGoal

text \<open>The numeric fields are any JavaScript number in a goal that was read, and integers at run time.\<close>

record 'n goal =
  g_id :: string
  g_objective :: string
  g_status :: goal_status
  g_tokensUsed :: 'n
  g_timeUsedSeconds :: 'n
  g_createdAt :: 'n
  g_updatedAt :: 'n
  g_provenance :: "goal_provenance option"

datatype goal_mode = GModeActive | GModeExiting

record goal_mode_state =
  gm_enabled :: bool
  gm_mode :: goal_mode
  gm_completed :: bool
  gm_goal :: "int goal"

record token_usage =
  u_input :: int
  u_output :: int
  u_cacheRead :: int
  u_cacheWrite :: int

definition status_str :: "goal_status \<Rightarrow> string" where
  "status_str s = (case s of GActive \<Rightarrow> ''active'' | GPaused \<Rightarrow> ''paused'' | GComplete \<Rightarrow> ''complete''
   | GDropped \<Rightarrow> ''dropped'')"

definition parse_status :: "string \<Rightarrow> goal_status option" where
  "parse_status s =
     (let st = (if s = ''budget-limited'' then ''active'' else s)
      in if st = ''active'' then Some GActive else if st = ''paused'' then Some GPaused
         else if st = ''complete'' then Some GComplete else if st = ''dropped'' then Some GDropped else None)"

text \<open>
  The provenance field: the outer option is rejection, the inner one absence.
\<close>

definition parse_provenance :: "json option \<Rightarrow> goal_provenance option option" where
  "parse_provenance v = (case v of
      None \<Rightarrow> Some None
    | Some p \<Rightarrow>
        (if \<not> is_object p then None
         else if jget p ''source'' = Some (JStr ''ultragoal'') then
           (case (as_str (jget p ''runId''), as_str (jget p ''goalId'')) of
              (Some r, Some g) \<Rightarrow> Some (Some (Ultragoal r g)) | _ \<Rightarrow> None)
         else if jget p ''source'' = Some (JStr ''user'') then Some (Some UserGoal)
         else None))"

definition normalizeGoal :: "json \<Rightarrow> js_number goal option" where
  "normalizeGoal v =
     (if \<not> is_object v then None
      else case (as_str (jget v ''id''), as_str (jget v ''objective''), as_str (jget v ''status''),
                 as_num (jget v ''tokensUsed''), as_num (jget v ''timeUsedSeconds''),
                 as_num (jget v ''createdAt''), as_num (jget v ''updatedAt'')) of
        (Some i, Some ob, Some st, Some tok, Some tim, Some cr, Some up) \<Rightarrow>
          (case (parse_status st, parse_provenance (jget v ''provenance'')) of
             (Some s, Some p) \<Rightarrow> Some \<lparr>g_id = i, g_objective = ob, g_status = s, g_tokensUsed = tok,
                g_timeUsedSeconds = tim, g_createdAt = cr, g_updatedAt = up, g_provenance = p\<rparr>
           | _ \<Rightarrow> None)
      | _ \<Rightarrow> None)"

text \<open>The JSON form of a goal, as the session log stores it.\<close>

definition provenance_json :: "goal_provenance \<Rightarrow> json" where
  "provenance_json p = (case p of
     Ultragoal r g \<Rightarrow> JObj [(''source'', JStr ''ultragoal''), (''runId'', JStr r), (''goalId'', JStr g)]
   | UserGoal \<Rightarrow> JObj [(''source'', JStr ''user'')])"

definition goal_json :: "js_number goal \<Rightarrow> json" where
  "goal_json g = JObj ([(''id'', JStr (g_id g)), (''objective'', JStr (g_objective g)),
     (''status'', JStr (status_str (g_status g))), (''tokensUsed'', JNum (g_tokensUsed g)),
     (''timeUsedSeconds'', JNum (g_timeUsedSeconds g)),
     (''createdAt'', JNum (g_createdAt g)), (''updatedAt'', JNum (g_updatedAt g))] @
     (case g_provenance g of None \<Rightarrow> [] | Some p \<Rightarrow> [(''provenance'', provenance_json p)]))"

section \<open>Text for the model (runtime.ts)\<close>

definition is_escapable :: "char \<Rightarrow> bool" where
  "is_escapable c \<longleftrightarrow> c = CHR ''&'' \<or> c = CHR ''<'' \<or> c = CHR ''>''"

definition escape_char :: "char \<Rightarrow> string" where
  "escape_char c = (if c = CHR ''&'' then ''&amp;'' else if c = CHR ''<'' then ''&lt;''
     else if c = CHR ''>'' then ''&gt;'' else [c])"

text \<open>The search for the first character that needs escaping; \<open>None\<close> is the index -1.\<close>

fun first_escapable :: "nat \<Rightarrow> string \<Rightarrow> nat option" where
  "first_escapable i [] = None"
| "first_escapable i (c # cs) = (if is_escapable c then Some i else first_escapable (Suc i) cs)"

definition escapeXmlText :: "string \<Rightarrow> string" where
  "escapeXmlText input =
     (case first_escapable 0 input of
        None \<Rightarrow> input
      | Some i \<Rightarrow> foldl (\<lambda>out c. out @ escape_char c) (take i input) (drop i input))"

definition renderTrustedObjective :: "string \<Rightarrow> string" where
  "renderTrustedObjective objective = ''<objective>'' @ [CHR 0x0A] @ escapeXmlText objective @ [CHR 0x0A] @ ''</objective>''"

datatype goal_op = OpCreate | OpReplace

datatype goal_error =
    ObjectiveRequired goal_op
  | ObjectiveIsCommand
  | AlreadyHasGoal
  | NoGoalActive
  | NoPausedGoal
  | AlreadyComplete
  | CannotPause goal_status
  | CannotCompleteDropped

definition validateGoalObjective :: "string \<Rightarrow> goal_op \<Rightarrow> goal_error + string" where
  "validateGoalObjective objective op =
     (let trimmed = trim objective
      in if trimmed = [] then Inl (ObjectiveRequired op)
         else if trimmed = ''/goal'' then Inl ObjectiveIsCommand
         else Inr trimmed)"

definition goalTokenDelta :: "token_usage \<Rightarrow> token_usage \<Rightarrow> int" where
  "goalTokenDelta current baseline =
     max 0 (u_input current - u_input baseline) +
     max 0 (u_cacheWrite current - u_cacheWrite baseline) +
     max 0 (u_output current - u_output baseline)"

section \<open>The runtime (runtime.ts)\<close>

record turn_snapshot =
  ts_turnId :: string
  ts_baselineUsage :: token_usage
  ts_activeGoalId :: "string option"

record wall_clock =
  wc_lastAccountedAt :: int
  wc_activeGoalId :: "string option"

datatype persist_mode = PGoal | PGoalPaused | PNone

record goal_runtime =
  gr_state :: "goal_mode_state option"
  gr_turn :: "turn_snapshot option"
  gr_wall :: wall_clock
  gr_pending :: bool
  gr_persisted :: "(persist_mode \<times> goal_mode_state option) list"
  gr_events :: "(int goal option \<times> goal_mode_state option) list"

definition goal_runtime0 :: "int \<Rightarrow> goal_runtime" where
  "goal_runtime0 now = \<lparr>gr_state = None, gr_turn = None,
     gr_wall = \<lparr>wc_lastAccountedAt = now, wc_activeGoalId = None\<rparr>, gr_pending = False, gr_persisted = [], gr_events = []\<rparr>"

text \<open>\<open>#hasAccountingState\<close>, and the goal that is being accounted.\<close>

definition accounting_goal :: "goal_runtime \<Rightarrow> int goal option" where
  "accounting_goal rt = (case gr_state rt of None \<Rightarrow> None
     | Some s \<Rightarrow> if gm_enabled s \<and> g_status (gm_goal s) = GActive then Some (gm_goal s) else None)"

definition hasAccountingState :: "goal_runtime \<Rightarrow> bool" where
  "hasAccountingState rt \<longleftrightarrow> accounting_goal rt \<noteq> None"

definition commitState ::
  "goal_mode_state option \<Rightarrow> persist_mode option \<Rightarrow> bool \<Rightarrow> goal_runtime \<Rightarrow> goal_runtime" where
  "commitState st pm emit rt =
     (let r1 = rt\<lparr>gr_state := st\<rparr>;
          r2 = (case pm of None \<Rightarrow> r1
                | Some m \<Rightarrow> r1\<lparr>gr_pending := False, gr_persisted := gr_persisted r1 @ [(m, st)]\<rparr>)
      in if emit then r2\<lparr>gr_events := gr_events r2 @ [(map_option gm_goal st, st)]\<rparr> else r2)"

definition markActiveAccounting :: "int goal \<Rightarrow> int \<Rightarrow> token_usage \<Rightarrow> goal_runtime \<Rightarrow> goal_runtime" where
  "markActiveAccounting g now usage rt =
     rt\<lparr>gr_wall := (if wc_activeGoalId (gr_wall rt) \<noteq> Some (g_id g)
                    then \<lparr>wc_lastAccountedAt = now, wc_activeGoalId = Some (g_id g)\<rparr> else gr_wall rt),
        gr_turn := Some (case gr_turn rt of
            Some t \<Rightarrow> t\<lparr>ts_activeGoalId := Some (g_id g), ts_baselineUsage := usage\<rparr>
          | None \<Rightarrow> \<lparr>ts_turnId = ''activation-'' @ g_id g, ts_baselineUsage = usage, ts_activeGoalId = Some (g_id g)\<rparr>)\<rparr>"

definition clearActiveAccounting :: "int \<Rightarrow> goal_runtime \<Rightarrow> goal_runtime" where
  "clearActiveAccounting now rt =
     rt\<lparr>gr_wall := \<lparr>wc_lastAccountedAt = now, wc_activeGoalId = None\<rparr>,
        gr_turn := map_option (\<lambda>t. t\<lparr>ts_activeGoalId := None\<rparr>) (gr_turn rt)\<rparr>"

definition onTurnStart :: "string \<Rightarrow> token_usage \<Rightarrow> int \<Rightarrow> goal_runtime \<Rightarrow> goal_runtime" where
  "onTurnStart turnId baseline now rt =
     (let r = rt\<lparr>gr_turn := Some \<lparr>ts_turnId = turnId, ts_baselineUsage = baseline, ts_activeGoalId = None\<rparr>\<rparr>
      in case accounting_goal rt of None \<Rightarrow> r
         | Some g \<Rightarrow> r\<lparr>gr_turn := Some \<lparr>ts_turnId = turnId, ts_baselineUsage = baseline, ts_activeGoalId = Some (g_id g)\<rparr>,
                      gr_wall := (if wc_activeGoalId (gr_wall r) \<noteq> Some (g_id g)
                                  then \<lparr>wc_lastAccountedAt = now, wc_activeGoalId = Some (g_id g)\<rparr> else gr_wall r)\<rparr>)"

text \<open>The baseline of the current turn, if that turn is accounted to the goal \<open>i\<close>.\<close>

definition turn_baseline :: "string \<Rightarrow> goal_runtime \<Rightarrow> token_usage option" where
  "turn_baseline i rt = (case gr_turn rt of None \<Rightarrow> None
     | Some t \<Rightarrow> if ts_activeGoalId t = Some i then Some (ts_baselineUsage t) else None)"

text \<open>The two deltas of a flush: tokens of the turn and whole seconds of the wall clock.\<close>

definition token_delta :: "token_usage \<Rightarrow> string \<Rightarrow> goal_runtime \<Rightarrow> int" where
  "token_delta usage i rt = (case turn_baseline i rt of None \<Rightarrow> 0 | Some b \<Rightarrow> goalTokenDelta usage b)"

definition wall_seconds :: "int \<Rightarrow> string \<Rightarrow> goal_runtime \<Rightarrow> int" where
  "wall_seconds now i rt =
     (if wc_activeGoalId (gr_wall rt) = Some i then max 0 ((now - wc_lastAccountedAt (gr_wall rt)) div 1000) else 0)"

text \<open>Moving the baselines to what has been accounted.\<close>

definition advance_baselines :: "token_usage \<Rightarrow> int \<Rightarrow> string \<Rightarrow> goal_runtime \<Rightarrow> goal_runtime" where
  "advance_baselines usage w i rt =
     rt\<lparr>gr_turn := (if turn_baseline i rt \<noteq> None
                    then map_option (\<lambda>t. t\<lparr>ts_baselineUsage := usage\<rparr>) (gr_turn rt) else gr_turn rt),
        gr_wall := (if wc_activeGoalId (gr_wall rt) = Some i \<and> w > 0
                    then (gr_wall rt)\<lparr>wc_lastAccountedAt := wc_lastAccountedAt (gr_wall rt) + w * 1000\<rparr>
                    else gr_wall rt)\<rparr>"

definition add_usage :: "int \<Rightarrow> int \<Rightarrow> int \<Rightarrow> goal_mode_state \<Rightarrow> goal_mode_state" where
  "add_usage d w now st =
     st\<lparr>gm_goal := (gm_goal st)\<lparr>g_tokensUsed := g_tokensUsed (gm_goal st) + d,
        g_timeUsedSeconds := g_timeUsedSeconds (gm_goal st) + w, g_updatedAt := now\<rparr>\<rparr>"

definition flushUsageLocked :: "token_usage \<Rightarrow> bool \<Rightarrow> int \<Rightarrow> goal_runtime \<Rightarrow> goal_runtime" where
  "flushUsageLocked usage persist now rt =
     (case (gr_state rt, accounting_goal rt) of
        (Some st, Some g) \<Rightarrow>
          (let d = token_delta usage (g_id g) rt; w = wall_seconds now (g_id g) rt
           in if turn_baseline (g_id g) rt = None \<and> wc_activeGoalId (gr_wall rt) \<noteq> Some (g_id g) then rt
              else if d \<le> 0 \<and> w \<le> 0 then
                (if persist \<and> gr_pending rt
                 then rt\<lparr>gr_pending := False, gr_persisted := gr_persisted rt @ [(PGoal, Some st)]\<rparr> else rt)
              else commitState (Some (add_usage d w now st)) (if persist then Some PGoal else None) True
                     ((advance_baselines usage w (g_id g) rt)\<lparr>gr_pending := \<not> persist\<rparr>))
      | _ \<Rightarrow> rt)"

definition flushUsage :: "token_usage \<Rightarrow> int \<Rightarrow> goal_runtime \<Rightarrow> goal_runtime" where
  "flushUsage usage now rt = flushUsageLocked usage True now rt"

definition onToolCompleted :: "string \<Rightarrow> token_usage \<Rightarrow> int \<Rightarrow> goal_runtime \<Rightarrow> goal_runtime" where
  "onToolCompleted toolName usage now rt =
     (if toolName = ''goal'' \<or> \<not> hasAccountingState rt then rt else flushUsageLocked usage False now rt)"

definition onGoalToolCompleted :: "token_usage \<Rightarrow> int \<Rightarrow> goal_runtime \<Rightarrow> goal_runtime" where
  "onGoalToolCompleted usage now rt =
     (if \<not> hasAccountingState rt then rt else flushUsageLocked usage False now rt)"

definition onAgentEnd :: "token_usage \<Rightarrow> int \<Rightarrow> goal_runtime \<Rightarrow> goal_runtime" where
  "onAgentEnd usage now rt =
     (if \<not> hasAccountingState rt then rt\<lparr>gr_turn := None\<rparr> else (flushUsage usage now rt)\<lparr>gr_turn := None\<rparr>)"

definition onTaskAborted :: "token_usage \<Rightarrow> int \<Rightarrow> goal_runtime \<Rightarrow> goal_runtime" where
  "onTaskAborted usage now rt =
     (if \<not> hasAccountingState rt then rt\<lparr>gr_turn := None\<rparr>
      else (let r = (flushUsageLocked usage False now rt)\<lparr>gr_turn := None\<rparr>
            in case (gr_state r, accounting_goal r) of
                 (Some st, Some g) \<Rightarrow>
                   (let g' = g\<lparr>g_updatedAt := now\<rparr>
                    in commitState (Some (st\<lparr>gm_goal := g'\<rparr>)) (Some PGoal) True (markActiveAccounting g' now usage r))
               | _ \<Rightarrow> r))"

definition onThreadResumed :: "token_usage \<Rightarrow> int \<Rightarrow> goal_runtime \<Rightarrow> goal_runtime" where
  "onThreadResumed usage now rt =
     (case gr_state rt of None \<Rightarrow> rt
      | Some s \<Rightarrow>
          (let s' = (if g_status (gm_goal s) = GActive then s\<lparr>gm_enabled := True\<rparr> else s);
               r = (if gm_enabled s' \<and> g_status (gm_goal s') = GActive
                    then markActiveAccounting (gm_goal s') now usage rt else clearActiveAccounting now rt)
           in commitState (Some s') None True r))"

definition createGoalState :: "string \<Rightarrow> string \<Rightarrow> goal_provenance \<Rightarrow> int \<Rightarrow> goal_mode_state" where
  "createGoalState newId objective prov now =
     \<lparr>gm_enabled = True, gm_mode = GModeActive, gm_completed = False,
      gm_goal = \<lparr>g_id = newId, g_objective = objective, g_status = GActive, g_tokensUsed = 0, g_timeUsedSeconds = 0,
        g_createdAt = now, g_updatedAt = now, g_provenance = Some prov\<rparr>\<rparr>"

definition start_goal :: "goal_mode_state \<Rightarrow> token_usage \<Rightarrow> int \<Rightarrow> goal_runtime \<Rightarrow> goal_runtime" where
  "start_goal st usage now rt = commitState (Some st) (Some PGoal) True (markActiveAccounting (gm_goal st) now usage rt)"

definition createGoal ::
  "string \<Rightarrow> string \<Rightarrow> goal_provenance option \<Rightarrow> token_usage \<Rightarrow> int \<Rightarrow> goal_runtime \<Rightarrow> goal_error + goal_runtime" where
  "createGoal newId objective prov usage now rt =
     andThen (validateGoalObjective objective OpCreate) (\<lambda>ob.
       if (case gr_state rt of None \<Rightarrow> False
           | Some s \<Rightarrow> g_status (gm_goal s) \<noteq> GDropped \<and> g_status (gm_goal s) \<noteq> GComplete)
       then Inl AlreadyHasGoal
       else Inr (start_goal (createGoalState newId ob (case prov of None \<Rightarrow> UserGoal | Some p \<Rightarrow> p) now) usage now rt))"

definition replaceGoal ::
  "string \<Rightarrow> string \<Rightarrow> token_usage \<Rightarrow> int \<Rightarrow> goal_runtime \<Rightarrow> goal_error + goal_runtime" where
  "replaceGoal newId objective usage now rt =
     andThen (validateGoalObjective objective OpReplace) (\<lambda>ob.
       if \<not> hasAccountingState rt then Inl NoGoalActive
       else Inr (start_goal (createGoalState newId ob UserGoal now) usage now (flushUsageLocked usage True now rt)))"

definition resumeGoal :: "token_usage \<Rightarrow> int \<Rightarrow> goal_runtime \<Rightarrow> goal_error + goal_runtime" where
  "resumeGoal usage now rt =
     (case gr_state rt of None \<Rightarrow> Inl NoPausedGoal
      | Some s \<Rightarrow>
          (if g_status (gm_goal s) = GComplete then Inl AlreadyComplete
           else Inr (start_goal \<lparr>gm_enabled = True, gm_mode = GModeActive, gm_completed = False,
                  gm_goal = (gm_goal s)\<lparr>g_status := GActive, g_updatedAt := now\<rparr>\<rparr> usage now rt)))"

definition pauseGoal :: "token_usage \<Rightarrow> int \<Rightarrow> goal_runtime \<Rightarrow> goal_error + goal_runtime" where
  "pauseGoal usage now rt =
     (let r = flushUsageLocked usage False now rt
      in case gr_state r of None \<Rightarrow> Inr r
         | Some s \<Rightarrow>
             (if g_status (gm_goal s) \<noteq> GActive then Inl (CannotPause (g_status (gm_goal s)))
              else Inr (commitState (Some \<lparr>gm_enabled = False, gm_mode = GModeActive, gm_completed = False,
                     gm_goal = (gm_goal s)\<lparr>g_status := GPaused, g_updatedAt := now\<rparr>\<rparr>) (Some PGoalPaused) True
                     (clearActiveAccounting now r))))"

definition dropGoal :: "token_usage \<Rightarrow> int \<Rightarrow> goal_runtime \<Rightarrow> goal_runtime" where
  "dropGoal usage now rt =
     (let r = flushUsageLocked usage True now rt
      in case gr_state r of None \<Rightarrow> r
         | Some s \<Rightarrow>
             (let dropped = (gm_goal s)\<lparr>g_status := GDropped, g_updatedAt := now\<rparr>;
                  r1 = clearActiveAccounting now r;
                  r2 = r1\<lparr>gr_events := gr_events r1 @ [(Some dropped, Some (s\<lparr>gm_enabled := False, gm_goal := dropped\<rparr>))]\<rparr>
              in commitState None (Some PNone) False r2))"

text \<open>
  The flush of a failing operation has already happened, so errors of \<open>pauseGoal\<close> and
  \<open>completeGoalFromTool\<close> leave its effect; the flush does nothing unless a goal is active, and
  then neither operation fails.
\<close>

definition completeGoalFromTool :: "token_usage \<Rightarrow> int \<Rightarrow> goal_runtime \<Rightarrow> goal_error + goal_runtime" where
  "completeGoalFromTool usage now rt =
     (let r = flushUsageLocked usage False now rt
      in case gr_state r of None \<Rightarrow> Inl NoGoalActive
         | Some s \<Rightarrow>
             (if g_status (gm_goal s) = GComplete then Inl AlreadyComplete
              else if g_status (gm_goal s) = GDropped then Inl CannotCompleteDropped
              else Inr (commitState (Some \<lparr>gm_enabled = False, gm_mode = GModeExiting, gm_completed = True,
                     gm_goal = (gm_goal s)\<lparr>g_status := GComplete, g_updatedAt := now\<rparr>\<rparr>) (Some PGoal) True
                     (clearActiveAccounting now r))))"

text \<open>The goal whose prompt \<open>buildActivePrompt\<close> and \<open>buildContinuationPrompt\<close> render.\<close>

definition promptGoal :: "goal_runtime \<Rightarrow> string option" where
  "promptGoal rt = map_option (\<lambda>g. escapeXmlText (g_objective g)) (accounting_goal rt)"

section \<open>Reading and showing goals\<close>

lemma parse_status_str [simp]: "parse_status (status_str s) = Some s"
  by (cases s) (simp_all add: parse_status_def status_str_def)

lemma parse_provenance_json [simp]: "parse_provenance (Some (provenance_json p)) = Some (Some p)"
  by (cases p) (simp_all add: parse_provenance_def provenance_json_def is_object_def)

text \<open>
  Goals survive the session log: normalizing the JSON form of any goal gives back the same
  goal, provenance included, and a goal written under the former status \<open>budget-limited\<close> is
  read as active.
\<close>

theorem normalizeGoal_roundtrip:
  "normalizeGoal (goal_json g) = Some g \<and> parse_status ''budget-limited'' = Some GActive"
proof -
  have "parse_provenance (jget (goal_json g) ''provenance'') = Some (g_provenance g)"
    by (cases "g_provenance g") (simp_all add: goal_json_def parse_provenance_def [of None])
  moreover have "is_object (goal_json g)" by (simp add: goal_json_def is_object_def)
  moreover have "jget (goal_json g) ''id'' = Some (JStr (g_id g))"
    "jget (goal_json g) ''objective'' = Some (JStr (g_objective g))"
    "jget (goal_json g) ''status'' = Some (JStr (status_str (g_status g)))"
    "jget (goal_json g) ''tokensUsed'' = Some (JNum (g_tokensUsed g))"
    "jget (goal_json g) ''timeUsedSeconds'' = Some (JNum (g_timeUsedSeconds g))"
    "jget (goal_json g) ''createdAt'' = Some (JNum (g_createdAt g))"
    "jget (goal_json g) ''updatedAt'' = Some (JNum (g_updatedAt g))"
    by (simp_all add: goal_json_def)
  ultimately have "normalizeGoal (goal_json g) = Some g"
    by (simp add: normalizeGoal_def)
  then show ?thesis by (simp add: parse_status_def)
qed

text \<open>The reference definition of the escaping and its inverse.\<close>

definition escape_all :: "string \<Rightarrow> string" where
  "escape_all s = concat (map escape_char s)"

fun unescapeXml :: "string \<Rightarrow> string" where
  "unescapeXml [] = []"
| "unescapeXml (c # cs) =
     (if c = CHR ''&'' \<and> take 4 cs = ''amp;'' then CHR ''&'' # unescapeXml (drop 4 cs)
      else if c = CHR ''&'' \<and> take 3 cs = ''lt;'' then CHR ''<'' # unescapeXml (drop 3 cs)
      else if c = CHR ''&'' \<and> take 3 cs = ''gt;'' then CHR ''>'' # unescapeXml (drop 3 cs)
      else c # unescapeXml cs)"

lemma escape_all_plain: "\<forall>c\<in>set s. \<not> is_escapable c \<Longrightarrow> escape_all s = s"
  by (induction s) (auto simp: escape_all_def escape_char_def is_escapable_def)

lemma first_escapable_None: "first_escapable i s = None \<Longrightarrow> \<forall>c\<in>set s. \<not> is_escapable c"
  by (induction i s rule: first_escapable.induct) (auto split: if_splits)

lemma first_escapable_Some:
  "first_escapable i s = Some j \<Longrightarrow> i \<le> j \<and> (\<forall>c\<in>set (take (j - i) s). \<not> is_escapable c)"
proof (induction i s rule: first_escapable.induct)
  case (2 i c cs)
  show ?case
  proof (cases "is_escapable c")
    case False
    with 2 have "Suc i \<le> j" "\<forall>c\<in>set (take (j - Suc i) cs). \<not> is_escapable c" by auto
    moreover from this have "j - i = Suc (j - Suc i)" by simp
    ultimately show ?thesis using False by simp
  qed (use 2 in auto)
qed simp

lemma foldl_escape: "foldl (\<lambda>out c. out @ escape_char c) acc s = acc @ escape_all s"
  by (induction s arbitrary: acc) (simp_all add: escape_all_def)

lemma escapeXmlText_eq: "escapeXmlText s = escape_all s"
proof (cases "first_escapable 0 s")
  case None
  then show ?thesis
    by (simp add: escapeXmlText_def escape_all_plain [OF first_escapable_None])
next
  case (Some j)
  have "escape_all (take j s) = take j s"
    using first_escapable_Some [OF Some] by (simp add: escape_all_plain)
  then have "take j s @ escape_all (drop j s) = escape_all s"
    by (metis append_take_drop_id concat_append escape_all_def map_append)
  then show ?thesis by (simp add: escapeXmlText_def Some foldl_escape)
qed

lemma unescape_escape: "unescapeXml (escape_all s) = s"
  by (induction s) (auto simp: escape_all_def escape_char_def)

text \<open>
  Objectives cannot forge markup: the escaping with its early exit is the character-wise
  escaping, its result contains no angle bracket whatever the objective is, so nothing in it can
  close the surrounding objective element, and no information is lost: unescaping gives the
  objective back.
\<close>

theorem escapeXmlText_safe:
  "escapeXmlText s = concat (map escape_char s) \<and>
   CHR ''<'' \<notin> set (escapeXmlText s) \<and> CHR ''>'' \<notin> set (escapeXmlText s) \<and>
   unescapeXml (escapeXmlText s) = s"
proof -
  have "CHR ''<'' \<notin> set (escape_all s) \<and> CHR ''>'' \<notin> set (escape_all s)"
    by (induction s) (auto simp: escape_all_def escape_char_def)
  then show ?thesis by (simp add: escapeXmlText_eq unescape_escape) (simp add: escape_all_def)
qed

section \<open>Invariants of the runtime\<close>

lemma goalTokenDelta_nonneg [simp]: "0 \<le> goalTokenDelta a b"
  by (simp add: goalTokenDelta_def)

lemma accounting_goalE:
  "accounting_goal rt = Some g \<Longrightarrow> \<exists>s. gr_state rt = Some s \<and> gm_goal s = g \<and> gm_enabled s \<and> g_status g = GActive"
  by (auto simp: accounting_goal_def split: option.splits if_splits)

text \<open>The goal an accounting record is charged to.\<close>

definition turn_goal :: "goal_runtime \<Rightarrow> string option" where
  "turn_goal rt = Option.bind (gr_turn rt) ts_activeGoalId"

abbreviation wall_goal :: "goal_runtime \<Rightarrow> string option" where
  "wall_goal rt \<equiv> wc_activeGoalId (gr_wall rt)"

definition state_ok :: "goal_mode_state \<Rightarrow> bool" where
  "state_ok s \<longleftrightarrow> (gm_enabled s \<longleftrightarrow> g_status (gm_goal s) = GActive) \<and>
     (gm_completed s \<longleftrightarrow> g_status (gm_goal s) = GComplete) \<and> (gm_mode s = GModeExiting \<longleftrightarrow> gm_completed s) \<and>
     g_status (gm_goal s) \<noteq> GDropped \<and> 0 \<le> g_tokensUsed (gm_goal s) \<and> 0 \<le> g_timeUsedSeconds (gm_goal s)"

text \<open>The part of a state that must not be lost: which goal, its status and its counters.\<close>

definition ledger :: "goal_mode_state \<Rightarrow> string \<times> string \<times> goal_status \<times> int \<times> int" where
  "ledger s = (g_id (gm_goal s), g_objective (gm_goal s), g_status (gm_goal s), g_tokensUsed (gm_goal s),
     g_timeUsedSeconds (gm_goal s))"

definition last_persisted :: "goal_runtime \<Rightarrow> goal_mode_state option" where
  "last_persisted rt = (if gr_persisted rt = [] then None else snd (last (gr_persisted rt)))"

definition durable :: "goal_runtime \<Rightarrow> bool" where
  "durable rt \<longleftrightarrow> map_option ledger (last_persisted rt) = map_option ledger (gr_state rt)"

definition goal_inv :: "goal_runtime \<Rightarrow> bool" where
  "goal_inv rt \<longleftrightarrow>
     (case gr_state rt of None \<Rightarrow> True | Some s \<Rightarrow> state_ok s) \<and>
     (\<forall>i. turn_goal rt = Some i \<longrightarrow> (\<exists>g. accounting_goal rt = Some g \<and> g_id g = i)) \<and>
     (\<forall>i. wall_goal rt = Some i \<longrightarrow> (\<exists>g. accounting_goal rt = Some g \<and> g_id g = i)) \<and>
     (turn_goal rt \<noteq> None \<longrightarrow> wall_goal rt \<noteq> None) \<and> (gr_pending rt \<longrightarrow> wall_goal rt \<noteq> None) \<and>
     (\<not> gr_pending rt \<longrightarrow> durable rt)"

lemma deltas_nonneg [simp]: "0 \<le> token_delta usage i rt" "0 \<le> wall_seconds now i rt"
  by (simp_all add: token_delta_def wall_seconds_def split: option.split)

lemma commitState_sel [simp]:
  "gr_state (commitState st pm emit rt) = st" "gr_turn (commitState st pm emit rt) = gr_turn rt"
  "gr_wall (commitState st pm emit rt) = gr_wall rt"
  "gr_pending (commitState st pm emit rt) = (pm = None \<and> gr_pending rt)"
  "gr_persisted (commitState st pm emit rt) = gr_persisted rt @ (case pm of None \<Rightarrow> [] | Some m \<Rightarrow> [(m, st)])"
  by (simp_all add: commitState_def Let_def split: option.split)

lemma advance_baselines_sel [simp]:
  "gr_state (advance_baselines usage w i rt) = gr_state rt"
  "turn_goal (advance_baselines usage w i rt) = turn_goal rt"
  "wall_goal (advance_baselines usage w i rt) = wall_goal rt"
  "gr_persisted (advance_baselines usage w i rt) = gr_persisted rt"
  by (cases "gr_turn rt"; simp add: advance_baselines_def turn_goal_def)+

lemma turn_goal_cong [simp]:
  "turn_goal (commitState st pm emit rt) = turn_goal rt" "turn_goal (rt\<lparr>gr_pending := b\<rparr>) = turn_goal rt"
  by (simp_all add: turn_goal_def)

lemma flush_cases:
  obtains (same) "flushUsageLocked usage persist now rt = rt"
  | (saved) st where "gr_state rt = Some st" "persist"
      "flushUsageLocked usage persist now rt =
         rt\<lparr>gr_pending := False, gr_persisted := gr_persisted rt @ [(PGoal, Some st)]\<rparr>"
  | (counted) st g where "gr_state rt = Some st" "gm_goal st = g" "accounting_goal rt = Some g"
      "flushUsageLocked usage persist now rt =
         commitState (Some (add_usage (token_delta usage (g_id g) rt) (wall_seconds now (g_id g) rt) now st))
           (if persist then Some PGoal else None) True
           ((advance_baselines usage (wall_seconds now (g_id g) rt) (g_id g) rt)\<lparr>gr_pending := \<not> persist\<rparr>)"
      "turn_goal rt = Some (g_id g) \<or> wall_goal rt = Some (g_id g)"
proof (cases "accounting_goal rt")
  case None
  then have "flushUsageLocked usage persist now rt = rt"
    by (simp add: flushUsageLocked_def split: option.split)
  then show thesis by (rule same)
next
  case (Some g)
  obtain st where st: "gr_state rt = Some st" "gm_goal st = g" using accounting_goalE [OF Some] by blast
  let ?skip = "turn_baseline (g_id g) rt = None \<and> wall_goal rt \<noteq> Some (g_id g)"
  let ?idle = "token_delta usage (g_id g) rt \<le> 0 \<and> wall_seconds now (g_id g) rt \<le> 0"
  have r: "flushUsageLocked usage persist now rt = (if ?skip then rt
      else if ?idle then (if persist \<and> gr_pending rt
        then rt\<lparr>gr_pending := False, gr_persisted := gr_persisted rt @ [(PGoal, Some st)]\<rparr> else rt)
      else commitState (Some (add_usage (token_delta usage (g_id g) rt) (wall_seconds now (g_id g) rt) now st))
           (if persist then Some PGoal else None) True
           ((advance_baselines usage (wall_seconds now (g_id g) rt) (g_id g) rt)\<lparr>gr_pending := \<not> persist\<rparr>))"
    by (simp add: flushUsageLocked_def st(1) Some Let_def)
  consider "?skip \<or> ?idle \<and> \<not> (persist \<and> gr_pending rt)" | "\<not> ?skip \<and> ?idle \<and> persist \<and> gr_pending rt"
    | "\<not> ?skip \<and> \<not> ?idle" by blast
  then show thesis
  proof cases
    case 1
    then have "flushUsageLocked usage persist now rt = rt" unfolding r by presburger
    then show thesis by (rule same)
  next
    case 2
    then show thesis using saved [OF st(1)] unfolding r by presburger
  next
    case 3
    have "turn_baseline (g_id g) rt \<noteq> None \<Longrightarrow> turn_goal rt = Some (g_id g)"
      by (auto simp: turn_baseline_def turn_goal_def split: option.splits if_splits)
    with 3 have "turn_goal rt = Some (g_id g) \<or> wall_goal rt = Some (g_id g)" by blast
    with 3 show thesis using counted [OF st Some] unfolding r by presburger
  qed
qed

lemma flush_inv: "goal_inv rt \<Longrightarrow> goal_inv (flushUsageLocked usage persist now rt)"
proof (cases rule: flush_cases [of usage persist now rt])
  case (counted st g)
  assume inv: "goal_inv rt"
  let ?st = "add_usage (token_delta usage (g_id g) rt) (wall_seconds now (g_id g) rt) now st"
  have "state_ok ?st"
    using inv counted(1) by (auto simp: goal_inv_def state_ok_def add_usage_def)
  moreover have "gm_enabled st" "g_status (gm_goal st) = GActive"
    using accounting_goalE [OF counted(3)] counted(1) by auto
  ultimately show ?thesis
    using inv counted(1-3,5)
    by (auto simp: counted(4) goal_inv_def accounting_goal_def add_usage_def durable_def last_persisted_def)
qed (auto simp: goal_inv_def durable_def last_persisted_def accounting_goal_def turn_goal_def)

lemma flush_state:
  "gr_state rt = None \<Longrightarrow> gr_state (flushUsageLocked usage persist now rt) = None"
  "gr_state rt = Some s \<Longrightarrow> \<exists>s'. gr_state (flushUsageLocked usage persist now rt) = Some s' \<and>
     g_id (gm_goal s') = g_id (gm_goal s) \<and> g_status (gm_goal s') = g_status (gm_goal s) \<and>
     g_tokensUsed (gm_goal s) \<le> g_tokensUsed (gm_goal s') \<and> gm_enabled s' = gm_enabled s"
  by (cases rule: flush_cases [of usage persist now rt]; simp add: add_usage_def)+

lemma turn_goal_upd [simp]:
  "turn_goal (rt\<lparr>gr_turn := None\<rparr>) = None" "turn_goal (clearActiveAccounting now rt) = None"
  "turn_goal (markActiveAccounting g now usage rt) = Some (g_id g)"
  "turn_goal (rt\<lparr>gr_events := es\<rparr>) = turn_goal rt"
  by (cases "gr_turn rt"; simp add: turn_goal_def clearActiveAccounting_def markActiveAccounting_def)+

lemma accounting_sel [simp]:
  "gr_state (markActiveAccounting g now usage rt) = gr_state rt" "gr_state (clearActiveAccounting now rt) = gr_state rt"
  "wall_goal (markActiveAccounting g now usage rt) = Some (g_id g)" "wall_goal (clearActiveAccounting now rt) = None"
  "gr_persisted (markActiveAccounting g now usage rt) = gr_persisted rt"
  "gr_persisted (clearActiveAccounting now rt) = gr_persisted rt"
  "gr_pending (markActiveAccounting g now usage rt) = gr_pending rt"
  "gr_pending (clearActiveAccounting now rt) = gr_pending rt"
  by (simp_all add: markActiveAccounting_def clearActiveAccounting_def)

text \<open>Committing and persisting a well-formed state re-establishes the invariant.\<close>

lemma commit_inv:
  assumes "case st of None \<Rightarrow> True | Some s \<Rightarrow> state_ok s"
    and "\<And>i. turn_goal rt = Some i \<Longrightarrow> \<exists>s. st = Some s \<and> g_status (gm_goal s) = GActive \<and> g_id (gm_goal s) = i"
    and "\<And>i. wall_goal rt = Some i \<Longrightarrow> \<exists>s. st = Some s \<and> g_status (gm_goal s) = GActive \<and> g_id (gm_goal s) = i"
    and "turn_goal rt \<noteq> None \<longrightarrow> wall_goal rt \<noteq> None"
  shows "goal_inv (commitState st (Some m) emit rt)"
  using assms by (fastforce simp: goal_inv_def durable_def last_persisted_def accounting_goal_def state_ok_def)

section \<open>Operations keep the invariant\<close>

datatype goal_event =
    GvTurnStart string token_usage
  | GvToolCompleted string token_usage
  | GvGoalToolCompleted token_usage
  | GvAgentEnd token_usage
  | GvTaskAborted token_usage
  | GvThreadResumed token_usage
  | GvFlush token_usage
  | GvCreate string string "goal_provenance option" token_usage
  | GvReplace string string token_usage
  | GvResume token_usage
  | GvPause token_usage
  | GvDrop token_usage
  | GvComplete token_usage

definition goal_apply :: "goal_event \<Rightarrow> int \<Rightarrow> goal_runtime \<Rightarrow> goal_error + goal_runtime" where
  "goal_apply e now rt = (case e of
      GvTurnStart i u \<Rightarrow> Inr (onTurnStart i u now rt)
    | GvToolCompleted n u \<Rightarrow> Inr (onToolCompleted n u now rt)
    | GvGoalToolCompleted u \<Rightarrow> Inr (onGoalToolCompleted u now rt)
    | GvAgentEnd u \<Rightarrow> Inr (onAgentEnd u now rt)
    | GvTaskAborted u \<Rightarrow> Inr (onTaskAborted u now rt)
    | GvThreadResumed u \<Rightarrow> Inr (onThreadResumed u now rt)
    | GvFlush u \<Rightarrow> Inr (flushUsage u now rt)
    | GvCreate i ob p u \<Rightarrow> createGoal i ob p u now rt
    | GvReplace i ob u \<Rightarrow> replaceGoal i ob u now rt
    | GvResume u \<Rightarrow> resumeGoal u now rt
    | GvPause u \<Rightarrow> pauseGoal u now rt
    | GvDrop u \<Rightarrow> Inr (dropGoal u now rt)
    | GvComplete u \<Rightarrow> completeGoalFromTool u now rt)"

inductive goal_step :: "goal_runtime \<Rightarrow> goal_event \<times> int \<Rightarrow> goal_runtime \<Rightarrow> bool" where
  goal_step_ok: "goal_apply e now rt = Inr rt' \<Longrightarrow> goal_step rt (e, now) rt'"

inductive_simps goal_step_iff: "goal_step rt (e, now) rt'"

lemma goal_inv_state: "goal_inv rt \<Longrightarrow> gr_state rt = Some s \<Longrightarrow> state_ok s"
  by (simp add: goal_inv_def)

lemma accounting_upd [simp]:
  "accounting_goal (rt\<lparr>gr_turn := t\<rparr>) = accounting_goal rt" "accounting_goal (rt\<lparr>gr_wall := w\<rparr>) = accounting_goal rt"
  "durable (rt\<lparr>gr_turn := t\<rparr>) = durable rt" "durable (rt\<lparr>gr_wall := w\<rparr>) = durable rt"
  by (simp_all add: accounting_goal_def durable_def last_persisted_def)

lemma onTurnStart_sel:
  "gr_state (onTurnStart i u now rt) = gr_state rt" "gr_pending (onTurnStart i u now rt) = gr_pending rt"
  "accounting_goal (onTurnStart i u now rt) = accounting_goal rt" "durable (onTurnStart i u now rt) = durable rt"
  "turn_goal (onTurnStart i u now rt) = map_option g_id (accounting_goal rt)"
  "wall_goal (onTurnStart i u now rt) = (case accounting_goal rt of None \<Rightarrow> wall_goal rt | Some g \<Rightarrow> Some (g_id g))"
  by (simp_all add: onTurnStart_def Let_def turn_goal_def split: option.split)

lemma onTurnStart_inv: "goal_inv rt \<Longrightarrow> goal_inv (onTurnStart i u now rt)"
  unfolding goal_inv_def onTurnStart_sel by (auto split: option.splits)

lemma drop_turn_inv: "goal_inv rt \<Longrightarrow> goal_inv (rt\<lparr>gr_turn := None\<rparr>)"
  by (simp add: goal_inv_def)

lemma onTaskAborted_inv: "goal_inv rt \<Longrightarrow> goal_inv (onTaskAborted u now rt)"
proof -
  assume inv: "goal_inv rt"
  let ?r = "(flushUsageLocked u False now rt)\<lparr>gr_turn := None\<rparr>"
  have r: "goal_inv ?r" by (intro drop_turn_inv flush_inv inv)
  show ?thesis
  proof (cases "hasAccountingState rt \<and> accounting_goal ?r \<noteq> None")
    case True
    then obtain st g where st: "gr_state ?r = Some st" "gm_goal st = g" "accounting_goal ?r = Some g"
      "g_status g = GActive" using accounting_goalE by blast
    have "state_ok (st\<lparr>gm_goal := g\<lparr>g_updatedAt := now\<rparr>\<rparr>)"
      using goal_inv_state [OF r st(1)] st(2) by (auto simp: state_ok_def)
    then show ?thesis
      using True st by (simp add: onTaskAborted_def Let_def) (intro commit_inv; simp)
  next
    case False
    then show ?thesis
      using r drop_turn_inv [OF inv]
      by (auto simp: onTaskAborted_def Let_def split: option.split)
  qed
qed

lemma onThreadResumed_inv: "goal_inv rt \<Longrightarrow> goal_inv (onThreadResumed u now rt)"
  by (cases "gr_state rt")
    (auto simp: onThreadResumed_def goal_inv_def durable_def last_persisted_def accounting_goal_def state_ok_def
      ledger_def Let_def)

lemma start_goal_inv:
  "state_ok st \<Longrightarrow> g_status (gm_goal st) = GActive \<Longrightarrow> goal_inv (start_goal st u now rt)"
  unfolding start_goal_def by (intro commit_inv) simp_all

lemma goal_step_inv:
  assumes "goal_inv rt" "goal_step rt e rt'"
  shows "goal_inv rt'"
proof -
  obtain ev now where e: "e = (ev, now)" "goal_apply ev now rt = Inr rt'"
    using assms(2) by (cases rule: goal_step.cases) auto
  have flush: "goal_inv (flushUsageLocked u p now rt)" for u p by (rule flush_inv [OF assms(1)])
  have new: "state_ok (createGoalState i ob p now)" "g_status (gm_goal (createGoalState i ob p now)) = GActive" for i ob p
    by (simp_all add: createGoalState_def state_ok_def)
  show ?thesis
  proof (cases ev)
    case (GvResume u)
    then show ?thesis
      using e(2) goal_inv_state [OF assms(1)]
      by (auto simp: goal_apply_def resumeGoal_def state_ok_def split: option.splits if_splits intro!: start_goal_inv)
  next
    case (GvPause u)
    then show ?thesis
      using e(2) goal_inv_state [OF flush] flush
      by (auto simp: goal_apply_def pauseGoal_def state_ok_def Let_def split: option.splits if_splits intro!: commit_inv)
  next
    case (GvDrop u)
    then show ?thesis
      using e(2) flush
      by (auto simp: goal_apply_def dropGoal_def Let_def split: option.splits intro!: commit_inv)
  next
    case (GvComplete u)
    then show ?thesis
      using e(2) goal_inv_state [OF flush]
      by (auto simp: goal_apply_def completeGoalFromTool_def state_ok_def Let_def split: option.splits if_splits
          intro!: commit_inv)
  qed (use e(2) assms(1) flush new in \<open>auto simp: goal_apply_def onToolCompleted_def onGoalToolCompleted_def
      onAgentEnd_def flushUsage_def createGoal_def replaceGoal_def split: if_splits option.splits
      intro: onTurnStart_inv onTaskAborted_inv onThreadResumed_inv drop_turn_inv start_goal_inv\<close>)
qed

definition goal_init :: "goal_runtime \<Rightarrow> bool" where
  "goal_init rt \<longleftrightarrow> (\<exists>now. rt = goal_runtime0 now)"

interpretation goal_machine: machine_invariant goal_init goal_step goal_inv
proof unfold_locales
  show "goal_init rt \<Longrightarrow> goal_inv rt" for rt
    by (auto simp: goal_init_def goal_runtime0_def goal_inv_def durable_def last_persisted_def turn_goal_def)
qed (rule goal_step_inv)


definition demo_usage :: "int \<Rightarrow> token_usage" where
  "demo_usage n = \<lparr>u_input = n, u_output = n, u_cacheRead = 0, u_cacheWrite = 0\<rparr>"

definition demo_goal_runtime :: goal_runtime where
  "demo_goal_runtime = (case createGoal ''g1'' ''ship it'' None (demo_usage 0) 1000 (goal_runtime0 0) of
     Inr rt \<Rightarrow> rt | Inl _ \<Rightarrow> goal_runtime0 0)"

lemma demo_goal_runtime:
  "reach goal_init goal_step demo_goal_runtime" "accounting_goal demo_goal_runtime = Some (gm_goal (createGoalState ''g1'' ''ship it'' UserGoal 1000))"
  "gr_state demo_goal_runtime = Some (createGoalState ''g1'' ''ship it'' UserGoal 1000)"
  "turn_baseline ''g1'' demo_goal_runtime = Some (demo_usage 0)"
  "gr_wall demo_goal_runtime = \<lparr>wc_lastAccountedAt = 1000, wc_activeGoalId = Some ''g1''\<rparr>"
proof -
  have ok: "validateGoalObjective ''ship it'' OpCreate = Inr ''ship it''" by code_simp
  have c: "createGoal ''g1'' ''ship it'' None (demo_usage 0) 1000 (goal_runtime0 0) = Inr demo_goal_runtime"
    by (simp add: demo_goal_runtime_def createGoal_def ok goal_runtime0_def)
  have i: "goal_init (goal_runtime0 0)" by (auto simp: goal_init_def)
  have st: "goal_step (goal_runtime0 0) (GvCreate ''g1'' ''ship it'' None (demo_usage 0), 1000) demo_goal_runtime"
    by (simp add: goal_step_iff goal_apply_def c)
  show "reach goal_init goal_step demo_goal_runtime"
    by (rule reach_step [where step = goal_step, OF reach_init [of goal_init, OF i] st])
  show "gr_state demo_goal_runtime = Some (createGoalState ''g1'' ''ship it'' UserGoal 1000)"
    "accounting_goal demo_goal_runtime = Some (gm_goal (createGoalState ''g1'' ''ship it'' UserGoal 1000))"
    "turn_baseline ''g1'' demo_goal_runtime = Some (demo_usage 0)"
    "gr_wall demo_goal_runtime = \<lparr>wc_lastAccountedAt = 1000, wc_activeGoalId = Some ''g1''\<rparr>"
    by (simp_all add: demo_goal_runtime_def createGoal_def ok goal_runtime0_def start_goal_def accounting_goal_def
        turn_baseline_def)
      (simp_all add: createGoalState_def markActiveAccounting_def)
qed


text \<open>The operations that end a run of work or change the status of the goal.\<close>

definition saves :: "goal_event \<Rightarrow> bool" where
  "saves e = (case e of GvFlush _ \<Rightarrow> True | GvAgentEnd _ \<Rightarrow> True | GvTaskAborted _ \<Rightarrow> True | GvCreate _ _ _ _ \<Rightarrow> True
     | GvReplace _ _ _ \<Rightarrow> True | GvResume _ \<Rightarrow> True | GvPause _ \<Rightarrow> True | GvDrop _ \<Rightarrow> True | GvComplete _ \<Rightarrow> True | _ \<Rightarrow> False)"

lemma flush_persist_settles:
  assumes "goal_inv rt"
  shows "\<not> gr_pending (flushUsageLocked u True now rt)"
proof (cases "gr_pending rt")
  case False
  then show ?thesis by (cases rule: flush_cases [of u True now rt]) auto
next
  case True
  then obtain g where g: "wall_goal rt = Some (g_id g)" "accounting_goal rt = Some g"
    using assms by (auto simp: goal_inv_def)
  obtain st where "gr_state rt = Some st" using accounting_goalE [OF g(2)] by blast
  then show ?thesis using g True by (simp add: flushUsageLocked_def Let_def)
qed

text \<open>
  No usage is lost on disk: tool boundaries update the counters in memory only, but after
  every flush, agent end, abort and status transition the entry persisted last carries the goal,
  its status and its counters exactly as they are in memory, whatever happened before.
\<close>

theorem goal_counters_durable:
  assumes "reach goal_init goal_step rt" "goal_step rt (e, now) rt'" "saves e"
  shows "map_option ledger (last_persisted rt') = map_option ledger (gr_state rt')"
proof -
  have inv: "goal_inv rt" by (rule goal_machine.reachable_inv [OF assms(1)])
  have inv': "goal_inv rt'" by (rule goal_step_inv [OF inv assms(2)])
  have ap: "goal_apply e now rt = Inr rt'" using assms(2) by (simp add: goal_step_iff)
  have idle: "\<not> hasAccountingState rt \<Longrightarrow> \<not> gr_pending rt"
    using inv by (auto simp: goal_inv_def hasAccountingState_def)
  have none: "gr_state (flushUsageLocked u p now rt) = None \<Longrightarrow> \<not> gr_pending (flushUsageLocked u p now rt)" for u p
    using flush_inv [OF inv, of u p now] by (auto simp: goal_inv_def accounting_goal_def)
  have abort: "\<not> gr_pending (onTaskAborted u now rt)" if h: "hasAccountingState rt" for u
  proof -
    obtain g where g: "accounting_goal rt = Some g" using h by (auto simp: hasAccountingState_def)
    obtain s where s: "gr_state rt = Some s" "gm_enabled s" "g_status (gm_goal s) = GActive"
      using accounting_goalE [OF g] by auto
    obtain s' where "gr_state (flushUsageLocked u False now rt) = Some s'" "gm_enabled s'" "g_status (gm_goal s') = GActive"
      using flush_state(2) [OF s(1), of u False now] s by auto
    then show ?thesis using h by (simp add: onTaskAborted_def Let_def accounting_goal_def)
  qed
  have idle_abort: "\<not> gr_pending (onTaskAborted u now rt)" if "\<not> hasAccountingState rt" for u
    using that idle by (simp add: onTaskAborted_def)
  have "\<not> gr_pending (onTaskAborted u now rt)" for u using abort idle_abort by blast
  then have "\<not> gr_pending rt'"
    using ap assms(3) flush_persist_settles [OF inv] idle none
    by (cases e) (auto simp: goal_apply_def saves_def flushUsage_def onAgentEnd_def createGoal_def
        replaceGoal_def resumeGoal_def pauseGoal_def dropGoal_def completeGoalFromTool_def start_goal_def Let_def
        split: if_splits option.splits)
  then show ?thesis using inv' by (simp add: goal_inv_def durable_def)
qed

theorem goal_counters_durable_witness:
  "map_option ledger (last_persisted (onAgentEnd (demo_usage 5) 4200 demo_goal_runtime)) =
     map_option ledger (gr_state (onAgentEnd (demo_usage 5) 4200 demo_goal_runtime))"
  by (rule goal_counters_durable [OF demo_goal_runtime(1), of "GvAgentEnd (demo_usage 5)" 4200])
    (simp_all add: goal_step_iff goal_apply_def saves_def)

section \<open>Usage is counted exactly once\<close>

definition usage_le :: "token_usage \<Rightarrow> token_usage \<Rightarrow> bool" where
  "usage_le a b \<longleftrightarrow> u_input a \<le> u_input b \<and> u_output a \<le> u_output b \<and> u_cacheWrite a \<le> u_cacheWrite b"

lemma delta_telescopes:
  "usage_le a b \<Longrightarrow> usage_le b c \<Longrightarrow> goalTokenDelta b a + goalTokenDelta c b = goalTokenDelta c a"
  by (simp add: goalTokenDelta_def usage_le_def)

lemma delta_zero:
  "usage_le a b \<Longrightarrow> goalTokenDelta b a = 0 \<Longrightarrow> goalTokenDelta c a = goalTokenDelta c b"
  by (auto simp: goalTokenDelta_def usage_le_def max_def split: if_splits)

text \<open>The goal \<open>i\<close> is active and charged from baseline \<open>b\<close> and time \<open>l\<close> on.\<close>

definition tracked :: "goal_runtime \<Rightarrow> string \<Rightarrow> int \<Rightarrow> int \<Rightarrow> token_usage \<Rightarrow> int \<Rightarrow> bool" where
  "tracked rt i tok tim b l \<longleftrightarrow>
     (\<exists>g. accounting_goal rt = Some g \<and> g_id g = i \<and> g_tokensUsed g = tok \<and> g_timeUsedSeconds g = tim) \<and>
     turn_baseline i rt = Some b \<and> gr_wall rt = \<lparr>wc_lastAccountedAt = l, wc_activeGoalId = Some i\<rparr>"

lemma flush_tracked:
  assumes "tracked rt i tok tim b l" "usage_le b u" "l \<le> now"
  shows "\<exists>b'. tracked (flushUsageLocked u p now rt) i (tok + goalTokenDelta u b) (tim + (now - l) div 1000) b'
               (l + (now - l) div 1000 * 1000) \<and> (b' = u \<or> b' = b \<and> goalTokenDelta u b = 0)"
proof -
  obtain g st where g: "accounting_goal rt = Some g" "g_id g = i" "g_tokensUsed g = tok" "g_timeUsedSeconds g = tim"
    "gr_state rt = Some st" "gm_goal st = g" "gm_enabled st" "g_status g = GActive"
    using assms(1) accounting_goalE by (fastforce simp: tracked_def)
  have b: "turn_baseline i rt = Some b" "gr_wall rt = \<lparr>wc_lastAccountedAt = l, wc_activeGoalId = Some i\<rparr>"
    using assms(1) by (auto simp: tracked_def)
  have d: "token_delta u i rt = goalTokenDelta u b" "wall_seconds now i rt = (now - l) div 1000"
    "0 \<le> (now - l) div 1000"
    using assms(3) by (simp_all add: token_delta_def wall_seconds_def b)
  show ?thesis
  proof (cases "goalTokenDelta u b \<le> 0 \<and> (now - l) div 1000 \<le> 0")
    case True
    then have zero: "goalTokenDelta u b = 0" "(now - l) div 1000 = 0"
      using d(3) goalTokenDelta_nonneg [of u b] by linarith+
    have "flushUsageLocked u p now rt = (if p \<and> gr_pending rt
        then rt\<lparr>gr_pending := False, gr_persisted := gr_persisted rt @ [(PGoal, Some st)]\<rparr> else rt)"
      using True by (simp add: flushUsageLocked_def g b d Let_def)
    then have "tracked (flushUsageLocked u p now rt) i tok tim b l"
      using assms(1) by (auto simp: tracked_def accounting_goal_def turn_baseline_def)
    then show ?thesis using zero by auto
  next
    case False
    then have r: "flushUsageLocked u p now rt =
        commitState (Some (add_usage (goalTokenDelta u b) ((now - l) div 1000) now st)) (if p then Some PGoal else None) True
          ((advance_baselines u ((now - l) div 1000) i rt)\<lparr>gr_pending := \<not> p\<rparr>)"
      by (auto simp: flushUsageLocked_def g b d Let_def)
    have "accounting_goal (flushUsageLocked u p now rt) = Some (gm_goal (add_usage (goalTokenDelta u b) ((now - l) div 1000) now st))"
      using g by (simp add: r accounting_goal_def add_usage_def)
    moreover have "turn_baseline i (flushUsageLocked u p now rt) = Some u"
      using b(1) by (auto simp: r advance_baselines_def turn_baseline_def split: option.splits if_splits)
    moreover have "gr_wall (flushUsageLocked u p now rt) =
        \<lparr>wc_lastAccountedAt = l + (now - l) div 1000 * 1000, wc_activeGoalId = Some i\<rparr>"
      using d(3) by (simp add: r advance_baselines_def b)
    ultimately have "tracked (flushUsageLocked u p now rt) i (tok + goalTokenDelta u b) (tim + (now - l) div 1000) u
        (l + (now - l) div 1000 * 1000)"
      using g by (auto simp: tracked_def add_usage_def)
    then show ?thesis by blast
  qed
qed

text \<open>A run of flushes: usage, whether it persists, clock.\<close>

definition flush_all :: "(token_usage \<times> bool \<times> int) list \<Rightarrow> goal_runtime \<Rightarrow> goal_runtime" where
  "flush_all fs rt = foldl (\<lambda>r (u, p, now). flushUsageLocked u p now r) rt fs"

fun flushes_ok :: "token_usage \<Rightarrow> int \<Rightarrow> (token_usage \<times> bool \<times> int) list \<Rightarrow> bool" where
  "flushes_ok b l [] = True"
| "flushes_ok b l ((u, p, now) # fs) = (usage_le b u \<and> l \<le> now \<and> flushes_ok u now fs)"

lemma flushes_le: "flushes_ok b l fs \<Longrightarrow> fs \<noteq> [] \<Longrightarrow> usage_le b (fst (last fs)) \<and> l \<le> snd (snd (last fs))"
proof (induction b l fs rule: flushes_ok.induct)
  case (2 b l u p now fs)
  then show ?case by (cases fs) (auto simp: usage_le_def)
qed simp

lemma flush_all_tracked:
  assumes "tracked rt i tok tim b l" "flushes_ok b l fs" "fs \<noteq> []"
  shows "\<exists>b' l'. tracked (flush_all fs rt) i (tok + goalTokenDelta (fst (last fs)) b)
           (tim + (snd (snd (last fs)) - l) div 1000) b' l'"
  using assms
proof (induction fs arbitrary: rt tok tim b l)
  case (Cons f fs)
  obtain u p now where f: "f = (u, p, now)" by (cases f)
  have pre: "usage_le b u" "l \<le> now" "flushes_ok u now fs" using Cons.prems(2) f by auto
  obtain b' where b': "tracked (flushUsageLocked u p now rt) i (tok + goalTokenDelta u b) (tim + (now - l) div 1000) b'
      (l + (now - l) div 1000 * 1000)" "b' = u \<or> b' = b \<and> goalTokenDelta u b = 0"
    using flush_tracked [OF Cons.prems(1) pre(1,2)] by blast
  let ?l = "l + (now - l) div 1000 * 1000"
  show ?case
  proof (cases "fs = []")
    case True
    then show ?thesis using b'(1) f by (auto simp: flush_all_def)
  next
    case False
    let ?uf = "fst (last fs)" and ?nf = "snd (snd (last fs))"
    have fin: "usage_le u ?uf" "now \<le> ?nf" using flushes_le [OF pre(3) False] by auto
    have "?l \<le> now" using pre(2) by (simp add: minus_mod_eq_div_mult [symmetric])
    then have "flushes_ok b' ?l fs"
      using pre(1,3) b'(2) False by (cases fs; cases "hd fs") (auto simp: usage_le_def)
    then obtain b'' l'' where t: "tracked (flush_all fs (flushUsageLocked u p now rt)) i
        (tok + goalTokenDelta u b + goalTokenDelta ?uf b') (tim + (now - l) div 1000 + (?nf - ?l) div 1000) b'' l''"
      using Cons.IH [OF b'(1) _ False] by blast
    have "goalTokenDelta u b + goalTokenDelta ?uf b' = goalTokenDelta ?uf b"
      using b'(2) delta_telescopes [OF pre(1) fin(1)] by auto
    moreover have "(now - l) div 1000 + (?nf - ?l) div 1000 = (?nf - l) div 1000"
      by (simp add: algebra_simps)
    ultimately have "tracked (flush_all fs (flushUsageLocked u p now rt)) i (tok + goalTokenDelta ?uf b)
        (tim + (?nf - l) div 1000) b'' l''" using t by (simp add: add.assoc)
    then show ?thesis using False f by (auto simp: flush_all_def)
  qed
qed simp

text \<open>
  C31. Usage is counted exactly once: however the work of an active goal is split into flushes, and
  whichever of them persist, after the last one the goal's tokens have grown by the difference
  between the final usage and the baseline, and its seconds by the whole seconds between the last
  accounted moment and the final clock value. Nothing is counted twice, and the fraction of a
  second that one flush leaves over is carried to the next.
\<close>

theorem flush_counts_usage_once:
  assumes "accounting_goal rt = Some g" "turn_baseline (g_id g) rt = Some b"
    and "gr_wall rt = \<lparr>wc_lastAccountedAt = l, wc_activeGoalId = Some (g_id g)\<rparr>"
    and "flushes_ok b l fs" "fs \<noteq> []"
  shows "\<exists>g'. accounting_goal (flush_all fs rt) = Some g' \<and> g_id g' = g_id g \<and>
           g_tokensUsed g' = g_tokensUsed g + goalTokenDelta (fst (last fs)) b \<and>
           g_timeUsedSeconds g' = g_timeUsedSeconds g + (snd (snd (last fs)) - l) div 1000"
proof -
  have "tracked rt (g_id g) (g_tokensUsed g) (g_timeUsedSeconds g) b l"
    using assms(1-3) by (simp add: tracked_def)
  from flush_all_tracked [OF this assms(4,5)] show ?thesis by (auto simp: tracked_def)
qed

theorem flush_counts_usage_once_witness:
  "\<exists>g'. accounting_goal (flush_all [(demo_usage 5, False, 2700), (demo_usage 9, True, 4100)] demo_goal_runtime) = Some g' \<and>
     g_tokensUsed g' = 18 \<and> g_timeUsedSeconds g' = 3"
proof -
  let ?g = "gm_goal (createGoalState ''g1'' ''ship it'' UserGoal 1000)"
  let ?fs = "[(demo_usage 5, False, 2700), (demo_usage 9, True, 4100)]"
  have "flushes_ok (demo_usage 0) 1000 ?fs" by (simp add: usage_le_def demo_usage_def)
  then show ?thesis
    using flush_counts_usage_once [of demo_goal_runtime ?g "demo_usage 0" 1000 ?fs] demo_goal_runtime
    by (auto simp: createGoalState_def goalTokenDelta_def demo_usage_def)
qed

text \<open>
  The exception is \<open>resumeGoal\<close>, which accepts a goal that is already active and moves its
  baseline without flushing: the call succeeds, the token counter stays where it was, and the
  tokens that were due before the call are no longer due after it, so they are never counted.
\<close>

theorem resume_active_goal_forgets_usage:
  assumes "accounting_goal rt = Some g" "turn_baseline (g_id g) rt = Some b"
  shows "\<exists>rt' g'. resumeGoal u now rt = Inr rt' \<and> accounting_goal rt' = Some g' \<and>
           g_tokensUsed g' = g_tokensUsed g \<and> token_delta u (g_id g) rt = goalTokenDelta u b \<and>
           token_delta u (g_id g) rt' = 0"
proof -
  obtain s where s: "gr_state rt = Some s" "gm_goal s = g" "g_status g = GActive"
    using accounting_goalE [OF assms(1)] by blast
  obtain t where t: "gr_turn rt = Some t"
    using assms(2) by (auto simp: turn_baseline_def split: option.splits)
  have "token_delta u (g_id g) rt = goalTokenDelta u b" by (simp add: token_delta_def assms(2))
  moreover have "goalTokenDelta u u = 0" by (simp add: goalTokenDelta_def)
  ultimately show ?thesis
    using s t by (simp add: resumeGoal_def start_goal_def accounting_goal_def token_delta_def turn_baseline_def
        markActiveAccounting_def)
qed

theorem resume_active_goal_forgets_usage_witness:
  "token_delta (demo_usage 5) ''g1'' demo_goal_runtime = 10 \<and>
   (\<exists>rt'. resumeGoal (demo_usage 5) 2000 demo_goal_runtime = Inr rt' \<and> token_delta (demo_usage 5) ''g1'' rt' = 0)"
proof -
  have i: "g_id (gm_goal (createGoalState ''g1'' ''ship it'' UserGoal 1000)) = ''g1''" by (simp add: createGoalState_def)
  have "goalTokenDelta (demo_usage 5) (demo_usage 0) = 10" by (simp add: goalTokenDelta_def demo_usage_def)
  then show ?thesis
    using resume_active_goal_forgets_usage [OF demo_goal_runtime(2), of "demo_usage 0" "demo_usage 5" 2000]
      demo_goal_runtime(4) by (auto simp: i)
qed

end
