(* ===== verification/Timeout_Guard.thy ===== *)
theory Timeout_Guard
  imports JS_Prelude
begin

text \<open>
  The guard that stops goal mode from repeating a tool call that keeps timing out
  (\<open>goals/continuation-timeout-guard.ts\<close>): canonical argument keys, the classification of a
  tool outcome, the fingerprint of a turn and the hold decision. Object keys are compared as
  strings; the enumeration of array-index keys before the others is not modelled.
\<close>

datatype outcome_kind = OTimeout | OSuccess | OOtherError

record tool_outcome =
  to_toolName :: string
  to_argsKey :: string
  to_kind :: outcome_kind

record hold_state =
  hs_heldSnapshotKey :: "string option"
  hs_fingerprint :: "string option"
  hs_streak :: nat

text \<open>
  \<open>canonicalizeArgs\<close>; an undefined property does not exist in a JSON value.
\<close>

function canonicalizeArgs :: "json \<Rightarrow> json" where
  "canonicalizeArgs (JArr xs) = JArr (map canonicalizeArgs xs)"
| "canonicalizeArgs (JObj kvs) = JObj (map (\<lambda>kv. (fst kv, canonicalizeArgs (snd kv))) (sort_key fst kvs))"
| "canonicalizeArgs JNull = JNull"
| "canonicalizeArgs (JBool b) = JBool b"
| "canonicalizeArgs (JNum x) = JNum x"
| "canonicalizeArgs (JStr s) = JStr s"
  by pat_completeness auto
termination
proof (relation "measure size")
  show "wf (measure (size :: json \<Rightarrow> nat))" by simp
  show "(x, JArr xs) \<in> measure size" if "x \<in> set xs" for xs and x :: json
    using that by (simp add: less_Suc_eq_le size_list_estimation')
  show "(snd kv, JObj kvs) \<in> measure size" if "kv \<in> set (sort_key fst kvs)" for kvs kv
  proof -
    have "size_prod (\<lambda>x. 0) size kv \<le> size_list (size_prod (\<lambda>x. 0) size) kvs"
      using that by (intro size_list_estimation') auto
    then show ?thesis by (cases kv) simp
  qed
qed

definition canonicalArgsKey :: "json option \<Rightarrow> string" where
  "canonicalArgsKey args = stringify (canonicalizeArgs (case args of None \<Rightarrow> JNull | Some v \<Rightarrow> v))"

definition toResultText :: "json \<Rightarrow> string" where
  "toResultText result =
     (case result of
        JStr s \<Rightarrow> s
      | JObj _ \<Rightarrow>
          (case jget result ''content'' of
             Some (JArr cs) \<Rightarrow> join [CHR 0x0A] (List.map_filter (\<lambda>c.
               if is_plain_object c \<and> jget c ''type'' = Some (JStr ''text'') then as_str (jget c ''text'') else None) cs)
           | _ \<Rightarrow> [])
      | _ \<Rightarrow> [])"

definition classifyToolOutcome :: "json option \<Rightarrow> string \<Rightarrow> outcome_kind" where
  "classifyToolOutcome isError text =
     (if isError \<noteq> Some (JBool True) then OSuccess
      else if has_word [''timed out'', ''timeout''] False (map lower text) then OTimeout else OOtherError)"

definition turnTimeoutFingerprint :: "tool_outcome list \<Rightarrow> string option" where
  "turnTimeoutFingerprint outcomes =
     (case outcomes of [] \<Rightarrow> None
      | fst_o # _ \<Rightarrow>
          (if list_ex (\<lambda>x. to_kind x \<noteq> OTimeout) outcomes then None
           else if list_ex (\<lambda>x. to_toolName x \<noteq> to_toolName fst_o \<or> to_argsKey x \<noteq> to_argsKey fst_o) outcomes then None
           else Some (to_toolName fst_o @ [CHR 0x00] @ to_argsKey fst_o)))"

definition decideTimeoutHold :: "hold_state \<Rightarrow> string \<Rightarrow> string option \<Rightarrow> bool \<times> hold_state" where
  "decideTimeoutHold prev snapshotKey fingerprint =
     (case fingerprint of
        None \<Rightarrow> (False, \<lparr>hs_heldSnapshotKey = None, hs_fingerprint = None, hs_streak = 0\<rparr>)
      | Some f \<Rightarrow>
          (let continues = (1 \<le> hs_streak prev \<and> hs_fingerprint prev = Some f \<and> hs_heldSnapshotKey prev = Some snapshotKey);
               streak = (if continues then hs_streak prev + 1 else 1)
           in (2 \<le> streak, \<lparr>hs_heldSnapshotKey = Some snapshotKey, hs_fingerprint = Some f, hs_streak = streak\<rparr>)))"

section \<open>Properties\<close>

text \<open>The decisions of a sequence of turns, each a snapshot key and a fingerprint.\<close>

fun hold_run :: "hold_state \<Rightarrow> (string \<times> string option) list \<Rightarrow> bool list" where
  "hold_run st [] = []"
| "hold_run st ((k, f) # ts) = (let (h, st') = decideTimeoutHold st k f in h # hold_run st' ts)"

definition hold0 :: hold_state where
  "hold0 = \<lparr>hs_heldSnapshotKey = None, hs_fingerprint = None, hs_streak = 0\<rparr>"

text \<open>The state remembers exactly the last turn.\<close>

definition remembers :: "hold_state \<Rightarrow> string \<Rightarrow> string option \<Rightarrow> bool" where
  "remembers st k f \<longleftrightarrow> (case f of None \<Rightarrow> st = hold0
     | Some x \<Rightarrow> 1 \<le> hs_streak st \<and> hs_fingerprint st = Some x \<and> hs_heldSnapshotKey st = Some k)"

lemma decide_remembers: "remembers (snd (decideTimeoutHold st k f)) k f"
  by (simp add: remembers_def decideTimeoutHold_def hold0_def Let_def split: option.split)

lemma decide_hold:
  "remembers st k f \<Longrightarrow> fst (decideTimeoutHold st k' f') \<longleftrightarrow> f' \<noteq> None \<and> f' = f \<and> k' = k"
  by (auto simp: remembers_def decideTimeoutHold_def hold0_def Let_def split: option.splits)

lemma hold_run_nth:
  assumes "remembers st k f" "n < length ts"
  shows "hold_run st ts ! n \<longleftrightarrow> snd (ts ! n) \<noteq> None \<and> ts ! n = ((k, f) # ts) ! n"
  using assms
proof (induction ts arbitrary: st k f n)
  case (Cons t ts)
  obtain k' f' where t: "t = (k', f')" by (cases t)
  obtain h st' where d: "decideTimeoutHold st k' f' = (h, st')" by (cases "decideTimeoutHold st k' f'")
  have st': "remembers st' k' f'" using decide_remembers [of st k' f'] d by simp
  show ?case
  proof (cases n)
    case 0
    then show ?thesis using decide_hold [OF Cons.prems(1), of k' f'] d t by auto
  next
    case (Suc m)
    then show ?thesis using Cons.IH [OF st', of m] Cons.prems(2) d t by simp
  qed
qed simp

text \<open>
  The guard holds on the second repetition and not before: in every sequence of turns, the
  continuation is held after a turn exactly when that turn consisted of time-outs only and the
  turn directly before it had the same fingerprint and the same snapshot. One time-out never
  holds, and any progress in between releases the hold.
\<close>

theorem timeout_hold_exactly_on_repetition:
  assumes "n < length ts"
  shows "hold_run hold0 ts ! n \<longleftrightarrow> 0 < n \<and> snd (ts ! n) \<noteq> None \<and> ts ! n = ts ! (n - 1)"
proof -
  have init: "remembers hold0 k None" for k by (simp add: remembers_def)
  show ?thesis
    using hold_run_nth [OF init [of "[]"] assms] by (cases n) auto
qed

theorem timeout_hold_exactly_on_repetition_witness:
  "hold_run hold0 [(''s1'', Some ''bash''), (''s1'', Some ''bash''), (''s2'', Some ''bash'')] = [False, True, False]"
proof -
  let ?ts = "[(''s1'', Some ''bash''), (''s1'', Some ''bash''), (''s2'', Some ''bash'')]"
  have "hold_run hold0 ?ts ! 1" using timeout_hold_exactly_on_repetition [of 1 ?ts] by simp
  then show ?thesis by (simp add: decideTimeoutHold_def hold0_def)
qed

text \<open>
  The fingerprint is about the call and not about its spelling: two calls whose argument
  objects have the same entries in any order get the same key, so a turn of such timed-out calls
  to one tool has a fingerprint, and it is the one of each of them alone.
\<close>

theorem fingerprint_ignores_argument_order:
  assumes "distinct (map fst kvs)" "mset kvs = mset kvs'"
  shows "canonicalArgsKey (Some (JObj kvs)) = canonicalArgsKey (Some (JObj kvs')) \<and>
         turnTimeoutFingerprint
           [\<lparr>to_toolName = t, to_argsKey = canonicalArgsKey (Some (JObj kvs)), to_kind = OTimeout\<rparr>,
            \<lparr>to_toolName = t, to_argsKey = canonicalArgsKey (Some (JObj kvs')), to_kind = OTimeout\<rparr>] =
         turnTimeoutFingerprint
           [\<lparr>to_toolName = t, to_argsKey = canonicalArgsKey (Some (JObj kvs)), to_kind = OTimeout\<rparr>] \<and>
         turnTimeoutFingerprint
           [\<lparr>to_toolName = t, to_argsKey = canonicalArgsKey (Some (JObj kvs)), to_kind = OTimeout\<rparr>] \<noteq> None"
proof -
  have "sort_key fst kvs = sort_key fst kvs'" using assms by (rule sort_key_perm)
  then have "canonicalArgsKey (Some (JObj kvs)) = canonicalArgsKey (Some (JObj kvs'))"
    by (simp only: canonicalArgsKey_def option.case canonicalizeArgs.simps)
  then show ?thesis by (simp add: turnTimeoutFingerprint_def)
qed

theorem fingerprint_ignores_argument_order_witness:
  "canonicalArgsKey (Some (JObj [(''cmd'', JStr ''ls''), (''cwd'', JNull)])) =
   canonicalArgsKey (Some (JObj [(''cwd'', JNull), (''cmd'', JStr ''ls'')]))"
  using fingerprint_ignores_argument_order [of "[(''cmd'', JStr ''ls''), (''cwd'', JNull)]" "[(''cwd'', JNull), (''cmd'', JStr ''ls'')]"]
  by simp

end
