(* ===== verification/Agent_Scopes.thy ===== *)
theory Agent_Scopes
  imports JS_Prelude
begin

text \<open>
  Authorization scopes of the bridge (\<open>agent-wire/scopes.ts\<close>) and the decoding of human gate
  answers (\<open>agent-wire/approval-gate.ts\<close>). Command types stay strings, because the guard has
  to decide about arbitrary input.
\<close>

section \<open>Scopes (scopes.ts)\<close>

datatype bridge_scope =
    ScPrompt | ScControl | ScBash | ScExport | ScSession | ScModel | ScMessageRead | ScHostTools | ScHostUri | ScAdmin

definition scope_str :: "bridge_scope \<Rightarrow> string" where
  "scope_str s = (case s of ScPrompt \<Rightarrow> ''prompt'' | ScControl \<Rightarrow> ''control'' | ScBash \<Rightarrow> ''bash''
   | ScExport \<Rightarrow> ''export'' | ScSession \<Rightarrow> ''session'' | ScModel \<Rightarrow> ''model'' | ScMessageRead \<Rightarrow> ''message:read''
   | ScHostTools \<Rightarrow> ''host_tools'' | ScHostUri \<Rightarrow> ''host_uri'' | ScAdmin \<Rightarrow> ''admin'')"

definition BRIDGE_COMMAND_SCOPES :: "bridge_scope list" where
  "BRIDGE_COMMAND_SCOPES =
     [ScPrompt, ScControl, ScBash, ScExport, ScSession, ScModel, ScMessageRead, ScHostTools, ScHostUri, ScAdmin]"

definition RPC_COMMAND_SCOPE_REGISTRY :: "(string \<times> bridge_scope) list" where
  "RPC_COMMAND_SCOPE_REGISTRY =
     [(''prompt'', ScPrompt), (''steer'', ScPrompt), (''follow_up'', ScPrompt), (''abort'', ScPrompt),
      (''abort_and_prompt'', ScPrompt), (''new_session'', ScSession), (''get_state'', ScMessageRead),
      (''set_todos'', ScControl), (''set_host_tools'', ScHostTools), (''set_host_uri_schemes'', ScHostUri),
      (''get_pending_workflow_gates'', ScMessageRead), (''set_capabilities'', ScControl), (''set_model'', ScModel),
      (''set_default_model_selection'', ScModel), (''cycle_model'', ScModel), (''get_available_models'', ScModel),
      (''set_thinking_level'', ScModel), (''cycle_thinking_level'', ScModel), (''set_steering_mode'', ScControl),
      (''set_follow_up_mode'', ScControl), (''set_interrupt_mode'', ScControl), (''compact'', ScControl),
      (''set_auto_compaction'', ScControl), (''set_auto_retry'', ScControl), (''abort_retry'', ScControl),
      (''bash'', ScBash), (''abort_bash'', ScBash), (''get_session_stats'', ScMessageRead), (''export_html'', ScExport),
      (''switch_session'', ScSession), (''branch'', ScSession), (''get_branch_messages'', ScSession),
      (''get_last_assistant_text'', ScMessageRead), (''set_session_name'', ScSession), (''handoff'', ScAdmin),
      (''get_messages'', ScMessageRead), (''get_login_providers'', ScAdmin), (''login'', ScAdmin),
      (''negotiate_unattended'', ScControl), (''workflow_gate_response'', ScControl)]"

definition RPC_COMMAND_TYPES :: "string list" where
  "RPC_COMMAND_TYPES = map fst RPC_COMMAND_SCOPE_REGISTRY"

text \<open>\<open>value in RPC_COMMAND_SCOPE_REGISTRY\<close> sees inherited names too.\<close>

definition isRpcCommandType :: "json \<Rightarrow> bool" where
  "isRpcCommandType v = (case v of JStr s \<Rightarrow> js_in s RPC_COMMAND_SCOPE_REGISTRY | _ \<Rightarrow> False)"

definition MANDATORY_FLOOR_COMMAND_SCOPES :: "bridge_scope list" where
  "MANDATORY_FLOOR_COMMAND_SCOPES = [ScPrompt]"

text \<open>
  An inherited name reads a function or the prototype object, which is no scope: \<open>None\<close>.
\<close>

definition scopeForRpcCommand :: "string \<Rightarrow> bridge_scope option" where
  "scopeForRpcCommand t = map_of RPC_COMMAND_SCOPE_REGISTRY t"

definition isRpcCommandAllowed :: "string \<Rightarrow> bridge_scope set \<Rightarrow> bool" where
  "isRpcCommandAllowed t scopes = (case scopeForRpcCommand t of None \<Rightarrow> False | Some s \<Rightarrow> s \<in> scopes)"

section \<open>Gate answers (approval-gate.ts)\<close>

datatype approval_error_code = InvalidAnswerShape | UnknownDecision | MissingComments

record gate_result =
  gr_approved :: bool
  gr_decision :: string
  gr_note :: "string option"

definition APPROVAL_DECISIONS :: "string list" where
  "APPROVAL_DECISIONS = [''approve'', ''request-changes'', ''reject'']"

definition EXECUTION_DECISIONS :: "string list" where
  "EXECUTION_DECISIONS = [''approve'', ''decline'']"

definition decision_schema :: "string list \<Rightarrow> string \<Rightarrow> string \<Rightarrow> json" where
  "decision_schema decisions noteKey noteDescription =
     JObj [(''type'', JStr ''object''),
           (''properties'', JObj [
              (''decision'', JObj [(''type'', JStr ''string''), (''enum'', JArr (map JStr decisions))]),
              (noteKey, JObj [(''type'', JStr ''string''), (''description'', JStr noteDescription)])]),
           (''required'', JArr [JStr ''decision'']),
           (''additionalProperties'', JBool False)]"

text \<open>The schema of \<open>approvalGate\<close> and of \<open>executionGate\<close>.\<close>

definition approvalGate_schema :: json where
  "approvalGate_schema = decision_schema APPROVAL_DECISIONS ''comments'' ''required when requesting changes''"

definition executionGate_schema :: json where
  "executionGate_schema = decision_schema EXECUTION_DECISIONS ''reason'' ''optional rationale; required when declining''"

definition decisionField :: "json \<Rightarrow> approval_error_code + string" where
  "decisionField answer =
     (if \<not> is_object answer then Inl InvalidAnswerShape
      else case as_str (jget answer ''decision'') of None \<Rightarrow> Inl InvalidAnswerShape | Some d \<Rightarrow> Inr d)"

text \<open>The optional string field \<open>k\<close> of an answer.\<close>

definition note_field :: "json \<Rightarrow> string \<Rightarrow> approval_error_code + string option" where
  "note_field answer k = (case jget answer k of None \<Rightarrow> Inr None
     | Some (JStr s) \<Rightarrow> Inr (Some s) | Some _ \<Rightarrow> Inl InvalidAnswerShape)"

definition decodeApproval :: "json \<Rightarrow> approval_error_code + gate_result" where
  "decodeApproval answer =
     andThen (decisionField answer) (\<lambda>d.
       if d \<notin> set APPROVAL_DECISIONS then Inl UnknownDecision
       else andThen (note_field answer ''comments'') (\<lambda>comments.
         if d = ''request-changes'' \<and> (case comments of None \<Rightarrow> True | Some c \<Rightarrow> trim c = []) then Inl MissingComments
         else Inr \<lparr>gr_approved = (d = ''approve''), gr_decision = d, gr_note = comments\<rparr>))"

definition decodeExecution :: "json \<Rightarrow> approval_error_code + gate_result" where
  "decodeExecution answer =
     andThen (decisionField answer) (\<lambda>d.
       if d \<notin> set EXECUTION_DECISIONS then Inl UnknownDecision
       else andThen (note_field answer ''reason'') (\<lambda>why.
         Inr \<lparr>gr_approved = (d = ''approve''), gr_decision = d, gr_note = why\<rparr>))"

section \<open>Properties\<close>

text \<open>
  Scope checks fail closed: every command the registry lists has exactly one scope of the
  closed set, a command is allowed exactly when it is listed and its scope was granted, and a name
  that is merely inherited from the object prototype is never allowed, although the type guard
  accepts it.
\<close>

theorem scope_check_fails_closed:
  "distinct RPC_COMMAND_TYPES \<and>
   (isRpcCommandAllowed t scopes \<longleftrightarrow> (\<exists>s. (t, s) \<in> set RPC_COMMAND_SCOPE_REGISTRY \<and> s \<in> scopes)) \<and>
   (isRpcCommandType (JStr t) \<longleftrightarrow> t \<in> set RPC_COMMAND_TYPES \<or> t \<in> set PROTOTYPE_NAMES) \<and>
   (t \<in> set PROTOTYPE_NAMES \<longrightarrow> isRpcCommandType (JStr t) \<and> \<not> isRpcCommandAllowed t UNIV)"
proof -
  have d: "distinct (map fst RPC_COMMAND_SCOPE_REGISTRY)"
    by (simp add: RPC_COMMAND_SCOPE_REGISTRY_def)
  have "isRpcCommandAllowed t scopes \<longleftrightarrow> (\<exists>s. map_of RPC_COMMAND_SCOPE_REGISTRY t = Some s \<and> s \<in> scopes)" for scopes
    by (simp add: isRpcCommandAllowed_def scopeForRpcCommand_def split: option.split)
  then have allowed: "isRpcCommandAllowed t scopes \<longleftrightarrow> (\<exists>s. (t, s) \<in> set RPC_COMMAND_SCOPE_REGISTRY \<and> s \<in> scopes)"
    for scopes using d by (simp only: map_of_eq_Some_iff)
  have ty: "isRpcCommandType (JStr t) \<longleftrightarrow> t \<in> set RPC_COMMAND_TYPES \<or> t \<in> set PROTOTYPE_NAMES"
    by (auto simp: isRpcCommandType_def js_in_def RPC_COMMAND_TYPES_def)
  have "t \<in> set PROTOTYPE_NAMES \<longrightarrow> map_of RPC_COMMAND_SCOPE_REGISTRY t = None"
    by (auto simp: PROTOTYPE_NAMES_def RPC_COMMAND_SCOPE_REGISTRY_def)
  then show ?thesis
    using d allowed ty by (auto simp: RPC_COMMAND_TYPES_def isRpcCommandAllowed_def scopeForRpcCommand_def)
qed

theorem scope_check_fails_closed_witness:
  "isRpcCommandType (JStr ''toString'') \<and> \<not> isRpcCommandAllowed ''toString'' UNIV"
proof -
  have "''toString'' \<in> set PROTOTYPE_NAMES" by (simp add: PROTOTYPE_NAMES_def)
  then show ?thesis using scope_check_fails_closed [of "''toString''"] by blast
qed

lemma decisionField_Inr: "decisionField a = Inr d \<longleftrightarrow> is_object a \<and> jget a ''decision'' = Some (JStr d)"
  by (auto simp: decisionField_def split: option.split)

lemma decodeApproval_Inr:
  "decodeApproval a = Inr r \<Longrightarrow> \<exists>d. jget a ''decision'' = Some (JStr d) \<and> d \<in> set APPROVAL_DECISIONS \<and>
     gr_approved r = (d = ''approve'') \<and> gr_decision r = d \<and>
     (d = ''request-changes'' \<longrightarrow> (\<exists>c. gr_note r = Some c \<and> trim c \<noteq> []))"
  by (auto simp: decodeApproval_def decisionField_Inr split: if_splits option.splits)

lemma decodeExecution_Inr:
  "decodeExecution a = Inr r \<Longrightarrow> \<exists>d. jget a ''decision'' = Some (JStr d) \<and> d \<in> set EXECUTION_DECISIONS \<and>
     gr_approved r = (d = ''approve'') \<and> gr_decision r = d"
  by (auto simp: decodeExecution_def decisionField_Inr split: if_splits)

text \<open>
  A gate never turns into an approval: an answer is decoded as approved exactly when its
  decision is the literal \<open>approve\<close>; requesting changes without a comment is an error and
  never an approval; a decision outside the vocabulary is an error; and a decline of an execution
  gate is honoured whether or not a reason comes with it, although the gate's schema describes the
  reason as required then.
\<close>

theorem gate_decisions_never_approve_silently:
  "(decodeApproval a = Inr r \<longrightarrow>
      (gr_approved r \<longleftrightarrow> jget a ''decision'' = Some (JStr ''approve'')) \<and> gr_decision r \<in> set APPROVAL_DECISIONS \<and>
      (gr_decision r = ''request-changes'' \<longrightarrow> (\<exists>c. gr_note r = Some c \<and> trim c \<noteq> []))) \<and>
   (decodeExecution a = Inr e \<longrightarrow>
      (gr_approved e \<longleftrightarrow> jget a ''decision'' = Some (JStr ''approve'')) \<and> gr_decision e \<in> set EXECUTION_DECISIONS) \<and>
   decodeExecution (JObj [(''decision'', JStr ''decline'')]) =
     Inr \<lparr>gr_approved = False, gr_decision = ''decline'', gr_note = None\<rparr>"
proof -
  have "decodeExecution (JObj [(''decision'', JStr ''decline'')]) =
     Inr \<lparr>gr_approved = False, gr_decision = ''decline'', gr_note = None\<rparr>" by code_simp
  then show ?thesis
    using decodeApproval_Inr [of a r] decodeExecution_Inr [of a e] by fastforce
qed

theorem gate_decisions_never_approve_silently_witness:
  "\<exists>r. decodeApproval (JObj [(''decision'', JStr ''request-changes''), (''comments'', JStr ''tests'')]) = Inr r \<and> \<not> gr_approved r"
proof -
  let ?a = "JObj [(''decision'', JStr ''request-changes''), (''comments'', JStr ''tests'')]"
  have "case decodeApproval ?a of Inl _ \<Rightarrow> False | Inr _ \<Rightarrow> True" by code_simp
  then obtain r where r: "decodeApproval ?a = Inr r" by (auto split: sum.splits)
  have "jget ?a ''decision'' \<noteq> Some (JStr ''approve'')" by simp
  then show ?thesis using gate_decisions_never_approve_silently [of ?a r] r by blast
qed

end
