(* ===== verification/Bash_Policy.thy ===== *)
theory Bash_Policy
  imports Agent_Scopes
begin

text \<open>
  The action taxonomy of unattended runs and the classifier of bash commands
  (\<open>agent-wire/unattended-action-policy.ts\<close>). Regular expressions of the source become the
  scanners below; the two loops over a command's length are total functions.
\<close>

section \<open>Action classes\<close>

datatype action_class =
    ACommand bridge_scope | BashReadonly | BashMutating | BashDestructive | GitForcePush | FileDelete | FileWrite
  | HostToolInvoke | HostUriRead | HostUriWrite | AuthLogin

definition actionClassForScope :: "bridge_scope \<Rightarrow> action_class" where
  "actionClassForScope s = ACommand s"

definition action_str :: "action_class \<Rightarrow> string" where
  "action_str a = (case a of
      ACommand s \<Rightarrow> ''command.'' @ (if s = ScMessageRead then ''message_read'' else scope_str s)
    | BashReadonly \<Rightarrow> ''bash.readonly'' | BashMutating \<Rightarrow> ''bash.mutating'' | BashDestructive \<Rightarrow> ''bash.destructive''
    | GitForcePush \<Rightarrow> ''git.force_push'' | FileDelete \<Rightarrow> ''file.delete'' | FileWrite \<Rightarrow> ''file.write''
    | HostToolInvoke \<Rightarrow> ''host_tool.invoke'' | HostUriRead \<Rightarrow> ''host_uri.read'' | HostUriWrite \<Rightarrow> ''host_uri.write''
    | AuthLogin \<Rightarrow> ''auth.login'')"

definition RPC_UNATTENDED_ACTION_CLASSES :: "action_class list" where
  "RPC_UNATTENDED_ACTION_CLASSES = map ACommand BRIDGE_COMMAND_SCOPES @
     [BashReadonly, BashMutating, BashDestructive, GitForcePush, FileDelete, FileWrite, HostToolInvoke, HostUriRead,
      HostUriWrite, AuthLogin]"

definition READONLY_COMMANDS :: "string list" where
  "READONLY_COMMANDS = [''ls'', ''cat'', ''pwd'', ''echo'', ''printf'', ''grep'', ''rg'', ''head'', ''tail'', ''wc'',
     ''stat'', ''file'', ''which'', ''type'', ''date'', ''whoami'', ''true'', ''false'', ''test'', ''diff'', ''sort'',
     ''uniq'', ''cut'', ''basename'', ''dirname'', ''realpath'', ''cmp'', ''column'', ''tr'']"

definition MUTATING_COMMANDS :: "string list" where
  "MUTATING_COMMANDS = [''mv'', ''cp'', ''mkdir'', ''touch'', ''ln'', ''chmod'', ''chown'', ''chgrp'', ''tee'',
     ''install'', ''patch'', ''truncate'', ''npm'', ''bun'', ''pnpm'', ''yarn'', ''pip'', ''pip3'', ''cargo'', ''make'',
     ''apt'', ''apt-get'', ''brew'', ''go'', ''gradle'', ''docker'', ''kubectl'', ''systemctl'', ''service'']"

definition COMMAND_WRAPPERS :: "string list" where
  "COMMAND_WRAPPERS = [''sudo'', ''env'', ''command'', ''nice'', ''nohup'', ''doas'', ''time'', ''timeout'', ''stdbuf'',
     ''setsid'', ''ionice'', ''exec'']"

definition SEVERITY :: "action_class list" where
  "SEVERITY = [BashReadonly, BashMutating, FileWrite, FileDelete, GitForcePush, BashDestructive]"

text \<open>\<open>SEVERITY.indexOf\<close>, with -1 for a class that is not listed.\<close>

fun index_of :: "'a \<Rightarrow> 'a list \<Rightarrow> int" where
  "index_of x [] = -1"
| "index_of x (y # ys) = (if x = y then 0 else (let i = index_of x ys in if i < 0 then -1 else i + 1))"

definition worse :: "action_class \<Rightarrow> action_class \<Rightarrow> action_class" where
  "worse a b = (if index_of a SEVERITY \<ge> index_of b SEVERITY then a else b)"

section \<open>Taking a command apart\<close>

definition is_quote :: "char \<Rightarrow> bool" where
  "is_quote c \<longleftrightarrow> c = CHR 0x27 \<or> c = CHR 0x22"

definition stripQuotes :: "string \<Rightarrow> string" where
  "stripQuotes t = rev (dropWhile is_quote (rev (dropWhile is_quote t)))"

text \<open>
  The text up to the parenthesis that closes depth \<open>d\<close>, and what follows it; the whole rest if
  it is never closed.
\<close>

fun paren_body :: "nat \<Rightarrow> string \<Rightarrow> string \<times> string" where
  "paren_body d [] = ([], [])"
| "paren_body d (c # cs) =
     (if c = CHR '')'' then (if d \<le> 1 then ([], cs) else (let (b, r) = paren_body (d - 1) cs in (c # b, r)))
      else if c = CHR ''('' then (let (b, r) = paren_body (d + 1) cs in (c # b, r))
      else (let (b, r) = paren_body d cs in (c # b, r)))"

lemma paren_body_length: "length (fst (paren_body d s)) + length (snd (paren_body d s)) \<le> length s"
proof (induction d s rule: paren_body.induct)
  case (2 d c cs)
  then show ?case by (auto simp: Let_def split: prod.splits)
qed simp

definition is_opener :: "char \<Rightarrow> bool" where
  "is_opener c \<longleftrightarrow> c = CHR ''$'' \<or> c = CHR ''<'' \<or> c = CHR ''>''"

function nested_parens :: "string \<Rightarrow> string list" where
  "nested_parens [] = []"
| "nested_parens [c] = []"
| "nested_parens (c # d # cs) =
     (if is_opener c \<and> d = CHR ''('' then fst (paren_body 1 cs) # nested_parens (snd (paren_body 1 cs))
      else nested_parens (d # cs))"
  by pat_completeness auto
termination
proof (relation "measure length")
  fix c d :: char and cs
  show "(snd (paren_body 1 cs), c # d # cs) \<in> measure length"
    using paren_body_length [of 1 cs] by simp
qed simp_all

text \<open>The bodies of the matches of \<open>/`([^`]*)`/g\<close>; \<open>None\<close> is the state outside a pair.\<close>

fun backticks :: "string option \<Rightarrow> string \<Rightarrow> string list" where
  "backticks cur [] = []"
| "backticks None (c # cs) = (if c = CHR 0x60 then backticks (Some []) cs else backticks None cs)"
| "backticks (Some b) (c # cs) = (if c = CHR 0x60 then b # backticks None cs else backticks (Some (b @ [c])) cs)"

definition extractNested :: "string \<Rightarrow> string list" where
  "extractNested s = nested_parens s @ backticks None s"

lemma tl_dropWhile_length: "length (tl (dropWhile P cs)) \<le> length cs"
  using length_dropWhile_le [of P cs] by simp

text \<open>\<open>s.replace(/`[^`]*`/g, " ")\<close>.\<close>

function strip_backticks :: "string \<Rightarrow> string" where
  "strip_backticks [] = []"
| "strip_backticks (c # cs) =
     (if c = CHR 0x60 \<and> CHR 0x60 \<in> set cs
      then CHR '' '' # strip_backticks (tl (dropWhile (\<lambda>x. x \<noteq> CHR 0x60) cs))
      else c # strip_backticks cs)"
  by pat_completeness auto
termination
  by (relation "measure length") (auto simp: less_Suc_eq_le tl_dropWhile_length simp del: length_tl)

definition no_paren :: "char \<Rightarrow> bool" where
  "no_paren c \<longleftrightarrow> c \<noteq> CHR ''('' \<and> c \<noteq> CHR '')''"

text \<open>One pass of \<open>replace(/(\$\(|<\(|>\()[^()]*\)/g, " ")\<close>.\<close>

function strip_innermost :: "string \<Rightarrow> string" where
  "strip_innermost [] = []"
| "strip_innermost [c] = [c]"
| "strip_innermost (c # d # cs) =
     (if is_opener c \<and> d = CHR ''('' \<and> take 1 (dropWhile no_paren cs) = '')''
      then CHR '' '' # strip_innermost (tl (dropWhile no_paren cs))
      else c # strip_innermost (d # cs))"
  by pat_completeness auto
termination
  by (relation "measure length") (auto simp: less_Suc_eq_le le_SucI tl_dropWhile_length simp del: length_tl)

lemma strip_innermost_shrinks: "strip_innermost s = s \<or> length (strip_innermost s) < length s"
proof (induction s rule: strip_innermost.induct)
  case (3 c d cs)
  show ?case
  proof (cases "is_opener c \<and> d = CHR ''('' \<and> take 1 (dropWhile no_paren cs) = '')''")
    case True
    have "length (strip_innermost (tl (dropWhile no_paren cs))) \<le> length (tl (dropWhile no_paren cs))"
      using "3.IH"(1) [OF True] by auto
    also have "\<dots> \<le> length cs" by (rule tl_dropWhile_length)
    finally show ?thesis using True by simp
  next
    case False
    then show ?thesis using "3.IH"(2) [OF False] by auto
  qed
qed simp_all

function strip_fix :: "string \<Rightarrow> string" where
  "strip_fix s = (let r = strip_innermost s in if r = s then s else strip_fix r)"
  by pat_completeness auto
termination
  using strip_innermost_shrinks by (relation "measure length") auto

declare strip_fix.simps [simp del]

definition stripNested :: "string \<Rightarrow> string" where
  "stripNested s = strip_fix (strip_backticks s)"

text \<open>
  The split at a new line, \<open>&&\<close>, \<open>||\<close>, \<open>;\<close>, \<open>|\<close> or \<open>&\<close>. A doubled operator
  splits once in the source and twice here; the empty piece in between is filtered out.
\<close>

definition is_separator :: "char \<Rightarrow> bool" where
  "is_separator c \<longleftrightarrow> c = CHR 0x0A \<or> c = CHR ''&'' \<or> c = CHR ''|'' \<or> c = CHR '';''"

fun split_at :: "(char \<Rightarrow> bool) \<Rightarrow> string \<Rightarrow> string list" where
  "split_at p [] = [[]]"
| "split_at p (c # cs) =
     (if p c then [] # split_at p cs else (case split_at p cs of [] \<Rightarrow> [[c]] | l # ls \<Rightarrow> (c # l) # ls))"

definition splitStatements :: "string \<Rightarrow> string list" where
  "splitStatements s = filter (\<lambda>x. x \<noteq> []) (map trim (split_at is_separator s))"

definition tokenize :: "string \<Rightarrow> string list" where
  "tokenize s = filter (\<lambda>x. x \<noteq> []) (split_at is_js_space s)"

text \<open>The pattern \<open>/^[A-Za-z_][A-Za-z0-9_]*=/\<close>.\<close>

definition is_assignment :: "string \<Rightarrow> bool" where
  "is_assignment t = (case t of [] \<Rightarrow> False
     | c # cs \<Rightarrow> is_word_char c \<and> \<not> is_digit c \<and> take 1 (dropWhile is_word_char cs) = ''='')"

definition dashed :: "string \<Rightarrow> bool" where
  "dashed t \<longleftrightarrow> starts_with t ''-''"

function effectiveTokens :: "string list \<Rightarrow> string list" where
  "effectiveTokens [] = []"
| "effectiveTokens (t # ts) =
     (if is_assignment t then effectiveTokens ts
      else if stripQuotes t \<in> set COMMAND_WRAPPERS
        then effectiveTokens (dropWhile (\<lambda>x. dashed x \<or> is_assignment x) ts)
      else t # ts)"
  by pat_completeness auto
termination
  by (relation "measure length") (auto simp: less_Suc_eq_le length_dropWhile_le)

section \<open>Classification\<close>

definition READONLY_GIT :: "string list" where
  "READONLY_GIT = [''status'', ''log'', ''diff'', ''show'', ''rev-parse'', ''ls-files'', ''ls-remote'', ''ls-tree'',
     ''for-each-ref'', ''describe'', ''cat-file'', ''blame'', ''shortlog'', ''whatchanged'', ''grep'', ''var'',
     ''version'', ''help'']"

text \<open>Git's global options before the subcommand.\<close>

function skip_git_options :: "string list \<Rightarrow> string list" where
  "skip_git_options [] = []"
| "skip_git_options (t # ts) =
     (if dashed t then skip_git_options (if t = ''-C'' \<or> t = ''-c'' then tl ts else ts) else t # ts)"
  by pat_completeness auto
termination
  by (relation "measure length") (auto simp: less_Suc_eq_le)

definition is_lower_letter :: "char \<Rightarrow> bool" where
  "is_lower_letter c \<longleftrightarrow> CHR ''a'' \<le> c \<and> c \<le> CHR ''z''"

definition classifyGit :: "string list \<Rightarrow> action_class" where
  "classifyGit rest =
     (case skip_git_options rest of
        [] \<Rightarrow> BashMutating
      | sub # args \<Rightarrow>
          (if sub = ''push'' then
             (let force = list_ex (\<lambda>a. a = ''--force'' \<or> a = ''-f'' \<or> a = ''--force-with-lease'' \<or>
                    starts_with a ''--force-with-lease='' \<or> a = ''--mirror'' \<or> starts_with a ''+'') args;
                  del = list_ex (\<lambda>a. a = ''--delete'' \<or> a = ''-d'') args
              in if force \<or> del then GitForcePush else BashMutating)
           else if sub = ''reset'' \<and> ''--hard'' \<in> set args \<or>
                   sub = ''clean'' \<and> list_ex (\<lambda>a. dashed a \<and> CHR ''f'' \<in> set (takeWhile is_lower_letter (tl a))) args
             then BashDestructive
           else if sub \<in> set READONLY_GIT then
             (if list_ex (\<lambda>a. a = ''--output'' \<or> starts_with a ''--output='' \<or> a = ''-o'') (map stripQuotes args)
              then FileWrite else BashReadonly)
           else BashMutating))"

text \<open>The pattern \<open>/\d*>>?\s*[^&>\s|]/\<close>.\<close>

definition redirect_target :: "string \<Rightarrow> bool" where
  "redirect_target s = (case dropWhile is_js_space s of [] \<Rightarrow> False
     | c # _ \<Rightarrow> c \<noteq> CHR ''&'' \<and> c \<noteq> CHR ''>'' \<and> c \<noteq> CHR ''|'')"

fun has_redirect :: "string \<Rightarrow> bool" where
  "has_redirect [] = False"
| "has_redirect (c # cs) =
     (c = CHR ''>'' \<and> (redirect_target cs \<or> starts_with cs ''>'' \<and> redirect_target (tl cs)) \<or> has_redirect cs)"

text \<open>The pattern \<open>/:\(\)\s*\{/\<close> of a fork bomb.\<close>

fun has_fork_bomb :: "string \<Rightarrow> bool" where
  "has_fork_bomb [] = False"
| "has_fork_bomb (c # cs) =
     (c = CHR '':'' \<and> starts_with cs ''()'' \<and> starts_with (dropWhile is_js_space (drop 2 cs)) ''{'' \<or> has_fork_bomb cs)"

definition redirect_class :: "string \<Rightarrow> action_class" where
  "redirect_class st = (if has_redirect st then worse BashReadonly FileWrite else BashReadonly)"

definition is_destructive_text :: "string \<Rightarrow> bool" where
  "is_destructive_text st \<longleftrightarrow> has_word [''mkfs''] False (map lower st) \<or> has_word [''dd''] False (map lower st) \<or>
     has_fork_bomb st \<or> has_word [''shred''] False (map lower st)"

text \<open>The branches of \<open>classifyStatement\<close> for a head other than \<open>xargs\<close>.\<close>

definition classify_head :: "action_class \<Rightarrow> string \<Rightarrow> string list \<Rightarrow> action_class" where
  "classify_head cls hd_tok rest =
     (if hd_tok = ''git'' then worse cls (classifyGit rest)
      else if hd_tok = ''rm'' \<or> hd_tok = ''unlink'' \<or> hd_tok = ''rmdir'' then worse cls FileDelete
      else if hd_tok = ''find'' \<and> list_ex (\<lambda>a. a \<in> set rest) [''-delete'', ''-exec'', ''-execdir'', ''-ok''] then worse cls FileDelete
      else if hd_tok = ''sed'' \<and> list_ex (\<lambda>a. starts_with a ''-i'') rest then worse cls FileWrite
      else if hd_tok = ''sort'' \<and> list_ex (\<lambda>a. starts_with a ''-o'' \<or> a = ''--output'' \<or> starts_with a ''--output='') rest
        then worse cls FileWrite
      else if hd_tok = ''uniq'' \<and> 2 \<le> length (filter (\<lambda>a. \<not> dashed a) rest) then worse cls FileWrite
      else if hd_tok = ''date'' \<and> list_ex (\<lambda>a. \<not> dashed a \<and> \<not> starts_with a ''+'') rest then worse cls BashMutating
      else if hd_tok \<in> set READONLY_COMMANDS then cls
      else if hd_tok \<in> set MUTATING_COMMANDS then worse cls BashMutating
      else worse cls BashMutating)"

text \<open>The words of a statement take no more room than the statement.\<close>

definition room :: "string list \<Rightarrow> nat" where
  "room ts = sum_list (map (\<lambda>t. Suc (length t)) ts)"

lemma room_split_at: "room (split_at p s) = Suc (length s)"
  by (induction s) (auto simp: room_def split: list.split)

lemma room_filter: "room (filter p ts) \<le> room ts"
  by (induction ts) (auto simp: room_def)

lemma room_dropWhile: "room (dropWhile p ts) \<le> room ts"
  by (induction ts) (auto simp: room_def)

lemma room_effectiveTokens: "room (effectiveTokens ts) \<le> room ts"
proof (induction ts rule: effectiveTokens.induct)
  case (2 t ts)
  then show ?case
    using room_dropWhile [of "\<lambda>x. dashed x \<or> is_assignment x" ts] by (auto simp: room_def)
qed simp

lemma length_join_space: "ts \<noteq> [] \<Longrightarrow> Suc (length (join '' '' ts)) = room ts"
proof (induction ts rule: induct_list012)
  case (3 x y zs)
  then show ?case by (simp add: room_def)
qed (simp_all add: room_def)

lemma room_tokenize: "room (effectiveTokens (tokenize s)) \<le> Suc (length s)"
  using room_effectiveTokens [of "tokenize s"] room_filter [of "\<lambda>x. x \<noteq> []" "split_at is_js_space s"]
    room_split_at [of is_js_space s] by (simp add: tokenize_def)

function classifyStatement :: "string \<Rightarrow> action_class" where
  "classifyStatement st =
     (if is_destructive_text st then BashDestructive
      else case effectiveTokens (tokenize st) of
        [] \<Rightarrow> redirect_class st
      | t # rest \<Rightarrow>
          (if stripQuotes t = ''xargs'' then
             (let sink = filter (\<lambda>x. \<not> dashed x) rest
              in if sink \<noteq> [] then worse (redirect_class st) (classifyStatement (join '' '' sink))
                 else worse (redirect_class st) BashMutating)
           else classify_head (redirect_class st) (stripQuotes t) rest))"
  by pat_completeness auto
termination
proof (relation "measure length")
  fix st :: string and t rest sink
  assume "effectiveTokens (tokenize st) = t # rest" "sink = filter (\<lambda>x. \<not> dashed x) rest" "sink \<noteq> []"
  then have "room (t # sink) \<le> Suc (length st)" "Suc (length (join '' '' sink)) = room sink"
    using room_tokenize [of st] room_filter [of "\<lambda>x. \<not> dashed x" rest] length_join_space
    by (auto simp: room_def)
  then show "(join '' '' sink, st) \<in> measure length" by (simp add: room_def)
qed simp

declare classifyStatement.simps [simp del]

lemma nested_parens_shorter: "x \<in> set (nested_parens s) \<Longrightarrow> length x < length s"
proof (induction s rule: nested_parens.induct)
  case (3 c d cs)
  then show ?case
    using paren_body_length [of 1 cs] by (fastforce split: if_splits)
qed simp_all

lemma backticks_shorter:
  "x \<in> set (backticks cur s) \<Longrightarrow> length x < length s + (case cur of None \<Rightarrow> 0 | Some b \<Rightarrow> Suc (length b))"
  by (induction cur s rule: backticks.induct) (fastforce split: if_splits)+

lemma extractNested_shorter: "x \<in> set (extractNested s) \<Longrightarrow> length x < length s"
  using nested_parens_shorter backticks_shorter [of x None s] by (auto simp: extractNested_def)

function classifyBashAction :: "string \<Rightarrow> action_class" where
  "classifyBashAction command =
     foldl worse
       (foldl worse BashReadonly (map classifyBashAction (extractNested command)))
       (map classifyStatement (splitStatements (stripNested command)))"
  by pat_completeness auto
termination
  by (relation "measure length") (auto simp: extractNested_shorter)

declare classifyBashAction.simps [simp del]

section \<open>The worst of many\<close>

text \<open>
  A binary choice that always keeps one of its arguments, the one of the higher rank.
\<close>

locale worst_of =
  fixes pick :: "'a \<Rightarrow> 'a \<Rightarrow> 'a" and rank :: "'a \<Rightarrow> int"
  assumes pick_rank: "rank (pick a b) = max (rank a) (rank b)"
    and pick_one: "pick a b = a \<or> pick a b = b"
begin

lemma fold_rank_init: "rank a \<le> rank (foldl pick a xs)"
proof (induction xs arbitrary: a)
  case (Cons x xs)
  have "rank a \<le> rank (pick a x)" by (simp add: pick_rank)
  also have "\<dots> \<le> rank (foldl pick (pick a x) xs)" by (rule Cons.IH)
  finally show ?case by simp
qed simp

lemma fold_rank_member: "x \<in> set xs \<Longrightarrow> rank x \<le> rank (foldl pick a xs)"
proof (induction xs arbitrary: a)
  case (Cons y ys)
  have "rank y \<le> rank (foldl pick (pick a y) ys)"
    using fold_rank_init [of "pick a y" ys] by (simp add: pick_rank)
  then show ?case using Cons by auto
qed simp

lemma fold_member: "foldl pick a xs \<in> insert a (set xs)"
proof (induction xs arbitrary: a)
  case (Cons y ys)
  then show ?case using pick_one [of a y] by fastforce
qed simp

end

abbreviation severity_of :: "action_class \<Rightarrow> int" where
  "severity_of a \<equiv> index_of a SEVERITY"

interpretation worst: worst_of worse severity_of
  by unfold_locales (auto simp: worse_def max_def)

text \<open>The statements a command runs, at top level or inside a substitution at any depth.\<close>

inductive runs :: "string \<Rightarrow> string \<Rightarrow> bool" where
  runs_here: "st \<in> set (splitStatements (stripNested c)) \<Longrightarrow> runs c st"
| runs_nested: "inner \<in> set (extractNested c) \<Longrightarrow> runs inner st \<Longrightarrow> runs c st"

lemma classifyBashAction_covers:
  assumes "runs c st"
  shows "severity_of (classifyStatement st) \<le> severity_of (classifyBashAction c)"
  using assms
proof (induction rule: runs.induct)
  case (runs_here st c)
  then show ?case by (subst classifyBashAction.simps) (intro worst.fold_rank_member; simp)
next
  case (runs_nested inner c st)
  have "severity_of (classifyBashAction inner) \<le> severity_of (classifyBashAction c)"
    using runs_nested.hyps(1) worst.fold_rank_member [of "classifyBashAction inner" "map classifyBashAction (extractNested c)" BashReadonly]
      worst.fold_rank_init by (subst (2) classifyBashAction.simps) (auto intro: order_trans)
  then show ?case using runs_nested.IH by simp
qed

definition is_bash_class :: "action_class \<Rightarrow> bool" where
  "is_bash_class a \<longleftrightarrow> a \<in> set SEVERITY"

lemma worse_bash: "is_bash_class a \<Longrightarrow> is_bash_class b \<Longrightarrow> is_bash_class (worse a b)"
  by (simp add: worse_def)

lemma bash_classes [simp]:
  "is_bash_class BashReadonly" "is_bash_class BashMutating" "is_bash_class FileWrite" "is_bash_class FileDelete"
  "is_bash_class GitForcePush" "is_bash_class BashDestructive"
  by (simp_all add: is_bash_class_def SEVERITY_def)

lemma classifyGit_bash: "is_bash_class (classifyGit rest)"
  by (simp add: classifyGit_def Let_def split: list.split)

lemma classify_head_bash: "is_bash_class cls \<Longrightarrow> is_bash_class (classify_head cls h rest)"
  by (simp add: classify_head_def worse_bash classifyGit_bash)

lemma redirect_class_bash: "is_bash_class (redirect_class st)"
  by (simp add: redirect_class_def worse_bash)

lemma classifyStatement_bash: "is_bash_class (classifyStatement st)"
proof (induction st rule: classifyStatement.induct)
  case (1 st)
  show ?case
    by (subst classifyStatement.simps)
      (auto simp: Let_def redirect_class_bash classify_head_bash intro!: worse_bash 1 split: list.split)
qed

lemma classifyBashAction_bash: "is_bash_class (classifyBashAction c)"
proof (induction c rule: classifyBashAction.induct)
  case (1 c)
  have "\<forall>x\<in>set (map classifyBashAction (extractNested c)). is_bash_class x" using 1 by simp
  then have "is_bash_class (foldl worse BashReadonly (map classifyBashAction (extractNested c)))"
    using worst.fold_member [of BashReadonly "map classifyBashAction (extractNested c)"] by auto
  then show ?case
    using worst.fold_member [of "foldl worse BashReadonly (map classifyBashAction (extractNested c))"
        "map classifyStatement (splitStatements (stripNested c))"] classifyStatement_bash
    by (subst classifyBashAction.simps) auto
qed


section \<open>Evaluation\<close>

definition is_special :: "char \<Rightarrow> bool" where
  "is_special c \<longleftrightarrow> is_opener c \<or> is_separator c \<or> c = CHR 0x60 \<or> c = CHR ''('' \<or> c = CHR '')''"

lemma nested_parens_plain: "\<forall>c\<in>set s. \<not> is_special c \<Longrightarrow> nested_parens s = []"
  by (induction s rule: nested_parens.induct) (auto simp: is_special_def)

lemma backticks_plain: "\<forall>c\<in>set s. \<not> is_special c \<Longrightarrow> backticks None s = []"
  by (induction s) (auto simp: is_special_def)

lemma strip_backticks_plain: "\<forall>c\<in>set s. \<not> is_special c \<Longrightarrow> strip_backticks s = s"
  by (induction s) (auto simp: is_special_def)

lemma strip_innermost_plain: "\<forall>c\<in>set s. \<not> is_special c \<Longrightarrow> strip_innermost s = s"
  by (induction s rule: strip_innermost.induct) (auto simp: is_special_def)

lemma split_at_plain: "\<forall>c\<in>set s. \<not> p c \<Longrightarrow> split_at p s = [s]"
  by (induction s) auto

text \<open>A command without shell syntax is its one statement.\<close>

lemma plain_statements:
  assumes "\<forall>c\<in>set s. \<not> is_special c" "trim s = s" "s \<noteq> []"
  shows "splitStatements (stripNested s) = [s]"
proof -
  have "stripNested s = s"
    by (simp add: stripNested_def strip_backticks_plain [OF assms(1)] strip_fix.simps strip_innermost_plain [OF assms(1)])
  moreover have "split_at is_separator s = [s]"
    using assms(1) by (intro split_at_plain) (auto simp: is_special_def)
  ultimately show ?thesis using assms(2,3) by (simp add: splitStatements_def)
qed

lemma classify_simple:
  assumes "\<forall>c\<in>set s. \<not> is_special c" "trim s = s" "s \<noteq> []"
  shows "classifyBashAction s = worse BashReadonly (classifyStatement s)"
  by (subst classifyBashAction.simps)
    (simp add: extractNested_def nested_parens_plain [OF assms(1)] backticks_plain [OF assms(1)] plain_statements [OF assms])

lemmas char_classes = is_special_def is_opener_def is_separator_def is_js_space_def is_word_char_def is_digit_def
  is_quote_def lower_def

lemmas statement_eval = is_destructive_text_def redirect_class_def tokenize_def stripQuotes_def is_assignment_def
  dashed_def starts_with_def COMMAND_WRAPPERS_def classify_head_def worse_def SEVERITY_def

lemma statement_rm: "classifyStatement ''rm f'' = FileDelete"
  by (subst classifyStatement.simps) (simp add: statement_eval char_classes)

lemma classify_rm: "classifyBashAction ''rm f'' = FileDelete"
proof -
  show ?thesis using statement_rm
    by (subst classify_simple) (simp_all add: char_classes trim_def trim_start_def worse_def SEVERITY_def)
qed

lemma classify_timeout_rm: "classifyBashAction ''timeout 5 rm f'' = BashMutating"
proof -
  have "classifyStatement ''timeout 5 rm f'' = BashMutating"
    by (subst classifyStatement.simps) (simp add: statement_eval char_classes READONLY_COMMANDS_def)
  then show ?thesis
    by (subst classify_simple) (simp_all add: char_classes trim_def trim_start_def worse_def SEVERITY_def)
qed

lemma classify_date_set: "classifyBashAction ''date --set=2020-01-01'' = BashReadonly"
proof -
  have "classifyStatement ''date --set=2020-01-01'' = BashReadonly"
    by (subst classifyStatement.simps) (simp add: statement_eval char_classes READONLY_COMMANDS_def)
  then show ?thesis
    by (subst classify_simple) (simp_all add: char_classes trim_def trim_start_def worse_def SEVERITY_def)
qed


text \<open>
  Where the classifier falls short of its contract: a wrapper whose option takes a separate
  argument hides the wrapped command, so deleting a file under \<open>timeout\<close> counts as merely
  mutating although the bare deletion does not; and setting the system clock by a long option
  counts as read-only.
\<close>

theorem classifyBashAction_gaps:
  "classifyBashAction ''rm f'' = FileDelete \<and> classifyBashAction ''timeout 5 rm f'' = BashMutating \<and>
   classifyBashAction ''date --set=2020-01-01'' = BashReadonly"
  using classify_rm classify_timeout_rm classify_date_set by simp

end
