(* ===== verification/Unattended.thy ===== *)
theory Unattended
  imports Bash_Policy
begin

text \<open>
  The controller of an unattended run (\<open>agent-wire/unattended-run-controller.ts\<close>): fail-closed
  negotiation, scope and action authorization, budget accounting and the abort. An operation
  returns the error it throws, if any, together with the state it leaves. The abort hooks are given
  by which of them are configured and which fail; the two audit events that follow their completion are a step of their own,
  because the code emits them from the promise of the hooks.
\<close>

section \<open>Data\<close>

datatype refusal = IncompleteBudget | UnsupportedBudgetMetric | InvalidDeclaration

datatype budget_metric = MTokens | MToolCalls | MWallTime | MCost

datatype unattended_error =
    BudgetExceeded budget_metric rat rat string
  | AccountingError budget_metric string
  | ScopeDenied bridge_scope "string option"
  | ActionDenied action_class "string option"

record unattended_budget =
  max_tokens :: rat
  max_tool_calls :: rat
  max_wall_time_ms :: rat
  max_cost_usd :: rat

datatype audit_event =
    AuNegotiated string string
  | AuBudgetExceeded budget_metric rat rat string
  | AuAborted string string
  | AuAbortSettled bool nat
  | AuScopeDenied bridge_scope "string option"
  | AuActionDenied action_class "string option"

datatype abort_hook = HAbortModelStream | HAbortBash | HCancelHostTools | HCancelHostUris | HStopWorkflow

record negotiate_context =
  nc_runId :: string
  nc_hooks :: "abort_hook list"
  nc_failingHooks :: "abort_hook list"
  nc_providerSupports :: bool
  nc_now :: rat

record controller =
  uc_runId :: string
  uc_actor :: string
  uc_budget :: unattended_budget
  uc_scopes :: "bridge_scope list"
  uc_actionAllowlist :: "action_class list"
  uc_tokens :: rat
  uc_toolCalls :: nat
  uc_costUsd :: rat
  uc_startedAt :: rat
  uc_hooks :: "abort_hook list"
  uc_failingHooks :: "abort_hook list"
  uc_aborted :: bool
  uc_hooksRun :: "abort_hook list"
  uc_unsettled :: "string option"
  uc_audit :: "audit_event list"

section \<open>Negotiation\<close>

definition positive_finite :: "json option \<Rightarrow> rat option" where
  "positive_finite v = (case v of Some (JNum (Fin r)) \<Rightarrow> if 0 < r then Some r else None | _ \<Rightarrow> None)"

definition validateBudget :: "json option \<Rightarrow> refusal + unattended_budget" where
  "validateBudget b =
     (case b of None \<Rightarrow> Inl IncompleteBudget
      | Some v \<Rightarrow>
          (if \<not> is_object v then Inl IncompleteBudget
           else case (positive_finite (jget v ''max_tokens''), positive_finite (jget v ''max_tool_calls''),
                      positive_finite (jget v ''max_wall_time_ms''), positive_finite (jget v ''max_cost_usd'')) of
             (Some t, Some c, Some w, Some d) \<Rightarrow>
               Inr \<lparr>max_tokens = t, max_tool_calls = c, max_wall_time_ms = w, max_cost_usd = d\<rparr>
           | _ \<Rightarrow> Inl IncompleteBudget))"

text \<open>A declared list of names: all strings, all known.\<close>

fun known_names :: "('a \<Rightarrow> string) \<Rightarrow> 'a list \<Rightarrow> json list \<Rightarrow> 'a list option" where
  "known_names f known [] = Some []"
| "known_names f known (v # vs) =
     (case v of JStr s \<Rightarrow>
        (case find (\<lambda>x. f x = s) known of
           None \<Rightarrow> None
         | Some x \<Rightarrow> map_option (\<lambda>xs. x # xs) (known_names f known vs))
      | _ \<Rightarrow> None)"

definition declared :: "('a \<Rightarrow> string) \<Rightarrow> 'a list \<Rightarrow> json option \<Rightarrow> 'a list option" where
  "declared f known v = Option.bind (as_arr v) (known_names f known)"

definition new_controller ::
  "string \<Rightarrow> bridge_scope list \<Rightarrow> action_class list \<Rightarrow> unattended_budget \<Rightarrow> negotiate_context \<Rightarrow> controller" where
  "new_controller actor scopes actions budget ctx =
     \<lparr>uc_runId = nc_runId ctx, uc_actor = actor, uc_budget = budget,
      uc_scopes = scopes @ MANDATORY_FLOOR_COMMAND_SCOPES,
      uc_actionAllowlist = actions @ map actionClassForScope MANDATORY_FLOOR_COMMAND_SCOPES,
      uc_tokens = 0, uc_toolCalls = 0, uc_costUsd = 0, uc_startedAt = nc_now ctx,
      uc_hooks = nc_hooks ctx, uc_failingHooks = nc_failingHooks ctx, uc_aborted = False, uc_hooksRun = [], uc_unsettled = None,
      uc_audit = [AuNegotiated (nc_runId ctx) actor]\<rparr>"

definition negotiate :: "json \<Rightarrow> negotiate_context \<Rightarrow> refusal + controller" where
  "negotiate d ctx =
     (if \<not> is_object d then Inl InvalidDeclaration
      else case as_str (jget d ''actor'') of
        None \<Rightarrow> Inl InvalidDeclaration
      | Some actor \<Rightarrow>
          (if trim actor = [] then Inl InvalidDeclaration
           else case (declared scope_str BRIDGE_COMMAND_SCOPES (jget d ''scopes''),
                      declared action_str RPC_UNATTENDED_ACTION_CLASSES (jget d ''action_allowlist'')) of
             (Some scopes, Some actions) \<Rightarrow>
               andThen (validateBudget (jget d ''budget'')) (\<lambda>budget.
                 if \<not> nc_providerSupports ctx then Inl UnsupportedBudgetMetric
                 else Inr (new_controller actor scopes actions budget ctx))
           | _ \<Rightarrow> Inl InvalidDeclaration))"

section \<open>Abort\<close>

definition ABORT_HOOKS :: "abort_hook list" where
  "ABORT_HOOKS = [HAbortModelStream, HAbortBash, HCancelHostTools, HCancelHostUris, HStopWorkflow]"

text \<open>\<open>runAbortHooks\<close> calls the hooks the context configures, in this order.\<close>

definition configured_hooks :: "controller \<Rightarrow> abort_hook list" where
  "configured_hooks c = filter (\<lambda>h. h \<in> set (uc_hooks c)) ABORT_HOOKS"

text \<open>\<open>fireAbort\<close>: the hooks run at once, their completion is reported by \<open>settleAbort\<close>.\<close>

definition fireAbort :: "string \<Rightarrow> controller \<Rightarrow> controller" where
  "fireAbort why c =
     (if uc_aborted c then c
      else c\<lparr>uc_aborted := True, uc_hooksRun := uc_hooksRun c @ configured_hooks c, uc_unsettled := Some why\<rparr>)"

definition settleAbort :: "controller \<Rightarrow> controller" where
  "settleAbort c = (case uc_unsettled c of None \<Rightarrow> c
     | Some why \<Rightarrow>
         (let failures = length (filter (\<lambda>h. h \<in> set (uc_failingHooks c)) (configured_hooks c))
          in c\<lparr>uc_unsettled := None,
               uc_audit := uc_audit c @ [AuAborted (uc_runId c) why, AuAbortSettled (failures = 0) failures]\<rparr>))"

definition metric_str :: "budget_metric \<Rightarrow> string" where
  "metric_str m = (case m of MTokens \<Rightarrow> ''tokens'' | MToolCalls \<Rightarrow> ''tool_calls'' | MWallTime \<Rightarrow> ''wall_time'' | MCost \<Rightarrow> ''cost'')"

type_synonym outcome = "unattended_error option \<times> controller"

definition breach :: "budget_metric \<Rightarrow> rat \<Rightarrow> rat \<Rightarrow> string \<Rightarrow> controller \<Rightarrow> outcome" where
  "breach m limit observed phase c =
     (let c' = fireAbort (''budget_exceeded:'' @ metric_str m) c
      in (Some (BudgetExceeded m limit observed phase),
          c'\<lparr>uc_audit := uc_audit c' @ [AuBudgetExceeded m limit observed phase]\<rparr>))"

definition accounting_failure :: "budget_metric \<Rightarrow> string \<Rightarrow> controller \<Rightarrow> outcome" where
  "accounting_failure m phase c = (Some (AccountingError m phase), fireAbort (''accounting:'' @ metric_str m) c)"

text \<open>Sequencing: an operation that throws ends the sequence.\<close>

definition after :: "outcome \<Rightarrow> (controller \<Rightarrow> outcome) \<Rightarrow> outcome" where
  "after r f = (case fst r of None \<Rightarrow> f (snd r) | Some e \<Rightarrow> r)"

section \<open>Authorization\<close>

definition authorizeScope :: "bridge_scope \<Rightarrow> string option \<Rightarrow> controller \<Rightarrow> outcome" where
  "authorizeScope scope command c =
     (if scope \<in> set (uc_scopes c) then (None, c)
      else (Some (ScopeDenied scope command), c\<lparr>uc_audit := uc_audit c @ [AuScopeDenied scope command]\<rparr>))"

definition authorizeAction :: "action_class \<Rightarrow> string option \<Rightarrow> controller \<Rightarrow> outcome" where
  "authorizeAction action command c =
     (if action \<in> set (uc_actionAllowlist c) then (None, c)
      else (Some (ActionDenied action command), c\<lparr>uc_audit := uc_audit c @ [AuActionDenied action command]\<rparr>))"

definition authorizeBash :: "string \<Rightarrow> controller \<Rightarrow> outcome" where
  "authorizeBash command c =
     after (authorizeScope ScBash (Some command) c) (authorizeAction (classifyBashAction command) (Some command))"

section \<open>Accounting\<close>

definition remainingWallTimeMs :: "rat \<Rightarrow> controller \<Rightarrow> rat" where
  "remainingWallTimeMs now c = max 0 (max_wall_time_ms (uc_budget c) - (now - uc_startedAt c))"

definition checkWallTime :: "string \<Rightarrow> rat \<Rightarrow> controller \<Rightarrow> outcome" where
  "checkWallTime phase now c =
     (let elapsed = now - uc_startedAt c
      in if elapsed > max_wall_time_ms (uc_budget c)
         then breach MWallTime (max_wall_time_ms (uc_budget c)) elapsed phase c else (None, c))"

definition estimate_check ::
  "budget_metric \<Rightarrow> (controller \<Rightarrow> rat) \<Rightarrow> (unattended_budget \<Rightarrow> rat) \<Rightarrow> js_number option \<Rightarrow> controller \<Rightarrow> outcome" where
  "estimate_check m used limit est c =
     (case est of None \<Rightarrow> (None, c)
      | Some (Fin x) \<Rightarrow>
          (if used c + x > limit (uc_budget c) then breach m (limit (uc_budget c)) (used c + x) ''pre-turn estimate'' c
           else (None, c))
      | Some _ \<Rightarrow> accounting_failure m ''pre-turn estimate'' c)"

definition preTurnEstimate :: "js_number option \<Rightarrow> js_number option \<Rightarrow> rat \<Rightarrow> controller \<Rightarrow> outcome" where
  "preTurnEstimate tokens cost now c =
     after (checkWallTime ''pre-turn estimate'' now c) (\<lambda>c1.
       after (estimate_check MTokens uc_tokens max_tokens tokens c1)
         (estimate_check MCost uc_costUsd max_cost_usd cost))"

definition preflightToolCall :: "string \<Rightarrow> rat \<Rightarrow> controller \<Rightarrow> outcome" where
  "preflightToolCall phase now c =
     after (checkWallTime phase now c) (\<lambda>c1.
       if rat_of_nat (uc_toolCalls c1) + 1 > max_tool_calls (uc_budget c1)
       then breach MToolCalls (max_tool_calls (uc_budget c1)) (rat_of_nat (uc_toolCalls c1) + 1) phase c1
       else (None, c1\<lparr>uc_toolCalls := uc_toolCalls c1 + 1\<rparr>))"

definition recordTokens :: "js_number \<Rightarrow> string \<Rightarrow> controller \<Rightarrow> outcome" where
  "recordTokens n phase c =
     (case n of
        Fin x \<Rightarrow>
          (let c1 = c\<lparr>uc_tokens := uc_tokens c + max 0 x\<rparr>
           in if uc_tokens c1 > max_tokens (uc_budget c1)
              then breach MTokens (max_tokens (uc_budget c1)) (uc_tokens c1) phase c1 else (None, c1))
      | _ \<Rightarrow> accounting_failure MTokens phase c)"

definition recordCost :: "js_number \<Rightarrow> string \<Rightarrow> controller \<Rightarrow> outcome" where
  "recordCost n phase c =
     (case n of
        Fin x \<Rightarrow>
          (let c1 = c\<lparr>uc_costUsd := uc_costUsd c + max 0 x\<rparr>
           in if uc_costUsd c1 > max_cost_usd (uc_budget c1)
              then breach MCost (max_cost_usd (uc_budget c1)) (uc_costUsd c1) phase c1 else (None, c1))
      | _ \<Rightarrow> accounting_failure MCost phase c)"

definition reconcile :: "js_number option \<Rightarrow> js_number option \<Rightarrow> string \<Rightarrow> controller \<Rightarrow> outcome" where
  "reconcile tokens cost phase c =
     after (case tokens of None \<Rightarrow> (None, c) | Some n \<Rightarrow> recordTokens n phase c) (\<lambda>c1.
       case cost of None \<Rightarrow> (None, c1) | Some n \<Rightarrow> recordCost n phase c1)"

definition abort_run :: "string \<Rightarrow> controller \<Rightarrow> controller" where
  "abort_run why c = fireAbort why c"

section \<open>Negotiation fails closed\<close>

lemma known_names_sound:
  "known_names f known vs = Some xs \<Longrightarrow> map JStr (map f xs) = vs \<and> set xs \<subseteq> set known"
  by (induction vs arbitrary: xs)
    (auto split: json.splits option.splits simp: find_Some_iff)

text \<open>
  Unattended mode is entered on a complete declaration only: a negotiation that succeeds had a
  named actor, lists of known scopes and known action classes, four positive finite limits and a
  provider that accounts for tokens and cost. The run then holds exactly the declared scopes and
  actions plus the mandatory prompt floor, with nothing used, nothing aborted and the negotiation
  audited.
\<close>

theorem negotiate_fails_closed:
  assumes "negotiate d ctx = Inr c"
  shows "trim (uc_actor c) \<noteq> [] \<and> jget d ''actor'' = Some (JStr (uc_actor c)) \<and>
         0 < max_tokens (uc_budget c) \<and> 0 < max_tool_calls (uc_budget c) \<and> 0 < max_wall_time_ms (uc_budget c) \<and>
         0 < max_cost_usd (uc_budget c) \<and> nc_providerSupports ctx \<and>
         (\<exists>ss as. jget d ''scopes'' = Some (JArr (map JStr (map scope_str ss))) \<and> uc_scopes c = ss @ [ScPrompt] \<and>
            jget d ''action_allowlist'' = Some (JArr (map JStr (map action_str as))) \<and>
            uc_actionAllowlist c = as @ [ACommand ScPrompt]) \<and>
         uc_tokens c = 0 \<and> uc_toolCalls c = 0 \<and> uc_costUsd c = 0 \<and> \<not> uc_aborted c \<and>
         uc_audit c = [AuNegotiated (nc_runId ctx) (uc_actor c)]"
proof -
  obtain actor scopes actions budget where a: "jget d ''actor'' = Some (JStr actor)" "trim actor \<noteq> []"
    "declared scope_str BRIDGE_COMMAND_SCOPES (jget d ''scopes'') = Some scopes"
    "declared action_str RPC_UNATTENDED_ACTION_CLASSES (jget d ''action_allowlist'') = Some actions"
    "validateBudget (jget d ''budget'') = Inr budget" "nc_providerSupports ctx"
    "c = new_controller actor scopes actions budget ctx"
    using assms by (auto simp: negotiate_def split: if_splits option.splits)
  have list: "declared f known v = Some xs \<Longrightarrow> v = Some (JArr (map JStr (map f xs)))" for f :: "'a \<Rightarrow> string" and known v xs
    by (auto simp: declared_def bind_eq_Some_conv dest: known_names_sound)
  have "0 < max_tokens budget" "0 < max_tool_calls budget" "0 < max_wall_time_ms budget" "0 < max_cost_usd budget"
    using a(5) by (auto simp: validateBudget_def positive_finite_def split: option.splits if_splits json.splits js_number.splits)
  then show ?thesis
    using a list [OF a(3)] list [OF a(4)]
    by (auto simp: new_controller_def MANDATORY_FLOOR_COMMAND_SCOPES_def actionClassForScope_def)
qed

definition demo_declaration :: json where
  "demo_declaration = JObj [(''actor'', JStr ''bot''), (''scopes'', JArr [JStr ''bash'']),
     (''action_allowlist'', JArr [JStr ''bash.readonly'', JStr ''bash.mutating'']),
     (''budget'', JObj [(''max_tokens'', JNum (Fin 100)), (''max_tool_calls'', JNum (Fin 2)),
        (''max_wall_time_ms'', JNum (Fin 1000)), (''max_cost_usd'', JNum (Fin 1))])]"

definition demo_context :: negotiate_context where
  "demo_context = \<lparr>nc_runId = ''r1'', nc_hooks = [HStopWorkflow, HAbortBash], nc_failingHooks = [HAbortBash], nc_providerSupports = True, nc_now = 0\<rparr>"

definition demo_controller :: controller where
  "demo_controller = new_controller ''bot'' [ScBash] [BashReadonly, BashMutating]
     \<lparr>max_tokens = 100, max_tool_calls = 2, max_wall_time_ms = 1000, max_cost_usd = 1\<rparr> demo_context"

lemma demo_negotiates: "negotiate demo_declaration demo_context = Inr demo_controller"
proof -
  have "declared scope_str BRIDGE_COMMAND_SCOPES (jget demo_declaration ''scopes'') = Some [ScBash]"
    by (simp add: declared_def demo_declaration_def BRIDGE_COMMAND_SCOPES_def scope_str_def)
  moreover have "declared action_str RPC_UNATTENDED_ACTION_CLASSES (jget demo_declaration ''action_allowlist'') =
      Some [BashReadonly, BashMutating]"
    by (simp add: declared_def demo_declaration_def RPC_UNATTENDED_ACTION_CLASSES_def BRIDGE_COMMAND_SCOPES_def
        action_str_def scope_str_def)
  moreover have "is_object demo_declaration" "jget demo_declaration ''actor'' = Some (JStr ''bot'')"
    "trim ''bot'' = ''bot''" "nc_providerSupports demo_context"
    by (simp_all add: demo_declaration_def is_object_def trim_def trim_start_def is_js_space_def demo_context_def)
  moreover have "validateBudget (jget demo_declaration ''budget'') =
      Inr \<lparr>max_tokens = 100, max_tool_calls = 2, max_wall_time_ms = 1000, max_cost_usd = 1\<rparr>"
    by (simp add: validateBudget_def demo_declaration_def positive_finite_def is_object_def)
  ultimately show ?thesis by (simp add: negotiate_def demo_controller_def)
qed

theorem negotiate_fails_closed_witness:
  "\<exists>c. negotiate demo_declaration demo_context = Inr c \<and> 0 < max_tokens (uc_budget c) \<and> \<not> uc_aborted c"
  using negotiate_fails_closed [OF demo_negotiates] demo_negotiates by blast

section \<open>Budgets hold on every path\<close>

datatype controller_op =
    OAuthorizeScope bridge_scope "string option"
  | OAuthorizeAction action_class "string option"
  | OAuthorizeBash string
  | OPreTurnEstimate "js_number option" "js_number option" rat
  | OPreflightToolCall string rat
  | ORecordTokens js_number string
  | ORecordCost js_number string
  | OReconcile "js_number option" "js_number option" string
  | OCheckWallTime string rat
  | OAbort string
  | OSettleAbort

definition perform :: "controller_op \<Rightarrow> controller \<Rightarrow> outcome" where
  "perform op c = (case op of
      OAuthorizeScope s cmd \<Rightarrow> authorizeScope s cmd c
    | OAuthorizeAction a cmd \<Rightarrow> authorizeAction a cmd c
    | OAuthorizeBash cmd \<Rightarrow> authorizeBash cmd c
    | OPreTurnEstimate t d now \<Rightarrow> preTurnEstimate t d now c
    | OPreflightToolCall ph now \<Rightarrow> preflightToolCall ph now c
    | ORecordTokens n ph \<Rightarrow> recordTokens n ph c
    | ORecordCost n ph \<Rightarrow> recordCost n ph c
    | OReconcile t d ph \<Rightarrow> reconcile t d ph c
    | OCheckWallTime ph now \<Rightarrow> checkWallTime ph now c
    | OAbort why \<Rightarrow> (None, abort_run why c)
    | OSettleAbort \<Rightarrow> (None, settleAbort c))"

inductive controller_step :: "controller \<Rightarrow> controller_op \<Rightarrow> controller \<Rightarrow> bool" where
  controller_step_op: "perform op c = (e, c') \<Longrightarrow> controller_step c op c'"

definition controller_init :: "controller \<Rightarrow> bool" where
  "controller_init c \<longleftrightarrow> (\<exists>d ctx. negotiate d ctx = Inr c)"

definition budget_ok :: "controller \<Rightarrow> bool" where
  "budget_ok c \<longleftrightarrow>
     rat_of_nat (uc_toolCalls c) \<le> max_tool_calls (uc_budget c) \<and>
     (\<not> uc_aborted c \<longrightarrow> uc_tokens c \<le> max_tokens (uc_budget c) \<and> uc_costUsd c \<le> max_cost_usd (uc_budget c)) \<and>
     uc_hooksRun c = (if uc_aborted c then configured_hooks c else [])"

lemma configured_hooks_update [simp]:
  "configured_hooks (c\<lparr>uc_aborted := b\<rparr>) = configured_hooks c"
  "configured_hooks (c\<lparr>uc_hooksRun := h\<rparr>) = configured_hooks c"
  "configured_hooks (c\<lparr>uc_unsettled := u\<rparr>) = configured_hooks c"
  "configured_hooks (c\<lparr>uc_audit := a\<rparr>) = configured_hooks c"
  "configured_hooks (c\<lparr>uc_tokens := t\<rparr>) = configured_hooks c"
  "configured_hooks (c\<lparr>uc_costUsd := t\<rparr>) = configured_hooks c"
  "configured_hooks (c\<lparr>uc_toolCalls := n\<rparr>) = configured_hooks c"
  by (simp_all add: configured_hooks_def)

lemma fireAbort_ok: "rat_of_nat (uc_toolCalls c) \<le> max_tool_calls (uc_budget c) \<Longrightarrow>
    uc_hooksRun c = (if uc_aborted c then configured_hooks c else []) \<Longrightarrow> budget_ok (fireAbort why c)"
  by (simp add: budget_ok_def fireAbort_def)

lemma budget_ok_audit: "budget_ok (c\<lparr>uc_audit := a\<rparr>) = budget_ok c"
  by (simp add: budget_ok_def)

lemma breach_ok: "rat_of_nat (uc_toolCalls c) \<le> max_tool_calls (uc_budget c) \<Longrightarrow>
    uc_hooksRun c = (if uc_aborted c then configured_hooks c else []) \<Longrightarrow> budget_ok (snd (breach m l x ph c))"
  by (simp add: breach_def Let_def budget_ok_audit fireAbort_ok)

lemma after_ok:
  "budget_ok (snd r) \<Longrightarrow> (\<And>c. budget_ok c \<Longrightarrow> budget_ok (snd (f c))) \<Longrightarrow> budget_ok (snd (after r f))"
  by (simp add: after_def split: option.split)

lemma ok_parts: "budget_ok c \<Longrightarrow> rat_of_nat (uc_toolCalls c) \<le> max_tool_calls (uc_budget c)"
  "budget_ok c \<Longrightarrow> uc_hooksRun c = (if uc_aborted c then configured_hooks c else [])"
  by (simp_all add: budget_ok_def)

lemma accounting_ops_ok:
  assumes "budget_ok c"
  shows "budget_ok (snd (checkWallTime ph now c))" "budget_ok (snd (estimate_check m u l est c))"
    "budget_ok (snd (recordTokens n ph c))" "budget_ok (snd (recordCost n ph c))"
    "budget_ok (snd (authorizeScope sc cmd c))" "budget_ok (snd (authorizeAction ac cmd c))"
  using assms ok_parts [OF assms]
  by (auto simp: checkWallTime_def estimate_check_def accounting_failure_def recordTokens_def recordCost_def Let_def
      authorizeScope_def authorizeAction_def budget_ok_audit
      intro!: breach_ok fireAbort_ok split: option.split js_number.split) (simp_all add: budget_ok_def)

lemma perform_ok: "budget_ok c \<Longrightarrow> budget_ok (snd (perform op c))"
proof (cases op)
  case (OPreflightToolCall ph now)
  assume ok: "budget_ok c"
  have "budget_ok (snd (if rat_of_nat (uc_toolCalls d) + 1 > max_tool_calls (uc_budget d)
       then breach MToolCalls (max_tool_calls (uc_budget d)) (rat_of_nat (uc_toolCalls d) + 1) ph d
       else (None, d\<lparr>uc_toolCalls := uc_toolCalls d + 1\<rparr>)))" if "budget_ok d" for d
    using that ok_parts [OF that] breach_ok [OF ok_parts [OF that]] by (auto simp: budget_ok_def)
  then show ?thesis
    using ok by (simp only: OPreflightToolCall perform_def controller_op.case preflightToolCall_def)
      (intro after_ok accounting_ops_ok)
next
  case (OReconcile t d ph)
  assume "budget_ok c"
  then show ?thesis
    by (auto simp: OReconcile perform_def reconcile_def intro!: after_ok accounting_ops_ok split: option.split)
next
  case OSettleAbort
  assume "budget_ok c"
  then show ?thesis
    by (auto simp: OSettleAbort perform_def settleAbort_def budget_ok_def Let_def split: option.split)
qed (auto simp: perform_def authorizeBash_def preTurnEstimate_def abort_run_def ok_parts
    intro!: after_ok accounting_ops_ok fireAbort_ok)

interpretation unattended_machine: machine_invariant controller_init controller_step budget_ok
proof unfold_locales
  show "controller_init c \<Longrightarrow> budget_ok c" for c
  proof -
    assume "controller_init c"
    then obtain d ctx actor ss as b where "negotiate d ctx = Inr c"
      by (auto simp: controller_init_def)
    then obtain actor ss as b where c: "c = new_controller actor ss as b ctx" "validateBudget (jget d ''budget'') = Inr b"
      by (auto simp: negotiate_def split: if_splits option.splits)
    then have "0 < max_tokens b" "0 < max_tool_calls b" "0 < max_cost_usd b"
      by (auto simp: validateBudget_def positive_finite_def split: option.splits if_splits json.splits js_number.splits)
    then show "budget_ok c" by (simp add: c(1) new_controller_def budget_ok_def)
  qed
  show "budget_ok c \<Longrightarrow> controller_step c op c' \<Longrightarrow> budget_ok c'" for c op c'
    using perform_ok [of c op] by (auto elim!: controller_step.cases)
qed


definition demo_aborted :: controller where
  "demo_aborted = snd (perform (ORecordTokens (Fin 101) ''turn'') demo_controller)"

lemma demo_aborted: "reach controller_init controller_step demo_aborted" "uc_aborted demo_aborted"
  "uc_budget demo_aborted = uc_budget demo_controller" "uc_toolCalls demo_aborted = 0" "uc_startedAt demo_aborted = 0"
proof -
  have i: "controller_init demo_controller" using demo_negotiates by (auto simp: controller_init_def)
  have st: "controller_step demo_controller (ORecordTokens (Fin 101) ''turn'') demo_aborted"
    by (rule controller_step_op) (simp add: demo_aborted_def prod_eq_iff)
  show "reach controller_init controller_step demo_aborted"
    by (rule reach_step [where step = controller_step, OF reach_init [of controller_init, OF i] st])
  show "uc_aborted demo_aborted" "uc_budget demo_aborted = uc_budget demo_controller" "uc_toolCalls demo_aborted = 0"
    "uc_startedAt demo_aborted = 0"
    by (simp_all add: demo_aborted_def perform_def recordTokens_def Let_def breach_def fireAbort_def demo_controller_def
        new_controller_def demo_context_def)
qed

lemma demo_aborted_hooks: "configured_hooks demo_aborted = [HAbortBash, HStopWorkflow]"
  by (simp add: configured_hooks_def demo_aborted_def perform_def recordTokens_def Let_def breach_def fireAbort_def
      demo_controller_def new_controller_def demo_context_def ABORT_HOOKS_def)


section \<open>Shell commands\<close>

lemma authorizeBash_allows_iff:
  "fst (authorizeBash cmd c) = None \<longleftrightarrow>
     ScBash \<in> set (uc_scopes c) \<and> classifyBashAction cmd \<in> set (uc_actionAllowlist c)"
  by (simp add: authorizeBash_def after_def authorizeScope_def authorizeAction_def)

text \<open>
  A shell command cannot smuggle a statement past the allowlist: if every class a run may use
  is milder than the class of some statement the command runs, at any nesting depth, the command is
  refused, the refusal is audited, and nothing else of the run changes.
\<close>

theorem authorizeBash_denies_hidden_statement:
  assumes "runs cmd st"
    and "\<forall>a\<in>set (uc_actionAllowlist c). index_of a SEVERITY < index_of (classifyStatement st) SEVERITY"
  shows "\<exists>e ev. authorizeBash cmd c = (Some e, c\<lparr>uc_audit := uc_audit c @ [ev]\<rparr>)"
proof -
  have "classifyBashAction cmd \<notin> set (uc_actionAllowlist c)"
    using assms(2) classifyBashAction_covers [OF assms(1)] by force
  then show ?thesis
    by (auto simp: authorizeBash_def after_def authorizeScope_def authorizeAction_def)
qed

theorem authorizeBash_denies_hidden_statement_witness:
  "\<exists>e ev. authorizeBash ''rm f'' demo_controller = (Some e, demo_controller\<lparr>uc_audit := uc_audit demo_controller @ [ev]\<rparr>)"
proof (rule authorizeBash_denies_hidden_statement [where st = "''rm f''"])
  show "runs ''rm f'' ''rm f''"
    by (rule runs_here) (subst plain_statements; simp add: char_classes trim_def trim_start_def)
  show "\<forall>a\<in>set (uc_actionAllowlist demo_controller). index_of a SEVERITY < index_of (classifyStatement ''rm f'') SEVERITY"
    by (simp add: statement_rm demo_controller_def new_controller_def SEVERITY_def MANDATORY_FLOOR_COMMAND_SCOPES_def
        actionClassForScope_def)
qed

text \<open>
  The abort does not latch the controller: a tool call within the time and call limits is
  reserved whether or not the run was aborted, with no error and no audit event.
\<close>

theorem aborted_controller_still_reserves:
  assumes "now - uc_startedAt c \<le> max_wall_time_ms (uc_budget c)"
    and "rat_of_nat (uc_toolCalls c) + 1 \<le> max_tool_calls (uc_budget c)"
  shows "preflightToolCall phase now (c\<lparr>uc_aborted := b\<rparr>) =
           (None, c\<lparr>uc_aborted := b, uc_toolCalls := uc_toolCalls c + 1\<rparr>)"
  using assms by (simp add: preflightToolCall_def after_def checkWallTime_def Let_def)

theorem aborted_controller_still_reserves_witness:
  "uc_aborted demo_aborted \<and> preflightToolCall ''tool'' 0 demo_aborted =
     (None, demo_aborted\<lparr>uc_toolCalls := 1\<rparr>)"
proof -
  have "demo_aborted\<lparr>uc_aborted := True\<rparr> = demo_aborted" using demo_aborted(2) by (cases demo_aborted) simp
  moreover have "preflightToolCall ''tool'' 0 (demo_aborted\<lparr>uc_aborted := True\<rparr>) =
      (None, demo_aborted\<lparr>uc_aborted := True, uc_toolCalls := uc_toolCalls demo_aborted + 1\<rparr>)"
    by (rule aborted_controller_still_reserves)
      (simp_all add: demo_aborted(3-5), simp_all add: demo_controller_def new_controller_def)
  ultimately show ?thesis
    using demo_aborted(2,4) by (simp only: add_0 simp_thms)
qed

end
