(* ===== verification/UI_Broker.thy ===== *)
theory UI_Broker
  imports JS_Prelude
begin

text \<open>
  The request/response broker of the UI and permission surfaces
  (\<open>agent-wire/ui-request-broker.ts\<close>): one controller at a time, correlated requests, answers,
  cancellation, time-outs, aborts and disconnects. \<open>ub_settled\<close> logs every call of the
  \<open>resolve\<close> function of a request's promise, \<open>ub_emitted\<close> every emitted request;
  \<open>ub_timers\<close> and \<open>ub_listeners\<close> are the live timers and abort listeners. Generated ids
  are arguments.
\<close>

section \<open>State\<close>

datatype ui_cancel_reason = UiTimeout | UiAbort | UiDisconnect

datatype 'r ui_resolution = UiAnswered 'r | UiCancelled ui_cancel_reason

datatype ui_response_result = UiAccepted | UiNotController | UiAlreadyResolved | UiUnknownRequest

datatype ui_claim = UiClaimed string | UiBusy

record ui_pending =
  up_timer :: bool
  up_onAbort :: bool

text \<open>The options of a request: whether a time-out is set, and the signal with its aborted flag.\<close>

record ui_request_options =
  uo_timeout :: bool
  uo_signal :: "bool option"

record ('q, 'r) ui_broker =
  ub_owner :: "string option"
  ub_pending :: "(string, ui_pending) js_map"
  ub_resolved :: "string list"
  ub_timers :: "string list"
  ub_listeners :: "string list"
  ub_emitted :: "(string \<times> 'q) list"
  ub_settled :: "(string \<times> 'r ui_resolution) list"

definition ui_broker0 :: "('q, 'r) ui_broker" where
  "ui_broker0 = \<lparr>ub_owner = None, ub_pending = [], ub_resolved = [], ub_timers = [], ub_listeners = [],
     ub_emitted = [], ub_settled = []\<rparr>"

section \<open>Operations\<close>

definition pendingCount :: "('q, 'r) ui_broker \<Rightarrow> nat" where
  "pendingCount b = length (ub_pending b)"

definition claimController :: "string \<Rightarrow> ('q, 'r) ui_broker \<Rightarrow> ui_claim \<times> ('q, 'r) ui_broker" where
  "claimController tok b =
     (if ub_owner b \<noteq> None \<and> ub_owner b \<noteq> Some [] then (UiBusy, b) else (UiClaimed tok, b\<lparr>ub_owner := Some tok\<rparr>))"

definition releaseController :: "string \<Rightarrow> ('q, 'r) ui_broker \<Rightarrow> bool \<times> ('q, 'r) ui_broker" where
  "releaseController tok b = (if ub_owner b \<noteq> Some tok then (False, b) else (True, b\<lparr>ub_owner := None\<rparr>))"

text \<open>
  The common body of \<open>settle\<close>, \<open>respond\<close> and \<open>cancel\<close> for a pending request:
  forget it, remember its id, clear its timer and its listener, resolve its promise.
\<close>

definition finish :: "string \<Rightarrow> ui_pending \<Rightarrow> 'r ui_resolution \<Rightarrow> ('q, 'r) ui_broker \<Rightarrow> ('q, 'r) ui_broker" where
  "finish i p v b =
     b\<lparr>ub_pending := map_delete i (ub_pending b), ub_resolved := List.insert i (ub_resolved b),
       ub_timers := (if up_timer p then removeAll i (ub_timers b) else ub_timers b),
       ub_listeners := (if up_onAbort p then removeAll i (ub_listeners b) else ub_listeners b),
       ub_settled := ub_settled b @ [(i, v)]\<rparr>"

definition settle :: "string \<Rightarrow> 'r ui_resolution \<Rightarrow> ('q, 'r) ui_broker \<Rightarrow> ('q, 'r) ui_broker" where
  "settle i v b = (case map_get (ub_pending b) i of None \<Rightarrow> b | Some p \<Rightarrow> finish i p v b)"

text \<open>
  \<open>request\<close>; the error is the duplicate correlation id. The timer is set before the signal is
  looked at, and a signal that is aborted already settles the promise without a pending entry.
\<close>

definition request :: "string \<Rightarrow> 'q \<Rightarrow> ui_request_options \<Rightarrow> ('q, 'r) ui_broker \<Rightarrow> string + ('q, 'r) ui_broker" where
  "request i q opts b =
     (if map_get (ub_pending b) i \<noteq> None \<or> i \<in> set (ub_resolved b) then Inl i
      else let b1 = (if uo_timeout opts then b\<lparr>ub_timers := ub_timers b @ [i]\<rparr> else b)
           in if uo_signal opts = Some True
              then Inr (b1\<lparr>ub_settled := ub_settled b1 @ [(i, UiCancelled UiAbort)],
                           ub_resolved := List.insert i (ub_resolved b1)\<rparr>)
              else Inr (b1\<lparr>ub_listeners := (if uo_signal opts = None then ub_listeners b1 else ub_listeners b1 @ [i]),
                           ub_pending := map_set i \<lparr>up_timer = uo_timeout opts, up_onAbort = (uo_signal opts \<noteq> None)\<rparr> (ub_pending b1),
                           ub_emitted := ub_emitted b1 @ [(i, q)]\<rparr>))"

definition respond :: "string \<Rightarrow> string \<Rightarrow> 'r \<Rightarrow> ('q, 'r) ui_broker \<Rightarrow> ui_response_result \<times> ('q, 'r) ui_broker" where
  "respond i tok r b =
     (if ub_owner b \<noteq> Some tok then (UiNotController, b)
      else case map_get (ub_pending b) i of
        None \<Rightarrow> (if i \<in> set (ub_resolved b) then UiAlreadyResolved else UiUnknownRequest, b)
      | Some p \<Rightarrow> (UiAccepted, finish i p (UiAnswered r) b))"

definition cancel :: "string \<Rightarrow> ui_cancel_reason \<Rightarrow> ('q, 'r) ui_broker \<Rightarrow> bool \<times> ('q, 'r) ui_broker" where
  "cancel i why b =
     (case map_get (ub_pending b) i of None \<Rightarrow> (False, b) | Some p \<Rightarrow> (True, finish i p (UiCancelled why) b))"

definition cancelAll :: "ui_cancel_reason \<Rightarrow> ('q, 'r) ui_broker \<Rightarrow> ('q, 'r) ui_broker" where
  "cancelAll why b = foldl (\<lambda>s i. snd (cancel i why s)) b (map fst (ub_pending b))"

definition disconnectController :: "string \<Rightarrow> ('q, 'r) ui_broker \<Rightarrow> bool \<times> ('q, 'r) ui_broker" where
  "disconnectController tok b =
     (let (ok, b') = releaseController tok b in if \<not> ok then (False, b') else (True, cancelAll UiDisconnect b'))"

text \<open>A timer fires once; an abort listener is registered with \<open>once\<close>.\<close>

definition fireTimer :: "string \<Rightarrow> ('q, 'r) ui_broker \<Rightarrow> ('q, 'r) ui_broker" where
  "fireTimer i b = settle i (UiCancelled UiTimeout) (b\<lparr>ub_timers := removeAll i (ub_timers b)\<rparr>)"

definition fireSignal :: "string \<Rightarrow> ('q, 'r) ui_broker \<Rightarrow> ('q, 'r) ui_broker" where
  "fireSignal i b = settle i (UiCancelled UiAbort) (b\<lparr>ub_listeners := removeAll i (ub_listeners b)\<rparr>)"

section \<open>Steps and the invariant\<close>

datatype ('q, 'r) ui_event =
    UClaim string
  | URelease string
  | URequest string 'q ui_request_options
  | URespond string string 'r
  | UCancel string ui_cancel_reason
  | UCancelAll ui_cancel_reason
  | UDisconnect string
  | UTimer string
  | USignal string

inductive ui_step :: "('q, 'r) ui_broker \<Rightarrow> ('q, 'r) ui_event \<Rightarrow> ('q, 'r) ui_broker \<Rightarrow> bool" where
  ui_claim: "ui_step b (UClaim tok) (snd (claimController tok b))"
| ui_release: "ui_step b (URelease tok) (snd (releaseController tok b))"
| ui_request: "request i q opts b = Inr b' \<Longrightarrow> ui_step b (URequest i q opts) b'"
| ui_respond: "ui_step b (URespond i tok r) (snd (respond i tok r b))"
| ui_cancel: "ui_step b (UCancel i why) (snd (cancel i why b))"
| ui_cancelAll: "ui_step b (UCancelAll why) (cancelAll why b)"
| ui_disconnect: "ui_step b (UDisconnect tok) (snd (disconnectController tok b))"
| ui_timer: "i \<in> set (ub_timers b) \<Longrightarrow> ui_step b (UTimer i) (fireTimer i b)"
| ui_signal: "i \<in> set (ub_listeners b) \<Longrightarrow> ui_step b (USignal i) (fireSignal i b)"

inductive_cases ui_stepE: "ui_step b e b'"

definition ui_init :: "('q, 'r) ui_broker \<Rightarrow> bool" where
  "ui_init b \<longleftrightarrow> b = ui_broker0"

text \<open>
  Pending and resolved ids are disjoint, every resolved id was settled once, every emitted id is
  pending or resolved, and a live listener belongs to a pending request that registered one.
\<close>

definition ui_ok :: "('q, 'r) ui_broker \<Rightarrow> bool" where
  "ui_ok b \<longleftrightarrow> map_ok (ub_pending b) \<and> fst ` set (ub_pending b) \<inter> set (ub_resolved b) = {} \<and>
     distinct (map fst (ub_settled b)) \<and> fst ` set (ub_settled b) = set (ub_resolved b) \<and>
     distinct (map fst (ub_emitted b)) \<and> fst ` set (ub_emitted b) \<subseteq> fst ` set (ub_pending b) \<union> set (ub_resolved b) \<and>
     (\<forall>i\<in>set (ub_listeners b). \<exists>p. map_get (ub_pending b) i = Some p \<and> up_onAbort p)"

lemma pending_key: "map_get m i = Some p \<Longrightarrow> i \<in> fst ` set m"
  by (force dest: map_of_SomeD)

lemma finish_sel [simp]:
  "ub_pending (finish i p v b) = map_delete i (ub_pending b)"
  "ub_resolved (finish i p v b) = List.insert i (ub_resolved b)"
  "ub_settled (finish i p v b) = ub_settled b @ [(i, v)]"
  "ub_emitted (finish i p v b) = ub_emitted b"
  "ub_owner (finish i p v b) = ub_owner b"
  "ub_listeners (finish i p v b) = (if up_onAbort p then removeAll i (ub_listeners b) else ub_listeners b)"
  by (simp_all add: finish_def)

lemma finish_ok:
  assumes "ui_ok b" "map_get (ub_pending b) i = Some p"
  shows "ui_ok (finish i p v b)"
proof -
  have i: "i \<in> fst ` set (ub_pending b)" using assms(2) by (rule pending_key)
  then have new: "i \<notin> set (ub_resolved b)" "i \<notin> fst ` set (ub_settled b)"
    using assms(1) by (auto simp: ui_ok_def)
  have "\<forall>j\<in>set (ub_listeners (finish i p v b)). \<exists>p. map_get (ub_pending (finish i p v b)) j = Some p \<and> up_onAbort p"
    using assms by (auto simp: ui_ok_def)
  moreover have "fst ` set (ub_emitted b) \<subseteq> (fst ` set (ub_pending b) - {i}) \<union> insert i (set (ub_resolved b))"
    using assms(1) unfolding ui_ok_def by blast
  ultimately show ?thesis
    using assms(1) new unfolding ui_ok_def finish_sel map_delete_keys by (simp add: set_insert) blast
qed

lemma cancel_ok: "ui_ok b \<Longrightarrow> ui_ok (snd (cancel i why b))"
  by (simp add: cancel_def finish_ok split: option.split)

lemma cancels_ok: "ui_ok b \<Longrightarrow> ui_ok (foldl (\<lambda>s i. snd (cancel i why s)) b is)"
  by (induction "is" arbitrary: b) (simp_all add: cancel_ok)

lemma settle_ok: "ui_ok b \<Longrightarrow> ui_ok (settle i v b)"
  by (simp add: settle_def finish_ok split: option.split)

lemma shrink_ok:
  "ui_ok b \<Longrightarrow> ui_ok (b\<lparr>ub_timers := ts\<rparr>)" "ui_ok b \<Longrightarrow> ui_ok (b\<lparr>ub_owner := ow\<rparr>)"
  "ui_ok b \<Longrightarrow> ui_ok (b\<lparr>ub_listeners := removeAll i (ub_listeners b)\<rparr>)"
  by (auto simp: ui_ok_def)

lemma request_cases:
  assumes "request i q opts b = Inr b'"
  obtains ts where "i \<notin> fst ` set (ub_pending b)" "i \<notin> set (ub_resolved b)"
      "b' = b\<lparr>ub_timers := ts, ub_settled := ub_settled b @ [(i, UiCancelled UiAbort)],
              ub_resolved := List.insert i (ub_resolved b)\<rparr>"
  | ts p where "i \<notin> fst ` set (ub_pending b)" "i \<notin> set (ub_resolved b)"
      "b' = b\<lparr>ub_timers := ts, ub_listeners := (if up_onAbort p then ub_listeners b @ [i] else ub_listeners b),
              ub_pending := map_set i p (ub_pending b), ub_emitted := ub_emitted b @ [(i, q)]\<rparr>"
proof -
  let ?ts = "if uo_timeout opts then ub_timers b @ [i] else ub_timers b"
  let ?p = "\<lparr>up_timer = uo_timeout opts, up_onAbort = (uo_signal opts \<noteq> None)\<rparr>"
  have fresh: "i \<notin> fst ` set (ub_pending b)" "i \<notin> set (ub_resolved b)"
    using assms by (auto simp: request_def map_of_eq_None_iff split: if_splits)
  have "b' = b\<lparr>ub_timers := ?ts, ub_settled := ub_settled b @ [(i, UiCancelled UiAbort)],
              ub_resolved := List.insert i (ub_resolved b)\<rparr> \<or>
        b' = b\<lparr>ub_timers := ?ts, ub_listeners := (if up_onAbort ?p then ub_listeners b @ [i] else ub_listeners b),
              ub_pending := map_set i ?p (ub_pending b), ub_emitted := ub_emitted b @ [(i, q)]\<rparr>"
    using assms by (cases b) (auto simp: request_def Let_def split: if_splits)
  then show thesis using fresh that by blast
qed

lemma request_ok:
  assumes "ui_ok b" "request i q opts b = Inr b'"
  shows "ui_ok b'"
  using assms(2)
proof (cases rule: request_cases)
  case (1 ts)
  then have "i \<notin> fst ` set (ub_settled b)" using assms(1) by (auto simp: ui_ok_def)
  then show ?thesis using assms(1) 1 unfolding ui_ok_def by (simp add: set_insert) blast
next
  case (2 ts p)
  then have "i \<notin> fst ` set (ub_emitted b)" "i \<notin> set (ub_listeners b)"
    using assms(1) unfolding ui_ok_def by (blast, metis pending_key)
  then show ?thesis using assms(1) 2 unfolding ui_ok_def by (simp add: map_set_keys) blast
qed

lemma ui_step_ok: "ui_step b e b' \<Longrightarrow> ui_ok b \<Longrightarrow> ui_ok b'"
proof (induction rule: ui_step.induct)
  case (ui_respond b i tok r)
  then show ?case by (simp add: respond_def finish_ok split: option.split)
next
  case (ui_disconnect b tok)
  then show ?case
    by (simp add: disconnectController_def releaseController_def Let_def cancelAll_def cancels_ok shrink_ok)
next
  case (ui_request i q opts b b')
  then show ?case by (metis request_ok)
qed (simp_all add: claimController_def releaseController_def cancel_ok cancelAll_def cancels_ok fireTimer_def
    fireSignal_def settle_ok shrink_ok)

interpretation ui_machine: machine_invariant ui_init ui_step ui_ok
proof unfold_locales
  show "ui_ok b" if "ui_init b" for b :: "('q, 'r) ui_broker"
    using that by (simp add: ui_init_def ui_broker0_def ui_ok_def)
qed (rule ui_step_ok)

section \<open>Exactly one settlement\<close>

text \<open>
  C27. Every request is settled at most once, however answers, cancellations, time-outs, aborts and
  disconnects race: no promise is resolved twice, a settled id can never be requested again, and a
  request that was emitted is at any time either still pending or settled, never both and never
  neither.
\<close>

theorem ui_requests_settled_once:
  assumes "reach ui_init ui_step b"
  shows "distinct (map fst (ub_settled b)) \<and>
         (\<forall>i\<in>fst ` set (ub_settled b). request i q opts b = Inl i) \<and>
         (\<forall>i\<in>fst ` set (ub_emitted b). (map_get (ub_pending b) i = None) \<longleftrightarrow> i \<in> fst ` set (ub_settled b))"
proof -
  have ok: "ui_ok b" by (rule ui_machine.reachable_inv [OF assms])
  then have "(map_get (ub_pending b) i = None) \<longleftrightarrow> i \<in> fst ` set (ub_settled b)" if "i \<in> fst ` set (ub_emitted b)" for i
    using that unfolding ui_ok_def map_of_eq_None_iff by blast
  then show ?thesis using ok by (simp add: ui_ok_def request_def)
qed

definition demo_ui :: "(string, string) ui_broker" where
  "demo_ui = (case request ''a'' ''ask'' \<lparr>uo_timeout = True, uo_signal = Some False\<rparr> (snd (claimController ''t'' ui_broker0)) of
     Inr b \<Rightarrow> b | Inl _ \<Rightarrow> ui_broker0)"

definition demo_ui_answered :: "(string, string) ui_broker" where
  "demo_ui_answered = snd (respond ''a'' ''t'' ''yes'' demo_ui)"

lemma demo_ui: "demo_ui = \<lparr>ub_owner = Some ''t'', ub_pending = [(''a'', \<lparr>up_timer = True, up_onAbort = True\<rparr>)],
    ub_resolved = [], ub_timers = [''a''], ub_listeners = [''a''], ub_emitted = [(''a'', ''ask'')], ub_settled = []\<rparr>"
  by (simp add: demo_ui_def claimController_def ui_broker0_def request_def)

lemma demo_ui_answered: "demo_ui_answered = \<lparr>ub_owner = Some ''t'', ub_pending = [], ub_resolved = [''a''],
    ub_timers = [], ub_listeners = [], ub_emitted = [(''a'', ''ask'')], ub_settled = [(''a'', UiAnswered ''yes'')]\<rparr>"
  by (simp add: demo_ui_answered_def demo_ui respond_def finish_def)

lemma demo_ui_step: "ui_step demo_ui (URespond ''a'' ''t'' ''yes'') demo_ui_answered"
  unfolding demo_ui_answered_def by (rule ui_respond)

lemma demo_ui_reach: "reach ui_init ui_step demo_ui_answered"
proof -
  let ?b1 = "snd (claimController ''t'' ui_broker0) :: (string, string) ui_broker"
  have "reach ui_init ui_step ui_broker0" by (rule reach_init) (simp add: ui_init_def)
  then have "reach ui_init ui_step ?b1" by (rule reach_step) (rule ui_claim)
  then have "reach ui_init ui_step demo_ui"
  proof (rule reach_step)
    show "ui_step ?b1 (URequest ''a'' ''ask'' \<lparr>uo_timeout = True, uo_signal = Some False\<rparr>) demo_ui"
      by (rule ui_request) (simp add: demo_ui claimController_def ui_broker0_def request_def)
  qed
  then show ?thesis by (rule reach_step) (rule demo_ui_step)
qed

theorem ui_requests_settled_once_witness:
  "distinct (map fst (ub_settled demo_ui_answered)) \<and> ub_settled demo_ui_answered = [(''a'', UiAnswered ''yes'')]"
  using ui_requests_settled_once [OF demo_ui_reach] by (simp add: demo_ui_answered)

section \<open>The controller\<close>

lemma cancels_settle:
  "ub_pending b = ps \<Longrightarrow> map_ok ps \<Longrightarrow> b' = foldl (\<lambda>s i. snd (cancel i why s)) b (map fst ps) \<Longrightarrow>
   ub_pending b' = [] \<and> ub_settled b' = ub_settled b @ map (\<lambda>i. (i, UiCancelled why)) (map fst ps) \<and>
   ub_owner b' = ub_owner b"
proof (induction ps arbitrary: b)
  case (Cons kp ps)
  obtain k p where kp: "kp = (k, p)" by (cases kp)
  let ?b = "finish k p (UiCancelled why) b"
  have k: "k \<notin> fst ` set ps" and ok: "map_ok ps" using Cons.prems(2) by (simp_all add: kp map_ok_def)
  have "map_delete k ps = ps" using k by (induction ps) auto
  then have "ub_pending ?b = ps" by (simp add: Cons.prems(1) kp)
  moreover have "b' = foldl (\<lambda>s i. snd (cancel i why s)) ?b (map fst ps)"
    using Cons.prems(1,3) by (simp add: kp cancel_def)
  ultimately show ?case using Cons.IH [OF _ ok, of ?b] by (simp add: kp)
qed simp

lemma cancels_no_answer:
  "(i, UiAnswered r) \<in> set (ub_settled (foldl (\<lambda>s i. snd (cancel i why s)) b is)) \<longleftrightarrow> (i, UiAnswered r) \<in> set (ub_settled b)"
  by (induction "is" arbitrary: b) (simp_all add: cancel_def split: option.split)

text \<open>
  Only the controller answers: a request is settled with an answer by no other step than a
  response that carries the token of the controller at that moment, while the request is pending;
  and when the controller disconnects, it is released and every pending request is settled as
  cancelled by the disconnect, in the order in which the requests were made.
\<close>

theorem ui_answers_come_from_controller:
  assumes "ui_step b e b'"
  shows "((i, UiAnswered r) \<in> set (ub_settled b') - set (ub_settled b) \<longrightarrow>
            (\<exists>tok. e = URespond i tok r \<and> ub_owner b = Some tok \<and> map_get (ub_pending b) i \<noteq> None)) \<and>
         (e = UDisconnect tok \<and> ub_owner b = Some tok \<and> map_ok (ub_pending b) \<longrightarrow>
            ub_owner b' = None \<and> ub_pending b' = [] \<and>
            ub_settled b' = ub_settled b @ map (\<lambda>i. (i, UiCancelled UiDisconnect)) (map fst (ub_pending b)))"
  using assms
proof (cases rule: ui_step.cases)
  case (ui_request j q opts)
  then show ?thesis by (auto elim!: request_cases)
next
  case (ui_disconnect tok')
  then show ?thesis
    using cancels_settle [of "b\<lparr>ub_owner := None\<rparr>" "ub_pending b" b' UiDisconnect]
    by (simp add: disconnectController_def releaseController_def cancelAll_def cancels_no_answer Let_def)
next
  case (ui_cancelAll why)
  then show ?thesis by (simp add: cancelAll_def cancels_no_answer)
qed (auto simp: claimController_def releaseController_def respond_def cancel_def
    fireTimer_def fireSignal_def settle_def split: option.splits if_splits)

theorem ui_answers_come_from_controller_witness:
  "ub_owner demo_ui = Some ''t'' \<and> (''a'', UiAnswered ''yes'') \<in> set (ub_settled demo_ui_answered) - set (ub_settled demo_ui)"
  using ui_answers_come_from_controller [OF demo_ui_step, of "''a''" "''yes''"]
  by (simp add: demo_ui demo_ui_answered)

end
