(* ===== verification/Gate_Schema.thy ===== *)
theory Gate_Schema
  imports Harness_Receipts Agent_Scopes
begin

text \<open>
  Validation of workflow gate answers (\<open>agent-wire/workflow-gate-schema.ts\<close>): the check of a
  schema when a gate is built, the validator of answers and the cache of compiled schemas. A schema
  is a JSON value, since the shape check has to fail closed. \<open>canonicalJson\<close> has the same text
  here as in the receipts and is shared. Regular expressions are parameters: \<open>rx_error p\<close> is
  the message of the exception that compiling \<open>p\<close> raises, \<open>rx p s\<close> the result of a test.
  The SHA-256 is the parameter \<open>sha\<close>.
\<close>

section \<open>Congruences for recursive checks\<close>

lemma for_each_cong [fundef_cong]:
  "a = b \<Longrightarrow> xs = ys \<Longrightarrow> (\<And>u x. x \<in> set ys \<Longrightarrow> f u x = g u x) \<Longrightarrow> for_each f a xs = for_each g b ys"
proof (induction ys arbitrary: a b xs)
  case (Cons y ys)
  then show ?case by (auto intro!: andThen_cong)
qed simp

lemma json_arr_member_size: "x \<in> set xs \<Longrightarrow> size x < size (JArr xs)"
  by (simp add: less_Suc_eq_le size_list_estimation')

lemma json_obj_member_size: "kv \<in> set kvs \<Longrightarrow> size (snd kv) < size (JObj kvs)"
proof -
  assume "kv \<in> set kvs"
  then have "size_prod (\<lambda>x. 0) size kv \<le> size_list (size_prod (\<lambda>x. 0) size) kvs"
    by (intro size_list_estimation') auto
  then show ?thesis by (cases kv) simp
qed

section \<open>The dialect\<close>

definition SUPPORTED_KEYWORDS :: "string list" where
  "SUPPORTED_KEYWORDS = [''type'', ''enum'', ''const'', ''properties'', ''required'', ''additionalProperties'', ''items'',
     ''minLength'', ''maxLength'', ''pattern'', ''minItems'', ''maxItems'', ''uniqueItems'', ''minimum'', ''maximum'',
     ''title'', ''description'', ''oneOf'', ''anyOf'']"

definition SUPPORTED_TYPES :: "string list" where
  "SUPPORTED_TYPES = [''string'', ''number'', ''integer'', ''boolean'', ''object'', ''array'', ''null'']"

definition maxSchemaBytes :: nat where "maxSchemaBytes = 64 * 1024"
definition maxDepth :: nat where "maxDepth = 16"
definition maxProperties :: nat where "maxProperties = 256"
definition maxEnumValues :: nat where "maxEnumValues = 512"
definition maxAnswerBytes :: nat where "maxAnswerBytes = 256 * 1024"

text \<open>\<open>Buffer.byteLength(s, "utf8")\<close>: code units from 128 to 255 take two bytes.\<close>

definition byteLength :: "string \<Rightarrow> nat" where
  "byteLength s = sum_list (map (\<lambda>c. if (of_char c :: nat) < 128 then 1 else 2) s)"

definition schemaHash :: "(string \<Rightarrow> string) \<Rightarrow> json \<Rightarrow> string" where
  "schemaHash sha schema = sha (canonicalJson schema)"

definition answerHashOf :: "(string \<Rightarrow> string) \<Rightarrow> json \<Rightarrow> string" where
  "answerHashOf sha answer = sha (canonicalJson answer)"

section \<open>The shape of a schema\<close>

text \<open>A thrown \<open>WorkflowGateSchemaError\<close> is its message.\<close>

definition refuse_if :: "bool \<Rightarrow> string \<Rightarrow> string + unit" where
  "refuse_if c msg = (if c then Inl msg else Inr ())"

definition all_checks :: "(string + unit) list \<Rightarrow> string + unit" where
  "all_checks cs = for_each (\<lambda>u c. c) () cs"

definition has_bad :: "json option \<Rightarrow> (json \<Rightarrow> bool) \<Rightarrow> bool" where
  "has_bad v ok = (case v of None \<Rightarrow> False | Some x \<Rightarrow> \<not> ok x)"

definition is_string :: "json \<Rightarrow> bool" where
  "is_string v = (case v of JStr _ \<Rightarrow> True | _ \<Rightarrow> False)"

definition is_boolean :: "json \<Rightarrow> bool" where
  "is_boolean v = (case v of JBool _ \<Rightarrow> True | _ \<Rightarrow> False)"

definition is_supported_type :: "json \<Rightarrow> bool" where
  "is_supported_type v = (case v of JStr t \<Rightarrow> t \<in> set SUPPORTED_TYPES | _ \<Rightarrow> False)"

definition is_count :: "json \<Rightarrow> bool" where
  "is_count v = (case v of JNum x \<Rightarrow> is_integer x \<and> \<not> num_lt x (Fin 0) | _ \<Rightarrow> False)"

definition is_finite_num :: "json \<Rightarrow> bool" where
  "is_finite_num v = (case v of JNum x \<Rightarrow> is_finite x | _ \<Rightarrow> False)"

definition is_string_array :: "json \<Rightarrow> bool" where
  "is_string_array v = (case v of JArr xs \<Rightarrow> list_all is_string xs | _ \<Rightarrow> False)"

definition dq :: "string \<Rightarrow> string" where
  "dq s = CHR 0x22 # s @ [CHR 0x22]"

definition bad_keyword :: "json \<Rightarrow> string option" where
  "bad_keyword s = (case s of JObj kvs \<Rightarrow> find (\<lambda>k. k \<notin> set SUPPORTED_KEYWORDS) (map fst kvs) | _ \<Rightarrow> None)"

definition pattern_check :: "(string \<Rightarrow> string option) \<Rightarrow> json \<Rightarrow> string \<Rightarrow> string + unit" where
  "pattern_check rx_error s path =
     (case jget s ''pattern'' of None \<Rightarrow> Inr ()
      | Some (JStr p) \<Rightarrow>
          (case rx_error p of None \<Rightarrow> Inr ()
           | Some msg \<Rightarrow> Inl (''pattern at '' @ path @ '' must be a valid regular expression: '' @ msg))
      | Some _ \<Rightarrow> Inl (''pattern at '' @ path @ '' must be a string''))"

definition enum_check :: "json \<Rightarrow> string \<Rightarrow> string + unit" where
  "enum_check s path =
     (case jget s ''enum'' of None \<Rightarrow> Inr ()
      | Some (JArr xs) \<Rightarrow> refuse_if (length xs > maxEnumValues) (''enum at '' @ path @ '' exceeds 512 values'')
      | Some _ \<Rightarrow> Inl (''enum at '' @ path @ '' must be an array''))"

text \<open>The checks of one schema node that come before its subschemas, in the order of the source.\<close>

definition node_checks :: "(string \<Rightarrow> string option) \<Rightarrow> json \<Rightarrow> nat \<Rightarrow> string \<Rightarrow> (string + unit) list" where
  "node_checks rx_error s depth path =
     [refuse_if (depth > maxDepth) (''schema nesting exceeds depth 16 at '' @ path),
      refuse_if (\<not> is_plain_object s) (''schema node at '' @ path @ '' must be an object''),
      (case bad_keyword s of None \<Rightarrow> Inr () | Some k \<Rightarrow> Inl (''unsupported keyword '' @ dq k @ '' at '' @ path)),
      refuse_if (has_bad (jget s ''type'') is_supported_type) (''unsupported type '' @ dq (to_string_opt (jget s ''type'')) @ '' at '' @ path),
      enum_check s path] @
     map (\<lambda>k. refuse_if (has_bad (jget s k) is_string) (k @ '' at '' @ path @ '' must be a string'')) [''title'', ''description''] @
     [pattern_check rx_error s path] @
     map (\<lambda>k. refuse_if (has_bad (jget s k) is_count) (k @ '' at '' @ path @ '' must be a non-negative integer''))
       [''minLength'', ''maxLength'', ''minItems'', ''maxItems''] @
     [refuse_if (has_bad (jget s ''uniqueItems'') is_boolean) (''uniqueItems at '' @ path @ '' must be a boolean'')] @
     map (\<lambda>k. refuse_if (has_bad (jget s k) is_finite_num) (k @ '' at '' @ path @ '' must be a finite number''))
       [''minimum'', ''maximum''] @
     [refuse_if (has_bad (jget s ''required'') is_string_array) (''required at '' @ path @ '' must be an array of strings'')]"

definition properties_check :: "json \<Rightarrow> string \<Rightarrow> string + unit" where
  "properties_check s path =
     (case jget s ''properties'' of None \<Rightarrow> Inr ()
      | Some (JObj kvs) \<Rightarrow> refuse_if (length kvs > maxProperties) (''properties at '' @ path @ '' exceed 256'')
      | Some _ \<Rightarrow> Inl (''properties at '' @ path @ '' must be an object''))"

definition additional_check :: "json \<Rightarrow> string \<Rightarrow> string + unit" where
  "additional_check s path =
     refuse_if (has_bad (jget s ''additionalProperties'') (\<lambda>v. is_boolean v \<or> is_plain_object v))
       (''additionalProperties at '' @ path @ '' must be a boolean or schema object'')"

definition combiner_check :: "json \<Rightarrow> string \<Rightarrow> string \<Rightarrow> string + unit" where
  "combiner_check s k path = refuse_if (has_bad (jget s k) is_array) (k @ '' at '' @ path @ '' must be an array'')"

text \<open>The subschemas of a node, with their paths, one keyword at a time.\<close>

definition property_schemas :: "json \<Rightarrow> (string \<times> json) list" where
  "property_schemas s = (case jget s ''properties'' of Some (JObj kvs) \<Rightarrow> map (\<lambda>kv. (''/properties/'' @ fst kv, snd kv)) kvs | _ \<Rightarrow> [])"

definition additional_schemas :: "json \<Rightarrow> (string \<times> json) list" where
  "additional_schemas s = (case jget s ''additionalProperties'' of
     Some (JObj kvs) \<Rightarrow> [(''/additionalProperties'', JObj kvs)] | _ \<Rightarrow> [])"

definition item_schemas :: "json \<Rightarrow> (string \<times> json) list" where
  "item_schemas s = (case jget s ''items'' of Some v \<Rightarrow> [(''/items'', v)] | None \<Rightarrow> [])"

definition branch_schemas :: "string \<Rightarrow> json \<Rightarrow> (string \<times> json) list" where
  "branch_schemas k s = (case jget s k of
     Some (JArr xs) \<Rightarrow> map (\<lambda>iv. (''/'' @ k @ ''/'' @ nat_str (fst iv), snd iv)) (enumerate 0 xs) | _ \<Rightarrow> [])"

lemma enumerate_member: "nx \<in> set (enumerate n xs) \<Longrightarrow> snd nx \<in> set xs"
  by (metis imageI map_snd_enumerate set_map)

lemma subschema_size:
  "pv \<in> set (property_schemas s) \<Longrightarrow> size (snd pv) < size s"
  "pv \<in> set (additional_schemas s) \<Longrightarrow> size (snd pv) < size s"
  "pv \<in> set (item_schemas s) \<Longrightarrow> size (snd pv) < size s"
  "pv \<in> set (branch_schemas k s) \<Longrightarrow> size (snd pv) < size s"
proof -
  have in_object: "size v < size s" if "jget s n = Some (JObj kvs)" "(k', v) \<in> set kvs" for n kvs k' v
    using json_obj_member_size [OF that(2)] jget_size [OF that(1)] by simp
  show "size (snd pv) < size s" if "pv \<in> set (property_schemas s)"
    using that by (auto simp: property_schemas_def split: option.splits json.splits intro: in_object [OF sym])
  show "size (snd pv) < size s" if "pv \<in> set (additional_schemas s)"
    using that by (auto simp: additional_schemas_def split: option.splits json.splits
        simp del: json.size dest: jget_size [OF sym])
  show "size (snd pv) < size s" if "pv \<in> set (item_schemas s)"
    using that by (auto simp: item_schemas_def split: option.splits dest: jget_size [OF sym])
  show "size (snd pv) < size s" if pv: "pv \<in> set (branch_schemas k s)"
  proof -
    obtain xs where arr: "jget s k = Some (JArr xs)" and i: "snd pv \<in> snd ` set (enumerate 0 xs)"
      using pv by (force simp: branch_schemas_def split: option.splits json.splits)
    have xs: "jget s k = Some (JArr xs)" "snd pv \<in> set xs"
      using arr i by (auto dest: enumerate_member)
    show ?thesis using json_arr_member_size [OF xs(2)] jget_size [OF xs(1)] by simp
  qed
qed

function walkSchema :: "(string \<Rightarrow> string option) \<Rightarrow> json \<Rightarrow> nat \<Rightarrow> string \<Rightarrow> string + unit" where
  "walkSchema rx_error s depth path =
     andThen (all_checks (node_checks rx_error s depth path)) (\<lambda>_.
     andThen (properties_check s path) (\<lambda>_.
     andThen (for_each (\<lambda>u pv. walkSchema rx_error (snd pv) (depth + 1) (path @ fst pv)) () (property_schemas s)) (\<lambda>_.
     andThen (additional_check s path) (\<lambda>_.
     andThen (for_each (\<lambda>u pv. walkSchema rx_error (snd pv) (depth + 1) (path @ fst pv)) () (additional_schemas s)) (\<lambda>_.
     andThen (for_each (\<lambda>u pv. walkSchema rx_error (snd pv) (depth + 1) (path @ fst pv)) () (item_schemas s)) (\<lambda>_.
     andThen (combiner_check s ''oneOf'' path) (\<lambda>_.
     andThen (for_each (\<lambda>u pv. walkSchema rx_error (snd pv) (depth + 1) (path @ fst pv)) () (branch_schemas ''oneOf'' s)) (\<lambda>_.
     andThen (combiner_check s ''anyOf'' path) (\<lambda>_.
       for_each (\<lambda>u pv. walkSchema rx_error (snd pv) (depth + 1) (path @ fst pv)) () (branch_schemas ''anyOf'' s))))))))))"
  by pat_completeness auto
termination
  by (relation "measure (\<lambda>(r, s, d, p). size s)") (auto dest: subschema_size)

declare walkSchema.simps [simp del]

definition assertSupportedGateSchema :: "(string \<Rightarrow> string option) \<Rightarrow> json \<Rightarrow> string + unit" where
  "assertSupportedGateSchema rx_error schema =
     (if byteLength (canonicalJson schema) > maxSchemaBytes then Inl ''schema exceeds 65536 bytes''
      else walkSchema rx_error schema 0 ''#'')"

section \<open>Validating an answer\<close>

record schema_error =
  se_path :: string
  se_keyword :: string
  se_message :: string
  se_expected :: "json option"

definition plain_error :: "string \<Rightarrow> string \<Rightarrow> string \<Rightarrow> schema_error" where
  "plain_error path k msg = \<lparr>se_path = path, se_keyword = k, se_message = msg, se_expected = None\<rparr>"

definition keyword_error :: "json \<Rightarrow> string \<Rightarrow> string \<Rightarrow> string \<Rightarrow> schema_error" where
  "keyword_error s path k msg = \<lparr>se_path = path, se_keyword = k, se_message = msg, se_expected = jget s k\<rparr>"

definition typeMatches :: "json option \<Rightarrow> json \<Rightarrow> bool" where
  "typeMatches t v = (case t of
      Some (JStr n) \<Rightarrow>
        (if n = ''string'' then is_string v
         else if n = ''number'' then is_finite_num v
         else if n = ''integer'' then (case v of JNum x \<Rightarrow> is_integer x | _ \<Rightarrow> False)
         else if n = ''boolean'' then is_boolean v
         else if n = ''object'' then is_plain_object v
         else if n = ''array'' then is_array v
         else if n = ''null'' then v = JNull else False)
    | _ \<Rightarrow> False)"

definition const_errors :: "json \<Rightarrow> json \<Rightarrow> string \<Rightarrow> schema_error list" where
  "const_errors s v path = (case jget s ''const'' of None \<Rightarrow> []
     | Some c \<Rightarrow> if canonicalJson v \<noteq> canonicalJson c then [keyword_error s path ''const'' ''value does not equal const''] else [])"

definition enum_errors :: "json \<Rightarrow> json \<Rightarrow> string \<Rightarrow> schema_error list" where
  "enum_errors s v path = (case jget s ''enum'' of
       Some (JArr es) \<Rightarrow> if list_ex (\<lambda>e. canonicalJson e = canonicalJson v) es then []
                         else [keyword_error s path ''enum'' ''value not in enum'']
     | _ \<Rightarrow> [])"

text \<open>A bound keyword \<open>k\<close> against a number: the error if \<open>bad\<close> holds of the bound.\<close>

definition bound_errors :: "json \<Rightarrow> string \<Rightarrow> string \<Rightarrow> string \<Rightarrow> string \<Rightarrow> (js_number \<Rightarrow> bool) \<Rightarrow> schema_error list" where
  "bound_errors s path k before behind bad = (case jget s k of
       Some (JNum x) \<Rightarrow> if bad x then [keyword_error s path k (before @ to_string (JNum x) @ behind)] else []
     | _ \<Rightarrow> [])"

definition num_of :: "nat \<Rightarrow> js_number" where
  "num_of n = Fin (of_nat n)"

text \<open>The count of characters: with code units below 256 every code unit is a character.\<close>

definition deepInterviewCharacterCount :: "string \<Rightarrow> nat" where
  "deepInterviewCharacterCount v = length v"

definition string_errors :: "(string \<Rightarrow> string \<Rightarrow> bool) \<Rightarrow> json \<Rightarrow> json \<Rightarrow> string \<Rightarrow> schema_error list" where
  "string_errors rx s v path = (case v of
      JStr x \<Rightarrow>
        bound_errors s path ''minLength'' ''shorter than '' [] (num_lt (num_of (deepInterviewCharacterCount x))) @
        bound_errors s path ''maxLength'' ''longer than '' [] (\<lambda>m. num_lt m (num_of (deepInterviewCharacterCount x))) @
        (case jget s ''pattern'' of
           Some (JStr p) \<Rightarrow> if rx p x then [] else [keyword_error s path ''pattern'' (''does not match pattern '' @ p)]
         | _ \<Rightarrow> [])
    | _ \<Rightarrow> [])"

definition number_errors :: "json \<Rightarrow> json \<Rightarrow> string \<Rightarrow> schema_error list" where
  "number_errors s v path = (case v of
      JNum x \<Rightarrow> bound_errors s path ''minimum'' ''less than '' [] (num_lt x) @
                bound_errors s path ''maximum'' ''greater than '' [] (\<lambda>m. num_lt m x)
    | _ \<Rightarrow> [])"

definition required_errors :: "json \<Rightarrow> (string \<times> json) list \<Rightarrow> string \<Rightarrow> schema_error list" where
  "required_errors s kvs path = (case jget s ''required'' of
      Some (JArr rs) \<Rightarrow>
        concat (map (\<lambda>r. case r of
            JStr k \<Rightarrow> if js_in k kvs then [] else [plain_error (path @ ''/'' @ k) ''required'' ''missing required property'']
          | _ \<Rightarrow> []) rs)
    | _ \<Rightarrow> [])"

definition count_errors :: "json \<Rightarrow> json list \<Rightarrow> string \<Rightarrow> schema_error list" where
  "count_errors s xs path =
     bound_errors s path ''minItems'' ''fewer than '' '' items'' (num_lt (num_of (length xs))) @
     bound_errors s path ''maxItems'' ''more than '' '' items'' (\<lambda>m. num_lt m (num_of (length xs))) @
     (if jget s ''uniqueItems'' = Some (JBool True) \<and> \<not> distinct (map canonicalJson xs)
      then [plain_error path ''uniqueItems'' ''array items must be unique''] else [])"

text \<open>
  The schema of property \<open>k\<close>: \<open>props[k]\<close> sees an own property first and then what every
  object inherits. An inherited value has none of the keywords, so it accepts everything; it is the
  empty schema here.
\<close>

definition schema_prop :: "json \<Rightarrow> string \<Rightarrow> json option" where
  "schema_prop s k =
     (case Option.bind (jget s ''properties'') (\<lambda>p. jget p k) of
        Some p \<Rightarrow> if truthy p then Some p else None
      | None \<Rightarrow> if k \<in> set PROTOTYPE_NAMES then Some (JObj []) else None)"

definition additional_schema :: "json \<Rightarrow> json option" where
  "additional_schema s = (case jget s ''additionalProperties'' of
     Some v \<Rightarrow> if is_object v then Some v else None | None \<Rightarrow> None)"

definition item_schema :: "json \<Rightarrow> json option" where
  "item_schema s = (case jget s ''items'' of Some v \<Rightarrow> if truthy v then Some v else None | None \<Rightarrow> None)"

definition branches :: "json \<Rightarrow> string \<Rightarrow> json list" where
  "branches s k = (case jget s k of Some (JArr bs) \<Rightarrow> bs | _ \<Rightarrow> [])"

text \<open>What \<open>oneOf\<close> and \<open>anyOf\<close> report for the number of branches that match.\<close>

definition combiner_errors :: "json \<Rightarrow> string \<Rightarrow> nat \<Rightarrow> string \<Rightarrow> schema_error list" where
  "combiner_errors s k matchCount path =
     (if jget s k = None \<or> (if k = ''oneOf'' then matchCount = 1 else 1 \<le> matchCount) then []
      else [plain_error path k (''value did not satisfy '' @ k)])"

lemma branch_size: "b \<in> set (branches s k) \<Longrightarrow> size b < size s"
proof (cases "jget s k")
  case (Some v)
  then show "b \<in> set (branches s k) \<Longrightarrow> size b < size s"
    using jget_size [OF Some] json_arr_member_size [of b] by (cases v) (auto simp: branches_def intro: less_trans)
qed (simp add: branches_def)

text \<open>
  \<open>validateValue\<close>, which returns the errors it pushes. The recursion goes into the value, except
  for the branches of a combiner, which are smaller schemas for the same value.
\<close>

function validateValue :: "(string \<Rightarrow> string \<Rightarrow> bool) \<Rightarrow> json \<Rightarrow> json \<Rightarrow> string \<Rightarrow> schema_error list" where
  "validateValue rx s v path =
     (if jget s ''type'' \<noteq> None \<and> \<not> typeMatches (jget s ''type'') v
      then [keyword_error s path ''type'' (''expected '' @ to_string_opt (jget s ''type''))]
      else const_errors s v path @ enum_errors s v path @ string_errors rx s v path @ number_errors s v path @
        (case v of
           JObj kvs \<Rightarrow>
             required_errors s kvs path @
             concat (map (\<lambda>kv.
               case schema_prop s (fst kv) of
                 Some p \<Rightarrow> validateValue rx p (snd kv) (path @ ''/'' @ fst kv)
               | None \<Rightarrow>
                   (if jget s ''additionalProperties'' = Some (JBool False)
                    then [plain_error (path @ ''/'' @ fst kv) ''additionalProperties'' ''unexpected property'']
                    else case additional_schema s of
                      Some a \<Rightarrow> validateValue rx a (snd kv) (path @ ''/'' @ fst kv)
                    | None \<Rightarrow> [])) kvs)
         | JArr xs \<Rightarrow>
             count_errors s xs path @
             (case item_schema s of None \<Rightarrow> []
              | Some i \<Rightarrow> concat (map (\<lambda>nx. validateValue rx i (snd nx) (path @ ''/'' @ nat_str (fst nx))) (enumerate 0 xs)))
         | _ \<Rightarrow> []) @
        combiner_errors s ''oneOf'' (length (filter (\<lambda>b. validateValue rx b v path = []) (branches s ''oneOf''))) path @
        combiner_errors s ''anyOf'' (length (filter (\<lambda>b. validateValue rx b v path = []) (branches s ''anyOf''))) path)"
  by pat_completeness auto
termination
proof (relation "measures [\<lambda>(rx, s, v, p). size v, \<lambda>(rx, s, v, p). size s]")
  show "((rx, i, snd nx, q), rx, s, v, path) \<in> measures [\<lambda>(rx, s, v, p). size v, \<lambda>(rx, s, v, p). size s]"
    if "v = JArr xs" "nx \<in> set (enumerate 0 xs)" for rx :: "string \<Rightarrow> string \<Rightarrow> bool" and i s v xs nx q path
  proof -
    have "snd nx \<in> set xs" using that(2) by (rule enumerate_member)
    then show ?thesis using json_arr_member_size that(1) by simp
  qed
qed (auto dest: json_obj_member_size branch_size simp del: json.size)

declare validateValue.simps [simp del]

section \<open>Compiled schemas\<close>

text \<open>
  The compile cache maps the hash of a schema to the schema its validator was compiled from;
  compiling asserts the shape on the first use only.
\<close>

record compiled_gate_schema =
  cg_schema :: json
  cg_hash :: string

definition compileGateSchema ::
  "(string \<Rightarrow> string) \<Rightarrow> (string \<Rightarrow> string option) \<Rightarrow> json \<Rightarrow> (string, json) js_map \<Rightarrow>
   string + (compiled_gate_schema \<times> (string, json) js_map)" where
  "compileGateSchema sha rx_error schema cache =
     (case map_get cache (schemaHash sha schema) of
        Some c \<Rightarrow> Inr (\<lparr>cg_schema = c, cg_hash = schemaHash sha schema\<rparr>, cache)
      | None \<Rightarrow>
          andThen (assertSupportedGateSchema rx_error schema) (\<lambda>_.
            Inr (\<lparr>cg_schema = schema, cg_hash = schemaHash sha schema\<rparr>, map_set (schemaHash sha schema) schema cache)))"

definition validate_compiled :: "(string \<Rightarrow> string \<Rightarrow> bool) \<Rightarrow> json \<Rightarrow> json \<Rightarrow> schema_error list" where
  "validate_compiled rx schema answer =
     (if byteLength (canonicalJson answer) > maxAnswerBytes
      then [plain_error ''#'' ''maxAnswerBytes'' ''answer too large'']
      else validateValue rx schema answer ''#'')"

record gate_validation_error =
  ge_gate_id :: string
  ge_schema_hash :: string
  ge_errors :: "schema_error list"

definition validateGateAnswer ::
  "(string \<Rightarrow> string \<Rightarrow> bool) \<Rightarrow> compiled_gate_schema \<Rightarrow> string \<Rightarrow> json \<Rightarrow> gate_validation_error option" where
  "validateGateAnswer rx c gateId answer =
     (let errors = validate_compiled rx (cg_schema c) answer
      in if errors = [] then None
         else Some \<lparr>ge_gate_id = gateId, ge_schema_hash = cg_hash c, ge_errors = errors\<rparr>)"

section \<open>Which values share a canonical text\<close>

lemma canonicalJson_string [simp]: "canonicalJson v = quote_str s \<longleftrightarrow> v = JStr s"
proof
  assume v: "canonicalJson v = quote_str s"
  then show "v = JStr s"
  proof (cases v)
    case (JNum x)
    then show ?thesis using v num_json_head [of x] by (auto simp: quote_str_def)
  qed (auto simp: quote_str_def split: if_splits dest: quote_str_inj [unfolded quote_str_def, simplified])
qed simp

lemma canonicalJson_bool [simp]:
  "canonicalJson v = ''true'' \<longleftrightarrow> v = JBool True" "canonicalJson v = ''false'' \<longleftrightarrow> v = JBool False"
proof -
  have "num_json x \<noteq> ''true'' \<and> num_json x \<noteq> ''false''" for x
    using num_json_head [of x] by auto
  then show "canonicalJson v = ''true'' \<longleftrightarrow> v = JBool True" "canonicalJson v = ''false'' \<longleftrightarrow> v = JBool False"
    by (cases v; simp add: quote_str_def)+
qed

section \<open>Accepted schemas stay inside the dialect\<close>

text \<open>The schema nodes below a schema, with their depth.\<close>

inductive subschema :: "json \<Rightarrow> nat \<Rightarrow> json \<Rightarrow> bool" where
  subschema_self: "subschema s 0 s"
| subschema_step: "pv \<in> set (property_schemas s) \<union> set (additional_schemas s) \<union> set (item_schemas s) \<union>
      set (branch_schemas ''oneOf'' s) \<union> set (branch_schemas ''anyOf'' s) \<Longrightarrow>
    subschema (snd pv) d t \<Longrightarrow> subschema s (Suc d) t"

lemma for_each_unit: "for_each f () xs = Inr () \<longleftrightarrow> (\<forall>x\<in>set xs. f () x = Inr ())"
  by (induction xs) auto

lemma all_checks_pass: "all_checks cs = Inr () \<longleftrightarrow> (\<forall>c\<in>set cs. c = Inr ())"
  by (simp add: all_checks_def for_each_unit)

lemma refuse_if_pass [simp]: "refuse_if c m = Inr () \<longleftrightarrow> \<not> c"
  by (simp add: refuse_if_def)

lemma walkSchema_node:
  assumes "walkSchema rx_error s depth path = Inr ()"
  shows "depth \<le> maxDepth \<and> is_plain_object s \<and> bad_keyword s = None \<and> \<not> has_bad (jget s ''type'') is_supported_type \<and>
    pattern_check rx_error s path = Inr ()"
proof -
  have "\<forall>c\<in>set (node_checks rx_error s depth path). c = Inr ()"
    using assms by (subst (asm) walkSchema.simps) (auto simp: all_checks_pass)
  then show ?thesis by (auto simp: node_checks_def split: option.splits)
qed

lemma walkSchema_sub:
  assumes "walkSchema rx_error s depth path = Inr ()"
    and "pv \<in> set (property_schemas s) \<union> set (additional_schemas s) \<union> set (item_schemas s) \<union>
      set (branch_schemas ''oneOf'' s) \<union> set (branch_schemas ''anyOf'' s)"
  shows "walkSchema rx_error (snd pv) (depth + 1) (path @ fst pv) = Inr ()"
  using assms by (subst (asm) walkSchema.simps) (auto simp: for_each_unit)

lemma walkSchema_subschema:
  "subschema s d t \<Longrightarrow> walkSchema rx_error s depth path = Inr () \<Longrightarrow> \<exists>path'. walkSchema rx_error t (depth + d) path' = Inr ()"
proof (induction arbitrary: depth path rule: subschema.induct)
  case (subschema_step pv s d t)
  then show ?case using subschema_step.IH [OF walkSchema_sub [OF subschema_step.prems subschema_step.hyps(1)]] by simp
qed auto

text \<open>
  A gate is never advertised with a schema its validator cannot read: once a schema passes the
  check at construction, every schema node inside it, under any mixture of properties, items,
  additional properties and combiners, is an object at depth at most 16 that uses only supported
  keywords and types and whose pattern, if any, compiles.
\<close>

theorem accepted_schema_in_dialect:
  assumes "assertSupportedGateSchema rx_error s = Inr ()" "subschema s d t"
  shows "d \<le> 16 \<and> (\<exists>kvs. t = JObj kvs \<and> fst ` set kvs \<subseteq> set SUPPORTED_KEYWORDS) \<and>
         (\<forall>ty. jget t ''type'' = Some ty \<longrightarrow> (\<exists>n\<in>set SUPPORTED_TYPES. ty = JStr n)) \<and>
         (\<forall>p. jget t ''pattern'' = Some p \<longrightarrow> (\<exists>r. p = JStr r \<and> rx_error r = None)) \<and>
         byteLength (canonicalJson s) \<le> 65536"
proof -
  have s: "walkSchema rx_error s 0 ''#'' = Inr ()" "byteLength (canonicalJson s) \<le> 65536"
    using assms(1) by (auto simp: assertSupportedGateSchema_def maxSchemaBytes_def split: if_splits)
  obtain path where t: "walkSchema rx_error t d path = Inr ()"
    using walkSchema_subschema [OF assms(2) s(1)] by auto
  note node = walkSchema_node [OF t]
  obtain kvs where kvs: "t = JObj kvs" using node by (cases t) auto
  have "fst ` set kvs \<subseteq> set SUPPORTED_KEYWORDS"
    using node by (auto simp: kvs bad_keyword_def find_None_iff)
  moreover have "jget t ''type'' = Some ty \<longrightarrow> (\<exists>n\<in>set SUPPORTED_TYPES. ty = JStr n)" for ty
    using node by (cases ty) (auto simp: has_bad_def is_supported_type_def)
  moreover have "jget t ''pattern'' = Some p \<longrightarrow> (\<exists>r. p = JStr r \<and> rx_error r = None)" for p
    using node by (cases p) (auto simp: pattern_check_def split: option.splits)
  ultimately show ?thesis using node s(2) kvs by (simp add: maxDepth_def)
qed

definition demo_schema :: json where
  "demo_schema = JObj [(''type'', JStr ''object''),
     (''properties'', JObj [(''a'', JObj [(''type'', JStr ''string''), (''pattern'', JStr ''b'')])]),
     (''additionalProperties'', JBool False)]"

lemma demo_schema_nodes:
  "property_schemas demo_schema = [(''/properties/a'', JObj [(''type'', JStr ''string''), (''pattern'', JStr ''b'')])]"
  "additional_schemas demo_schema = []" "item_schemas demo_schema = []" "branch_schemas ''oneOf'' demo_schema = []"
  "branch_schemas ''anyOf'' demo_schema = []"
  by (simp_all add: demo_schema_def property_schemas_def additional_schemas_def item_schemas_def branch_schemas_def)

lemmas node_eval = node_checks_def all_checks_def refuse_if_def has_bad_def bad_keyword_def pattern_check_def
  enum_check_def properties_check_def additional_check_def combiner_check_def is_supported_type_def
  SUPPORTED_TYPES_def SUPPORTED_KEYWORDS_def is_string_def is_boolean_def is_count_def is_finite_num_def
  is_string_array_def maxDepth_def maxProperties_def maxEnumValues_def

lemma demo_schema_walk: "walkSchema (\<lambda>_. None) demo_schema 0 ''#'' = Inr ()"
proof -
  have "walkSchema (\<lambda>_. None) (JObj [(''type'', JStr ''string''), (''pattern'', JStr ''b'')]) 1 path = Inr ()" for path
    by (subst walkSchema.simps)
      (simp add: node_eval property_schemas_def additional_schemas_def item_schemas_def branch_schemas_def)
  then show ?thesis
    by (subst walkSchema.simps) (simp add: demo_schema_nodes, simp add: demo_schema_def node_eval)
qed

lemma demo_schema_supported: "assertSupportedGateSchema (\<lambda>_. None) demo_schema = Inr ()"
  using demo_schema_walk
  by (simp add: assertSupportedGateSchema_def maxSchemaBytes_def byteLength_def demo_schema_def quote_str_def quote_char_def)

theorem accepted_schema_in_dialect_witness:
  "subschema demo_schema 1 (JObj [(''type'', JStr ''string''), (''pattern'', JStr ''b'')]) \<and>
   byteLength (canonicalJson demo_schema) \<le> 65536"
proof -
  have "subschema demo_schema (Suc 0) (snd (''/properties/a'', JObj [(''type'', JStr ''string''), (''pattern'', JStr ''b'')]))"
    by (rule subschema_step [OF _ subschema_self]) (simp add: demo_schema_nodes(1))
  then show ?thesis
    using accepted_schema_in_dialect [OF demo_schema_supported, of 1] by simp
qed

section \<open>Reading a valid answer\<close>

abbreviation admits :: "(string \<Rightarrow> string \<Rightarrow> bool) \<Rightarrow> json \<Rightarrow> json \<Rightarrow> string \<Rightarrow> bool" where
  "admits rx s v path \<equiv> validateValue rx s v path = []"

lemma admits_type: "admits rx s v path \<Longrightarrow> jget s ''type'' = Some t \<Longrightarrow> typeMatches (Some t) v"
  by (subst (asm) validateValue.simps) (simp split: if_splits)

lemma admits_parts:
  assumes "admits rx s v path"
  shows "const_errors s v path = []" "enum_errors s v path = []" "string_errors rx s v path = []"
    "combiner_errors s ''anyOf'' (length (filter (\<lambda>b. admits rx b v path) (branches s ''anyOf''))) path = []"
  using assms by (subst (asm) validateValue.simps; simp split: if_splits)+

lemma admits_const: "admits rx s v path \<Longrightarrow> jget s ''const'' = Some c \<Longrightarrow> canonicalJson v = canonicalJson c"
  using admits_parts(1) [of rx s v path] by (simp add: const_errors_def split: if_splits)

lemma admits_enum: "admits rx s v path \<Longrightarrow> jget s ''enum'' = Some (JArr es) \<Longrightarrow> \<exists>e\<in>set es. canonicalJson e = canonicalJson v"
  using admits_parts(2) [of rx s v path] by (simp add: enum_errors_def list_ex_iff split: if_splits)

lemma admits_enum_strings: "admits rx s v path \<Longrightarrow> jget s ''enum'' = Some (JArr (map JStr ns)) \<Longrightarrow> \<exists>n\<in>set ns. v = JStr n"
  using admits_enum [of rx s v path "map JStr ns"] by (metis (no_types, lifting) canonicalJson.simps(4) canonicalJson_string imageE set_map)

lemma admits_anyOf: "admits rx s v path \<Longrightarrow> jget s ''anyOf'' = Some (JArr bs) \<Longrightarrow> \<exists>b\<in>set bs. admits rx b v path"
  using admits_parts(4) [of rx s v path]
  by (auto simp: combiner_errors_def branches_def Suc_le_eq filter_empty_conv split: if_splits)

lemma admits_object:
  assumes "admits rx s (JObj kvs) path"
  shows "required_errors s kvs path = []"
    and "kv \<in> set kvs \<Longrightarrow> schema_prop s (fst kv) = Some p \<Longrightarrow> admits rx p (snd kv) (path @ ''/'' @ fst kv)"
    and "kv \<in> set kvs \<Longrightarrow> schema_prop s (fst kv) = None \<Longrightarrow> jget s ''additionalProperties'' \<noteq> Some (JBool False)"
  using assms by (subst (asm) validateValue.simps; force split: if_splits)+

lemma admits_prop:
  "admits rx s (JObj kvs) path \<Longrightarrow> schema_prop s k = Some p \<Longrightarrow> map_of kvs k = Some x \<Longrightarrow> admits rx p x (path @ ''/'' @ k)"
  using admits_object(2) [of rx s kvs path "(k, x)" p] by (auto dest: map_of_SomeD)

lemma admits_closed:
  "admits rx s (JObj kvs) path \<Longrightarrow> jget s ''additionalProperties'' = Some (JBool False) \<Longrightarrow> schema_prop s k = None \<Longrightarrow>
   map_of kvs k = None"
  using admits_object(3) [of rx s kvs path] by (cases "map_of kvs k") (auto dest!: map_of_SomeD)

lemma admits_required:
  assumes "admits rx s (JObj kvs) path" "jget s ''required'' = Some (JArr rs)" "JStr k \<in> set rs"
  shows "js_in k kvs"
proof -
  have "\<forall>r\<in>set rs. (case r of JStr k \<Rightarrow> if js_in k kvs then []
      else [plain_error (path @ ''/'' @ k) ''required'' ''missing required property''] | _ \<Rightarrow> []) = []"
    using admits_object(1) [OF assms(1)] by (simp add: required_errors_def assms(2))
  then show ?thesis using assms(3) by (fastforce split: if_splits)
qed

lemma admits_array:
  assumes "admits rx s (JArr xs) path"
  shows "count_errors s xs path = []"
    and "item_schema s = Some i \<Longrightarrow> x \<in> set xs \<Longrightarrow> \<exists>p. admits rx i x p"
proof -
  have c: "count_errors s xs path = [] \<and> (case item_schema s of None \<Rightarrow> []
       | Some i \<Rightarrow> concat (map (\<lambda>nx. validateValue rx i (snd nx) (path @ ''/'' @ nat_str (fst nx))) (enumerate 0 xs))) = []"
    using assms by (subst (asm) validateValue.simps) (simp split: if_splits)
  then show "count_errors s xs path = []" by simp
  show "\<exists>p. admits rx i x p" if i: "item_schema s = Some i" and x: "x \<in> set xs"
  proof -
    obtain nx where "nx \<in> set (enumerate 0 xs)" "snd nx = x"
      using x by (metis imageE map_snd_enumerate set_map)
    then show ?thesis using c i by auto
  qed
qed

section \<open>Closed objects\<close>

text \<open>
  C29. What a closed schema promises of a valid answer: when additional properties are forbidden,
  every property of an accepted object is declared and its value accepted by the declared schema,
  and every required property is there. The exception are the names that every object inherits:
  they pass both checks without being declared and without being present.
\<close>

theorem closed_schema_answers:
  assumes "validateGateAnswer rx c g (JObj kvs) = None"
    and "jget (cg_schema c) ''additionalProperties'' = Some (JBool False)"
  shows "(\<forall>kv\<in>set kvs. fst kv \<in> set PROTOTYPE_NAMES \<or>
            (\<exists>ps p. jget (cg_schema c) ''properties'' = Some ps \<and> jget ps (fst kv) = Some p \<and>
               validateValue rx p (snd kv) (''#/'' @ fst kv) = [])) \<and>
         (\<forall>rs k. jget (cg_schema c) ''required'' = Some (JArr rs) \<and> JStr k \<in> set rs \<longrightarrow>
            k \<in> fst ` set kvs \<or> k \<in> set PROTOTYPE_NAMES) \<and>
         (\<forall>k\<in>set PROTOTYPE_NAMES.
            validateValue rx (JObj [(''required'', JArr [JStr k]), (''additionalProperties'', JBool False)]) (JObj []) path = [])"
proof -
  have ok: "admits rx (cg_schema c) (JObj kvs) ''#''"
    using assms(1) by (simp add: validateGateAnswer_def validate_compiled_def Let_def split: if_splits)
  have "fst kv \<in> set PROTOTYPE_NAMES \<or> (\<exists>ps p. jget (cg_schema c) ''properties'' = Some ps \<and>
      jget ps (fst kv) = Some p \<and> admits rx p (snd kv) (''#/'' @ fst kv))" if kv: "kv \<in> set kvs" for kv
  proof (cases "schema_prop (cg_schema c) (fst kv)")
    case None
    then show ?thesis using admits_object(3) [OF ok kv] assms(2) by simp
  next
    case (Some p)
    then show ?thesis
      using admits_object(2) [OF ok kv Some] by (auto simp: schema_prop_def bind_eq_Some_conv split: option.splits if_splits)
  qed
  moreover have "k \<in> fst ` set kvs \<or> k \<in> set PROTOTYPE_NAMES"
    if "jget (cg_schema c) ''required'' = Some (JArr rs)" "JStr k \<in> set rs" for rs k
    using admits_required [OF ok that] by (simp add: js_in_def)
  moreover have "validateValue rx (JObj [(''required'', JArr [JStr k]), (''additionalProperties'', JBool False)]) (JObj []) path = []"
    if "k \<in> set PROTOTYPE_NAMES" for k
    using that by (subst validateValue.simps)
      (simp add: const_errors_def enum_errors_def string_errors_def number_errors_def required_errors_def js_in_def
        combiner_errors_def)
  ultimately show ?thesis by blast
qed

definition demo_compiled :: compiled_gate_schema where
  "demo_compiled = \<lparr>cg_schema = demo_schema, cg_hash = ''h''\<rparr>"

lemma demo_answer_valid:
  "validateGateAnswer (\<lambda>p x. p = x) demo_compiled ''g'' (JObj [(''a'', JStr ''b'')]) = None"
proof -
  have "validateValue (\<lambda>p x. p = x) (JObj [(''type'', JStr ''string''), (''pattern'', JStr ''b'')]) (JStr ''b'') path = []" for path
    by (subst validateValue.simps)
      (simp add: typeMatches_def is_string_def const_errors_def enum_errors_def string_errors_def bound_errors_def
        number_errors_def combiner_errors_def)
  then have "validateValue (\<lambda>p x. p = x) demo_schema (JObj [(''a'', JStr ''b'')]) ''#'' = []"
    by (subst validateValue.simps)
      (simp add: demo_schema_def typeMatches_def const_errors_def enum_errors_def string_errors_def number_errors_def
        required_errors_def schema_prop_def combiner_errors_def)
  then show ?thesis
    by (simp add: validateGateAnswer_def validate_compiled_def demo_compiled_def maxAnswerBytes_def byteLength_def
        quote_str_def quote_char_def)
qed

theorem closed_schema_answers_witness:
  "jget (cg_schema demo_compiled) ''additionalProperties'' = Some (JBool False) \<and>
   (\<exists>ps p. jget demo_schema ''properties'' = Some ps \<and> jget ps ''a'' = Some p)"
proof -
  have closed: "jget (cg_schema demo_compiled) ''additionalProperties'' = Some (JBool False)"
    by (simp add: demo_compiled_def demo_schema_def)
  show ?thesis
    using closed_schema_answers [OF demo_answer_valid closed, of "''#''"] closed
    by (auto simp: demo_compiled_def PROTOTYPE_NAMES_def)
qed

section \<open>Schemas and decoders agree\<close>

lemma decision_schema_valid:
  assumes "admits rx (decision_schema ds k why) a path" "k \<noteq> ''decision''"
  shows "\<exists>kvs d. a = JObj kvs \<and> d \<in> set ds \<and> map_of kvs ''decision'' = Some (JStr d) \<and>
    (\<forall>x. map_of kvs k = Some x \<longrightarrow> (\<exists>n. x = JStr n))"
proof -
  let ?s = "decision_schema ds k why"
  have "typeMatches (Some (JStr ''object'')) a"
    by (rule admits_type [OF assms(1)]) (simp add: decision_schema_def)
  then obtain kvs where a: "a = JObj kvs" by (cases a) (auto simp: typeMatches_def)
  note ok = assms(1) [unfolded a]
  have "js_in ''decision'' kvs"
    by (rule admits_required [OF ok, where rs = "[JStr ''decision'']"]) (simp_all add: decision_schema_def)
  then obtain d where d: "map_of kvs ''decision'' = Some d"
    by (cases "map_of kvs ''decision''") (auto simp: js_in_def PROTOTYPE_NAMES_def map_of_eq_None_iff)
  have "admits rx (JObj [(''type'', JStr ''string''), (''enum'', JArr (map JStr ds))]) d (path @ ''/'' @ ''decision'')"
    by (rule admits_prop [OF ok _ d]) (simp add: decision_schema_def schema_prop_def)
  then obtain n where n: "n \<in> set ds" "d = JStr n"
    using admits_enum_strings [of rx _ d _ ds] by fastforce
  have "\<exists>n. x = JStr n" if x: "map_of kvs k = Some x" for x
  proof -
    have "admits rx (JObj [(''type'', JStr ''string''), (''description'', JStr why)]) x (path @ ''/'' @ k)"
      using assms(2) by (intro admits_prop [OF ok _ x]) (simp add: decision_schema_def schema_prop_def)
    then have "typeMatches (Some (JStr ''string'')) x" by (rule admits_type) simp
    then show ?thesis by (cases x) (auto simp: typeMatches_def is_string_def)
  qed
  then show ?thesis using a d n by auto
qed

text \<open>
  The gates' schemas and their decoders agree: an answer that the approval schema accepts is
  decoded, or is refused for the one condition the schema cannot express, a request for changes
  without a comment; an answer that the execution schema accepts is always decoded.
\<close>

theorem gate_schemas_admit_only_decodable:
  "(validateValue rx approvalGate_schema a path = [] \<longrightarrow>
      (\<exists>r. decodeApproval a = Inr r) \<or> decodeApproval a = Inl MissingComments) \<and>
   (validateValue rx executionGate_schema a path = [] \<longrightarrow> (\<exists>r. decodeExecution a = Inr r))"
proof -
  have "(\<exists>r. decodeApproval a = Inr r) \<or> decodeApproval a = Inl MissingComments" if "admits rx approvalGate_schema a path"
  proof -
    obtain kvs d where a: "a = JObj kvs" "d \<in> set APPROVAL_DECISIONS" "map_of kvs ''decision'' = Some (JStr d)"
      "\<forall>x. map_of kvs ''comments'' = Some x \<longrightarrow> (\<exists>n. x = JStr n)"
      using decision_schema_valid [of rx APPROVAL_DECISIONS "''comments''"] \<open>admits rx approvalGate_schema a path\<close>
      unfolding approvalGate_schema_def by fastforce
    have "\<exists>n. note_field a ''comments'' = Inr n"
      using a(4) by (cases "map_of kvs ''comments''") (auto simp: a(1) note_field_def)
    then obtain n where "note_field a ''comments'' = Inr n" ..
    then show ?thesis using a(1-3) by (simp add: decodeApproval_def decisionField_def is_object_def del: andThen_Inr)
  qed
  moreover have "\<exists>r. decodeExecution a = Inr r" if "admits rx executionGate_schema a path"
  proof -
    obtain kvs d where a: "a = JObj kvs" "d \<in> set EXECUTION_DECISIONS" "map_of kvs ''decision'' = Some (JStr d)"
      "\<forall>x. map_of kvs ''reason'' = Some x \<longrightarrow> (\<exists>n. x = JStr n)"
      using decision_schema_valid [of rx EXECUTION_DECISIONS "''reason''"] \<open>admits rx executionGate_schema a path\<close>
      unfolding executionGate_schema_def by fastforce
    have "\<exists>n. note_field a ''reason'' = Inr n"
      using a(4) by (cases "map_of kvs ''reason''") (auto simp: a(1) note_field_def)
    then show ?thesis using a(1-3) by (auto simp: decodeExecution_def decisionField_def is_object_def)
  qed
  ultimately show ?thesis by blast
qed

lemma demo_decline_valid: "admits rx executionGate_schema (JObj [(''decision'', JStr ''decline'')]) path"
proof -
  have "admits rx (JObj [(''type'', JStr ''string''), (''enum'', JArr (map JStr EXECUTION_DECISIONS))]) (JStr ''decline'') p" for p
    by (subst validateValue.simps)
      (simp add: typeMatches_def is_string_def const_errors_def enum_errors_def string_errors_def bound_errors_def
        number_errors_def combiner_errors_def EXECUTION_DECISIONS_def)
  then show ?thesis
    by (subst validateValue.simps)
      (simp add: executionGate_schema_def decision_schema_def typeMatches_def const_errors_def enum_errors_def
        string_errors_def number_errors_def required_errors_def js_in_def schema_prop_def combiner_errors_def)
qed

theorem gate_schemas_admit_only_decodable_witness:
  "\<exists>r. decodeExecution (JObj [(''decision'', JStr ''decline'')]) = Inr r"
  using gate_schemas_admit_only_decodable [of "\<lambda>p x. True" "JObj [(''decision'', JStr ''decline'')]" "''#''"]
    demo_decline_valid by blast

end
