(* ===== verification/Ask_Gate.thy ===== *)
theory Ask_Gate
  imports Gate_Schema
begin

text \<open>
  Questions as workflow gates (\<open>agent-wire/workflow-gate-types.ts\<close>,
  \<open>agent-wire/deep-interview-gate.ts\<close>): the answer schema of a question, the metadata that is
  published with it, the decoder of answers and the classification of an accepted answer. What
  regular expressions and number parsing find in a question text comes from the parameters of
  \<open>text_readers\<close>; \<open>isDI\<close> is \<open>isDeepInterviewAskQuestion\<close>.
\<close>

section \<open>Contract constants (workflow-gate-types.ts)\<close>

definition WORKFLOW_GATE_V1_STAGES :: "string list" where
  "WORKFLOW_GATE_V1_STAGES = [''deep-interview'', ''ralplan'', ''ultragoal'']"

definition RESERVED_WORKFLOW_STAGES :: "string list" where
  "RESERVED_WORKFLOW_STAGES = [''team'']"

definition GATE_OTHER_OPTION :: string where
  "GATE_OTHER_OPTION = ''Other (type your own)''"

definition MAX_USER_RESPONSE_LENGTH :: nat where "MAX_USER_RESPONSE_LENGTH = 10000"
definition MAX_ASK_GATE_ADAPTER_STRING_LENGTH :: nat where "MAX_ASK_GATE_ADAPTER_STRING_LENGTH = 256"
definition MAX_ASK_GATE_DEEP_INTERVIEW_STRING_LENGTH :: nat where "MAX_ASK_GATE_DEEP_INTERVIEW_STRING_LENGTH = 128"
definition MAX_ASK_GATE_LONG_STRING_LENGTH :: nat where "MAX_ASK_GATE_LONG_STRING_LENGTH = 2048"
definition MAX_ASK_GATE_CONFUSED_TERMS :: nat where "MAX_ASK_GATE_CONFUSED_TERMS = 32"
definition MAX_ASK_GATE_REFERENCES :: nat where "MAX_ASK_GATE_REFERENCES = 32"

section \<open>Published metadata\<close>

text \<open>The four predicates \<open>isBounded...String\<close> of the source differ in the bound only.\<close>

definition isBoundedString :: "nat \<Rightarrow> json \<Rightarrow> bool" where
  "isBoundedString m v = (case v of JStr s \<Rightarrow> s \<noteq> [] \<and> deepInterviewCharacterCount s \<le> m | _ \<Rightarrow> False)"

abbreviation isBoundedAskGateString :: "json \<Rightarrow> bool" where
  "isBoundedAskGateString \<equiv> isBoundedString MAX_ASK_GATE_ADAPTER_STRING_LENGTH"

abbreviation isBoundedAskGateDeepInterviewString :: "json \<Rightarrow> bool" where
  "isBoundedAskGateDeepInterviewString \<equiv> isBoundedString MAX_ASK_GATE_DEEP_INTERVIEW_STRING_LENGTH"

abbreviation isBoundedAskGateLongString :: "json \<Rightarrow> bool" where
  "isBoundedAskGateLongString \<equiv> isBoundedString MAX_ASK_GATE_LONG_STRING_LENGTH"

definition opt_ok :: "(json \<Rightarrow> bool) \<Rightarrow> json option \<Rightarrow> bool" where
  "opt_ok p v = (case v of None \<Rightarrow> True | Some x \<Rightarrow> p x)"

definition req_ok :: "(json \<Rightarrow> bool) \<Rightarrow> json option \<Rightarrow> bool" where
  "req_ok p v = (case v of None \<Rightarrow> False | Some x \<Rightarrow> p x)"

definition isValidAskGateConfusedTerms :: "json \<Rightarrow> bool" where
  "isValidAskGateConfusedTerms v = (case v of
     JArr xs \<Rightarrow> length xs \<le> MAX_ASK_GATE_CONFUSED_TERMS \<and> list_all isBoundedAskGateString xs | _ \<Rightarrow> False)"

definition isValidAskGateReference :: "json \<Rightarrow> bool" where
  "isValidAskGateReference v = (case v of
     JObj kvs \<Rightarrow>
       list_all (\<lambda>k. k \<in> set [''reference_id'', ''label'', ''origin'', ''url'', ''excerpt'']) (map fst kvs) \<and>
       req_ok isBoundedAskGateString (jget v ''reference_id'') \<and> req_ok isBoundedAskGateString (jget v ''label'') \<and>
       req_ok isBoundedAskGateString (jget v ''origin'') \<and> opt_ok isBoundedAskGateLongString (jget v ''url'') \<and>
       opt_ok isBoundedAskGateLongString (jget v ''excerpt'')
   | _ \<Rightarrow> False)"

definition isValidAskGateReferences :: "json \<Rightarrow> bool" where
  "isValidAskGateReferences v = (case v of
     JArr xs \<Rightarrow> length xs \<le> MAX_ASK_GATE_REFERENCES \<and> list_all isValidAskGateReference xs | _ \<Rightarrow> False)"

definition STAGE_STATE_FIELDS :: "string list" where
  "STAGE_STATE_FIELDS = [''question_id'', ''multi'', ''allow_empty'', ''options'', ''other_option'',
     ''clarification_action'', ''navigation_label'', ''deep_interview_metadata'', ''round'', ''round_id'', ''component'',
     ''dimension'', ''mode'', ''challenge_mode'', ''ambiguity'', ''topology_gate'', ''confused_terms'', ''references'']"

text \<open>\<open>Number.isSafeInteger\<close>.\<close>

definition isSafeInteger :: "json \<Rightarrow> bool" where
  "isSafeInteger v = (case v of JNum (Fin r) \<Rightarrow> rat_is_int r \<and> \<bar>r\<bar> \<le> 2 ^ 53 - 1 | _ \<Rightarrow> False)"

definition is_round :: "json \<Rightarrow> bool" where
  "is_round v \<longleftrightarrow> isSafeInteger v \<and> (case v of JNum x \<Rightarrow> \<not> num_lt x (Fin 0) | _ \<Rightarrow> False)"

definition is_ambiguity :: "json \<Rightarrow> bool" where
  "is_ambiguity v = (case v of JNum x \<Rightarrow> is_finite x \<and> \<not> num_lt x (Fin 0) \<and> \<not> num_lt (Fin 1) x | _ \<Rightarrow> False)"

definition is_option_list :: "json \<Rightarrow> bool" where
  "is_option_list v = (case v of JArr xs \<Rightarrow> list_all isBoundedAskGateString xs | _ \<Rightarrow> False)"

text \<open>A thrown error is its message; the checks run in the order of the source.\<close>

definition validateAskGateStageState :: "json \<Rightarrow> string + unit" where
  "validateAskGateStageState v = (case v of
     JObj kvs \<Rightarrow> all_checks (
       [refuse_if (\<exists>k\<in>set (map fst kvs). k \<notin> set STAGE_STATE_FIELDS) ''ask gate stage_state has an unknown field'',
        refuse_if (\<not> (req_ok isBoundedAskGateString (jget v ''question_id'') \<and> req_ok is_boolean (jget v ''multi'') \<and>
             req_ok is_boolean (jget v ''allow_empty'') \<and> req_ok is_option_list (jget v ''options'') \<and>
             jget v ''other_option'' = Some (JStr GATE_OTHER_OPTION) \<and> jget v ''clarification_action'' = Some (JStr ''clarify'')))
          ''ask gate stage_state has invalid required fields'',
        refuse_if (\<not> opt_ok (\<lambda>x. x = JStr ''Next'' \<or> x = JStr ''Done'') (jget v ''navigation_label''))
          ''ask gate stage_state has an invalid navigation label''] @
       map (\<lambda>k. refuse_if (\<not> opt_ok isBoundedAskGateDeepInterviewString (jget v k)) (''ask gate stage_state has an invalid '' @ k))
         [''round_id'', ''component'', ''dimension''] @
       map (\<lambda>k. refuse_if (\<not> opt_ok isBoundedAskGateString (jget v k)) (''ask gate stage_state has an invalid '' @ k))
         [''mode'', ''challenge_mode''] @
       [refuse_if (\<not> opt_ok is_boolean (jget v ''deep_interview_metadata'')) ''ask gate stage_state has invalid deep interview metadata'',
        refuse_if (\<not> opt_ok is_round (jget v ''round'')) ''ask gate stage_state has an invalid round'',
        refuse_if (\<not> opt_ok is_ambiguity (jget v ''ambiguity'')) ''ask gate stage_state has an invalid ambiguity'',
        refuse_if (\<not> opt_ok is_boolean (jget v ''topology_gate'')) ''ask gate stage_state has an invalid topology flag'',
        refuse_if (\<not> opt_ok isValidAskGateConfusedTerms (jget v ''confused_terms'')) ''ask gate stage_state has invalid confused_terms'',
        refuse_if (\<not> opt_ok isValidAskGateReferences (jget v ''references'')) ''ask gate stage_state has invalid references''])
   | _ \<Rightarrow> Inl ''ask gate stage_state must be an object'')"

text \<open>The structured round of a deep interview; its fields are checked at run time only.\<close>

record ask_interview_state =
  ai_round :: json
  ai_component :: json
  ai_dimension :: json
  ai_ambiguity :: json
  ai_round_id :: "json option"
  ai_confused_terms :: "json option"
  ai_references :: "json option"

record ask_question =
  aq_id :: string
  aq_question :: string
  aq_labels :: "string list"
  aq_multi :: bool
  aq_allowEmpty :: bool
  aq_recommended :: "nat option"
  aq_navigationLabel :: "string option"
  aq_deepInterview :: "ask_interview_state option"
  aq_workflowGate :: "(string \<times> string) option"

definition opt_field :: "string \<Rightarrow> json option \<Rightarrow> (string \<times> json) list" where
  "opt_field k v = (case v of None \<Rightarrow> [] | Some x \<Rightarrow> [(k, x)])"

text \<open>The later entries of the object literal override earlier ones, as its spreads do.\<close>

definition override :: "(string \<times> json) list \<Rightarrow> (string \<times> json) list \<Rightarrow> (string \<times> json) list" where
  "override base extra = foldl (\<lambda>m kv. map_set (fst kv) (snd kv) m) base extra"

definition stage_base :: "ask_question \<Rightarrow> (string \<times> json) list" where
  "stage_base q = [(''question_id'', JStr (aq_id q)), (''multi'', JBool (aq_multi q)),
     (''options'', JArr (map JStr (aq_labels q))), (''other_option'', JStr GATE_OTHER_OPTION),
     (''clarification_action'', JStr ''clarify''), (''allow_empty'', JBool (aq_allowEmpty q))] @
     opt_field ''navigation_label'' (map_option JStr (aq_navigationLabel q))"

definition interview_fields :: "ask_interview_state \<Rightarrow> (string \<times> json) list" where
  "interview_fields d = [(''deep_interview_metadata'', JBool True), (''round'', ai_round d), (''component'', ai_component d),
     (''dimension'', ai_dimension d), (''ambiguity'', ai_ambiguity d)] @
     opt_field ''round_id'' (ai_round_id d) @ opt_field ''confused_terms'' (ai_confused_terms d) @
     opt_field ''references'' (ai_references d)"

definition buildAskGateStageState :: "ask_question \<Rightarrow> (string \<times> json) list \<Rightarrow> string + json" where
  "buildAskGateStageState q fallbackState =
     (let state = JObj (override (stage_base q) (case aq_deepInterview q of Some d \<Rightarrow> interview_fields d | None \<Rightarrow> fallbackState))
      in andThen (validateAskGateStageState state) (\<lambda>_. Inr state))"

section \<open>The answer schema\<close>

definition not_blank :: string where
  "not_blank = [CHR 0x5C, CHR ''S'']"

definition count_json :: "nat \<Rightarrow> json" where
  "count_json n = JNum (num_of n)"

definition selectedBase :: "string list \<Rightarrow> (string \<times> json) list" where
  "selectedBase labels = [(''type'', JStr ''array''),
     (''items'', JObj [(''type'', JStr ''string''), (''enum'', JArr (map JStr labels))]), (''uniqueItems'', JBool True)]"

definition selectedOnly :: "bool \<Rightarrow> bool \<Rightarrow> string list \<Rightarrow> json" where
  "selectedOnly multi allowEmpty labels = JObj (selectedBase labels @
     [(''minItems'', count_json (if allowEmpty then 0 else 1))] @ (if multi then [] else [(''maxItems'', count_json 1)]))"

definition selectedWithOther :: "bool \<Rightarrow> string list \<Rightarrow> json" where
  "selectedWithOther multi labels = JObj (selectedBase labels @ (if multi then [] else [(''maxItems'', count_json 0)]))"

definition text_schema :: "nat option \<Rightarrow> string option \<Rightarrow> json" where
  "text_schema maxLen description = JObj ([(''type'', JStr ''string''), (''minLength'', count_json 1)] @
     opt_field ''maxLength'' (map_option count_json maxLen) @ [(''pattern'', JStr not_blank)] @
     opt_field ''description'' (map_option JStr description))"

definition const_schema :: "json \<Rightarrow> json" where
  "const_schema c = JObj [(''const'', c)]"

definition closed_object :: "(string \<times> json) list \<Rightarrow> string list \<Rightarrow> json" where
  "closed_object props req = JObj [(''type'', JStr ''object''), (''properties'', JObj props),
     (''required'', JArr (map JStr req)), (''additionalProperties'', JBool False)]"

definition pick_props :: "bool \<Rightarrow> bool \<Rightarrow> string list \<Rightarrow> (string \<times> json) list" where
  "pick_props multi allowEmpty labels = [(''selected'', selectedOnly multi allowEmpty labels),
     (''other'', const_schema (JBool False)), (''action'', const_schema (JStr ''answer''))]"

definition free_props :: "bool \<Rightarrow> nat option \<Rightarrow> string list \<Rightarrow> (string \<times> json) list" where
  "free_props multi maxLen labels = [(''selected'', selectedWithOther multi labels), (''other'', const_schema (JBool True)),
     (''custom'', text_schema maxLen None), (''action'', const_schema (JStr ''answer''))]"

definition clarify_props :: "(string \<times> json) list" where
  "clarify_props = [(''action'', const_schema (JStr ''clarify'')), (''question'', text_schema None None)]"

definition answer_branches :: "bool \<Rightarrow> bool \<Rightarrow> nat option \<Rightarrow> string list \<Rightarrow> json list" where
  "answer_branches multi allowEmpty maxLen labels =
     [closed_object (pick_props multi allowEmpty labels) [''selected''],
      closed_object (free_props multi maxLen labels) [''selected'', ''other'', ''custom''],
      closed_object clarify_props [''action'', ''question'']]"

definition buildAskGateAnswerSchema :: "bool \<Rightarrow> bool \<Rightarrow> nat option \<Rightarrow> string list \<Rightarrow> json" where
  "buildAskGateAnswerSchema multi allowEmpty maxLen labels = JObj [
     (''type'', JStr ''object''),
     (''properties'', JObj [
        (''selected'', JObj (selectedBase labels)),
        (''other'', JObj [(''type'', JStr ''boolean''), (''description'', JStr ''set true to provide a free-text answer in `custom`'')]),
        (''custom'', text_schema maxLen (Some ''free-text answer; required when `other` is true'')),
        (''action'', JObj [(''type'', JStr ''string''), (''enum'', JArr [JStr ''answer'', JStr ''clarify'']),
           (''description'', JStr ''set to `clarify` to ask about the choices without answering the round'')]),
        (''question'', text_schema None (Some ''clarification question; required when action is `clarify`''))]),
     (''additionalProperties'', JBool False),
     (''anyOf'', JArr (answer_branches multi allowEmpty maxLen labels))]"

section \<open>Questions as gates (deep-interview-gate.ts)\<close>

record gate_option =
  go_value :: json
  go_label :: string
  go_description :: "string option"

record gate_context =
  gc_title :: "string option"
  gc_plan :: "string option"
  gc_source :: "string option"
  gc_prompt :: "string option"
  gc_summary :: "string option"
  gc_stage_state :: "json option"
  gc_artifact_refs :: "json option"
  gc_language :: "string option"

definition empty_context :: gate_context where
  "empty_context = \<lparr>gc_title = None, gc_plan = None, gc_source = None, gc_prompt = None, gc_summary = None,
     gc_stage_state = None, gc_artifact_refs = None, gc_language = None\<rparr>"

record open_gate_input =
  og_stage :: string
  og_kind :: string
  og_schema :: json
  og_options :: "gate_option list option"
  og_context :: "gate_context option"
  og_supersedes :: "string option"
  og_runtimeTurnId :: "string option"

text \<open>
  The readers of a question text: whether it looks like a round of an interview, the groups of the
  round header, whether it has the topology header, and \<open>Number\<close> of a text.
\<close>

record text_readers =
  tr_isDI :: "string \<Rightarrow> bool"
  tr_round :: "string \<Rightarrow> (string \<times> string \<times> string) option"
  tr_topology :: "string \<Rightarrow> bool"
  tr_number :: "string \<Rightarrow> js_number"

definition round_state :: "(string \<Rightarrow> js_number) \<Rightarrow> string \<times> string \<times> string \<Rightarrow> (string \<times> json) list" where
  "round_state to_number groups = (case groups of (r, m, a) \<Rightarrow>
     (let n = JNum (to_number r); mode = trim m; normalized = map lower mode; raw = trim a;
          ambiguity = JNum (if raw = [] then NaN else to_number raw)
      in (if is_round n then [(''round'', n)] else []) @
         (if mode \<noteq> [] then [(''mode'', JStr mode)] @
            (if str_includes normalized ''topology'' then [(''topology_gate'', JBool True)] else []) @
            (if list_ex (str_includes normalized) [''contrarian'', ''simplifier'', ''ontologist'']
             then [(''challenge_mode'', JStr normalized)] else [])
          else []) @
         (if is_ambiguity ambiguity then [(''ambiguity'', ambiguity)] else [])))"

definition deepInterviewQuestionState :: "text_readers \<Rightarrow> string \<Rightarrow> (string \<times> json) list" where
  "deepInterviewQuestionState R questionText =
     (let state = (case tr_round R questionText of None \<Rightarrow> [] | Some groups \<Rightarrow> round_state (tr_number R) groups)
      in if tr_topology R questionText
         then map_set ''topology_gate'' (JBool True) (map_set ''mode'' (JStr ''Topology confirmation'')
                (map_set ''round'' (JNum (Fin 0)) state))
         else state)"

definition deep_interview_text :: "(string \<Rightarrow> bool) \<Rightarrow> ask_question \<Rightarrow> bool" where
  "deep_interview_text isDI q \<longleftrightarrow> aq_deepInterview q \<noteq> None \<or> isDI (aq_question q)"

definition question_schema :: "(string \<Rightarrow> bool) \<Rightarrow> ask_question \<Rightarrow> json" where
  "question_schema isDI q = buildAskGateAnswerSchema (aq_multi q) (aq_allowEmpty q)
     (if deep_interview_text isDI q then Some MAX_USER_RESPONSE_LENGTH else None) (aq_labels q)"

definition question_options :: "ask_question \<Rightarrow> gate_option list" where
  "question_options q = map (\<lambda>ix. \<lparr>go_value = JStr (snd ix), go_label = snd ix,
     go_description = (if aq_recommended q = Some (fst ix) then Some ''recommended'' else None)\<rparr>) (enumerate 0 (aq_labels q))"

definition questionToGate :: "text_readers \<Rightarrow> ask_question \<Rightarrow> string + open_gate_input" where
  "questionToGate R q =
     andThen (buildAskGateStageState q (deepInterviewQuestionState R (aq_question q))) (\<lambda>state.
       Inr \<lparr>og_stage = (case aq_workflowGate q of Some w \<Rightarrow> fst w | None \<Rightarrow> ''deep-interview''),
            og_kind = (case aq_workflowGate q of Some w \<Rightarrow> snd w | None \<Rightarrow> ''question''),
            og_schema = question_schema (tr_isDI R) q, og_options = Some (question_options q),
            og_context = Some (empty_context\<lparr>gc_title := Some (aq_question q), gc_prompt := Some (aq_question q),
              gc_stage_state := Some state\<rparr>),
            og_supersedes = None, og_runtimeTurnId = None\<rparr>)"

section \<open>Decoding answers\<close>

datatype ask_gate_error =
    AInvalidShape | AUnknownOption string | AMultiNotAllowed | AMissingCustom | AMissingClarification | AEmptySelection
  | ADuplicateSelection | ATooLong

record ask_result =
  ar_id :: string
  ar_question :: string
  ar_options :: "string list"
  ar_multi :: bool
  ar_selected :: "string list"
  ar_custom :: "string option"
  ar_clarification :: "string option"

definition isAnswer :: "json \<Rightarrow> bool" where
  "isAnswer v \<longleftrightarrow> is_object v \<and>
     (if jget v ''action'' = Some (JStr ''clarify'')
      then req_ok is_string (jget v ''question'') \<and> jget v ''selected'' = None \<and> jget v ''other'' = None \<and> jget v ''custom'' = None
      else (jget v ''action'' = None \<or> jget v ''action'' = Some (JStr ''answer'')) \<and>
           req_ok is_string_array (jget v ''selected'') \<and> opt_ok is_boolean (jget v ''other'') \<and>
           opt_ok is_string (jget v ''custom''))"

text \<open>The strings of an array that was checked to hold strings only.\<close>

definition strings_of :: "json option \<Rightarrow> string list" where
  "strings_of v = (case v of Some (JArr xs) \<Rightarrow> concat (map (\<lambda>x. case x of JStr s \<Rightarrow> [s] | _ \<Rightarrow> []) xs) | _ \<Rightarrow> [])"

definition plain_result :: "ask_question \<Rightarrow> ask_result" where
  "plain_result q = \<lparr>ar_id = aq_id q, ar_question = aq_question q, ar_options = aq_labels q, ar_multi = aq_multi q,
     ar_selected = [], ar_custom = None, ar_clarification = None\<rparr>"

definition decode_clarification :: "ask_question \<Rightarrow> string \<Rightarrow> ask_gate_error + ask_result" where
  "decode_clarification q text =
     (if trim text = [] then Inl AMissingClarification else Inr ((plain_result q)\<lparr>ar_clarification := Some text\<rparr>))"

definition decode_selection ::
  "(string \<Rightarrow> bool) \<Rightarrow> ask_question \<Rightarrow> string list \<Rightarrow> bool \<Rightarrow> string option \<Rightarrow> ask_gate_error + ask_result" where
  "decode_selection isDI q selected oth custom =
     (case find (\<lambda>s. s \<notin> set (aq_labels q)) selected of
        Some s \<Rightarrow> Inl (AUnknownOption s)
      | None \<Rightarrow>
          (let totalPicks = length (remdups selected) + (if oth then 1 else 0)
           in if length (remdups selected) \<noteq> length selected then Inl ADuplicateSelection
              else if totalPicks = 0 \<and> \<not> aq_allowEmpty q then Inl AEmptySelection
              else if totalPicks = 0 then Inr (plain_result q)
              else if \<not> aq_multi q \<and> 1 < totalPicks then Inl AMultiNotAllowed
              else if oth \<and> (case custom of None \<Rightarrow> True | Some c \<Rightarrow> trim c = []) then Inl AMissingCustom
              else if oth \<and> deep_interview_text isDI q \<and>
                      (case custom of None \<Rightarrow> False | Some c \<Rightarrow> deepInterviewCharacterCount c > MAX_USER_RESPONSE_LENGTH)
                then Inl ATooLong
              else Inr ((plain_result q)\<lparr>ar_selected := selected, ar_custom := (if oth then custom else None)\<rparr>)))"

definition gateAnswerToResult :: "(string \<Rightarrow> bool) \<Rightarrow> ask_question \<Rightarrow> json \<Rightarrow> ask_gate_error + ask_result" where
  "gateAnswerToResult isDI q a =
     (if \<not> isAnswer a then Inl AInvalidShape
      else if jget a ''action'' = Some (JStr ''clarify'')
        then decode_clarification q (case as_str (jget a ''question'') of Some t \<Rightarrow> t | None \<Rightarrow> [])
      else decode_selection isDI q (strings_of (jget a ''selected'')) (jget a ''other'' = Some (JBool True))
             (as_str (jget a ''custom'')))"

section \<open>Classification of accepted answers\<close>

datatype disposition = Commit | ResolveWithoutCommit

definition option_label :: "gate_option \<Rightarrow> string" where
  "option_label opt = (case go_value opt of JStr s \<Rightarrow> s | _ \<Rightarrow> go_label opt)"

definition gate_question :: "string \<Rightarrow> json \<Rightarrow> gate_context \<Rightarrow> gate_option list option \<Rightarrow> ask_question" where
  "gate_question qid state ctx options =
     \<lparr>aq_id = qid, aq_question = (case gc_prompt ctx of Some p \<Rightarrow> p | None \<Rightarrow> qid),
      aq_labels = map option_label (case options of Some os \<Rightarrow> os | None \<Rightarrow> []),
      aq_multi = (jget state ''multi'' = Some (JBool True)), aq_allowEmpty = (jget state ''allow_empty'' = Some (JBool True)),
      aq_recommended = None, aq_navigationLabel = None, aq_deepInterview = None,
      aq_workflowGate = None\<rparr>"

definition classifyAskGateDisposition ::
  "(string \<Rightarrow> bool) \<Rightarrow> gate_context \<Rightarrow> gate_option list option \<Rightarrow> json \<Rightarrow> ask_gate_error + disposition" where
  "classifyAskGateDisposition isDI ctx options answer =
     (case gc_stage_state ctx of None \<Rightarrow> Inr Commit
      | Some state \<Rightarrow>
          (if \<not> is_object state then Inr Commit
           else case as_str (jget state ''question_id'') of None \<Rightarrow> Inr Commit
             | Some qid \<Rightarrow>
                 (let q = gate_question qid state ctx options
                  in if jget state ''deep_interview_metadata'' = Some (JBool True) \<and>
                        (case as_str (jget answer ''custom'') of None \<Rightarrow> False
                         | Some c \<Rightarrow> deepInterviewCharacterCount c > MAX_USER_RESPONSE_LENGTH)
                     then Inl ATooLong
                     else if jget answer ''action'' = Some (JStr ''clarify'')
                       then andThen (gateAnswerToResult isDI q answer) (\<lambda>_. Inr ResolveWithoutCommit)
                     else andThen (gateAnswerToResult isDI q answer) (\<lambda>r.
                            Inr (if ar_selected r = [] \<and> ar_custom r = None then ResolveWithoutCommit else Commit)))))"

section \<open>What the parts of the schema accept\<close>

text \<open>An object that a closed schema with these properties and these required names accepts.\<close>

definition closed_answer :: "(string \<Rightarrow> string \<Rightarrow> bool) \<Rightarrow> (string \<times> json) list \<Rightarrow> string list \<Rightarrow> json \<Rightarrow> bool" where
  "closed_answer rx props req a \<longleftrightarrow> is_plain_object a \<and>
     (\<forall>k. map_of props k = None \<longrightarrow> k \<notin> set PROTOTYPE_NAMES \<longrightarrow> jget a k = None) \<and>
     (\<forall>k p x. map_of props k = Some p \<longrightarrow> jget a k = Some x \<longrightarrow> (\<exists>path. admits rx p x path)) \<and>
     (\<forall>k\<in>set req. k \<notin> set PROTOTYPE_NAMES \<longrightarrow> jget a k \<noteq> None)"

lemma closed_object_answer:
  assumes "admits rx (closed_object props req) a path" "\<forall>p\<in>set (map snd props). truthy p"
  shows "closed_answer rx props req a"
proof -
  let ?s = "closed_object props req"
  have "typeMatches (Some (JStr ''object'')) a"
    by (rule admits_type [OF assms(1)]) (simp add: closed_object_def)
  then obtain kvs where a: "a = JObj kvs" by (cases a) (auto simp: typeMatches_def)
  note ok = assms(1) [unfolded a]
  have props: "schema_prop ?s k = (case map_of props k of Some p \<Rightarrow> Some p
      | None \<Rightarrow> if k \<in> set PROTOTYPE_NAMES then Some (JObj []) else None)" for k
    using assms(2) by (auto simp: schema_prop_def closed_object_def split: option.splits dest!: map_of_SomeD)
  have "map_of kvs k = None" if "map_of props k = None" "k \<notin> set PROTOTYPE_NAMES" for k
    using that by (intro admits_closed [OF ok]) (simp add: closed_object_def, simp add: props)
  moreover have "\<exists>path. admits rx p x path" if "map_of props k = Some p" "map_of kvs k = Some x" for k p x
    using admits_prop [OF ok _ that(2), of p] that(1) by (auto simp: props)
  moreover have "map_of kvs k \<noteq> None" if "k \<in> set req" "k \<notin> set PROTOTYPE_NAMES" for k
  proof -
    have "js_in k kvs"
      by (rule admits_required [OF ok, where rs = "map JStr req"]) (use that(1) in \<open>simp_all add: closed_object_def\<close>)
    then show ?thesis using that(2) by (simp add: js_in_def map_of_eq_None_iff)
  qed
  ultimately show ?thesis by (simp add: closed_answer_def a)
qed

lemma closed_answer_no: "closed_answer rx props req a \<Longrightarrow> map_of props k = None \<Longrightarrow> k \<notin> set PROTOTYPE_NAMES \<Longrightarrow> jget a k = None"
  by (simp add: closed_answer_def)

lemma closed_answer_req:
  assumes "closed_answer rx props req a" "k \<in> set req" "k \<notin> set PROTOTYPE_NAMES" "map_of props k = Some p"
  obtains x path where "jget a k = Some x" "admits rx p x path"
proof -
  obtain x where "jget a k = Some x" using assms(1-3) by (auto simp: closed_answer_def)
  then show thesis using assms(1,4) that unfolding closed_answer_def by blast
qed

lemma admits_const_schema:
  "admits rx (const_schema (JStr n)) x path \<Longrightarrow> x = JStr n" "admits rx (const_schema (JBool b)) x path \<Longrightarrow> x = JBool b"
  using admits_const [of rx "const_schema (JStr n)" x path "JStr n"]
    admits_const [of rx "const_schema (JBool b)" x path "JBool b"]
  by (cases b; simp add: const_schema_def)+

lemma admits_text_schema:
  assumes "admits rx (text_schema maxLen d) x path"
  shows "\<exists>t. x = JStr t \<and> rx not_blank t \<and> (\<forall>m. maxLen = Some m \<longrightarrow> deepInterviewCharacterCount t \<le> m)"
proof -
  have "typeMatches (Some (JStr ''string'')) x"
    by (rule admits_type [OF assms]) (simp add: text_schema_def)
  then obtain t where t: "x = JStr t" by (cases x) (auto simp: typeMatches_def is_string_def)
  have "string_errors rx (text_schema maxLen d) x path = []" by (rule admits_parts(3) [OF assms])
  then show ?thesis
    by (auto simp: t string_errors_def text_schema_def opt_field_def bound_errors_def count_json_def num_of_def
        split: if_splits option.splits)
qed

lemma admits_selection:
  assumes "admits rx (JObj (selectedBase labels @ bounds)) x path" "fst ` set bounds \<subseteq> {''minItems'', ''maxItems''}"
  shows "\<exists>ss. x = JArr (map JStr ss) \<and> set ss \<subseteq> set labels \<and> distinct ss \<and>
    (\<forall>n. map_of bounds ''minItems'' = Some (count_json n) \<longrightarrow> n \<le> length ss) \<and>
    (\<forall>n. map_of bounds ''maxItems'' = Some (count_json n) \<longrightarrow> length ss \<le> n)"
proof -
  let ?s = "JObj (selectedBase labels @ bounds)"
  have get: "jget ?s ''type'' = Some (JStr ''array'')" "jget ?s ''uniqueItems'' = Some (JBool True)"
    "item_schema ?s = Some (JObj [(''type'', JStr ''string''), (''enum'', JArr (map JStr labels))])"
    "jget ?s ''minItems'' = map_of bounds ''minItems''" "jget ?s ''maxItems'' = map_of bounds ''maxItems''"
    by (simp_all add: selectedBase_def item_schema_def)
  obtain xs where xs: "x = JArr xs"
    using admits_type [OF assms(1) get(1)] by (cases x) (auto simp: typeMatches_def)
  note ok = assms(1) [unfolded xs]
  have "\<exists>n\<in>set labels. v = JStr n" if v: "v \<in> set xs" for v
  proof -
    obtain p where "admits rx (JObj [(''type'', JStr ''string''), (''enum'', JArr (map JStr labels))]) v p"
      using admits_array(2) [OF ok get(3) v] ..
    then show ?thesis by (rule admits_enum_strings) simp
  qed
  then have "xs \<in> lists (JStr ` set labels)" by blast
  then obtain ss where ss: "xs = map JStr ss" "set ss \<subseteq> set labels"
    by (auto simp: lists_image)
  have "count_errors ?s xs path = []" by (rule admits_array(1) [OF ok])
  then have "distinct (map canonicalJson xs)" "bound_errors ?s path ''minItems'' ''fewer than '' '' items'' (num_lt (num_of (length xs))) = []"
    "bound_errors ?s path ''maxItems'' ''more than '' '' items'' (\<lambda>m. num_lt m (num_of (length xs))) = []"
    using get(2) by (simp_all only: count_errors_def append_is_Nil_conv) (simp split: if_splits)
  then have "distinct ss" "\<forall>n. map_of bounds ''minItems'' = Some (count_json n) \<longrightarrow> n \<le> length ss"
    "\<forall>n. map_of bounds ''maxItems'' = Some (count_json n) \<longrightarrow> length ss \<le> n"
    by (auto simp only: bound_errors_def get) (auto simp: ss(1) count_json_def num_of_def distinct_map split: if_splits)
  then show ?thesis using xs ss by blast
qed


lemma proto_fields: "k \<in> set [''selected'', ''other'', ''custom'', ''action'', ''question''] \<Longrightarrow> k \<notin> set PROTOTYPE_NAMES"
  by (auto simp: PROTOTYPE_NAMES_def)

lemma optional_const:
  assumes "closed_answer rx props req a" "map_of props k = Some (const_schema c)" "is_string c \<or> is_boolean c"
  shows "jget a k = None \<or> jget a k = Some c"
proof (cases "jget a k")
  case (Some x)
  then obtain path where "admits rx (const_schema c) x path" using assms(1,2) unfolding closed_answer_def by blast
  then show ?thesis
    using Some assms(3) admits_const_schema by (cases c) (auto simp: is_string_def is_boolean_def)
qed simp

section \<open>The answers that a question's schema accepts\<close>

text \<open>A choice of options, the options with a text of one's own, and a question back.\<close>

definition is_pick :: "bool \<Rightarrow> bool \<Rightarrow> string list \<Rightarrow> json \<Rightarrow> string list \<Rightarrow> bool" where
  "is_pick multi allowEmpty labels a ss \<longleftrightarrow> is_plain_object a \<and>
     jget a ''selected'' = Some (JArr (map JStr ss)) \<and> set ss \<subseteq> set labels \<and> distinct ss \<and>
     jget a ''action'' \<in> {None, Some (JStr ''answer'')} \<and> jget a ''other'' \<in> {None, Some (JBool False)} \<and>
     jget a ''custom'' = None \<and> (allowEmpty \<or> ss \<noteq> []) \<and> (multi \<or> length ss \<le> 1)"

definition is_free_text :: "bool \<Rightarrow> string list \<Rightarrow> json \<Rightarrow> string list \<Rightarrow> string \<Rightarrow> bool" where
  "is_free_text multi labels a ss c \<longleftrightarrow> is_plain_object a \<and>
     jget a ''selected'' = Some (JArr (map JStr ss)) \<and> set ss \<subseteq> set labels \<and> distinct ss \<and>
     jget a ''action'' \<in> {None, Some (JStr ''answer'')} \<and> jget a ''other'' = Some (JBool True) \<and>
     jget a ''custom'' = Some (JStr c) \<and> (multi \<or> ss = [])"

definition is_clarification :: "json \<Rightarrow> string \<Rightarrow> bool" where
  "is_clarification a t \<longleftrightarrow> is_plain_object a \<and> jget a ''action'' = Some (JStr ''clarify'') \<and>
     jget a ''question'' = Some (JStr t) \<and> jget a ''selected'' = None \<and> jget a ''other'' = None \<and> jget a ''custom'' = None"

lemma pick_answer:
  assumes "closed_answer rx (pick_props multi allowEmpty labels) [''selected''] a"
  shows "\<exists>ss. is_pick multi allowEmpty labels a ss"
proof -
  obtain x p where x: "jget a ''selected'' = Some x" and p: "admits rx (selectedOnly multi allowEmpty labels) x p"
    by (rule closed_answer_req [OF assms, of "''selected''"]) (auto simp: pick_props_def proto_fields)
  obtain ss where ss: "x = JArr (map JStr ss)" "set ss \<subseteq> set labels" "distinct ss" "allowEmpty \<or> ss \<noteq> []" "multi \<or> length ss \<le> 1"
    using admits_selection [of rx labels "[(''minItems'', count_json (if allowEmpty then 0 else 1))] @
        (if multi then [] else [(''maxItems'', count_json 1)])" x p] p
    by (fastforce simp: selectedOnly_def count_json_def split: if_splits)
  have "jget a ''other'' = None \<or> jget a ''other'' = Some (JBool False)"
    by (rule optional_const [OF assms]) (simp_all add: pick_props_def is_string_def is_boolean_def)
  moreover have "jget a ''action'' = None \<or> jget a ''action'' = Some (JStr ''answer'')"
    by (rule optional_const [OF assms]) (simp_all add: pick_props_def is_string_def is_boolean_def)
  moreover have "jget a ''custom'' = None" by (rule closed_answer_no [OF assms]) (simp_all add: pick_props_def proto_fields)
  ultimately show ?thesis using x ss assms unfolding is_pick_def closed_answer_def by blast
qed

lemma free_text_answer:
  assumes "closed_answer rx (free_props multi maxLen labels) [''selected'', ''other'', ''custom''] a"
  shows "\<exists>ss c. is_free_text multi labels a ss c \<and> rx not_blank c \<and>
    (\<forall>m. maxLen = Some m \<longrightarrow> deepInterviewCharacterCount c \<le> m)"
proof -
  obtain x p where x: "jget a ''selected'' = Some x" and p: "admits rx (selectedWithOther multi labels) x p"
    by (rule closed_answer_req [OF assms, of "''selected''"]) (auto simp: free_props_def proto_fields)
  obtain y q where y: "jget a ''other'' = Some y" and q: "admits rx (const_schema (JBool True)) y q"
    by (rule closed_answer_req [OF assms, of "''other''"]) (auto simp: free_props_def proto_fields)
  obtain z r where z: "jget a ''custom'' = Some z" and r: "admits rx (text_schema maxLen None) z r"
    by (rule closed_answer_req [OF assms, of "''custom''"]) (auto simp: free_props_def proto_fields)
  obtain ss where ss: "x = JArr (map JStr ss)" "set ss \<subseteq> set labels" "distinct ss" "multi \<or> ss = []"
    using admits_selection [of rx labels "if multi then [] else [(''maxItems'', count_json 0)]" x] p
    by (fastforce simp: selectedWithOther_def count_json_def split: if_splits)
  have "jget a ''action'' = None \<or> jget a ''action'' = Some (JStr ''answer'')"
    by (rule optional_const [OF assms]) (simp_all add: free_props_def is_string_def)
  then show ?thesis
    using x y z ss admits_const_schema(2) [OF q] admits_text_schema [OF r] assms
    unfolding is_free_text_def closed_answer_def by blast
qed

lemma clarification_answer:
  assumes "closed_answer rx clarify_props [''action'', ''question''] a"
  shows "\<exists>t. is_clarification a t \<and> rx not_blank t"
proof -
  obtain x p where x: "jget a ''action'' = Some x" and p: "admits rx (const_schema (JStr ''clarify'')) x p"
    by (rule closed_answer_req [OF assms, of "''action''"]) (auto simp: clarify_props_def proto_fields)
  obtain y q where y: "jget a ''question'' = Some y" and q: "admits rx (text_schema None None) y q"
    by (rule closed_answer_req [OF assms, of "''question''"]) (auto simp: clarify_props_def proto_fields)
  have "jget a k = None" if "k \<in> set [''selected'', ''other'', ''custom'']" for k
    by (rule closed_answer_no [OF assms]) (use that in \<open>auto simp: clarify_props_def PROTOTYPE_NAMES_def\<close>)
  then show ?thesis
    using x y admits_const_schema(1) [OF p] admits_text_schema [OF q] assms
    unfolding is_clarification_def closed_answer_def by auto
qed

lemma answer_schema_cases:
  assumes "admits rx (buildAskGateAnswerSchema multi allowEmpty maxLen labels) a path"
  obtains (pick) ss where "is_pick multi allowEmpty labels a ss"
  | (free) ss c where "is_free_text multi labels a ss c" "rx not_blank c"
      "\<And>m. maxLen = Some m \<Longrightarrow> deepInterviewCharacterCount c \<le> m"
  | (clarify) t where "is_clarification a t" "rx not_blank t"
proof -
  have "\<exists>b\<in>set (answer_branches multi allowEmpty maxLen labels). admits rx b a path"
    by (rule admits_anyOf [OF assms]) (simp add: buildAskGateAnswerSchema_def)
  then consider "closed_answer rx (pick_props multi allowEmpty labels) [''selected''] a"
  | "closed_answer rx (free_props multi maxLen labels) [''selected'', ''other'', ''custom''] a"
  | "closed_answer rx clarify_props [''action'', ''question''] a"
    by (auto simp: answer_branches_def closed_object_answer pick_props_def free_props_def clarify_props_def
        selectedOnly_def selectedWithOther_def const_schema_def text_schema_def)
  then show ?thesis
  proof cases
    case 1
    then show ?thesis using pick_answer pick by blast
  next
    case 2
    then show ?thesis using free_text_answer free by blast
  next
    case 3
    then show ?thesis using clarification_answer clarify by blast
  qed
qed

section \<open>Decoding accepted answers\<close>

lemma distinct_picks: "distinct ss \<Longrightarrow> set ss \<subseteq> set labels \<Longrightarrow>
    remdups ss = ss \<and> find (\<lambda>s. s \<notin> set labels) ss = None"
  by (auto simp: distinct_remdups_id find_None_iff)

lemma strings_of_map [simp]: "strings_of (Some (JArr (map JStr ss))) = ss"
  by (simp add: strings_of_def comp_def)

lemma all_strings [simp]: "list_all is_string (map JStr ss)"
  by (simp add: list_all_iff is_string_def)

lemma gateAnswerToResult_pick:
  assumes "is_pick (aq_multi q) (aq_allowEmpty q) (aq_labels q) a ss"
  shows "gateAnswerToResult isDI q a = Inr ((plain_result q)\<lparr>ar_selected := ss\<rparr>)"
proof -
  have "isAnswer a" "jget a ''action'' \<noteq> Some (JStr ''clarify'')"
    using assms by (auto simp: is_pick_def isAnswer_def is_object_def req_ok_def opt_ok_def is_string_array_def is_boolean_def)
  then have "gateAnswerToResult isDI q a = decode_selection isDI q ss False None"
    using assms by (auto simp: gateAnswerToResult_def is_pick_def)
  then show ?thesis
    using assms distinct_picks [of ss "aq_labels q"]
    by (auto simp: is_pick_def decode_selection_def plain_result_def distinct_remdups_id)
qed

lemma gateAnswerToResult_free_text:
  assumes "is_free_text (aq_multi q) (aq_labels q) a ss c" "trim c \<noteq> []"
    and "deep_interview_text isDI q \<Longrightarrow> deepInterviewCharacterCount c \<le> MAX_USER_RESPONSE_LENGTH"
  shows "gateAnswerToResult isDI q a = Inr ((plain_result q)\<lparr>ar_selected := ss, ar_custom := Some c\<rparr>)"
proof -
  have "isAnswer a" "jget a ''action'' \<noteq> Some (JStr ''clarify'')"
    using assms(1) by (auto simp: is_free_text_def isAnswer_def is_object_def req_ok_def opt_ok_def is_string_array_def
        is_boolean_def is_string_def [of "JStr c"])
  then have "gateAnswerToResult isDI q a = decode_selection isDI q ss True (Some c)"
    using assms(1) by (auto simp: gateAnswerToResult_def is_free_text_def)
  then show ?thesis
    using assms distinct_picks [of ss "aq_labels q"]
    by (auto simp: is_free_text_def decode_selection_def plain_result_def distinct_remdups_id)
qed

lemma gateAnswerToResult_clarification:
  assumes "is_clarification a t" "trim t \<noteq> []"
  shows "gateAnswerToResult isDI q a = Inr ((plain_result q)\<lparr>ar_clarification := Some t\<rparr>)"
  using assms by (auto simp: is_clarification_def gateAnswerToResult_def isAnswer_def is_object_def req_ok_def is_string_def
      decode_clarification_def)

lemma override_get: "map_get (override base extra) k =
    (case map_get (rev extra) k of Some v \<Rightarrow> Some v | None \<Rightarrow> map_get base k)"
  by (induction extra arbitrary: base) (auto simp: override_def map_add_def split: option.splits)

lemma question_options_labels [simp]: "map option_label (question_options q) = aq_labels q"
  by (simp add: question_options_def comp_def option_label_def)

text \<open>What the gate of a question publishes.\<close>

lemma questionToGate_parts:
  assumes "questionToGate R q = Inr g"
  obtains state where "og_context g = Some (empty_context\<lparr>gc_title := Some (aq_question q), gc_prompt := Some (aq_question q),
      gc_stage_state := Some state\<rparr>)" "og_options g = Some (question_options q)" "og_schema g = question_schema (tr_isDI R) q"
    "validateAskGateStageState state = Inr ()"
    "state = JObj (override (stage_base q)
       (case aq_deepInterview q of Some d \<Rightarrow> interview_fields d | None \<Rightarrow> deepInterviewQuestionState R (aq_question q)))"
  using assms by (auto simp: questionToGate_def buildAskGateStageState_def Let_def)

lemma question_state_keys:
  "fst ` set (deepInterviewQuestionState R x) \<subseteq> {''round'', ''mode'', ''topology_gate'', ''challenge_mode'', ''ambiguity''}"
  by (auto simp: deepInterviewQuestionState_def round_state_def Let_def dom_update split: option.splits if_splits)


lemma interview_fields_keys: "fst ` set (interview_fields d) \<subseteq> {''deep_interview_metadata'', ''round'', ''component'', ''dimension'',
    ''ambiguity'', ''round_id'', ''confused_terms'', ''references''}"
  by (auto simp: interview_fields_def opt_field_def split: option.splits)

lemma published_fields:
  assumes "state = JObj (override (stage_base q)
       (case aq_deepInterview q of Some d \<Rightarrow> interview_fields d | None \<Rightarrow> deepInterviewQuestionState R (aq_question q)))"
  shows "jget state ''question_id'' = Some (JStr (aq_id q))" "jget state ''multi'' = Some (JBool (aq_multi q))"
    "jget state ''allow_empty'' = Some (JBool (aq_allowEmpty q))"
    "jget state ''deep_interview_metadata'' = Some (JBool True) \<Longrightarrow> aq_deepInterview q \<noteq> None"
proof -
  have none: "map_get (rev (deepInterviewQuestionState R x)) k = None"
    if "k \<in> {''question_id'', ''multi'', ''allow_empty'', ''deep_interview_metadata''}" for k x
    using question_state_keys [of R x] that by (auto simp: map_of_eq_None_iff)
  have some: "map_get (rev (interview_fields d)) k = None" if "k \<in> {''question_id'', ''multi'', ''allow_empty''}" for k d
    using interview_fields_keys [of d] that by (auto simp: map_of_eq_None_iff)
  have "jget state k = map_get (stage_base q) k" if "k \<in> {''question_id'', ''multi'', ''allow_empty''}" for k
  proof (cases "aq_deepInterview q")
    case None
    then show ?thesis using none [of k "aq_question q"] that by (simp only: assms override_get option.case jget.simps) auto
  next
    case (Some d)
    then show ?thesis using some [of k d] that by (simp only: assms override_get option.case jget.simps)
  qed
  then show "jget state ''question_id'' = Some (JStr (aq_id q))" "jget state ''multi'' = Some (JBool (aq_multi q))"
    "jget state ''allow_empty'' = Some (JBool (aq_allowEmpty q))"
    by (simp_all add: stage_base_def)
  show "aq_deepInterview q \<noteq> None" if "jget state ''deep_interview_metadata'' = Some (JBool True)"
  proof
    assume "aq_deepInterview q = None"
    then show False
      using that none [of "''deep_interview_metadata''"]
      by (cases "aq_navigationLabel q") (simp_all add: assms override_get stage_base_def opt_field_def)
  qed
qed

lemma classify_published:
  assumes "questionToGate R q = Inr g" "og_context g = Some ctx"
    and "\<And>c. jget a ''custom'' = Some (JStr c) \<Longrightarrow> aq_deepInterview q \<noteq> None \<Longrightarrow>
      deepInterviewCharacterCount c \<le> MAX_USER_RESPONSE_LENGTH"
  shows "\<exists>q'. aq_labels q' = aq_labels q \<and> aq_multi q' = aq_multi q \<and> aq_allowEmpty q' = aq_allowEmpty q \<and>
    aq_question q' = aq_question q \<and> aq_deepInterview q' = None \<and>
    classifyAskGateDisposition isDI ctx (og_options g) a = andThen (gateAnswerToResult isDI q' a) (\<lambda>r.
      Inr (if jget a ''action'' = Some (JStr ''clarify'') \<or> ar_selected r = [] \<and> ar_custom r = None
           then ResolveWithoutCommit else Commit))"
proof (rule questionToGate_parts [OF assms(1)])
  fix state
  assume g: "og_context g = Some (empty_context\<lparr>gc_title := Some (aq_question q), gc_prompt := Some (aq_question q),
      gc_stage_state := Some state\<rparr>)" "og_options g = Some (question_options q)"
    and st: "state = JObj (override (stage_base q)
       (case aq_deepInterview q of Some d \<Rightarrow> interview_fields d | None \<Rightarrow> deepInterviewQuestionState R (aq_question q)))"
  note f = published_fields [OF st]
  let ?q = "gate_question (aq_id q) state ctx (og_options g)"
  have ctx: "gc_stage_state ctx = Some state" "gc_prompt ctx = Some (aq_question q)" using g(1) assms(2) by auto
  have obj: "is_object state" by (simp add: st is_object_def)
  have short: "\<not> (jget state ''deep_interview_metadata'' = Some (JBool True) \<and>
      (case as_str (jget a ''custom'') of None \<Rightarrow> False | Some c \<Rightarrow> MAX_USER_RESPONSE_LENGTH < deepInterviewCharacterCount c))"
    using f(4) assms(3) by (auto simp: not_less split: option.splits)
  have "classifyAskGateDisposition isDI ctx (og_options g) a = andThen (gateAnswerToResult isDI ?q a) (\<lambda>r.
      Inr (if jget a ''action'' = Some (JStr ''clarify'') \<or> ar_selected r = [] \<and> ar_custom r = None
           then ResolveWithoutCommit else Commit))"
    by (simp add: classifyAskGateDisposition_def ctx obj f(1) Let_def if_not_P [OF short])
  then show ?thesis
    using f(2,3) ctx(2) g(2) by (intro exI [of _ ?q]) (simp add: gate_question_def)
qed

text \<open>
  C26. For the gate of a question, the advertised schema, the decoder and the classification agree:
  an answer that the schema accepts is never refused by the decoder or by the classification, and it
  is classified as not committing exactly if it asks a question back or leaves an optional question
  empty. The one assumption is what the pattern of free texts means, a character that is not white
  space.
\<close>

theorem ask_gate_agreement:
  assumes "\<And>x. rx not_blank x \<longleftrightarrow> (\<exists>c\<in>set x. \<not> is_js_space c)"
    and "questionToGate R q = Inr g" "og_context g = Some ctx"
    and "validateValue rx (og_schema g) a path = []"
  shows "\<exists>r d. gateAnswerToResult (tr_isDI R) q a = Inr r \<and>
    classifyAskGateDisposition (tr_isDI R) ctx (og_options g) a = Inr d \<and>
    (d = ResolveWithoutCommit \<longleftrightarrow> ar_clarification r \<noteq> None \<or> ar_selected r = [] \<and> ar_custom r = None)"
proof -
  have schema: "og_schema g = question_schema (tr_isDI R) q" using assms(2) by (rule questionToGate_parts)
  have nonblank: "trim x \<noteq> []" if "rx not_blank x" for x using that assms(1) by (auto simp: trim_eq_Nil)
  note classify = classify_published [OF assms(2,3)]
  from assms(4) [unfolded schema question_schema_def] show ?thesis
  proof (cases rule: answer_schema_cases)
    case (pick ss)
    then have "jget a ''custom'' = None" "jget a ''action'' \<noteq> Some (JStr ''clarify'')" by (auto simp: is_pick_def)
    then show ?thesis
      using classify [of a "tr_isDI R"] pick gateAnswerToResult_pick [of _ a ss "tr_isDI R"]
      by (auto simp: plain_result_def)
  next
    case (free ss c)
    have "jget a ''custom'' = Some (JStr c)" "jget a ''action'' \<noteq> Some (JStr ''clarify'')" using free(1) by (auto simp: is_free_text_def)
    moreover have "deepInterviewCharacterCount c \<le> MAX_USER_RESPONSE_LENGTH" if "deep_interview_text (tr_isDI R) q"
      using free(3) that by simp
    moreover have "gateAnswerToResult (tr_isDI R) q' a = Inr ((plain_result q')\<lparr>ar_selected := ss, ar_custom := Some c\<rparr>)"
      if "aq_labels q' = aq_labels q" "aq_multi q' = aq_multi q" "deep_interview_text (tr_isDI R) q' \<Longrightarrow> deep_interview_text (tr_isDI R) q" for q'
      using that free nonblank by (intro gateAnswerToResult_free_text) auto
    ultimately show ?thesis
      using classify [of a "tr_isDI R"] by (fastforce simp: plain_result_def deep_interview_text_def)
  next
    case (clarify t)
    then have "jget a ''custom'' = None" "jget a ''action'' = Some (JStr ''clarify'')" by (auto simp: is_clarification_def)
    then show ?thesis
      using classify_published [OF assms(2,3), of a "tr_isDI R"]
        gateAnswerToResult_clarification [OF clarify(1) nonblank [OF clarify(2)], of "tr_isDI R"]
      by (auto simp: plain_result_def)
  qed
qed

definition demo_question :: ask_question where
  "demo_question = \<lparr>aq_id = ''q'', aq_question = ''Which?'', aq_labels = [''a'', ''b''], aq_multi = False, aq_allowEmpty = False,
     aq_recommended = None, aq_navigationLabel = None, aq_deepInterview = None, aq_workflowGate = None\<rparr>"

definition demo_readers :: text_readers where
  "demo_readers = \<lparr>tr_isDI = (\<lambda>_. False), tr_round = (\<lambda>_. None), tr_topology = (\<lambda>_. False), tr_number = (\<lambda>_. NaN)\<rparr>"

lemmas stage_eval = validateAskGateStageState_def all_checks_def refuse_if_def opt_ok_def req_ok_def isBoundedString_def
  is_option_list_def is_boolean_def MAX_ASK_GATE_ADAPTER_STRING_LENGTH_def MAX_ASK_GATE_DEEP_INTERVIEW_STRING_LENGTH_def
  deepInterviewCharacterCount_def STAGE_STATE_FIELDS_def

lemma demo_gate:
  "\<exists>g ctx. questionToGate demo_readers demo_question = Inr g \<and> og_context g = Some ctx \<and>
     og_schema g = question_schema (\<lambda>_. False) demo_question"
  by (simp add: questionToGate_def buildAskGateStageState_def demo_readers_def demo_question_def deepInterviewQuestionState_def
      stage_base_def override_def opt_field_def stage_eval)

lemmas value_eval = typeMatches_def is_string_def is_boolean_def const_errors_def enum_errors_def string_errors_def
  bound_errors_def number_errors_def combiner_errors_def required_errors_def js_in_def schema_prop_def count_errors_def
  item_schema_def branches_def

lemma truthy_parts [simp]: "truthy (text_schema m d)" "truthy (const_schema c)"
  by (simp_all add: text_schema_def const_schema_def)

lemma demo_clarification_valid:
  assumes "rx not_blank ''x''"
  shows "admits rx (question_schema isDI q) (JObj [(''action'', JStr ''clarify''), (''question'', JStr ''x'')]) path"
proof -
  let ?a = "JObj [(''action'', JStr ''clarify''), (''question'', JStr ''x'')]"
  have t: "admits rx (text_schema None d) (JStr ''x'') p" for d p
    using assms by (subst validateValue.simps) (simp add: text_schema_def opt_field_def value_eval count_json_def num_of_def
        deepInterviewCharacterCount_def split: option.splits)
  have c: "admits rx (const_schema (JStr ''clarify'')) (JStr ''clarify'') p" for p
    by (subst validateValue.simps) (simp add: const_schema_def value_eval)
  have a: "admits rx (JObj [(''type'', JStr ''string''), (''enum'', JArr [JStr ''answer'', JStr ''clarify'']), (''description'', JStr m)]) (JStr ''clarify'') p" for p m
    by (subst validateValue.simps) (simp add: value_eval)
  have "admits rx (closed_object clarify_props [''action'', ''question'']) ?a path"
    using t c by (subst validateValue.simps) (simp add: closed_object_def clarify_props_def value_eval)
  then have n: "length (filter (\<lambda>b. admits rx b ?a path) (answer_branches m e l ls)) \<noteq> 0" for m e l ls
    by (auto simp: answer_branches_def)
  show ?thesis
    using t a n by (subst validateValue.simps) (simp add: question_schema_def buildAskGateAnswerSchema_def value_eval Suc_le_eq)
qed

theorem ask_gate_agreement_witness:
  "\<exists>r. gateAnswerToResult (\<lambda>_. False) demo_question (JObj [(''action'', JStr ''clarify''), (''question'', JStr ''x'')]) = Inr r"
proof -
  let ?rx = "\<lambda>p x. \<exists>c\<in>set x. \<not> is_js_space c"
  obtain g ctx where g: "questionToGate demo_readers demo_question = Inr g" "og_context g = Some ctx"
    "og_schema g = question_schema (\<lambda>_. False) demo_question"
    using demo_gate by blast
  have "?rx not_blank ''x''" by (simp add: is_js_space_def)
  from demo_clarification_valid [of ?rx, OF this, of "\<lambda>_. False" demo_question "''#''"] show ?thesis
    using ask_gate_agreement [of ?rx demo_readers, OF _ g(1,2), of _ "''#''"] by (fastforce simp: g(3) demo_readers_def)
qed

section \<open>Decoded answers are well typed\<close>

text \<open>
  Every result the decoder returns is well formed, whatever the answer was: it names the question
  it belongs to, selects distinct offered options, at most one of them or a free text if the question
  takes a single choice, carries a free text only if it is not blank and within the limit of an
  interview, and keeps clarifications apart from selections; it is empty only for a clarification or
  if the question may be left empty.
\<close>

theorem decoded_answer_well_formed:
  assumes "gateAnswerToResult isDI q a = Inr r"
  shows "ar_id r = aq_id q \<and> ar_options r = aq_labels q \<and> ar_multi r = aq_multi q \<and>
    set (ar_selected r) \<subseteq> set (aq_labels q) \<and> distinct (ar_selected r) \<and>
    (\<not> aq_multi q \<longrightarrow> length (ar_selected r) + (if ar_custom r = None then 0 else 1) \<le> 1) \<and>
    (\<forall>c. ar_custom r = Some c \<longrightarrow> trim c \<noteq> [] \<and> (deep_interview_text isDI q \<longrightarrow> length c \<le> 10000)) \<and>
    (\<forall>t. ar_clarification r = Some t \<longrightarrow> trim t \<noteq> [] \<and> ar_selected r = [] \<and> ar_custom r = None) \<and>
    (ar_selected r = [] \<and> ar_custom r = None \<and> ar_clarification r = None \<longrightarrow> aq_allowEmpty q)"
proof (cases "jget a ''action'' = Some (JStr ''clarify'')")
  case True
  then obtain t where "decode_clarification q t = Inr r"
    using assms by (auto simp: gateAnswerToResult_def split: if_splits)
  then show ?thesis by (auto simp: decode_clarification_def plain_result_def split: if_splits)
next
  case False
  then obtain ss oth c where "decode_selection isDI q ss oth c = Inr r"
    using assms by (auto simp: gateAnswerToResult_def split: if_splits)
  then show ?thesis
    by (auto simp: decode_selection_def plain_result_def Let_def find_None_iff distinct_remdups_id
        MAX_USER_RESPONSE_LENGTH_def deepInterviewCharacterCount_def not_less
        split: if_splits option.splits)
qed

theorem decoded_answer_well_formed_witness:
  "\<exists>r. gateAnswerToResult (\<lambda>_. False) demo_question (JObj [(''selected'', JArr [JStr ''b''])]) = Inr r \<and> distinct (ar_selected r)"
proof -
  have "is_pick (aq_multi demo_question) (aq_allowEmpty demo_question) (aq_labels demo_question) (JObj [(''selected'', JArr [JStr ''b''])]) [''b'']"
    by (simp add: is_pick_def demo_question_def)
  from gateAnswerToResult_pick [OF this, of "\<lambda>_. False"] show ?thesis
    using decoded_answer_well_formed by fastforce
qed

section \<open>Published metadata is bounded\<close>

lemma stage_state_checks:
  assumes "validateAskGateStageState (JObj kvs) = Inr ()"
  shows "fst ` set kvs \<subseteq> set STAGE_STATE_FIELDS" "opt_ok is_round (map_of kvs ''round'')"
    "opt_ok is_ambiguity (map_of kvs ''ambiguity'')" "opt_ok isValidAskGateConfusedTerms (map_of kvs ''confused_terms'')"
    "opt_ok isValidAskGateReferences (map_of kvs ''references'')"
  using assms by (auto simp: validateAskGateStageState_def all_checks_pass)

lemma stage_state_strings:
  assumes "validateAskGateStageState (JObj kvs) = Inr ()" "map_of kvs k = Some (JStr t)"
  shows "t \<noteq> [] \<and> length t \<le> 256"
proof -
  have k: "k \<in> set STAGE_STATE_FIELDS" using stage_state_checks(1) [OF assms(1)] map_of_SomeD [OF assms(2)] by force
  have bound: "t \<noteq> [] \<and> length t \<le> 256" if "isBoundedString m (JStr t)" "m \<le> 256" for m
    using that by (auto simp: isBoundedString_def deepInterviewCharacterCount_def)
  have req: "req_ok isBoundedAskGateString (map_of kvs ''question_id'')" "req_ok is_boolean (map_of kvs ''multi'')"
    "req_ok is_boolean (map_of kvs ''allow_empty'')" "req_ok is_option_list (map_of kvs ''options'')"
    "map_of kvs ''other_option'' = Some (JStr GATE_OTHER_OPTION)" "map_of kvs ''clarification_action'' = Some (JStr ''clarify'')"
    using assms(1) by (simp_all add: validateAskGateStageState_def all_checks_pass)
  have opt: "opt_ok (\<lambda>x. x = JStr ''Next'' \<or> x = JStr ''Done'') (map_of kvs ''navigation_label'')"
    "\<forall>k\<in>{''round_id'', ''component'', ''dimension''}. opt_ok isBoundedAskGateDeepInterviewString (map_of kvs k)"
    "\<forall>k\<in>{''mode'', ''challenge_mode''}. opt_ok isBoundedAskGateString (map_of kvs k)"
    "\<forall>k\<in>{''deep_interview_metadata'', ''topology_gate''}. opt_ok is_boolean (map_of kvs k)"
    using assms(1) by (simp_all add: validateAskGateStageState_def all_checks_pass)
  have num: "opt_ok is_round (map_of kvs ''round'')" "opt_ok is_ambiguity (map_of kvs ''ambiguity'')"
    "opt_ok isValidAskGateConfusedTerms (map_of kvs ''confused_terms'')" "opt_ok isValidAskGateReferences (map_of kvs ''references'')"
    using stage_state_checks [OF assms(1)] by simp_all
  have "k \<in> {''question_id'', ''mode'', ''challenge_mode''} \<union> {''round_id'', ''component'', ''dimension''} \<union>
      {''other_option'', ''clarification_action'', ''navigation_label''} \<union>
      {''multi'', ''allow_empty'', ''options'', ''deep_interview_metadata'', ''topology_gate''} \<union>
      {''round'', ''ambiguity'', ''confused_terms'', ''references''}"
    using k unfolding STAGE_STATE_FIELDS_def list.set by (elim insertE emptyE) simp_all
  then consider "k \<in> {''question_id'', ''mode'', ''challenge_mode''}" | "k \<in> {''round_id'', ''component'', ''dimension''}"
    | "k \<in> {''other_option'', ''clarification_action'', ''navigation_label''}"
    | "k \<in> {''multi'', ''allow_empty'', ''options'', ''deep_interview_metadata'', ''topology_gate''}"
    | "k \<in> {''round'', ''ambiguity'', ''confused_terms'', ''references''}"
    unfolding Un_iff by (elim disjE)
  then show ?thesis
  proof cases
    case 1
    then have "isBoundedAskGateString (JStr t)" using assms(2) req(1) opt(3) by (auto simp: req_ok_def opt_ok_def)
    then show ?thesis by (rule bound) (simp add: MAX_ASK_GATE_ADAPTER_STRING_LENGTH_def)
  next
    case 2
    then have "isBoundedAskGateDeepInterviewString (JStr t)" using assms(2) opt(2) by (auto simp: opt_ok_def)
    then show ?thesis by (rule bound) (simp add: MAX_ASK_GATE_DEEP_INTERVIEW_STRING_LENGTH_def)
  next
    case 3
    then show ?thesis using assms(2) req(5,6) opt(1) by (auto simp: opt_ok_def GATE_OTHER_OPTION_def)
  next
    case 4
    then show ?thesis using assms(2) req(2-4) opt(4) by (auto simp: opt_ok_def req_ok_def is_boolean_def is_option_list_def)
  next
    case 5
    then show ?thesis using assms(2) num
      by (auto simp: opt_ok_def is_round_def isSafeInteger_def is_ambiguity_def isValidAskGateConfusedTerms_def isValidAskGateReferences_def)
  qed
qed

text \<open>
  The metadata published with a question stays within its bounds, whatever the question text and
  the interview state were: no field outside the contract, every text between 1 and 256 characters,
  a round that is an integer from 0 to the largest safe integer, an ambiguity between 0 and 1, and
  at most 32 terms and 32 references.
\<close>

theorem published_metadata_bounded:
  assumes "questionToGate R q = Inr g" "og_context g = Some ctx"
  shows "\<exists>kvs. gc_stage_state ctx = Some (JObj kvs) \<and> fst ` set kvs \<subseteq> set STAGE_STATE_FIELDS \<and>
    (\<forall>k t. map_of kvs k = Some (JStr t) \<longrightarrow> 0 < length t \<and> length t \<le> 256) \<and>
    (\<forall>v. map_of kvs ''round'' = Some v \<longrightarrow> (\<exists>n. v = JNum (Fin (of_int n)) \<and> 0 \<le> n \<and> n \<le> 2 ^ 53 - 1)) \<and>
    (\<forall>v. map_of kvs ''ambiguity'' = Some v \<longrightarrow> (\<exists>x. v = JNum (Fin x) \<and> 0 \<le> x \<and> x \<le> 1)) \<and>
    (\<forall>k\<in>{''confused_terms'', ''references''}. \<forall>v. map_of kvs k = Some v \<longrightarrow> (\<exists>xs. v = JArr xs \<and> length xs \<le> 32))"
proof -
  obtain kvs where st: "gc_stage_state ctx = Some (JObj kvs)" and ok: "validateAskGateStageState (JObj kvs) = Inr ()"
    by (rule questionToGate_parts [OF assms(1)]) (use assms(2) in auto)
  note c = stage_state_checks [OF ok]
  have "\<exists>n. v = JNum (Fin (of_int n)) \<and> 0 \<le> n \<and> n \<le> 2 ^ 53 - 1" if "map_of kvs ''round'' = Some v" for v
  proof -
    have "is_round v" using c(2) that by (simp add: opt_ok_def)
    then obtain x where x: "v = JNum (Fin x)" "rat_is_int x" "\<bar>x\<bar> \<le> 2 ^ 53 - 1" "0 \<le> x"
      by (auto simp: is_round_def isSafeInteger_def not_less split: json.splits js_number.splits)
    have "x = of_int (fst (quotient_of x))"
      using x(2) quotient_of_div [of x "fst (quotient_of x)" "snd (quotient_of x)"] by (simp add: rat_is_int_def prod_eq_iff)
    then obtain n where n: "x = of_int n" ..
    have "rat_of_int n \<le> rat_of_int (2 ^ 53 - 1)" "rat_of_int 0 \<le> rat_of_int n" using x(3,4) n by simp_all
    then show ?thesis using x(1) n by (simp only: of_int_le_iff) blast
  qed
  moreover have "\<exists>x. v = JNum (Fin x) \<and> 0 \<le> x \<and> x \<le> 1" if "map_of kvs ''ambiguity'' = Some v" for v
    using c(3) that by (auto simp: opt_ok_def is_ambiguity_def is_finite_def not_less split: json.splits js_number.splits)
  moreover have "\<exists>xs. v = JArr xs \<and> length xs \<le> 32" if "k \<in> {''confused_terms'', ''references''}" "map_of kvs k = Some v" for k v
    using c(4,5) that by (auto simp: opt_ok_def isValidAskGateConfusedTerms_def isValidAskGateReferences_def
        MAX_ASK_GATE_CONFUSED_TERMS_def MAX_ASK_GATE_REFERENCES_def split: json.splits)
  ultimately show ?thesis using st c(1) stage_state_strings [OF ok] by (intro exI [of _ kvs]) simp
qed

theorem published_metadata_bounded_witness:
  "\<exists>g ctx kvs. questionToGate demo_readers demo_question = Inr g \<and> og_context g = Some ctx \<and>
     gc_stage_state ctx = Some (JObj kvs) \<and> fst ` set kvs \<subseteq> set STAGE_STATE_FIELDS"
proof -
  obtain g ctx where "questionToGate demo_readers demo_question = Inr g" "og_context g = Some ctx"
    using demo_gate by blast
  then show ?thesis using published_metadata_bounded by blast
qed

end
