(* ===== verification/Gate_Store.thy ===== *)
theory Gate_Store
  imports Ask_Gate
begin

text \<open>
  The records and the store of workflow gates (\<open>agent-wire/workflow-gate-types.ts\<close>,
  \<open>agent-wire/workflow-gate-broker.ts\<close>): a gate, its resolution, its persisted record, the
  in-memory store and the interface that the broker relies on. Times are texts that the callers
  pass; a gate store copies records on the way in and out, which needs no counterpart for values.
\<close>

section \<open>Gates\<close>

record workflow_gate =
  wf_gate_id :: string
  wf_stage :: string
  wf_kind :: string
  wf_schema :: json
  wf_schema_hash :: string
  wf_options :: "gate_option list option"
  wf_context :: gate_context
  wf_created_at :: string
  wf_runtime_turn_id :: "string option"

datatype gate_reason =
    OrphanedAfterRestart | UnadvancedAfterRestart | ContinuationOwnerLost | OpenedWithoutContinuation
  | FinalizationFailed | AdvanceFailed

record gate_lifecycle =
  lc_reason :: gate_reason
  lc_quarantinedAt :: string
  lc_supersededBy :: "string option"

datatype resolution_status = RAccepted | RRejected

record gate_resolution =
  rs_gate_id :: string
  rs_status :: resolution_status
  rs_answer_hash :: string
  rs_resolved_at :: string
  rs_error :: "gate_validation_error option"

record gate_response =
  wr_gate_id :: string
  wr_answer :: json
  wr_idempotency_key :: "string option"

datatype resolution_origin = OriginGeneric string | OriginTelegram string

datatype ack_policy = AckNone string | AckTelegram string string string "json option" string

datatype terminal_proof = Retired | AlreadyTerminal | NotPublished

section \<open>Persisted records\<close>

datatype gate_status = GPending | GAccepted | GQuarantined

record persisted_gate =
  pg_gate :: workflow_gate
  pg_status :: gate_status
  pg_owner :: "string option"
  pg_key :: "string option"
  pg_responseHash :: "string option"
  pg_answer :: "json option"
  pg_resolution :: "gate_resolution option"
  pg_advanced :: bool
  pg_terminalized :: "bool option"
  pg_terminalProof :: "terminal_proof option"
  pg_disposition :: "disposition option"
  pg_origin :: "resolution_origin option"
  pg_ack :: "ack_policy option"
  pg_lifecycle :: "gate_lifecycle option"

abbreviation pg_id :: "persisted_gate \<Rightarrow> string" where
  "pg_id r \<equiv> wf_gate_id (pg_gate r)"

definition blank_record :: "workflow_gate \<Rightarrow> string \<Rightarrow> gate_status \<Rightarrow> persisted_gate" where
  "blank_record gate owner st = \<lparr>pg_gate = gate, pg_status = st, pg_owner = Some owner, pg_key = None, pg_responseHash = None,
     pg_answer = None, pg_resolution = None, pg_advanced = False, pg_terminalized = None, pg_terminalProof = None,
     pg_disposition = None, pg_origin = None, pg_ack = None, pg_lifecycle = None\<rparr>"

definition quarantined_now :: "gate_reason \<Rightarrow> string \<Rightarrow> gate_lifecycle" where
  "quarantined_now why now = \<lparr>lc_reason = why, lc_quarantinedAt = now, lc_supersededBy = None\<rparr>"

section \<open>The in-memory store\<close>

record memory_store =
  ms_counters :: "(string, nat) js_map"
  ms_gates :: "(string, persisted_gate) js_map"
  ms_runtime :: "string option"

definition memory_store0 :: memory_store where
  "memory_store0 = \<lparr>ms_counters = [], ms_gates = [], ms_runtime = None\<rparr>"

definition counter :: "memory_store \<Rightarrow> string \<Rightarrow> nat" where
  "counter s stage = (case map_get (ms_counters s) stage of None \<Rightarrow> 0 | Some n \<Rightarrow> n)"

definition nextSeq :: "string \<Rightarrow> memory_store \<Rightarrow> nat \<times> memory_store" where
  "nextSeq stage s = (let n = counter s stage + 1 in (n, s\<lparr>ms_counters := map_set stage n (ms_counters s)\<rparr>))"

definition put :: "persisted_gate \<Rightarrow> memory_store \<Rightarrow> memory_store" where
  "put r s = s\<lparr>ms_gates := map_set (pg_id r) r (ms_gates s)\<rparr>"

definition get :: "memory_store \<Rightarrow> string \<Rightarrow> persisted_gate option" where
  "get s gateId = map_get (ms_gates s) gateId"

text \<open>What a restart does to one record of the prior instance.\<close>

definition quarantine_prior :: "string option \<Rightarrow> string \<Rightarrow> persisted_gate \<Rightarrow> persisted_gate" where
  "quarantine_prior prior now r =
     (if pg_owner r \<noteq> prior then r
      else if pg_status r = GPending
        then r\<lparr>pg_status := GQuarantined, pg_lifecycle := Some (quarantined_now OrphanedAfterRestart now)\<rparr>
      else if pg_status r = GAccepted \<and> \<not> pg_advanced r
        then r\<lparr>pg_status := GQuarantined, pg_lifecycle := Some (quarantined_now UnadvancedAfterRestart now)\<rparr>
      else r)"

definition beginRuntimeInstance :: "string \<Rightarrow> string \<Rightarrow> memory_store \<Rightarrow> memory_store" where
  "beginRuntimeInstance instanceId now s =
     (if ms_runtime s = Some instanceId then s
      else s\<lparr>ms_gates := map (\<lambda>gr. (fst gr, quarantine_prior (ms_runtime s) now (snd gr))) (ms_gates s),
             ms_runtime := Some instanceId\<rparr>)"

definition list_gates :: "memory_store \<Rightarrow> persisted_gate list" where
  "list_gates s = map snd (ms_gates s)"

lemma quarantine_prior_keeps [simp]:
  "pg_gate (quarantine_prior prior now r) = pg_gate r" "pg_owner (quarantine_prior prior now r) = pg_owner r"
  "pg_answer (quarantine_prior prior now r) = pg_answer r" "pg_advanced (quarantine_prior prior now r) = pg_advanced r"
  "pg_key (quarantine_prior prior now r) = pg_key r" "pg_responseHash (quarantine_prior prior now r) = pg_responseHash r"
  "pg_resolution (quarantine_prior prior now r) = pg_resolution r"
  "pg_terminalized (quarantine_prior prior now r) = pg_terminalized r"
  "pg_terminalProof (quarantine_prior prior now r) = pg_terminalProof r"
  by (simp_all add: quarantine_prior_def)

lemma quarantine_prior_retires:
  assumes "pg_owner r = prior"
  shows "pg_status (quarantine_prior prior now r) = GQuarantined \<or>
    (pg_status (quarantine_prior prior now r) = GAccepted \<and> pg_advanced r)"
  using assms by (cases "pg_status r") (simp_all add: quarantine_prior_def)

section \<open>The interface of a store\<close>

text \<open>
  What the broker relies on: a record is found under its id after it was put and nothing else
  changes, sequence numbers of a stage grow strictly and touch no record, and a restart rewrites each
  record on its own.
\<close>

locale gate_store =
  fixes lookup :: "'s \<Rightarrow> string \<Rightarrow> persisted_gate option"
    and store :: "persisted_gate \<Rightarrow> 's \<Rightarrow> 's"
    and seq :: "string \<Rightarrow> 's \<Rightarrow> nat \<times> 's"
    and begin_instance :: "string \<Rightarrow> string \<Rightarrow> 's \<Rightarrow> 's"
    and last_seq :: "'s \<Rightarrow> string \<Rightarrow> nat"
    and owner_of :: "'s \<Rightarrow> string option"
  assumes lookup_store: "lookup (store r s) g = (if g = pg_id r then Some r else lookup s g)"
    and last_seq_store: "last_seq (store r s) = last_seq s"
    and owner_store: "owner_of (store r s) = owner_of s"
    and seq_next: "fst (seq st s) = last_seq s st + 1"
    and last_seq_seq: "last_seq (snd (seq st s)) = (last_seq s)(st := fst (seq st s))"
    and lookup_seq: "lookup (snd (seq st s)) = lookup s"
    and owner_seq: "owner_of (snd (seq st s)) = owner_of s"
    and lookup_begin: "owner_of s \<noteq> Some i \<Longrightarrow>
      lookup (begin_instance i now s) g = map_option (quarantine_prior (owner_of s) now) (lookup s g)"
    and last_seq_begin: "last_seq (begin_instance i now s) = last_seq s"
    and owner_begin: "owner_of (begin_instance i now s) = Some i"
begin

lemma seq_fresh: "n \<le> last_seq s st \<Longrightarrow> n < fst (seq st s)"
  by (simp add: seq_next)

lemma seq_covers: "n \<le> last_seq s st' \<Longrightarrow> n \<le> last_seq (snd (seq st s)) st'"
  by (auto simp: last_seq_seq seq_next)

text \<open>A change of one record leaves every other record alone.\<close>

lemma lookup_store_other: "g \<noteq> pg_id r \<Longrightarrow> lookup (store r s) g = lookup s g"
  by (simp add: lookup_store)

text \<open>A restart leaves nothing of the prior instance answerable or advanceable.\<close>

lemma begin_retires:
  assumes "owner_of s \<noteq> Some i" "lookup (begin_instance i now s) g = Some r" "pg_owner r = owner_of s"
  shows "pg_status r = GQuarantined \<or> (pg_status r = GAccepted \<and> pg_advanced r)"
proof -
  obtain q where "r = quarantine_prior (owner_of s) now q" "pg_owner q = owner_of s"
    using assms by (auto simp: lookup_begin)
  then show ?thesis using quarantine_prior_retires [of q "owner_of s" now] by simp
qed

end

lemma map_of_map_snd: "map_of (map (\<lambda>kv. (fst kv, f (snd kv))) m) k = map_option f (map_of m k)"
  by (induction m) auto

interpretation ms: gate_store get put nextSeq beginRuntimeInstance counter ms_runtime
  by unfold_locales
    (auto simp: get_def put_def nextSeq_def counter_def Let_def beginRuntimeInstance_def map_of_map_snd fun_eq_iff
      split: option.splits)

end
