(* ===== verification/Gate_Broker.thy ===== *)
theory Gate_Broker
  imports Gate_Store
begin

text \<open>
  The workflow gate broker (\<open>agent-wire/workflow-gate-broker.ts\<close>, class
  \<open>WorkflowGateBroker\<close>) over the in-memory store. Code between two suspension points runs
  without interruption, so \<open>resolve\<close> and the body of \<open>recover\<close> are cut at their
  \<open>await\<close>s: a task in flight for a gate is the holder of the gate's lock, its phase says which
  \<open>await\<close> it is suspended in, and each continuation is an operation whose argument is the
  outcome of the awaited hook. Between two of them every other operation may run. The hooks are
  logged: \<open>bk_emitted\<close>, \<open>bk_audit\<close>, \<open>bk_advances\<close> and
  \<open>bk_completions\<close> hold the calls, \<open>bk_returned\<close> what each \<open>resolve\<close> returned
  or threw. The time is an argument. \<open>bk_live\<close> holds the gates for which the owner of the
  continuation answers \<open>isLive\<close> with true.
\<close>

section \<open>State\<close>

datatype broker_error =
    UnknownGate | AlreadyResolved | IdempotencyConflict | InvalidStage | InvalidTurn
  | SchemaRefused string | AnswerRefused ask_gate_error | NoProof | HookThrew

datatype gate_audit =
    AuditEmitted string string string
  | AuditAccepted string string
  | AuditRejected string string
  | AuditReplay string
  | AuditConflict string
  | AuditAlreadyResolved string
  | AuditUnknown string
  | AuditRecovered string

text \<open>The continuation of a gate; \<open>ct_not_published\<close> is \<open>terminalProof === "not_published"\<close>.\<close>

record gate_continuation =
  ct_not_published :: bool

record resolution_options =
  ro_disposition :: "disposition option"
  ro_origin :: "resolution_origin option"
  ro_ack :: "ack_policy option"

datatype task_phase = PBefore | PFinalize | PTerminalize | PTerminalized | PAdvance | PComplete

text \<open>A task is a call of \<open>resolve\<close>, with the resolution it will return, or of \<open>recover\<close>.\<close>

datatype gate_task = Resolving gate_resolution task_phase | Recovering task_phase

fun phase :: "gate_task \<Rightarrow> task_phase" where
  "phase (Resolving rs p) = p"
| "phase (Recovering p) = p"

fun at_phase :: "task_phase \<Rightarrow> gate_task \<Rightarrow> gate_task" where
  "at_phase p (Resolving rs _) = Resolving rs p"
| "at_phase p (Recovering _) = Recovering p"

record gate_broker =
  bk_store :: memory_store
  bk_instance :: string
  bk_continuations :: "(string, gate_continuation) js_map"
  bk_proofs :: "(string, terminal_proof) js_map"
  bk_recovering :: "string list"
  bk_tasks :: "(string, gate_task) js_map"
  bk_live :: "string list"
  bk_cache :: "(string, json) js_map"
  bk_emitted :: "string list"
  bk_audit :: "gate_audit list"
  bk_advances :: "(string \<times> json option) list"
  bk_completions :: "(string \<times> json option) list"
  bk_returned :: "(string \<times> (broker_error + gate_resolution)) list"

text \<open>The parameters of a broker: its run, the library functions, and whether \<open>advance\<close> is set.\<close>

record broker_config =
  bc_runId :: string
  bc_sha :: "string \<Rightarrow> string"
  bc_rx :: "string \<Rightarrow> string \<Rightarrow> bool"
  bc_rx_error :: "string \<Rightarrow> string option"
  bc_isDI :: "string \<Rightarrow> bool"
  bc_advance :: bool

abbreviation gate :: "gate_broker \<Rightarrow> string \<Rightarrow> persisted_gate option" where
  "gate b g \<equiv> get (bk_store b) g"

definition save :: "persisted_gate \<Rightarrow> gate_broker \<Rightarrow> gate_broker" where
  "save r b = b\<lparr>bk_store := put r (bk_store b)\<rparr>"

definition audit :: "gate_audit \<Rightarrow> gate_broker \<Rightarrow> gate_broker" where
  "audit e b = b\<lparr>bk_audit := bk_audit b @ [e]\<rparr>"

definition returns :: "string \<Rightarrow> broker_error + gate_resolution \<Rightarrow> gate_broker \<Rightarrow> gate_broker" where
  "returns g res b = b\<lparr>bk_returned := bk_returned b @ [(g, res)]\<rparr>"

definition hasLiveContinuation :: "gate_broker \<Rightarrow> string \<Rightarrow> bool" where
  "hasLiveContinuation b g \<longleftrightarrow> map_get (bk_continuations b) g \<noteq> None \<and> g \<in> set (bk_live b)"

text \<open>The constructor: a new runtime instance over an existing store.\<close>

definition new_broker :: "memory_store \<Rightarrow> string \<Rightarrow> string \<Rightarrow> gate_broker" where
  "new_broker s instanceId now = \<lparr>bk_store = beginRuntimeInstance instanceId now s, bk_instance = instanceId,
     bk_continuations = [], bk_proofs = [], bk_recovering = [], bk_tasks = [], bk_live = [], bk_cache = [],
     bk_emitted = [], bk_audit = [], bk_advances = [], bk_completions = [], bk_returned = []\<rparr>"

text \<open>A restart of the process: the store survives, and so do the calls that were logged.\<close>

definition restart :: "string \<Rightarrow> string \<Rightarrow> gate_broker \<Rightarrow> gate_broker" where
  "restart instanceId now b = (new_broker (bk_store b) instanceId now)\<lparr>bk_emitted := bk_emitted b, bk_audit := bk_audit b,
     bk_advances := bk_advances b, bk_completions := bk_completions b, bk_returned := bk_returned b\<rparr>"

section \<open>Opening a gate\<close>

definition is_alnum :: "char \<Rightarrow> bool" where
  "is_alnum c \<longleftrightarrow> is_word_char c \<and> c \<noteq> CHR ''_''"

definition runShort :: "string \<Rightarrow> string" where
  "runShort runId = (let s = filter is_alnum runId; t = drop (length s - 8) s in if t = [] then ''run'' else t)"

definition pad6 :: "nat \<Rightarrow> string" where
  "pad6 n = (let s = nat_str n in replicate (6 - length s) CHR ''0'' @ s)"

definition gate_id_of :: "broker_config \<Rightarrow> string \<Rightarrow> nat \<Rightarrow> string" where
  "gate_id_of cfg stage n = ''wg_'' @ runShort (bc_runId cfg) @ ''_'' @ stage @ ''_'' @ pad6 n"

definition build_gate :: "broker_config \<Rightarrow> open_gate_input \<Rightarrow> nat \<Rightarrow> string \<Rightarrow> workflow_gate" where
  "build_gate cfg inp n now = \<lparr>wf_gate_id = gate_id_of cfg (og_stage inp) n, wf_stage = og_stage inp, wf_kind = og_kind inp,
     wf_schema = og_schema inp, wf_schema_hash = schemaHash (bc_sha cfg) (og_schema inp), wf_options = og_options inp,
     wf_context = (case og_context inp of None \<Rightarrow> empty_context | Some c \<Rightarrow> c), wf_created_at = now,
     wf_runtime_turn_id = og_runtimeTurnId inp\<rparr>"

definition mark_superseded :: "string \<Rightarrow> string option \<Rightarrow> gate_broker \<Rightarrow> gate_broker" where
  "mark_superseded g old b =
     (case old of None \<Rightarrow> b
      | Some i \<Rightarrow>
          (case gate b i of None \<Rightarrow> b
           | Some r \<Rightarrow>
               (case pg_lifecycle r of None \<Rightarrow> b
                | Some l \<Rightarrow> if i \<noteq> [] \<and> pg_status r = GQuarantined
                    then save (r\<lparr>pg_lifecycle := Some (l\<lparr>lc_supersededBy := Some g\<rparr>)\<rparr>) b else b)))"

definition install_gate :: "workflow_gate \<Rightarrow> open_gate_input \<Rightarrow> gate_continuation option \<Rightarrow> string \<Rightarrow> gate_broker \<Rightarrow> gate_broker" where
  "install_gate gt inp cont now b =
     (let g = wf_gate_id gt
      in case cont of
        None \<Rightarrow> save ((blank_record gt (bk_instance b) GQuarantined)\<lparr>pg_lifecycle := Some (quarantined_now OpenedWithoutContinuation now)\<rparr>) b
      | Some c \<Rightarrow>
          (let b1 = save (blank_record gt (bk_instance b) GPending) b;
               b2 = b1\<lparr>bk_live := List.insert g (bk_live b1),
                       bk_proofs := (if ct_not_published c then map_set g NotPublished (bk_proofs b1) else bk_proofs b1),
                       bk_continuations := map_set g c (bk_continuations b1)\<rparr>;
               b3 = mark_superseded g (og_supersedes inp) b2
           in audit (AuditEmitted g (wf_stage gt) (wf_kind gt)) (b3\<lparr>bk_emitted := bk_emitted b3 @ [g]\<rparr>)))"

definition openGate ::
  "broker_config \<Rightarrow> open_gate_input \<Rightarrow> gate_continuation option \<Rightarrow> string \<Rightarrow> gate_broker \<Rightarrow> (broker_error + workflow_gate) \<times> gate_broker" where
  "openGate cfg inp cont now b =
     (if og_stage inp \<in> set RESERVED_WORKFLOW_STAGES \<or> og_stage inp \<notin> set WORKFLOW_GATE_V1_STAGES then (Inl InvalidStage, b)
      else if og_runtimeTurnId inp = Some [] then (Inl InvalidTurn, b)
      else case compileGateSchema (bc_sha cfg) (bc_rx_error cfg) (og_schema inp) (bk_cache b) of
        Inl m \<Rightarrow> (Inl (SchemaRefused m), b)
      | Inr (c, cache) \<Rightarrow>
          (let (n, s) = nextSeq (og_stage inp) (bk_store b); gt = build_gate cfg inp n now
           in (Inr gt, install_gate gt inp cont now (b\<lparr>bk_cache := cache, bk_store := s\<rparr>))))"

section \<open>Accepting an answer\<close>

definition bodyHash :: "broker_config \<Rightarrow> string \<Rightarrow> json \<Rightarrow> string" where
  "bodyHash cfg g answer = answerHashOf (bc_sha cfg) (JObj [(''gate_id'', JStr g), (''answer'', answer)])"

definition same_key :: "persisted_gate \<Rightarrow> gate_response \<Rightarrow> bool" where
  "same_key r resp \<longleftrightarrow> wr_idempotency_key resp \<noteq> None \<and> pg_key r = wr_idempotency_key resp"

text \<open>
  A response for a gate that is accepted already. The record of an accepted gate always has a
  resolution, so the replay always returns one.
\<close>

definition answer_again :: "broker_config \<Rightarrow> gate_response \<Rightarrow> persisted_gate \<Rightarrow> gate_broker \<Rightarrow> gate_broker" where
  "answer_again cfg resp r b =
     (let g = wr_gate_id resp; sameBody = (pg_responseHash r = Some (bodyHash cfg (wr_gate_id resp) (wr_answer resp)))
      in if same_key r resp \<and> sameBody
         then (case pg_resolution r of
             Some rs \<Rightarrow> returns g (Inr rs) (audit (AuditReplay g) b) | None \<Rightarrow> audit (AuditReplay g) b)
         else if same_key r resp then returns g (Inl IdempotencyConflict) (audit (AuditConflict g) b)
         else returns g (Inl AlreadyResolved) (audit (AuditAlreadyResolved g) b))"

definition resolution_of ::
  "broker_config \<Rightarrow> gate_response \<Rightarrow> resolution_status \<Rightarrow> gate_validation_error option \<Rightarrow> string \<Rightarrow> gate_resolution" where
  "resolution_of cfg resp st err now = \<lparr>rs_gate_id = wr_gate_id resp, rs_status = st,
     rs_answer_hash = answerHashOf (bc_sha cfg) (wr_answer resp), rs_resolved_at = now, rs_error = err\<rparr>"

definition accepted_record ::
  "broker_config \<Rightarrow> gate_response \<Rightarrow> resolution_options \<Rightarrow> disposition \<Rightarrow> string \<Rightarrow> persisted_gate \<Rightarrow> persisted_gate" where
  "accepted_record cfg resp opts d now r = \<lparr>pg_gate = pg_gate r, pg_status = GAccepted, pg_owner = pg_owner r,
     pg_key = wr_idempotency_key resp, pg_responseHash = Some (bodyHash cfg (wr_gate_id resp) (wr_answer resp)), pg_answer = Some (wr_answer resp),
     pg_resolution = Some (resolution_of cfg resp RAccepted None now), pg_advanced = False, pg_terminalized = Some False,
     pg_terminalProof = None, pg_disposition = Some d,
     pg_origin = Some (case ro_origin opts of Some og \<Rightarrow> og | None \<Rightarrow> OriginGeneric ''sdk''),
     pg_ack = Some (case ro_ack opts of Some p \<Rightarrow> p
       | None \<Rightarrow> AckNone (if d = Commit then ''non_telegram'' else ''semantic_noncommit'')),
     pg_lifecycle = None\<rparr>"

text \<open>A response for a live pending gate.\<close>

definition answer_pending ::
  "broker_config \<Rightarrow> gate_response \<Rightarrow> resolution_options \<Rightarrow> string \<Rightarrow> persisted_gate \<Rightarrow> gate_broker \<Rightarrow> gate_broker" where
  "answer_pending cfg resp opts now r b =
     (let g = wr_gate_id resp; hash = answerHashOf (bc_sha cfg) (wr_answer resp)
      in case compileGateSchema (bc_sha cfg) (bc_rx_error cfg) (wf_schema (pg_gate r)) (bk_cache b) of
        Inl m \<Rightarrow> returns g (Inl (SchemaRefused m)) b
      | Inr (c, cache) \<Rightarrow>
          (let b1 = b\<lparr>bk_cache := cache\<rparr>
           in case validateGateAnswer (bc_rx cfg) c g (wr_answer resp) of
             Some err \<Rightarrow> returns g (Inr (resolution_of cfg resp RRejected (Some err) now)) (audit (AuditRejected g hash) b1)
           | None \<Rightarrow>
               (case (case ro_disposition opts of Some d \<Rightarrow> Inr d
                      | None \<Rightarrow> classifyAskGateDisposition (bc_isDI cfg) (wf_context (pg_gate r)) (wf_options (pg_gate r)) (wr_answer resp)) of
                  Inl e \<Rightarrow> returns g (Inl (AnswerRefused e)) b1
                | Inr d \<Rightarrow>
                    (let b2 = audit (AuditAccepted g hash) (save (accepted_record cfg resp opts d now r) b1)
                     in b2\<lparr>bk_tasks := map_set g (Resolving (resolution_of cfg resp RAccepted None now) PBefore) (bk_tasks b2)\<rparr>))))"

definition resolveUnlocked ::
  "broker_config \<Rightarrow> gate_response \<Rightarrow> resolution_options \<Rightarrow> string \<Rightarrow> gate_broker \<Rightarrow> gate_broker" where
  "resolveUnlocked cfg resp opts now b =
     (let g = wr_gate_id resp; unknown = returns g (Inl UnknownGate) (audit (AuditUnknown g) b)
      in case gate b g of None \<Rightarrow> unknown
         | Some r \<Rightarrow>
             (if pg_status r = GQuarantined then unknown
              else if pg_status r = GAccepted then answer_again cfg resp r b
              else if pg_owner r \<noteq> Some (bk_instance b) \<or> \<not> hasLiveContinuation b g then unknown
              else answer_pending cfg resp opts now r b))"

section \<open>From acceptance to completion\<close>

text \<open>The task of the gate ends, with what a call of \<open>resolve\<close> returns or throws.\<close>

definition end_task :: "string \<Rightarrow> broker_error + gate_resolution \<Rightarrow> gate_broker \<Rightarrow> gate_broker" where
  "end_task g res b =
     (let b1 = b\<lparr>bk_tasks := map_delete g (bk_tasks b)\<rparr>
      in case map_get (bk_tasks b) g of
        Some (Resolving rs p) \<Rightarrow> returns g res b1
      | _ \<Rightarrow> b1\<lparr>bk_recovering := removeAll g (bk_recovering b1)\<rparr>)"

definition to_phase :: "string \<Rightarrow> task_phase \<Rightarrow> gate_broker \<Rightarrow> gate_broker" where
  "to_phase g p b = (case map_get (bk_tasks b) g of None \<Rightarrow> b
     | Some t \<Rightarrow> b\<lparr>bk_tasks := map_set g (at_phase p t) (bk_tasks b)\<rparr>)"

text \<open>
  The guards of the two bodies differ in one way: where \<open>resolve\<close> throws, \<open>recover\<close>
  returns; the error is reported for calls of \<open>resolve\<close> only.
\<close>

definition startAdvance :: "broker_config \<Rightarrow> string \<Rightarrow> gate_broker \<Rightarrow> gate_broker" where
  "startAdvance cfg g b =
     (case gate b g of None \<Rightarrow> end_task g (Inl UnknownGate) b
      | Some r \<Rightarrow>
          (if pg_status r \<noteq> GAccepted \<or> pg_advanced r \<or> \<not> bc_advance cfg \<or> \<not> hasLiveContinuation b g
           then end_task g (Inl UnknownGate) b
           else to_phase g PAdvance (b\<lparr>bk_advances := bk_advances b @ [(g, pg_answer r)]\<rparr>)))"

text \<open>The part of \<open>#terminalize\<close> after the proof is known.\<close>

definition recordProof :: "string \<Rightarrow> terminal_proof option \<Rightarrow> gate_broker \<Rightarrow> gate_broker" where
  "recordProof g proof b =
     (let b1 = b\<lparr>bk_proofs := map_delete g (bk_proofs b)\<rparr>
      in case proof of None \<Rightarrow> end_task g (Inl NoProof) b1
         | Some p \<Rightarrow>
             (case gate b1 g of None \<Rightarrow> end_task g (Inl UnknownGate) b1
              | Some r \<Rightarrow>
                  (if pg_status r \<noteq> GAccepted \<or> pg_advanced r then end_task g (Inl UnknownGate) b1
                   else to_phase g PTerminalized (save (r\<lparr>pg_terminalized := Some True, pg_terminalProof := Some p\<rparr>) b1))))"

definition startTerminalize :: "string \<Rightarrow> gate_broker \<Rightarrow> gate_broker" where
  "startTerminalize g b =
     (case map_get (bk_proofs b) g of Some p \<Rightarrow> recordProof g (Some p) b | None \<Rightarrow> to_phase g PTerminalize b)"

definition afterBefore :: "string \<Rightarrow> bool \<Rightarrow> gate_broker \<Rightarrow> gate_broker" where
  "afterBefore g ok b = (if ok then to_phase g PFinalize b else end_task g (Inl HookThrew) b)"

definition is_recovering :: "string \<Rightarrow> gate_broker \<Rightarrow> bool" where
  "is_recovering g b = (case map_get (bk_tasks b) g of Some (Recovering p) \<Rightarrow> True | _ \<Rightarrow> False)"

text \<open>\<open>finalized.resolution ?? resolution\<close>; the second is the one of the task.\<close>

definition final_resolution :: "string \<Rightarrow> persisted_gate \<Rightarrow> gate_broker \<Rightarrow> broker_error + gate_resolution" where
  "final_resolution g r b = (case map_get (bk_tasks b) g of
     Some (Resolving rs p) \<Rightarrow> Inr (case pg_resolution r of Some rs' \<Rightarrow> rs' | None \<Rightarrow> rs) | _ \<Rightarrow> Inl UnknownGate)"

definition afterFinalize :: "broker_config \<Rightarrow> string \<Rightarrow> bool \<Rightarrow> gate_broker \<Rightarrow> gate_broker" where
  "afterFinalize cfg g ok b =
     (if \<not> ok then end_task g (Inl HookThrew) b
      else case gate b g of None \<Rightarrow> end_task g (Inl UnknownGate) b
        | Some r \<Rightarrow>
            (if pg_status r \<noteq> GAccepted then end_task g (Inl UnknownGate) b
             else if pg_advanced r then end_task g (final_resolution g r b) b
             else if is_recovering g b \<and> \<not> hasLiveContinuation b g then end_task g (Inl UnknownGate) b
             else if pg_terminalized r \<noteq> Some True then startTerminalize g b
             else startAdvance cfg g b))"

datatype hook_proof = ProofThrew | ProofGiven "terminal_proof option"

definition afterTerminalize :: "string \<Rightarrow> hook_proof \<Rightarrow> gate_broker \<Rightarrow> gate_broker" where
  "afterTerminalize g hp b = (case hp of ProofThrew \<Rightarrow> end_task g (Inl HookThrew) b | ProofGiven p \<Rightarrow> recordProof g p b)"

definition afterAdvance :: "string \<Rightarrow> bool \<Rightarrow> gate_broker \<Rightarrow> gate_broker" where
  "afterAdvance g ok b =
     (if \<not> ok then end_task g (Inl HookThrew) b
      else case gate b g of None \<Rightarrow> end_task g (Inl UnknownGate) b
        | Some r \<Rightarrow>
            (if pg_status r \<noteq> GAccepted \<or> (is_recovering g b \<and> pg_advanced r) \<or> \<not> hasLiveContinuation b g
             then end_task g (Inl UnknownGate) b
             else (let b1 = save (r\<lparr>pg_advanced := True\<rparr>) b
                   in to_phase g PComplete (b1\<lparr>bk_completions := bk_completions b1 @ [(g, pg_answer r)]\<rparr>))))"

definition afterComplete :: "string \<Rightarrow> bool \<Rightarrow> gate_broker \<Rightarrow> gate_broker" where
  "afterComplete g ok b =
     (if \<not> ok then end_task g (Inl HookThrew) b
      else (let b1 = b\<lparr>bk_live := (if map_get (bk_continuations b) g = None then bk_live b else removeAll g (bk_live b)),
                       bk_continuations := map_delete g (bk_continuations b)\<rparr>
            in case map_get (bk_tasks b) g of
              Some (Resolving rs p) \<Rightarrow> end_task g (Inr rs) b1
            | _ \<Rightarrow> audit (AuditRecovered g) (end_task g (Inl UnknownGate) b1)))"

section \<open>Recovery\<close>

definition recoverable :: "gate_broker \<Rightarrow> string \<Rightarrow> bool" where
  "recoverable b g = (case gate b g of None \<Rightarrow> False
     | Some r \<Rightarrow> pg_status r = GAccepted \<and> \<not> pg_advanced r \<and> pg_owner r = Some (bk_instance b) \<and> hasLiveContinuation b g)"

definition hasRecoverableAcceptedGate :: "gate_broker \<Rightarrow> bool" where
  "hasRecoverableAcceptedGate b = list_ex (recoverable b) (map pg_id (list_gates (bk_store b)))"

text \<open>The loop of \<open>recover\<close> selects a gate, then waits for the lock of the gate.\<close>

definition selectRecovery :: "string \<Rightarrow> gate_broker \<Rightarrow> gate_broker" where
  "selectRecovery g b =
     (if recoverable b g \<and> g \<notin> set (bk_recovering b) then b\<lparr>bk_recovering := g # bk_recovering b\<rparr> else b)"

definition startRecovery :: "string \<Rightarrow> gate_broker \<Rightarrow> gate_broker" where
  "startRecovery g b =
     (case gate b g of
        Some r \<Rightarrow> if pg_status r = GAccepted \<and> \<not> pg_advanced r
          then b\<lparr>bk_tasks := map_set g (Recovering PFinalize) (bk_tasks b)\<rparr>
          else b\<lparr>bk_recovering := removeAll g (bk_recovering b)\<rparr>
      | None \<Rightarrow> b\<lparr>bk_recovering := removeAll g (bk_recovering b)\<rparr>)"

section \<open>Listings\<close>

text \<open>\<open>localeCompare\<close> is the parameter \<open>lc\<close>; the sort is stable.\<close>

fun insert_before :: "('a \<Rightarrow> 'a \<Rightarrow> int) \<Rightarrow> 'a \<Rightarrow> 'a list \<Rightarrow> 'a list" where
  "insert_before cmp x [] = [x]"
| "insert_before cmp x (y # ys) = (if cmp x y \<le> 0 then x # y # ys else y # insert_before cmp x ys)"

definition js_sort :: "('a \<Rightarrow> 'a \<Rightarrow> int) \<Rightarrow> 'a list \<Rightarrow> 'a list" where
  "js_sort cmp xs = foldr (insert_before cmp) xs []"

definition compareGates :: "(string \<Rightarrow> string \<Rightarrow> int) \<Rightarrow> persisted_gate \<Rightarrow> persisted_gate \<Rightarrow> int" where
  "compareGates lc l r = (let c = lc (wf_created_at (pg_gate l)) (wf_created_at (pg_gate r))
     in if c \<noteq> 0 then c else lc (pg_id l) (pg_id r))"

definition is_presentable :: "gate_broker \<Rightarrow> persisted_gate \<Rightarrow> bool" where
  "is_presentable b r \<longleftrightarrow> pg_status r = GPending \<and> pg_owner r = Some (bk_instance b) \<and> hasLiveContinuation b (pg_id r)"

definition pending_records :: "(string \<Rightarrow> string \<Rightarrow> int) \<Rightarrow> gate_broker \<Rightarrow> persisted_gate list" where
  "pending_records lc b = js_sort (compareGates lc) (filter (is_presentable b) (list_gates (bk_store b)))"

definition listPendingGates :: "(string \<Rightarrow> string \<Rightarrow> int) \<Rightarrow> gate_broker \<Rightarrow> workflow_gate list" where
  "listPendingGates lc b = map pg_gate (pending_records lc b)"

definition compareDiagnostics ::
  "(string \<Rightarrow> string \<Rightarrow> int) \<Rightarrow> persisted_gate \<times> gate_lifecycle \<Rightarrow> persisted_gate \<times> gate_lifecycle \<Rightarrow> int" where
  "compareDiagnostics lc l r = (let c = lc (lc_quarantinedAt (snd l)) (lc_quarantinedAt (snd r))
     in if c \<noteq> 0 then c else lc (pg_id (fst l)) (pg_id (fst r)))"

text \<open>A row of a listing: its id, its gate, and the life cycle of a diagnostic.\<close>

type_synonym gate_row = "string \<times> workflow_gate \<times> gate_lifecycle option"

definition listGateDiagnostics :: "(string \<Rightarrow> string \<Rightarrow> int) \<Rightarrow> gate_broker \<Rightarrow> gate_row list" where
  "listGateDiagnostics lc b =
     map (\<lambda>rl. (''diagnostic:'' @ pg_id (fst rl), pg_gate (fst rl), Some (snd rl)))
       (js_sort (compareDiagnostics lc)
         (concat (map (\<lambda>r. case pg_lifecycle r of Some l \<Rightarrow> if pg_status r = GQuarantined then [(r, l)] else [] | None \<Rightarrow> [])
            (list_gates (bk_store b)))))"

definition listWorkflowGateQueryRecords :: "(string \<Rightarrow> string \<Rightarrow> int) \<Rightarrow> gate_broker \<Rightarrow> gate_row list" where
  "listWorkflowGateQueryRecords lc b =
     map (\<lambda>r. (''pending:'' @ pg_id r, pg_gate r, None)) (pending_records lc b) @ listGateDiagnostics lc b"

section \<open>The other operations\<close>

definition loseContinuation :: "string \<Rightarrow> string \<Rightarrow> gate_broker \<Rightarrow> gate_broker" where
  "loseContinuation now g b =
     (let b1 = b\<lparr>bk_live := (if map_get (bk_continuations b) g = None then bk_live b else removeAll g (bk_live b)),
                 bk_continuations := map_delete g (bk_continuations b), bk_proofs := map_delete g (bk_proofs b)\<rparr>
      in case gate b1 g of None \<Rightarrow> b1
         | Some r \<Rightarrow>
             (if pg_owner r \<noteq> Some (bk_instance b1) \<or> pg_status r = GQuarantined \<or> (pg_status r = GAccepted \<and> pg_advanced r) then b1
              else save (r\<lparr>pg_status := GQuarantined, pg_advanced := False,
                          pg_lifecycle := Some (quarantined_now ContinuationOwnerLost now)\<rparr>) b1))"

definition quarantineGate :: "string \<Rightarrow> string \<Rightarrow> gate_broker \<Rightarrow> gate_broker" where
  "quarantineGate now g b = loseContinuation now g b"

definition fenceContinuations :: "string \<Rightarrow> gate_broker \<Rightarrow> gate_broker" where
  "fenceContinuations now b = foldl (\<lambda>s g. loseContinuation now g s) b (map fst (bk_continuations b))"

definition updateAckPolicy :: "string \<Rightarrow> ack_policy \<Rightarrow> gate_broker \<Rightarrow> broker_error + gate_broker" where
  "updateAckPolicy g policy b =
     (case gate b g of None \<Rightarrow> Inl UnknownGate
      | Some r \<Rightarrow> if pg_status r \<noteq> GAccepted then Inl UnknownGate else Inr (save (r\<lparr>pg_ack := Some policy\<rparr>) b))"

definition prepareTerminalization :: "string \<Rightarrow> terminal_proof \<Rightarrow> gate_broker \<Rightarrow> bool \<times> gate_broker" where
  "prepareTerminalization g proof b =
     (case gate b g of None \<Rightarrow> (False, b)
      | Some r \<Rightarrow>
          (if pg_status r \<noteq> GPending \<or> pg_owner r \<noteq> Some (bk_instance b) \<or> \<not> hasLiveContinuation b g then (False, b)
           else (True, b\<lparr>bk_proofs := map_set g proof (bk_proofs b)\<rparr>)))"

definition clearPreparedTerminalization :: "string \<Rightarrow> gate_broker \<Rightarrow> gate_broker" where
  "clearPreparedTerminalization g b = b\<lparr>bk_proofs := map_delete g (bk_proofs b)\<rparr>"

datatype completed_lookup = LookupNone | LookupCompleted gate_resolution | LookupIncomplete

definition lookupCompletedResolution :: "broker_config \<Rightarrow> gate_response \<Rightarrow> gate_broker \<Rightarrow> broker_error + completed_lookup" where
  "lookupCompletedResolution cfg resp b =
     (case gate b (wr_gate_id resp) of None \<Rightarrow> Inr LookupNone
      | Some r \<Rightarrow>
          (if pg_status r \<noteq> GAccepted \<and> pg_status r \<noteq> GQuarantined then Inr LookupNone
           else if pg_responseHash r = None then Inr LookupNone
           else (let sameBody = (pg_responseHash r = Some (bodyHash cfg (wr_gate_id resp) (wr_answer resp)))
                 in if same_key r resp \<and> \<not> sameBody then Inl IdempotencyConflict
                    else if same_key r resp \<and> sameBody
                      then (case pg_resolution r of
                          Some rs \<Rightarrow> if pg_terminalized r = Some True \<and> pg_advanced r then Inr (LookupCompleted rs) else Inr LookupIncomplete
                        | None \<Rightarrow> Inr LookupIncomplete)
                    else Inl AlreadyResolved)))"

definition classifyDisposition :: "broker_config \<Rightarrow> string \<Rightarrow> json \<Rightarrow> gate_broker \<Rightarrow> broker_error + disposition" where
  "classifyDisposition cfg g answer b =
     (case gate b g of None \<Rightarrow> Inl UnknownGate
      | Some r \<Rightarrow> (case classifyAskGateDisposition (bc_isDI cfg) (wf_context (pg_gate r)) (wf_options (pg_gate r)) answer of
          Inl e \<Rightarrow> Inl (AnswerRefused e) | Inr d \<Rightarrow> Inr d))"

definition validationError :: "broker_config \<Rightarrow> string \<Rightarrow> string \<Rightarrow> string \<Rightarrow> gate_broker \<Rightarrow> gate_validation_error" where
  "validationError cfg g kw message b = \<lparr>ge_gate_id = g,
     ge_schema_hash = (case gate b g of Some r \<Rightarrow> schemaHash (bc_sha cfg) (wf_schema (pg_gate r)) | None \<Rightarrow> []),
     ge_errors = [plain_error ''$'' kw message]\<rparr>"

section \<open>Steps\<close>

datatype gb_event =
    EOpen open_gate_input "gate_continuation option" string
  | EResolve gate_response resolution_options string
  | EBefore string bool
  | EFinalize string bool
  | ETerminalize string hook_proof
  | EResume string
  | EAdvance string bool
  | EComplete string bool
  | ESelect string
  | ERecover string
  | ELose string string
  | EFence string
  | EAck string ack_policy
  | EPrepare string terminal_proof
  | EClear string
  | EOwnerGone string
  | ERestart string string

definition in_phase :: "gate_broker \<Rightarrow> string \<Rightarrow> task_phase \<Rightarrow> bool" where
  "in_phase b g p \<longleftrightarrow> map_option phase (map_get (bk_tasks b) g) = Some p"

text \<open>
  One uninterrupted piece of code, if it is enabled: a call of \<open>resolve\<close> gets to its body when
  the lock of its gate is free, a continuation runs when its task is suspended there.
\<close>

fun gb_apply :: "broker_config \<Rightarrow> gb_event \<Rightarrow> gate_broker \<Rightarrow> gate_broker option" where
  "gb_apply cfg (EOpen inp cont now) b = Some (snd (openGate cfg inp cont now b))"
| "gb_apply cfg (EResolve resp opts now) b =
     (if map_get (bk_tasks b) (wr_gate_id resp) = None then Some (resolveUnlocked cfg resp opts now b) else None)"
| "gb_apply cfg (EBefore g ok) b = (if in_phase b g PBefore then Some (afterBefore g ok b) else None)"
| "gb_apply cfg (EFinalize g ok) b = (if in_phase b g PFinalize then Some (afterFinalize cfg g ok b) else None)"
| "gb_apply cfg (ETerminalize g hp) b = (if in_phase b g PTerminalize then Some (afterTerminalize g hp b) else None)"
| "gb_apply cfg (EResume g) b = (if in_phase b g PTerminalized then Some (startAdvance cfg g b) else None)"
| "gb_apply cfg (EAdvance g ok) b = (if in_phase b g PAdvance then Some (afterAdvance g ok b) else None)"
| "gb_apply cfg (EComplete g ok) b = (if in_phase b g PComplete then Some (afterComplete g ok b) else None)"
| "gb_apply cfg (ESelect g) b = Some (selectRecovery g b)"
| "gb_apply cfg (ERecover g) b =
     (if g \<in> set (bk_recovering b) \<and> map_get (bk_tasks b) g = None then Some (startRecovery g b) else None)"
| "gb_apply cfg (ELose now g) b = Some (loseContinuation now g b)"
| "gb_apply cfg (EFence now) b = Some (fenceContinuations now b)"
| "gb_apply cfg (EAck g policy) b = (case updateAckPolicy g policy b of Inl e \<Rightarrow> None | Inr b' \<Rightarrow> Some b')"
| "gb_apply cfg (EPrepare g proof) b = Some (snd (prepareTerminalization g proof b))"
| "gb_apply cfg (EClear g) b = Some (clearPreparedTerminalization g b)"
| "gb_apply cfg (EOwnerGone g) b = Some (b\<lparr>bk_live := removeAll g (bk_live b)\<rparr>)"
| "gb_apply cfg (ERestart i now) b = Some (restart i now b)"

definition gb_step :: "broker_config \<Rightarrow> gate_broker \<Rightarrow> gb_event \<Rightarrow> gate_broker \<Rightarrow> bool" where
  "gb_step cfg b e b' \<longleftrightarrow> gb_apply cfg e b = Some b'"

definition gb_init :: "gate_broker \<Rightarrow> bool" where
  "gb_init b \<longleftrightarrow> (\<exists>i now. b = new_broker memory_store0 i now)"

end
