(* ===== verification/Gate_Lifecycle.thy ===== *)
theory Gate_Lifecycle
  imports Gate_Broker
begin

text \<open>
  The life cycle of workflow gates: the invariant of the broker, what it promises, and the refinement
  of an abstract specification.
\<close>

section \<open>Gate ids\<close>

lemma pad6_inj: "pad6 m = pad6 n \<Longrightarrow> m = n"
  by (metis dec_val_nat_str dec_val_zeros pad6_def)

lemma stage_no_prefix:
  assumes "s \<in> set WORKFLOW_GATE_V1_STAGES" "t \<in> set WORKFLOW_GATE_V1_STAGES" "s @ ''_'' @ u = t @ ''_'' @ v"
  shows "s = t \<and> u = v"
  using assms by (auto simp: WORKFLOW_GATE_V1_STAGES_def)

lemma gate_id_inj:
  assumes "s \<in> set WORKFLOW_GATE_V1_STAGES" "t \<in> set WORKFLOW_GATE_V1_STAGES" "gate_id_of cfg s m = gate_id_of cfg t n"
  shows "s = t \<and> m = n"
  using assms stage_no_prefix [OF assms(1,2), of "pad6 m" "pad6 n"] pad6_inj by (simp add: gate_id_of_def)

section \<open>The invariant\<close>

text \<open>The part of a record that an acceptance writes.\<close>

definition unanswered :: "persisted_gate \<Rightarrow> bool" where
  "unanswered r \<longleftrightarrow> pg_answer r = None \<and> pg_key r = None \<and> pg_responseHash r = None \<and> pg_resolution r = None \<and>
     pg_terminalized r = None \<and> pg_terminalProof r = None \<and> pg_disposition r = None \<and> pg_origin r = None \<and> pg_ack r = None"

definition answered :: "broker_config \<Rightarrow> persisted_gate \<Rightarrow> json \<Rightarrow> gate_resolution \<Rightarrow> bool" where
  "answered cfg r a rs \<longleftrightarrow> pg_answer r = Some a \<and> pg_responseHash r = Some (bodyHash cfg (pg_id r) a) \<and>
     pg_resolution r = Some rs \<and> rs_gate_id rs = pg_id r \<and> rs_status rs = RAccepted \<and> rs_error rs = None \<and>
     rs_answer_hash rs = answerHashOf (bc_sha cfg) a \<and>
     pg_terminalized r \<noteq> None \<and> (pg_terminalized r = Some True \<longleftrightarrow> pg_terminalProof r \<noteq> None) \<and>
     (\<exists>c. schemaHash (bc_sha cfg) c = schemaHash (bc_sha cfg) (wf_schema (pg_gate r)) \<and> validate_compiled (bc_rx cfg) c a = [])"

definition record_ok :: "broker_config \<Rightarrow> persisted_gate \<Rightarrow> bool" where
  "record_ok cfg r \<longleftrightarrow> (case pg_status r of
       GPending \<Rightarrow> unanswered r \<and> \<not> pg_advanced r \<and> pg_lifecycle r = None
     | GAccepted \<Rightarrow> (\<exists>a rs. answered cfg r a rs) \<and> pg_lifecycle r = None \<and> (pg_advanced r \<longrightarrow> pg_terminalized r = Some True)
     | GQuarantined \<Rightarrow> (unanswered r \<or> (\<exists>a rs. answered cfg r a rs)) \<and> \<not> pg_advanced r \<and> pg_lifecycle r \<noteq> None)"

text \<open>A gate that may still be answered or advanced.\<close>

definition is_open :: "persisted_gate \<Rightarrow> bool" where
  "is_open r \<longleftrightarrow> pg_status r = GPending \<or> (pg_status r = GAccepted \<and> \<not> pg_advanced r)"

definition id_ok :: "broker_config \<Rightarrow> memory_store \<Rightarrow> persisted_gate \<Rightarrow> bool" where
  "id_ok cfg s r \<longleftrightarrow> wf_stage (pg_gate r) \<in> set WORKFLOW_GATE_V1_STAGES \<and>
     (\<exists>n. pg_id r = gate_id_of cfg (wf_stage (pg_gate r)) n \<and> n \<le> counter s (wf_stage (pg_gate r)))"

definition gate_ok :: "broker_config \<Rightarrow> gate_broker \<Rightarrow> string \<Rightarrow> persisted_gate \<Rightarrow> bool" where
  "gate_ok cfg b g r \<longleftrightarrow> pg_id r = g \<and> id_ok cfg (bk_store b) r \<and> record_ok cfg r \<and>
     (is_open r \<longrightarrow> pg_owner r = Some (bk_instance b)) \<and> (pg_advanced r \<longleftrightarrow> g \<in> fst ` set (bk_completions b)) \<and>
     (\<forall>a. (g, a) \<in> set (bk_completions b) \<union> set (bk_advances b) \<longrightarrow> a \<noteq> None \<and> pg_answer r = a)"

definition task_ok :: "gate_broker \<Rightarrow> string \<Rightarrow> persisted_gate \<Rightarrow> gate_task \<Rightarrow> bool" where
  "task_ok b g r t \<longleftrightarrow> pg_owner r = Some (bk_instance b) \<and> pg_answer r \<noteq> None \<and>
     (phase t = PComplete \<longleftrightarrow> pg_advanced r) \<and>
     (phase t \<in> {PTerminalized, PAdvance, PComplete} \<longrightarrow> pg_terminalized r = Some True) \<and>
     (phase t = PAdvance \<longrightarrow> (g, pg_answer r) \<in> set (bk_advances b)) \<and>
     (\<forall>rs p. t = Resolving rs p \<longrightarrow> pg_resolution r = Some rs)"

definition gb_ok :: "broker_config \<Rightarrow> gate_broker \<Rightarrow> bool" where
  "gb_ok cfg b \<longleftrightarrow> distinct (map fst (bk_completions b)) \<and> set (bk_completions b) \<subseteq> set (bk_advances b) \<and>
     (\<forall>ga\<in>set (bk_advances b). gate b (fst ga) \<noteq> None) \<and> ms_runtime (bk_store b) = Some (bk_instance b) \<and>
     (\<forall>h c. map_get (bk_cache b) h = Some c \<longrightarrow> schemaHash (bc_sha cfg) c = h) \<and>
     (\<forall>g r. gate b g = Some r \<longrightarrow> gate_ok cfg b g r) \<and>
     (\<forall>g t. map_get (bk_tasks b) g = Some t \<longrightarrow> (\<exists>r. gate b g = Some r \<and> task_ok b g r t))"

lemma answered_updates [simp]:
  "answered cfg (r\<lparr>pg_ack := x\<rparr>) = answered cfg r" "answered cfg (r\<lparr>pg_status := st\<rparr>) = answered cfg r"
  "answered cfg (r\<lparr>pg_advanced := d\<rparr>) = answered cfg r" "answered cfg (r\<lparr>pg_lifecycle := l\<rparr>) = answered cfg r"
  by (simp_all add: answered_def fun_eq_iff)

text \<open>Operations that touch nothing the invariant speaks of.\<close>

definition same_core :: "gate_broker \<Rightarrow> gate_broker \<Rightarrow> bool" where
  "same_core b b' \<longleftrightarrow> bk_store b' = bk_store b \<and> bk_instance b' = bk_instance b \<and> bk_completions b' = bk_completions b \<and>
     bk_advances b' = bk_advances b \<and> bk_cache b' = bk_cache b"

lemma same_core_gate: "same_core b b' \<Longrightarrow> gate_ok cfg b' g r = gate_ok cfg b g r" "same_core b b' \<Longrightarrow> task_ok b' g r t = task_ok b g r t"
  by (simp_all add: same_core_def gate_ok_def task_ok_def)

lemma gb_ok_same_core:
  assumes "gb_ok cfg b" "same_core b b'"
    and "\<And>g t. map_get (bk_tasks b') g = Some t \<Longrightarrow> \<exists>r. gate b g = Some r \<and> task_ok b g r t"
  shows "gb_ok cfg b'"
  using assms same_core_gate [OF assms(2)] unfolding gb_ok_def by (simp add: same_core_def)

lemma gb_okD:
  assumes "gb_ok cfg b"
  shows "gate b g = Some r \<Longrightarrow> gate_ok cfg b g r" "map_get (bk_tasks b) g = Some t \<Longrightarrow> \<exists>r. gate b g = Some r \<and> task_ok b g r t"
  using assms by (auto simp: gb_ok_def)

lemma gb_ok_frame: "gb_ok cfg b \<Longrightarrow> same_core b b' \<Longrightarrow> bk_tasks b' = bk_tasks b \<Longrightarrow> gb_ok cfg b'"
  using gb_ok_same_core [of cfg b b'] gb_okD(2) [of cfg b] by simp

text \<open>One record is rewritten.\<close>

lemma gb_ok_save:
  assumes "gb_ok cfg b" "gate b (pg_id r') = Some r" "pg_gate r' = pg_gate r" "pg_owner r' = pg_owner r" "record_ok cfg r'"
    and "is_open r' \<Longrightarrow> is_open r" "pg_answer r \<noteq> None \<Longrightarrow> pg_answer r' = pg_answer r" "pg_advanced r' = pg_advanced r"
    and "\<And>t. map_get (bk_tasks b) (pg_id r') = Some t \<Longrightarrow> task_ok b (pg_id r') r t \<Longrightarrow> task_ok b (pg_id r') r' t"
  shows "gb_ok cfg (save r' b)"
proof -
  have new: "gate_ok cfg b (pg_id r') r'"
    using gb_okD(1) [OF assms(1,2)] assms(3-8) by (auto simp: gate_ok_def id_ok_def)
  have counters: "counter (put r' (bk_store b)) = counter (bk_store b)" by (rule ms.last_seq_store)
  have core: "gate_ok cfg (save r' b) g q = gate_ok cfg b g q" "task_ok (save r' b) g q t = task_ok b g q t" for g q t
    by (simp_all add: save_def gate_ok_def id_ok_def task_ok_def counters)
  have look: "gate (save r' b) g = (if g = pg_id r' then Some r' else gate b g)" for g
    by (simp add: save_def ms.lookup_store)
  have "\<exists>q. gate (save r' b) g = Some q \<and> task_ok b g q t" if t: "map_get (bk_tasks b) g = Some t" for g t
    using gb_okD(2) [OF assms(1) t] assms(2,9) t by (auto simp: look)
  then show ?thesis
    using assms(1) new unfolding gb_ok_def core look
    by (simp add: save_def ms.owner_store ms.lookup_store)
qed

section \<open>Every operation keeps the invariant\<close>

lemma same_core_simps [simp]:
  "same_core b (audit e b)" "same_core b (returns g res b)" "same_core b (end_task g res b)" "same_core b (to_phase g p b)"
  by (auto simp: same_core_def audit_def returns_def end_task_def to_phase_def Let_def split: option.splits gate_task.splits)

lemma tasks_simps [simp]:
  "bk_tasks (audit e b) = bk_tasks b" "bk_tasks (returns g res b) = bk_tasks b" "bk_tasks (save r b) = bk_tasks b"
  "bk_tasks (end_task g res b) = map_delete g (bk_tasks b)"
  by (auto simp: audit_def returns_def save_def end_task_def Let_def split: option.splits gate_task.splits)

lemma gb_ok_audit [simp]: "gb_ok cfg b \<Longrightarrow> gb_ok cfg (audit e b)"
  and gb_ok_returns [simp]: "gb_ok cfg b \<Longrightarrow> gb_ok cfg (returns g res b)"
  and gb_ok_end_task [simp]: "gb_ok cfg b \<Longrightarrow> gb_ok cfg (end_task g res b)"
  by (rule gb_ok_same_core [of cfg b]; auto dest: gb_okD(2) split: if_splits)+

text \<open>Updates of the fields that hold no gate data.\<close>

lemma gb_ok_fields [simp]:
  "gb_ok cfg b \<Longrightarrow> gb_ok cfg (b\<lparr>bk_proofs := x\<rparr>)" "gb_ok cfg b \<Longrightarrow> gb_ok cfg (b\<lparr>bk_live := l\<rparr>)"
  "gb_ok cfg b \<Longrightarrow> gb_ok cfg (b\<lparr>bk_continuations := c\<rparr>)" "gb_ok cfg b \<Longrightarrow> gb_ok cfg (b\<lparr>bk_recovering := l\<rparr>)"
  "gb_ok cfg b \<Longrightarrow> gb_ok cfg (b\<lparr>bk_emitted := l\<rparr>)"
  by (erule gb_ok_frame; simp add: same_core_def)+

lemma gb_ok_task:
  assumes "gb_ok cfg b" "gate b g = Some r" "task_ok b g r t"
  shows "gb_ok cfg (b\<lparr>bk_tasks := map_set g t (bk_tasks b)\<rparr>)"
  using gb_okD(2) [OF assms(1)] assms(2,3) by (intro gb_ok_same_core [OF assms(1)]) (auto simp: same_core_def split: if_splits)

lemma gb_ok_to_phase:
  assumes "gb_ok cfg b" "map_get (bk_tasks b) g = Some t" "gate b g = Some r" "task_ok b g r (at_phase p t)"
  shows "gb_ok cfg (to_phase g p b)"
  using gb_ok_task [OF assms(1,3,4)] by (simp add: to_phase_def assms(2))

lemma phase_at_phase [simp]: "phase (at_phase p t) = p"
  by (cases t) auto

lemma at_phase_resolving [simp]: "at_phase p t = Resolving rs q \<longleftrightarrow> q = p \<and> (\<exists>q. t = Resolving rs q)"
  by (cases t) auto

lemma task_move:
  assumes "task_ok b g r t" "phase t \<noteq> PComplete" "p \<noteq> PComplete"
    and "p \<in> {PTerminalized, PAdvance} \<Longrightarrow> pg_terminalized r = Some True"
    and "p = PAdvance \<Longrightarrow> (g, pg_answer r) \<in> set (bk_advances b)"
  shows "task_ok b g r (at_phase p t)"
  using assms by (auto simp: task_ok_def)

lemma in_phaseE:
  assumes "in_phase b g p" "gb_ok cfg b"
  obtains t r where "map_get (bk_tasks b) g = Some t" "phase t = p" "gate b g = Some r" "task_ok b g r t" "gate_ok cfg b g r"
proof -
  obtain t where t: "map_get (bk_tasks b) g = Some t" "phase t = p" using assms(1) by (auto simp: in_phase_def)
  obtain r where "gate b g = Some r" "task_ok b g r t" using gb_okD(2) [OF assms(2) t(1)] by auto
  then show thesis using that t gb_okD(1) [OF assms(2)] by blast
qed

lemma afterBefore_ok: "gb_ok cfg b \<Longrightarrow> in_phase b g PBefore \<Longrightarrow> gb_ok cfg (afterBefore g ok b)"
  by (auto simp: afterBefore_def elim!: in_phaseE intro!: gb_ok_to_phase task_move)

lemma gb_ok_advances:
  assumes "gb_ok cfg b" "gate b g = Some r" "pg_answer r \<noteq> None"
  shows "gb_ok cfg (b\<lparr>bk_advances := bk_advances b @ [(g, pg_answer r)]\<rparr>)" (is "gb_ok cfg ?b")
proof -
  have "gate_ok cfg ?b h q" if "gate b h = Some q" for h q
    using gb_okD(1) [OF assms(1) that] assms(2,3) that by (auto simp: gate_ok_def)
  moreover have "task_ok ?b h q t" if "task_ok b h q t" for h q t
    using that by (auto simp: task_ok_def)
  ultimately show ?thesis
    using assms unfolding gb_ok_def by (simp add: subset_iff) metis
qed

lemma startAdvance_ok:
  assumes "gb_ok cfg b" "map_get (bk_tasks b) g = Some t" "phase t \<noteq> PComplete"
    and "\<And>r. gate b g = Some r \<Longrightarrow> pg_status r = GAccepted \<Longrightarrow> pg_terminalized r = Some True"
  shows "gb_ok cfg (startAdvance cfg g b)"
proof -
  obtain r where r: "gate b g = Some r" "task_ok b g r t" using gb_okD(2) [OF assms(1,2)] by auto
  let ?b = "b\<lparr>bk_advances := bk_advances b @ [(g, pg_answer r)]\<rparr>"
  have ok: "gb_ok cfg ?b" using r by (intro gb_ok_advances assms(1)) (auto simp: task_ok_def)
  have "gb_ok cfg (to_phase g PAdvance ?b)" if "pg_status r = GAccepted"
  proof (rule gb_ok_to_phase [OF ok])
    have "task_ok ?b g r t" using r(2) by (auto simp: task_ok_def)
    then show "task_ok ?b g r (at_phase PAdvance t)"
      using assms(3,4) r(1) that by (intro task_move) auto
  qed (use assms(2) r(1) in auto)
  then show ?thesis using assms(1) r(1) by (simp add: startAdvance_def)
qed

lemma record_accepted: "record_ok cfg r \<Longrightarrow> pg_status r = GAccepted \<Longrightarrow> \<exists>a rs. answered cfg r a rs"
  by (simp add: record_ok_def)

lemma answered_terminalized:
  "answered cfg r a rs \<Longrightarrow> \<exists>a rs. answered cfg (r\<lparr>pg_terminalized := Some True, pg_terminalProof := Some p\<rparr>) a rs"
  by (rule exI [of _ a], rule exI [of _ rs]) (simp add: answered_def)

lemma recordProof_ok:
  assumes "gb_ok cfg b" "map_get (bk_tasks b) g = Some t" "phase t \<noteq> PComplete"
  shows "gb_ok cfg (recordProof g proof b)"
proof -
  obtain r where r: "gate b g = Some r" "task_ok b g r t" using gb_okD(2) [OF assms(1,2)] by auto
  have gate: "gate_ok cfg b g r" by (rule gb_okD(1) [OF assms(1) r(1)])
  let ?b = "b\<lparr>bk_proofs := map_delete g (bk_proofs b)\<rparr>"
  have "gb_ok cfg (to_phase g PTerminalized (save (r\<lparr>pg_terminalized := Some True, pg_terminalProof := Some p\<rparr>) ?b))"
    if st: "pg_status r = GAccepted" "\<not> pg_advanced r" for p
  proof -
    let ?r = "r\<lparr>pg_terminalized := Some True, pg_terminalProof := Some p\<rparr>"
    have id: "pg_id r = g" "record_ok cfg r" using gate by (auto simp: gate_ok_def)
    have rec: "record_ok cfg ?r"
      using record_accepted [OF id(2) st(1)] id(2) st by (auto simp: record_ok_def intro: answered_terminalized)
    have task: "task_ok b g ?r s" if "task_ok b g r s" for s
      using that by (auto simp: task_ok_def)
    have ok: "gb_ok cfg (save ?r ?b)"
      using assms(1) r(1) id(1) rec st
      by (intro gb_ok_save [where r = r]) (auto simp: is_open_def task_ok_def)
    show ?thesis
    proof (rule gb_ok_to_phase [OF ok])
      show "map_get (bk_tasks (save ?r ?b)) g = Some t" using assms(2) by simp
      show "gate (save ?r ?b) g = Some ?r" by (simp add: save_def ms.lookup_store id(1))
      show "task_ok (save ?r ?b) g ?r (at_phase PTerminalized t)"
        using r(2) assms(3) by (auto simp: task_ok_def save_def)
    qed
  qed
  then show ?thesis using assms(1) r(1) by (simp add: recordProof_def Let_def split: option.split)
qed

lemma startTerminalize_ok:
  assumes "gb_ok cfg b" "map_get (bk_tasks b) g = Some t" "phase t \<noteq> PComplete"
  shows "gb_ok cfg (startTerminalize g b)"
proof (cases "map_get (bk_proofs b) g")
  case None
  obtain r where "gate b g = Some r" "task_ok b g r t" using gb_okD(2) [OF assms(1,2)] by auto
  then show ?thesis
    using None assms by (auto simp: startTerminalize_def intro!: gb_ok_to_phase task_move)
qed (simp add: startTerminalize_def recordProof_ok [OF assms])

lemma afterFinalize_ok:
  assumes "gb_ok cfg b" "in_phase b g PFinalize"
  shows "gb_ok cfg (afterFinalize cfg g ok b)"
proof -
  obtain t r where t: "map_get (bk_tasks b) g = Some t" "phase t \<noteq> PComplete" "gate b g = Some r"
    using assms by (elim in_phaseE) auto
  show ?thesis
    using assms(1) t startTerminalize_ok [OF assms(1) t(1,2)] startAdvance_ok [OF assms(1) t(1,2)]
    by (auto simp: afterFinalize_def)
qed

lemma afterTerminalize_ok: "gb_ok cfg b \<Longrightarrow> in_phase b g PTerminalize \<Longrightarrow> gb_ok cfg (afterTerminalize g hp b)"
  by (auto simp: afterTerminalize_def elim!: in_phaseE intro: recordProof_ok split: hook_proof.split)

lemma resume_ok:
  assumes "gb_ok cfg b" "in_phase b g PTerminalized"
  shows "gb_ok cfg (startAdvance cfg g b)"
proof -
  obtain t r where t: "map_get (bk_tasks b) g = Some t" "phase t = PTerminalized" "gate b g = Some r" "task_ok b g r t"
    using assms by (elim in_phaseE) auto
  then show ?thesis by (intro startAdvance_ok [OF assms(1) t(1)]) (auto simp: task_ok_def)
qed

lemma completed_ok:
  assumes "gb_ok cfg b" "gate b g = Some r" "map_get (bk_tasks b) g = Some t" "phase t = PAdvance" "pg_status r = GAccepted"
    and "b' = to_phase g PComplete ((save (r\<lparr>pg_advanced := True\<rparr>) b)\<lparr>bk_completions := bk_completions b @ [(g, pg_answer r)]\<rparr>)"
  shows "gb_ok cfg b'"
proof -
  let ?r = "r\<lparr>pg_advanced := True\<rparr>"
  have g: "gate_ok cfg b g r" and t: "task_ok b g r t"
    using gb_okD(1) [OF assms(1,2)] gb_okD(2) [OF assms(1,3)] assms(2) by auto
  have id: "pg_id r = g" using g by (simp add: gate_ok_def)
  have new: "g \<notin> fst ` set (bk_completions b)" using g t assms(4) by (auto simp: gate_ok_def task_ok_def)
  have b': "gate b' h = (if h = g then Some ?r else gate b h)" "bk_tasks b' = map_set g (at_phase PComplete t) (bk_tasks b)"
    "bk_completions b' = bk_completions b @ [(g, pg_answer r)]" "bk_advances b' = bk_advances b" "bk_instance b' = bk_instance b"
    "counter (bk_store b') = counter (bk_store b)" "ms_runtime (bk_store b') = ms_runtime (bk_store b)" "bk_cache b' = bk_cache b" for h
    by (simp_all add: assms(3,6) to_phase_def save_def ms.lookup_store ms.last_seq_store ms.owner_store id)
  have "gate_ok cfg b' h q" if "gate b' h = Some q" for h q
  proof (cases "h = g")
    case True
    have "record_ok cfg ?r"
      using g t assms(4,5) by (simp add: record_ok_def gate_ok_def task_ok_def)
    moreover have "q = ?r" using that True by (simp add: b')
    moreover have "a \<noteq> None \<and> pg_answer r = a" if "(g, a) \<in> set (bk_completions b') \<union> set (bk_advances b')" for a
      using that g t by (simp add: b' gate_ok_def task_ok_def) blast
    ultimately show ?thesis
      using g True id by (auto simp: b' gate_ok_def id_ok_def is_open_def)
  next
    case False
    then show ?thesis using that gb_okD(1) [OF assms(1), of h q] by (auto simp: b' gate_ok_def id_ok_def)
  qed
  moreover have "\<exists>q. gate b' h = Some q \<and> task_ok b' h q s" if "map_get (bk_tasks b') h = Some s" for h s
  proof (cases "h = g")
    case True
    then show ?thesis using that t assms(4) by (auto simp: b' task_ok_def)
  next
    case False
    then show ?thesis using that gb_okD(2) [OF assms(1), of h s] by (auto simp: b' task_ok_def)
  qed
  moreover have "distinct (map fst (bk_completions b'))" "set (bk_completions b') \<subseteq> set (bk_advances b')"
    using assms(1) new t assms(4) by (auto simp: b' gb_ok_def task_ok_def)
  ultimately show ?thesis using assms(1) unfolding gb_ok_def by (simp add: b')
qed

lemma afterAdvance_ok:
  assumes "gb_ok cfg b" "in_phase b g PAdvance"
  shows "gb_ok cfg (afterAdvance g ok b)"
proof -
  obtain t r where t: "map_get (bk_tasks b) g = Some t" "phase t = PAdvance" "gate b g = Some r"
    using assms by (elim in_phaseE) auto
  then show ?thesis
    using assms(1) completed_ok [OF assms(1) t(3,1,2) _ refl] by (auto simp: afterAdvance_def Let_def save_def)
qed

lemma afterComplete_ok: "gb_ok cfg b \<Longrightarrow> gb_ok cfg (afterComplete g ok b)"
  by (simp add: afterComplete_def Let_def split: option.split gate_task.split)

lemma startRecovery_ok: "gb_ok cfg b \<Longrightarrow> gb_ok cfg (startRecovery g b)"
proof -
  assume ok: "gb_ok cfg b"
  show ?thesis
  proof (cases "gate b g")
    case (Some r)
    have "task_ok b g r (Recovering PFinalize)" if "pg_status r = GAccepted" "\<not> pg_advanced r"
      using gb_okD(1) [OF ok Some] that by (auto simp: gate_ok_def task_ok_def is_open_def record_ok_def answered_def)
    then show ?thesis using ok Some by (auto simp: startRecovery_def intro: gb_ok_task)
  qed (simp add: startRecovery_def ok)
qed

lemma loseContinuation_ok:
  assumes "gb_ok cfg b"
  shows "gb_ok cfg (loseContinuation now g b)"
proof -
  let ?b = "b\<lparr>bk_live := (if map_get (bk_continuations b) g = None then bk_live b else removeAll g (bk_live b)),
                 bk_continuations := map_delete g (bk_continuations b), bk_proofs := map_delete g (bk_proofs b)\<rparr>"
  have ok: "gb_ok cfg ?b" using assms by simp
  show ?thesis
  proof (cases "gate b g")
    case (Some r)
    let ?r = "r\<lparr>pg_status := GQuarantined, pg_advanced := False, pg_lifecycle := Some (quarantined_now ContinuationOwnerLost now)\<rparr>"
    have g: "gate_ok cfg b g r" by (rule gb_okD(1) [OF assms Some])
    have "gb_ok cfg (save ?r ?b)" if "pg_status r \<noteq> GQuarantined" "\<not> (pg_status r = GAccepted \<and> pg_advanced r)"
    proof (rule gb_ok_save [OF ok, where r = r])
      have "\<not> pg_advanced r" using g that by (cases "pg_status r") (auto simp: gate_ok_def record_ok_def)
      then show "pg_advanced ?r = pg_advanced r" by simp
      show "record_ok cfg ?r" using g that(1)
        by (cases "pg_status r") (auto simp: gate_ok_def record_ok_def unanswered_def answered_def)
      show "task_ok ?b (pg_id ?r) ?r t" if "task_ok ?b (pg_id ?r) r t" for t
        using that \<open>\<not> pg_advanced r\<close> by (auto simp: task_ok_def)
    qed (use g Some in \<open>auto simp: gate_ok_def is_open_def\<close>)
    then show ?thesis using ok Some by (simp add: loseContinuation_def Let_def)
  qed (use ok in \<open>simp add: loseContinuation_def Let_def\<close>)
qed

lemma fence_ok: "gb_ok cfg b \<Longrightarrow> gb_ok cfg (foldl (\<lambda>s g. loseContinuation now g s) b gs)"
  by (induction gs arbitrary: b) (simp_all add: loseContinuation_ok)

lemma updateAckPolicy_ok:
  assumes "gb_ok cfg b" "updateAckPolicy g policy b = Inr b'"
  shows "gb_ok cfg b'"
proof -
  obtain r where r: "gate b g = Some r" "pg_status r = GAccepted" "b' = save (r\<lparr>pg_ack := Some policy\<rparr>) b"
    using assms(2) by (auto simp: updateAckPolicy_def split: option.splits if_splits)
  have g: "gate_ok cfg b g r" by (rule gb_okD(1) [OF assms(1) r(1)])
  have "record_ok cfg (r\<lparr>pg_ack := Some policy\<rparr>)"
    using g r(2) by (simp add: gate_ok_def record_ok_def)
  then show ?thesis
    unfolding r(3) using g r(1,2) by (intro gb_ok_save [OF assms(1)]) (auto simp: gate_ok_def is_open_def task_ok_def)
qed

lemma prepare_ok: "gb_ok cfg b \<Longrightarrow> gb_ok cfg (snd (prepareTerminalization g proof b))"
  by (simp add: prepareTerminalization_def split: option.split)

lemma quarantine_prior_record:
  assumes "record_ok cfg r" "is_open r \<longrightarrow> pg_owner r = Some i"
  shows "record_ok cfg (quarantine_prior (Some i) now r)" "\<not> is_open (quarantine_prior (Some i) now r)"
  using assms by (cases "pg_status r"; simp add: record_ok_def quarantine_prior_def is_open_def unanswered_def)+

lemma restart_ok:
  assumes "gb_ok cfg b"
  shows "gb_ok cfg (restart i now b)"
proof -
  let ?s = "beginRuntimeInstance i now (bk_store b)"
  have run: "ms_runtime (bk_store b) = Some (bk_instance b)" using assms by (simp add: gb_ok_def)
  have look: "gate b g = Some r \<and> r' = r \<and> bk_instance b = i \<or>
      gate b g = Some r \<and> r' = quarantine_prior (Some (bk_instance b)) now r \<and> bk_instance b \<noteq> i" if "get ?s g = Some r'" "gate b g = Some r" for g r r'
    using that run by (cases "bk_instance b = i") (auto simp: ms.lookup_begin, simp add: beginRuntimeInstance_def)
  have some: "get ?s g = None \<longleftrightarrow> gate b g = None" for g
    using run by (cases "bk_instance b = i") (simp add: beginRuntimeInstance_def, simp add: ms.lookup_begin)
  have "gate_ok cfg (restart i now b) g r'" if r': "get ?s g = Some r'" for g r'
  proof -
    obtain r where r: "gate b g = Some r" using some [of g] r' by auto
    have g: "gate_ok cfg b g r" by (rule gb_okD(1) [OF assms r])
    have "record_ok cfg r'" "is_open r' \<longrightarrow> pg_owner r' = Some i"
      using look [OF r' r] g quarantine_prior_record [of cfg r] by (auto simp: gate_ok_def)
    then show ?thesis
      using g look [OF r' r]
      by (auto simp: gate_ok_def id_ok_def restart_def new_broker_def ms.last_seq_begin)
  qed
  then show ?thesis
    using assms some unfolding gb_ok_def by (auto simp: restart_def new_broker_def ms.owner_begin)
qed

lemma compile_cache:
  assumes "compileGateSchema sha rxe schema cache = Inr (c, cache')" "\<forall>h c. map_get cache h = Some c \<longrightarrow> schemaHash sha c = h"
  shows "schemaHash sha (cg_schema c) = schemaHash sha schema" "\<forall>h c. map_get cache' h = Some c \<longrightarrow> schemaHash sha c = h"
  using assms by (auto simp: compileGateSchema_def split: option.splits if_splits)

lemma gb_ok_cacheD: "gb_ok cfg b \<Longrightarrow> \<forall>h c. map_get (bk_cache b) h = Some c \<longrightarrow> schemaHash (bc_sha cfg) c = h"
  by (simp add: gb_ok_def)

lemma gb_ok_cache:
  assumes "gb_ok cfg b" "\<forall>h c. map_get cache h = Some c \<longrightarrow> schemaHash (bc_sha cfg) c = h"
  shows "gb_ok cfg (b\<lparr>bk_cache := cache\<rparr>)"
  using assms unfolding gb_ok_def by (simp add: gate_ok_def task_ok_def)

lemma accepted_ok:
  assumes "gb_ok cfg b" "gate b g = Some r" "pg_status r = GPending" "pg_owner r = Some (bk_instance b)" "g = wr_gate_id resp"
    and "schemaHash (bc_sha cfg) c = schemaHash (bc_sha cfg) (wf_schema (pg_gate r))" "validate_compiled (bc_rx cfg) c (wr_answer resp) = []"
    and "map_get (bk_tasks b) g = None"
  shows "gb_ok cfg (save (accepted_record cfg resp opts d now r) b)" (is "gb_ok cfg (save ?r b)")
    and "task_ok b g (accepted_record cfg resp opts d now r) (Resolving (resolution_of cfg resp RAccepted None now) PBefore)"
proof -
  have g: "gate_ok cfg b g r" by (rule gb_okD(1) [OF assms(1,2)])
  have id: "pg_id r = g" using g by (simp add: gate_ok_def)
  have "answered cfg ?r (wr_answer resp) (resolution_of cfg resp RAccepted None now)"
    using assms(5-7) id by (auto simp: answered_def accepted_record_def resolution_of_def)
  moreover have "pg_status ?r = GAccepted" "pg_lifecycle ?r = None" "\<not> pg_advanced ?r" by (simp_all add: accepted_record_def)
  ultimately have "record_ok cfg ?r" unfolding record_ok_def by auto
  then show "gb_ok cfg (save ?r b)"
    using assms(2,3,8) g id
    by (intro gb_ok_save [OF assms(1)]) (auto simp: accepted_record_def is_open_def gate_ok_def record_ok_def unanswered_def)
  show "task_ok b g ?r (Resolving (resolution_of cfg resp RAccepted None now) PBefore)"
    using assms(4) by (simp add: task_ok_def accepted_record_def)
qed

lemma validateGateAnswer_None: "validateGateAnswer rx c g a = None \<longleftrightarrow> validate_compiled rx (cg_schema c) a = []"
  by (simp add: validateGateAnswer_def Let_def)

lemma answer_pending_ok:
  assumes "gb_ok cfg b" "gate b g = Some r" "pg_status r = GPending" "pg_owner r = Some (bk_instance b)" "g = wr_gate_id resp"
    and "map_get (bk_tasks b) g = None"
  shows "gb_ok cfg (answer_pending cfg resp opts now r b)"
proof (cases "compileGateSchema (bc_sha cfg) (bc_rx_error cfg) (wf_schema (pg_gate r)) (bk_cache b)")
  case (Inr cc)
  obtain c cache where cc: "cc = (c, cache)" by (cases cc)
  let ?b = "b\<lparr>bk_cache := cache\<rparr>"
  note comp = compile_cache [OF Inr [unfolded cc] gb_ok_cacheD [OF assms(1)]]
  have ok: "gb_ok cfg ?b" by (rule gb_ok_cache [OF assms(1) comp(2)])
  have "gb_ok cfg ((audit e (save (accepted_record cfg resp opts d now r) ?b))\<lparr>bk_tasks :=
      map_set g (Resolving (resolution_of cfg resp RAccepted None now) PBefore) (bk_tasks b)\<rparr>)"
    if "validate_compiled (bc_rx cfg) (cg_schema c) (wr_answer resp) = []" for d e
  proof -
    let ?r = "accepted_record cfg resp opts d now r"
    let ?c = "audit e (save ?r ?b)"
    have acc: "gb_ok cfg (save ?r ?b)" "task_ok ?b g ?r (Resolving (resolution_of cfg resp RAccepted None now) PBefore)"
      using accepted_ok [OF ok, of g r resp "cg_schema c" opts d now] assms(2-6) comp(1) that by simp_all
    have "pg_id ?r = g" using gb_okD(1) [OF assms(1,2)] by (simp add: accepted_record_def gate_ok_def)
    then have "gate ?c g = Some ?r" by (simp add: audit_def save_def ms.lookup_store)
    moreover have "task_ok ?c g ?r t = task_ok ?b g ?r t" for t by (simp add: task_ok_def audit_def save_def)
    ultimately have "gb_ok cfg (?c\<lparr>bk_tasks := map_set g (Resolving (resolution_of cfg resp RAccepted None now) PBefore) (bk_tasks ?c)\<rparr>)"
      using acc by (intro gb_ok_task [where r = ?r]) simp_all
    then show ?thesis by simp
  qed
  then show ?thesis
    using ok assms(5) unfolding answer_pending_def Let_def
    by (simp add: Inr cc validateGateAnswer_None split: option.split sum.split)
qed (use assms(1) in \<open>simp add: answer_pending_def\<close>)

lemma resolveUnlocked_ok:
  assumes "gb_ok cfg b" "map_get (bk_tasks b) (wr_gate_id resp) = None"
  shows "gb_ok cfg (resolveUnlocked cfg resp opts now b)"
proof (cases "gate b (wr_gate_id resp)")
  case (Some r)
  have "gb_ok cfg (answer_again cfg resp r b)"
    using assms(1) by (simp add: answer_again_def Let_def split: option.split)
  then show ?thesis
    using Some assms answer_pending_ok [OF assms(1) Some _ _ refl assms(2)]
    by (cases "pg_status r") (simp_all add: resolveUnlocked_def Let_def)
qed (use assms(1) in \<open>simp add: resolveUnlocked_def Let_def\<close>)

text \<open>A new record, under an id that no record has.\<close>

lemma gb_ok_insert:
  assumes "gb_ok cfg b" "gate b (pg_id r) = None" "id_ok cfg (bk_store b) r" "record_ok cfg r" "unanswered r" "\<not> pg_advanced r"
    and "pg_owner r = Some (bk_instance b)"
  shows "gb_ok cfg (save r b)"
proof -
  have adv: "(pg_id r, a) \<notin> set (bk_advances b)" for a using assms(1,2) by (force simp: gb_ok_def)
  have none: "(pg_id r, a) \<notin> set (bk_completions b)" for a using adv [of a] assms(1) by (auto simp: gb_ok_def)
  then have "pg_id r \<notin> fst ` set (bk_completions b)" by auto
  then have new: "gate_ok cfg b (pg_id r) r"
    using assms(3-7) adv none by (simp add: gate_ok_def)
  have counters: "counter (put r (bk_store b)) = counter (bk_store b)" by (rule ms.last_seq_store)
  have core: "gate_ok cfg (save r b) g q = gate_ok cfg b g q" "task_ok (save r b) g q t = task_ok b g q t" for g q t
    by (simp_all add: save_def gate_ok_def id_ok_def task_ok_def counters)
  have look: "gate (save r b) g = (if g = pg_id r then Some r else gate b g)" for g
    by (simp add: save_def ms.lookup_store)
  have "\<exists>q. gate (save r b) g = Some q \<and> task_ok b g q t" if t: "map_get (bk_tasks b) g = Some t" for g t
    using gb_okD(2) [OF assms(1) t] assms(2) by (auto simp: look)
  then show ?thesis
    using assms(1) new unfolding gb_ok_def core look
    by (simp add: save_def ms.owner_store ms.lookup_store)
qed

lemma gb_ok_next:
  assumes "gb_ok cfg b" "nextSeq st (bk_store b) = (n, s)"
  shows "gb_ok cfg (b\<lparr>bk_store := s\<rparr>)"
proof -
  have s: "s = snd (nextSeq st (bk_store b))" using assms(2) by simp
  have look: "get s = get (bk_store b)" "ms_runtime s = ms_runtime (bk_store b)"
    "m \<le> counter (bk_store b) x \<Longrightarrow> m \<le> counter s x" for m x
    unfolding s by (simp_all add: ms.lookup_seq ms.owner_seq ms.seq_covers)
  have "gate_ok cfg (b\<lparr>bk_store := s\<rparr>) g r" if "gate_ok cfg b g r" for g r
    using that look(3) by (auto simp: gate_ok_def id_ok_def)
  then show ?thesis using assms(1) unfolding gb_ok_def by (simp add: look(1,2) task_ok_def)
qed

lemma mark_superseded_ok:
  assumes "gb_ok cfg b"
  shows "gb_ok cfg (mark_superseded g old b)"
proof -
  have "gb_ok cfg (save (r\<lparr>pg_lifecycle := Some l\<rparr>) b)" if r: "gate b i = Some r" "pg_status r = GQuarantined" for i r l
    using gb_okD(1) [OF assms r(1)] r
    by (intro gb_ok_save [OF assms, where r = r]) (auto simp: gate_ok_def record_ok_def is_open_def task_ok_def unanswered_def)
  then show ?thesis using assms by (simp add: mark_superseded_def split: option.split)
qed

lemma next_id_fresh:
  assumes "gb_ok cfg b" "nextSeq st (bk_store b) = (n, s)" "st \<in> set WORKFLOW_GATE_V1_STAGES"
  shows "gate b (gate_id_of cfg st n) = None"
proof (rule ccontr)
  assume "gate b (gate_id_of cfg st n) \<noteq> None"
  then obtain r where r: "gate b (gate_id_of cfg st n) = Some r" by auto
  have ok: "pg_id r = gate_id_of cfg st n" "id_ok cfg (bk_store b) r" using gb_okD(1) [OF assms(1) r] by (simp_all add: gate_ok_def)
  then obtain m where m: "gate_id_of cfg st n = gate_id_of cfg (wf_stage (pg_gate r)) m" "m \<le> counter (bk_store b) (wf_stage (pg_gate r))"
    "wf_stage (pg_gate r) \<in> set WORKFLOW_GATE_V1_STAGES"
    unfolding id_ok_def by metis
  then have "st = wf_stage (pg_gate r)" "n = m" using gate_id_inj [OF assms(3) m(3,1)] by auto
  then show False using m(2) ms.seq_fresh [of m "bk_store b" st] assms(2) by simp
qed

text \<open>
  Opening a gate either fails and changes nothing, or installs a gate under an id that no record has,
  in a state that differs in the counter and the schema cache only.
\<close>

lemma openGate_shape:
  assumes "gb_ok cfg b"
  obtains (refused) "snd (openGate cfg inp cont now b) = b"
  | (opened) gt c where "snd (openGate cfg inp cont now b) = install_gate gt inp cont now c" "gb_ok cfg c"
      "\<And>g. gate c g = gate b g" "bk_completions c = bk_completions b" "bk_instance c = bk_instance b"
      "gate b (wf_gate_id gt) = None" "\<And>r. pg_gate r = gt \<Longrightarrow> id_ok cfg (bk_store c) r"
proof (cases "og_stage inp \<notin> set RESERVED_WORKFLOW_STAGES \<and> og_stage inp \<in> set WORKFLOW_GATE_V1_STAGES \<and> og_runtimeTurnId inp \<noteq> Some []")
  case True
  show thesis
  proof (cases "compileGateSchema (bc_sha cfg) (bc_rx_error cfg) (og_schema inp) (bk_cache b)")
    case (Inr cc)
    obtain d cache where cc: "cc = (d, cache)" by (cases cc)
    obtain n s where ns: "nextSeq (og_stage inp) (bk_store b) = (n, s)" by (cases "nextSeq (og_stage inp) (bk_store b)")
    let ?gt = "build_gate cfg inp n now"
    let ?c = "b\<lparr>bk_cache := cache, bk_store := s\<rparr>"
    have cache: "\<forall>h c. map_get cache h = Some c \<longrightarrow> schemaHash (bc_sha cfg) c = h"
      by (rule compile_cache(2) [OF Inr [unfolded cc] gb_ok_cacheD [OF assms]])
    have look: "get s = get (bk_store b)" using ms.lookup_seq [of "og_stage inp" "bk_store b"] by (simp add: ns)
    have count: "n \<le> counter s (og_stage inp)"
      using ms.last_seq_seq [of "og_stage inp" "bk_store b"] by (simp add: ns)
    show thesis
    proof (rule opened)
      show "snd (openGate cfg inp cont now b) = install_gate ?gt inp cont now ?c"
        using True by (simp add: openGate_def Inr cc ns Let_def)
      show "gb_ok cfg ?c"
        by (rule gb_ok_next [OF gb_ok_cache [OF assms cache], where st = "og_stage inp" and n = n]) (simp add: ns)
      show "gate b (wf_gate_id ?gt) = None" using next_id_fresh [OF assms ns] True by (simp add: build_gate_def)
      show "id_ok cfg (bk_store ?c) r" if "pg_gate r = ?gt" for r
        using True that count by (auto simp: id_ok_def build_gate_def)
    qed (simp_all add: look)
  qed (use True refused in \<open>simp add: openGate_def\<close>)
qed (use refused in \<open>auto simp: openGate_def\<close>)

lemma blank_record_ok:
  assumes "gb_ok cfg c" "gate c (wf_gate_id gt) = None" "\<And>r. pg_gate r = gt \<Longrightarrow> id_ok cfg (bk_store c) r"
    and "st = GPending \<and> l = None \<or> st = GQuarantined \<and> l \<noteq> None"
  shows "gb_ok cfg (save ((blank_record gt (bk_instance c) st)\<lparr>pg_lifecycle := l\<rparr>) c)"
  using assms(2-4) by (intro gb_ok_insert [OF assms(1)]) (auto simp: blank_record_def record_ok_def unanswered_def)

lemma blank_record_same: "(blank_record gt i st)\<lparr>pg_lifecycle := None\<rparr> = blank_record gt i st"
  by (simp add: blank_record_def)

lemma openGate_ok:
  assumes "gb_ok cfg b"
  shows "gb_ok cfg (snd (openGate cfg inp cont now b))"
proof (rule openGate_shape [OF assms, of inp cont now])
  fix gt c
  assume eq: "snd (openGate cfg inp cont now b) = install_gate gt inp cont now c"
    and ok: "gb_ok cfg c" "\<And>g. gate c g = gate b g" "gate b (wf_gate_id gt) = None" "\<And>r. pg_gate r = gt \<Longrightarrow> id_ok cfg (bk_store c) r"
  have "gb_ok cfg (save ((blank_record gt (bk_instance c) st)\<lparr>pg_lifecycle := l\<rparr>) c)"
    if "st = GPending \<and> l = None \<or> st = GQuarantined \<and> l \<noteq> None" for st l
    using blank_record_ok [OF ok(1) _ ok(4) that] ok(2,3) by simp
  from this [of GPending None] this [of GQuarantined] have "gb_ok cfg (install_gate gt inp cont now c)"
    by (cases cont) (simp_all add: install_gate_def Let_def mark_superseded_ok blank_record_same)
  then show ?thesis by (simp add: eq)
qed (simp add: assms)

lemma gb_step_ok: "gb_step cfg b e b' \<Longrightarrow> gb_ok cfg b \<Longrightarrow> gb_ok cfg b'"
  unfolding gb_step_def
proof (induction cfg e b rule: gb_apply.induct)
  case (13 cfg g policy b)
  then show ?case by (auto simp: updateAckPolicy_ok split: sum.splits)
qed (auto simp: openGate_ok resolveUnlocked_ok afterBefore_ok afterFinalize_ok afterTerminalize_ok resume_ok afterAdvance_ok
    afterComplete_ok selectRecovery_def startRecovery_ok loseContinuation_ok fenceContinuations_def fence_ok prepare_ok
    clearPreparedTerminalization_def restart_ok split: if_splits)

lemma gb_init_ok: "gb_init b \<Longrightarrow> gb_ok cfg b"
  by (auto simp: gb_init_def new_broker_def gb_ok_def memory_store0_def beginRuntimeInstance_def get_def)

interpretation gates: machine_invariant gb_init "gb_step cfg" "gb_ok cfg" for cfg
  by unfold_locales (auto intro: gb_init_ok gb_step_ok)

end
