(* ===== verification/Gate_Refinement.thy ===== *)
theory Gate_Refinement
  imports Gate_Lifecycle
begin

text \<open>
  What the workflow gate broker promises: how a step may rewrite a record, the abstract specification
  of gates and its refinement, the authority that an advance needs, idempotent answers, and that an
  accepted answer is completed. The last section is a run of the broker that the instances use.
\<close>

section \<open>How one record changes\<close>

definition dead :: "persisted_gate \<Rightarrow> gate_lifecycle \<Rightarrow> persisted_gate" where
  "dead r l = r\<lparr>pg_status := GQuarantined, pg_lifecycle := Some l\<rparr>"

text \<open>The ways in which one step may rewrite the record of gate \<open>g\<close>.\<close>

inductive gate_move :: "broker_config \<Rightarrow> gb_event \<Rightarrow> gate_broker \<Rightarrow> string \<Rightarrow> persisted_gate \<Rightarrow> persisted_gate \<Rightarrow> bool"
  for cfg e b g where
  mv_same: "gate_move cfg e b g r r"
| mv_superseded: "pg_status r = GQuarantined \<Longrightarrow> gate_move cfg e b g r (r\<lparr>pg_lifecycle := Some l\<rparr>)"
| mv_ack: "pg_status r = GAccepted \<Longrightarrow> gate_move cfg e b g r (r\<lparr>pg_ack := Some x\<rparr>)"
| mv_proof: "pg_status r = GAccepted \<Longrightarrow> \<not> pg_advanced r \<Longrightarrow>
    gate_move cfg e b g r (r\<lparr>pg_terminalized := Some True, pg_terminalProof := Some p\<rparr>)"
| mv_accept: "pg_status r = GPending \<Longrightarrow> pg_owner r = Some (bk_instance b) \<Longrightarrow> hasLiveContinuation b g \<Longrightarrow>
    e = EResolve resp opts now \<Longrightarrow> wr_gate_id resp = g \<Longrightarrow> gate_move cfg e b g r (accepted_record cfg resp opts d now r)"
| mv_advance: "pg_status r = GAccepted \<Longrightarrow> \<not> pg_advanced r \<Longrightarrow> pg_terminalized r = Some True \<Longrightarrow> hasLiveContinuation b g \<Longrightarrow>
    e = EAdvance g True \<Longrightarrow> gate_move cfg e b g r (r\<lparr>pg_advanced := True\<rparr>)"
| mv_kill: "is_open r \<Longrightarrow> gate_move cfg e b g r (dead r l)"

definition moves_old :: "broker_config \<Rightarrow> gb_event \<Rightarrow> gate_broker \<Rightarrow> gate_broker \<Rightarrow> bool" where
  "moves_old cfg e b b' \<longleftrightarrow> (\<forall>g r. gate b g = Some r \<longrightarrow> (\<exists>r'. gate b' g = Some r' \<and> gate_move cfg e b g r r'))"

definition moves :: "broker_config \<Rightarrow> gb_event \<Rightarrow> gate_broker \<Rightarrow> gate_broker \<Rightarrow> bool" where
  "moves cfg e b b' \<longleftrightarrow> moves_old cfg e b b' \<and> (\<forall>g. gate b g = None \<longrightarrow> gate b' g = None)"

lemma moves_quiet: "bk_store b' = bk_store b \<Longrightarrow> moves cfg e b b'"
  by (auto simp: moves_def moves_old_def intro: mv_same)

lemma moves_put:
  assumes "bk_store b' = put r' (bk_store b)" "gate b (pg_id r') = Some r" "gate_move cfg e b (pg_id r') r r'"
  shows "moves cfg e b b'"
  using assms by (auto simp: moves_def moves_old_def ms.lookup_store intro: mv_same)

lemma store_simps [simp]:
  "bk_store (audit a b) = bk_store b" "bk_store (returns g res b) = bk_store b" "bk_store (end_task g res b) = bk_store b"
  "bk_store (to_phase g p b) = bk_store b" "bk_store (save r b) = put r (bk_store b)"
  by (auto simp: audit_def returns_def end_task_def to_phase_def save_def Let_def split: option.splits gate_task.splits)

lemma completions_simps [simp]:
  "bk_completions (audit a b) = bk_completions b" "bk_completions (returns g res b) = bk_completions b"
  "bk_completions (end_task g res b) = bk_completions b" "bk_completions (to_phase g p b) = bk_completions b"
  "bk_completions (save r b) = bk_completions b"
  by (auto simp: audit_def returns_def end_task_def to_phase_def save_def Let_def split: option.splits gate_task.splits)

lemma startAdvance_store [simp]: "bk_store (startAdvance cfg g b) = bk_store b"
  by (simp add: startAdvance_def split: option.split)

lemma startAdvance_completions [simp]: "bk_completions (startAdvance cfg g b) = bk_completions b"
  by (simp add: startAdvance_def split: option.split)

lemma gate_id: "gb_ok cfg b \<Longrightarrow> gate b g = Some r \<Longrightarrow> pg_id r = g"
  using gb_okD(1) by (fastforce simp: gate_ok_def)

lemma recordProof_moves:
  assumes "gb_ok cfg b"
  shows "moves cfg e b (recordProof g proof b)"
proof -
  have "moves cfg e b (to_phase g PTerminalized (save (r\<lparr>pg_terminalized := Some True, pg_terminalProof := Some p\<rparr>)
      (b\<lparr>bk_proofs := map_delete g (bk_proofs b)\<rparr>)))" if "gate b g = Some r" "pg_status r = GAccepted" "\<not> pg_advanced r" for r p
    using that gate_id [OF assms that(1)] by (intro moves_put [where r = r]) (auto intro: mv_proof)
  then show "moves cfg e b (recordProof g proof b)"
    by (auto simp: recordProof_def Let_def moves_quiet split: option.split)
qed

lemma recordProof_completions: "bk_completions (recordProof g proof b) = bk_completions b"
  by (simp add: recordProof_def Let_def split: option.split)

text \<open>Losing authority: records stay or become quarantined.\<close>

definition killed :: "persisted_gate option \<Rightarrow> persisted_gate option \<Rightarrow> bool" where
  "killed x y \<longleftrightarrow> y = x \<or> (\<exists>r l. x = Some r \<and> is_open r \<and> y = Some (dead r l))"

definition kills :: "gate_broker \<Rightarrow> gate_broker \<Rightarrow> bool" where
  "kills b b' \<longleftrightarrow> (\<forall>g. killed (gate b g) (gate b' g))"

lemma dead_closed [simp]: "\<not> is_open (dead r l)"
  by (simp add: dead_def is_open_def)

lemma killed_trans: "killed x y \<Longrightarrow> killed y z \<Longrightarrow> killed x z"
  by (auto simp: killed_def)

lemma kills_refl [simp]: "kills b b"
  by (simp add: kills_def killed_def)

lemma kills_trans: "kills a b \<Longrightarrow> kills b c \<Longrightarrow> kills a c"
  unfolding kills_def using killed_trans by blast

lemma kills_moves: "kills b b' \<Longrightarrow> moves cfg e b b'"
  unfolding kills_def moves_def moves_old_def killed_def by (metis mv_kill mv_same option.distinct(1) option.inject)

lemma loseContinuation_kills:
  assumes "gb_ok cfg b"
  shows "kills b (loseContinuation now g b)"
proof (cases "gate b g")
  case (Some r)
  let ?l = "quarantined_now ContinuationOwnerLost now"
  let ?r = "r\<lparr>pg_status := GQuarantined, pg_advanced := False, pg_lifecycle := Some ?l\<rparr>"
  have id: "pg_id r = g" by (rule gate_id [OF assms Some])
  show ?thesis
  proof (cases "pg_owner r \<noteq> Some (bk_instance b) \<or> pg_status r = GQuarantined \<or> (pg_status r = GAccepted \<and> pg_advanced r)")
    case True
    then have "bk_store (loseContinuation now g b) = bk_store b" using Some by (auto simp: loseContinuation_def Let_def)
    then show ?thesis by (simp add: kills_def killed_def)
  next
    case False
    have "\<not> pg_advanced r"
      using gb_okD(1) [OF assms Some] False by (cases "pg_status r") (auto simp: gate_ok_def record_ok_def)
    then have "?r = dead r ?l" by (cases r) (simp add: dead_def)
    then have store: "bk_store (loseContinuation now g b) = put (dead r ?l) (bk_store b)"
      using Some False by (auto simp: loseContinuation_def Let_def)
    have "is_open r" using False by (cases "pg_status r") (auto simp: is_open_def)
    moreover have "pg_id (dead r ?l) = g" by (simp add: dead_def id)
    ultimately show ?thesis using Some unfolding kills_def killed_def store by (simp add: ms.lookup_store) blast
  qed
qed (simp add: loseContinuation_def Let_def kills_def killed_def)

lemma fence_kills: "gb_ok cfg b \<Longrightarrow> kills b (foldl (\<lambda>s g. loseContinuation now g s) b gs)"
proof (induction gs arbitrary: b)
  case (Cons g gs)
  have "kills (loseContinuation now g b) (foldl (\<lambda>s g. loseContinuation now g s) (loseContinuation now g b) gs)"
    by (rule Cons.IH) (rule loseContinuation_ok [OF Cons.prems])
  then show ?case using kills_trans [OF loseContinuation_kills [OF Cons.prems]] by simp
qed simp

lemma quarantine_prior_killed: "killed x (map_option (quarantine_prior prior now) x)"
  by (cases x) (auto simp: quarantine_prior_def is_open_def dead_def [symmetric] killed_def)

lemma restart_kills: "gb_ok cfg b \<Longrightarrow> kills b (restart i now b)"
proof -
  assume "gb_ok cfg b"
  then have run: "ms_runtime (bk_store b) = Some (bk_instance b)" by (simp add: gb_ok_def)
  have store: "bk_store (restart i now b) = beginRuntimeInstance i now (bk_store b)" by (simp add: restart_def new_broker_def)
  show ?thesis
  proof (cases "bk_instance b = i")
    case True
    then show ?thesis using run by (simp add: kills_def killed_def store beginRuntimeInstance_def)
  next
    case False
    then show ?thesis using run by (simp add: kills_def store ms.lookup_begin quarantine_prior_killed)
  qed
qed

lemma lose_completions [simp]: "bk_completions (loseContinuation now g b) = bk_completions b"
  by (simp add: loseContinuation_def Let_def split: option.split)

lemma fence_completions [simp]: "bk_completions (foldl (\<lambda>s g. loseContinuation now g s) b gs) = bk_completions b"
  by (induction gs arbitrary: b) simp_all

text \<open>Opening a gate adds one record and marks at most the one it supersedes.\<close>

lemma mark_superseded_gate:
  assumes "gb_ok cfg b" "gate b g = Some r"
  shows "gate (mark_superseded h old b) g = Some r \<or>
    pg_status r = GQuarantined \<and> (\<exists>l. gate (mark_superseded h old b) g = Some (r\<lparr>pg_lifecycle := Some l\<rparr>))"
  using assms gate_id [OF assms(1)]
  by (auto simp: mark_superseded_def ms.lookup_store split: option.split)

lemma mark_superseded_none: "gb_ok cfg b \<Longrightarrow> gate b g = None \<Longrightarrow> gate (mark_superseded h old b) g = None"
  using gate_id [of cfg b] by (auto simp: mark_superseded_def ms.lookup_store split: option.split)

lemma mark_superseded_completions [simp]: "bk_completions (mark_superseded h old b) = bk_completions b"
  by (simp add: mark_superseded_def split: option.split)

text \<open>The records after opening a gate.\<close>

lemma install_gate_records:
  assumes ok: "gb_ok cfg c" "gate c (wf_gate_id gt) = None" "\<And>r. pg_gate r = gt \<Longrightarrow> id_ok cfg (bk_store c) r"
  shows "gate c h = Some r \<Longrightarrow> gate (install_gate gt inp cont now c) h = Some r \<or>
      pg_status r = GQuarantined \<and> (\<exists>l. gate (install_gate gt inp cont now c) h = Some (r\<lparr>pg_lifecycle := Some l\<rparr>))" (is "_ \<Longrightarrow> ?old")
    and "gate c h = None \<Longrightarrow> gate (install_gate gt inp cont now c) h = Some r' \<Longrightarrow>
      h = wf_gate_id gt \<and> unanswered r' \<and> pg_status r' \<noteq> GAccepted" (is "_ \<Longrightarrow> _ \<Longrightarrow> ?new")
proof -
  define rec where "rec = (case cont of None \<Rightarrow> (blank_record gt (bk_instance c) GQuarantined)\<lparr>pg_lifecycle := Some (quarantined_now OpenedWithoutContinuation now)\<rparr>
    | Some k \<Rightarrow> blank_record gt (bk_instance c) GPending)"
  define d where "d = save rec c"
  have rec: "pg_id rec = wf_gate_id gt" "unanswered rec" "pg_status rec \<noteq> GAccepted"
    by (simp_all add: rec_def blank_record_def unanswered_def split: option.split)
  have d: "gb_ok cfg d"
    using blank_record_ok [OF ok, where st = GPending and l = None] blank_record_ok [OF ok, where st = GQuarantined]
    by (cases cont) (simp_all add: d_def rec_def blank_record_same)
  have look: "gate d h = (if h = wf_gate_id gt then Some rec else gate c h)" for h
    by (simp add: d_def ms.lookup_store rec(1))
  obtain d' old where d': "gb_ok cfg d'" "\<And>h. gate d' h = gate d h"
    "bk_store (install_gate gt inp cont now c) = bk_store (if cont = None then d else mark_superseded (wf_gate_id gt) old d')"
  proof (cases cont)
    case None
    then show thesis using that [of d None] d by (simp add: install_gate_def d_def rec_def)
  next
    case (Some k)
    let ?d = "d\<lparr>bk_live := List.insert (wf_gate_id gt) (bk_live d),
       bk_proofs := (if ct_not_published k then map_set (wf_gate_id gt) NotPublished (bk_proofs d) else bk_proofs d),
       bk_continuations := map_set (wf_gate_id gt) k (bk_continuations d)\<rparr>"
    show thesis using that [of ?d "og_supersedes inp"] Some d by (simp add: install_gate_def d_def rec_def Let_def)
  qed
  show ?old if "gate c h = Some r"
  proof -
    have "gate d h = Some r" using that ok(2) by (auto simp: look)
    then show ?thesis using mark_superseded_gate [OF d'(1), of h r] d'(2) by (simp add: d'(3))
  qed
  show ?new if "gate c h = None" "gate (install_gate gt inp cont now c) h = Some r'"
  proof (cases "h = wf_gate_id gt")
    case True
    have "gate d' h = Some rec" by (simp add: d'(2) look True)
    from mark_superseded_gate [OF d'(1) this, of "wf_gate_id gt" old] have "r' = rec \<or> (\<exists>l. r' = rec\<lparr>pg_lifecycle := Some l\<rparr>)"
      using that(2) d'(2) look True by (auto simp: d'(3) split: if_splits)
    then show ?thesis using rec True by (auto simp: unanswered_def)
  next
    case False
    then have "gate d h = None" using that(1) by (simp add: look)
    then show ?thesis using that(2) mark_superseded_none [OF d'(1), of h] d'(2) by (auto simp: d'(3) split: if_splits)
  qed
qed

lemma install_gate_completions [simp]: "bk_completions (install_gate gt inp cont now c) = bk_completions c"
  by (simp add: install_gate_def Let_def split: option.split)

lemma openGate_records:
  assumes "gb_ok cfg b"
  shows "moves_old cfg e b (snd (openGate cfg inp cont now b))"
    and "bk_completions (snd (openGate cfg inp cont now b)) = bk_completions b"
    and "\<exists>g. \<forall>h r. gate b h = None \<longrightarrow> gate (snd (openGate cfg inp cont now b)) h = Some r \<longrightarrow>
      h = g \<and> unanswered r \<and> pg_status r \<noteq> GAccepted"
proof -
  have "moves_old cfg e b b' \<and> bk_completions b' = bk_completions b \<and>
      (\<exists>g. \<forall>h r. gate b h = None \<longrightarrow> gate b' h = Some r \<longrightarrow> h = g \<and> unanswered r \<and> pg_status r \<noteq> GAccepted)"
    if "b' = snd (openGate cfg inp cont now b)" for b'
  proof (rule openGate_shape [OF assms, of inp cont now])
    fix gt c
    assume eq: "snd (openGate cfg inp cont now b) = install_gate gt inp cont now c"
      and ok: "gb_ok cfg c" "\<And>g. gate c g = gate b g" "gate b (wf_gate_id gt) = None" "\<And>r. pg_gate r = gt \<Longrightarrow> id_ok cfg (bk_store c) r"
      and log: "bk_completions c = bk_completions b"
    have none: "gate c (wf_gate_id gt) = None" by (simp add: ok(2,3))
    note rec = install_gate_records [OF ok(1) none ok(4), unfolded ok(2), where inp = inp and cont = cont and now = now]
    have "moves_old cfg e b b'"
      unfolding moves_old_def that eq using rec(1) mv_same mv_superseded by metis
    then show ?thesis using rec(2) log unfolding that eq by (metis install_gate_completions)
  qed (auto simp: that moves_old_def intro: mv_same)
  then show "moves_old cfg e b (snd (openGate cfg inp cont now b))"
    "bk_completions (snd (openGate cfg inp cont now b)) = bk_completions b"
    "\<exists>g. \<forall>h r. gate b h = None \<longrightarrow> gate (snd (openGate cfg inp cont now b)) h = Some r \<longrightarrow>
      h = g \<and> unanswered r \<and> pg_status r \<noteq> GAccepted" by blast+
qed

lemma answer_pending_moves:
  assumes "gb_ok cfg b" "gate b (wr_gate_id resp) = Some r" "pg_status r = GPending" "pg_owner r = Some (bk_instance b)"
    and "hasLiveContinuation b (wr_gate_id resp)"
  shows "moves cfg (EResolve resp opts now) b (answer_pending cfg resp opts now r b)"
    and "bk_completions (answer_pending cfg resp opts now r b) = bk_completions b"
proof -
  have id: "pg_id (accepted_record cfg resp opts d now r) = wr_gate_id resp" for d
    using gate_id [OF assms(1,2)] by (simp add: accepted_record_def)
  have "moves cfg (EResolve resp opts now) b b'" if "bk_store b' = put (accepted_record cfg resp opts d now r) (bk_store b)" for b' d
    using assms(2-5) by (intro moves_put [OF that, where r = r]) (auto simp: id intro: mv_accept)
  then show "moves cfg (EResolve resp opts now) b (answer_pending cfg resp opts now r b)"
    unfolding answer_pending_def Let_def by (auto simp: moves_quiet split: option.split sum.split)
  show "bk_completions (answer_pending cfg resp opts now r b) = bk_completions b"
    unfolding answer_pending_def Let_def by (auto split: option.split sum.split)
qed

lemma pending_only: "st \<noteq> GAccepted \<Longrightarrow> st \<noteq> GQuarantined \<Longrightarrow> st = GPending"
  by (cases st) auto

lemma resolveUnlocked_moves:
  assumes "gb_ok cfg b"
  shows "moves cfg (EResolve resp opts now) b (resolveUnlocked cfg resp opts now b)"
    and "bk_completions (resolveUnlocked cfg resp opts now b) = bk_completions b"
  using answer_pending_moves [OF assms] pending_only
  by (auto simp: resolveUnlocked_def Let_def answer_again_def moves_quiet split: option.split)

lemma startTerminalize_moves:
  "gb_ok cfg b \<Longrightarrow> moves cfg e b (startTerminalize g b)" "bk_completions (startTerminalize g b) = bk_completions b"
  "gb_ok cfg b \<Longrightarrow> moves cfg e b (afterTerminalize g hp b)" "bk_completions (afterTerminalize g hp b) = bk_completions b"
  by (simp_all add: startTerminalize_def afterTerminalize_def recordProof_moves moves_quiet recordProof_completions
      split: option.split hook_proof.split)

lemma afterFinalize_moves:
  "gb_ok cfg b \<Longrightarrow> moves cfg e b (afterFinalize c g ok b)" "bk_completions (afterFinalize c g ok b) = bk_completions b"
  by (simp_all add: afterFinalize_def startTerminalize_moves moves_quiet split: option.split)

lemma afterAdvance_moves:
  assumes "gb_ok cfg b" "in_phase b g PAdvance"
  shows "moves cfg (EAdvance g ok) b (afterAdvance g ok b)"
    and "bk_completions (afterAdvance g ok b) = bk_completions b \<and> (\<forall>h. gate (afterAdvance g ok b) h = gate b h) \<or>
      (\<exists>r. gate b g = Some r \<and> pg_status r = GAccepted \<and> \<not> pg_advanced r \<and>
         bk_completions (afterAdvance g ok b) = bk_completions b @ [(g, pg_answer r)] \<and>
         (\<forall>h. gate (afterAdvance g ok b) h = (if h = g then Some (r\<lparr>pg_advanced := True\<rparr>) else gate b h)))"
proof -
  obtain t r where t: "phase t = PAdvance" "gate b g = Some r" "task_ok b g r t" "gate_ok cfg b g r"
    using assms by (elim in_phaseE) auto
  then have r: "\<not> pg_advanced r" "pg_terminalized r = Some True" "pg_id r = g" by (auto simp: task_ok_def gate_ok_def)
  show "moves cfg (EAdvance g ok) b (afterAdvance g ok b)"
  proof (cases "ok \<and> pg_status r = GAccepted \<and> hasLiveContinuation b g")
    case True
    then show ?thesis
      using t(2) r by (intro moves_put [where r = r]) (auto simp: afterAdvance_def Let_def intro: mv_advance)
  qed (use t(2) in \<open>auto simp: afterAdvance_def intro: moves_quiet\<close>)
  show "bk_completions (afterAdvance g ok b) = bk_completions b \<and> (\<forall>h. gate (afterAdvance g ok b) h = gate b h) \<or>
      (\<exists>r. gate b g = Some r \<and> pg_status r = GAccepted \<and> \<not> pg_advanced r \<and>
         bk_completions (afterAdvance g ok b) = bk_completions b @ [(g, pg_answer r)] \<and>
         (\<forall>h. gate (afterAdvance g ok b) h = (if h = g then Some (r\<lparr>pg_advanced := True\<rparr>) else gate b h)))"
    using t(2) r by (auto simp: afterAdvance_def Let_def ms.lookup_store)
qed

lemma afterComplete_quiet: "bk_store (afterComplete g ok b) = bk_store b" "bk_completions (afterComplete g ok b) = bk_completions b"
  by (simp_all add: afterComplete_def Let_def split: option.split gate_task.split)

lemma updateAckPolicy_moves:
  assumes "gb_ok cfg b" "updateAckPolicy g policy b = Inr b'"
  shows "moves cfg e b b'" "bk_completions b' = bk_completions b"
proof -
  obtain r where r: "gate b g = Some r" "pg_status r = GAccepted" "b' = save (r\<lparr>pg_ack := Some policy\<rparr>) b"
    using assms(2) by (auto simp: updateAckPolicy_def split: option.splits if_splits)
  then show "moves cfg e b b'" using gate_id [OF assms(1) r(1)] by (intro moves_put [where r = r]) (auto intro: mv_ack)
  show "bk_completions b' = bk_completions b" by (simp add: r(3))
qed

lemma quiet_operations:
  "bk_store (afterBefore g ok b) = bk_store b" "bk_completions (afterBefore g ok b) = bk_completions b"
  "bk_store (selectRecovery g b) = bk_store b" "bk_completions (selectRecovery g b) = bk_completions b"
  "bk_store (startRecovery g b) = bk_store b" "bk_completions (startRecovery g b) = bk_completions b"
  "bk_store (snd (prepareTerminalization g p b)) = bk_store b" "bk_completions (snd (prepareTerminalization g p b)) = bk_completions b"
  "bk_store (clearPreparedTerminalization g b) = bk_store b" "bk_completions (clearPreparedTerminalization g b) = bk_completions b"
  by (simp_all add: afterBefore_def selectRecovery_def startRecovery_def prepareTerminalization_def
      clearPreparedTerminalization_def split: option.split)

text \<open>What a step does to the records and to the log of completions.\<close>

lemma step_moves:
  assumes "gb_ok cfg b" "gb_apply cfg e b = Some b'"
  shows "moves_old cfg e b b'"
    and "(\<forall>inp cont now. e \<noteq> EOpen inp cont now) \<Longrightarrow> moves cfg e b b'"
proof -
  have "moves cfg e b b'" if "\<forall>inp cont now. e \<noteq> EOpen inp cont now"
  proof (cases e)
    case (EAck g policy)
    then show ?thesis using assms updateAckPolicy_moves(1) by (auto split: sum.splits)
  qed (use that assms in \<open>auto simp: resolveUnlocked_moves afterFinalize_moves startTerminalize_moves afterAdvance_moves
      quiet_operations afterComplete_quiet fenceContinuations_def moves_quiet
      intro: kills_moves loseContinuation_kills fence_kills restart_kills split: if_splits\<close>)
  then show "moves cfg e b b'" if "\<forall>inp cont now. e \<noteq> EOpen inp cont now" using that by blast
  show "moves_old cfg e b b'"
    using \<open>_ \<Longrightarrow> moves cfg e b b'\<close> assms openGate_records(1) [OF assms(1)] by (cases e) (auto simp: moves_def)
qed

lemma step_completions:
  assumes "gb_ok cfg b" "gb_apply cfg e b = Some b'" "\<forall>g. e \<noteq> EAdvance g True"
  shows "bk_completions b' = bk_completions b"
proof (cases e)
  case (EAck g policy)
  then show ?thesis using assms updateAckPolicy_moves(2) by (auto split: sum.splits)
next
  case (EAdvance g ok)
  then show ?thesis using assms by (auto simp: afterAdvance_def split: if_splits)
qed (use assms in \<open>auto simp: resolveUnlocked_moves afterFinalize_moves startTerminalize_moves openGate_records
    quiet_operations afterComplete_quiet fenceContinuations_def restart_def new_broker_def split: if_splits\<close>)

section \<open>The first answer wins\<close>

text \<open>
  C6. The first accepted answer wins and is never changed: from any reachable state, no step, be it
  another answer, a recovery, a loss of the continuation or a restart, changes the gate, its owner,
  or, once it has an answer, the answer, the idempotency key, the response hash and the resolution;
  an advanced gate stays advanced and a quarantined gate quarantined; and a gate gets its answer only
  from a response to it, while it is pending, owned by this runtime instance and its continuation
  lives.
\<close>

theorem first_answer_wins:
  assumes "reach gb_init (gb_step cfg) b" "gb_step cfg b e b'" "gate b g = Some r"
  shows "\<exists>r'. gate b' g = Some r' \<and> pg_gate r' = pg_gate r \<and> pg_owner r' = pg_owner r \<and>
    (pg_answer r \<noteq> None \<longrightarrow> pg_answer r' = pg_answer r \<and> pg_key r' = pg_key r \<and>
       pg_responseHash r' = pg_responseHash r \<and> pg_resolution r' = pg_resolution r) \<and>
    (pg_advanced r \<longrightarrow> pg_advanced r') \<and> (pg_status r = GQuarantined \<longrightarrow> pg_status r' = GQuarantined) \<and>
    (pg_answer r = None \<and> pg_answer r' \<noteq> None \<longrightarrow>
       (\<exists>resp opts now. e = EResolve resp opts now \<and> wr_gate_id resp = g \<and> pg_answer r' = Some (wr_answer resp)) \<and>
       pg_status r = GPending \<and> pg_owner r = Some (bk_instance b) \<and> hasLiveContinuation b g)"
proof -
  have ok: "gb_ok cfg b" by (rule gates.reachable_inv [OF assms(1)])
  have step: "gb_apply cfg e b = Some b'" using assms(2) by (simp add: gb_step_def)
  obtain r' where r': "gate b' g = Some r'" "gate_move cfg e b g r r'"
    using step_moves(1) [OF ok step] assms(3) by (auto simp: moves_old_def)
  have pending: "pg_answer r = None \<and> \<not> pg_advanced r" if "pg_status r = GPending"
    using gb_okD(1) [OF ok assms(3)] that by (simp add: gate_ok_def record_ok_def unanswered_def)
  show ?thesis
    using r'(2) r'(1) pending by cases (auto simp: dead_def accepted_record_def)
qed

section \<open>The abstract specification\<close>

text \<open>
  What a client sees of a gate: it waits for an answer, has one, is done with it, or is dead; dead
  gates may keep an answer that never took effect.
\<close>

datatype spec_gate = Waiting | Answered json | Done json | Dead "json option"

type_synonym gate_spec = "(string \<Rightarrow> spec_gate option) \<times> (string \<times> json) list"

inductive calm :: "spec_gate option \<Rightarrow> spec_gate option \<Rightarrow> bool" where
  calm_same: "calm x x"
| calm_open: "calm None (Some Waiting)"
| calm_stillborn: "calm None (Some (Dead None))"
| calm_answer: "calm (Some Waiting) (Some (Answered a))"
| calm_orphan: "calm (Some Waiting) (Some (Dead None))"
| calm_lost: "calm (Some (Answered a)) (Some (Dead (Some a)))"

inductive_cases calm_noneE: "calm None y"
inductive_cases calm_doneE: "calm x (Some (Done a))"
inductive_cases calm_from_doneE: "calm (Some (Done a)) y"

text \<open>One gate is done at a time, and that is logged; everything else is calm.\<close>

inductive spec_step :: "gate_spec \<Rightarrow> gb_event \<Rightarrow> gate_spec \<Rightarrow> bool" where
  spec_calm: "(\<And>g. calm (M g) (M' g)) \<Longrightarrow> spec_step (M, L) e (M', L)"
| spec_done: "M g = Some (Answered a) \<Longrightarrow> spec_step (M, L) e (M(g \<mapsto> Done a), L @ [(g, a)])"

definition spec_init :: "gate_spec \<Rightarrow> bool" where
  "spec_init s \<longleftrightarrow> s = (Map.empty, [])"

text \<open>The specification promises that each gate is done at most once, with the answer in its state.\<close>

lemma spec_log: "reach spec_init spec_step s \<Longrightarrow>
    distinct (map fst (snd s)) \<and> (\<forall>g a. (g, a) \<in> set (snd s) \<longleftrightarrow> fst s g = Some (Done a))"
proof (induction rule: reach.induct)
  case (reach_step s e t)
  from reach_step.hyps(2) show ?case
  proof cases
    case (spec_calm M M' L)
    have "(M g = Some (Done a)) = (M' g = Some (Done a))" for g a
      using spec_calm(3) [of g] by (metis calm_doneE calm_from_doneE)
    then show ?thesis using reach_step.IH spec_calm(1,2) by simp
  next
    case (spec_done M g a L)
    then have "g \<notin> fst ` set L" using reach_step.IH by fastforce
    then show ?thesis using reach_step.IH spec_done by auto
  qed
qed (simp add: spec_init_def)

definition spec_of :: "persisted_gate \<Rightarrow> spec_gate" where
  "spec_of r = (case pg_status r of GPending \<Rightarrow> Waiting | GQuarantined \<Rightarrow> Dead (pg_answer r)
     | GAccepted \<Rightarrow> (case pg_answer r of None \<Rightarrow> Waiting | Some a \<Rightarrow> if pg_advanced r then Done a else Answered a))"

definition spec_log_of :: "(string \<times> json option) list \<Rightarrow> (string \<times> json) list" where
  "spec_log_of entries = concat (map (\<lambda>ga. case snd ga of None \<Rightarrow> [] | Some a \<Rightarrow> [(fst ga, a)]) entries)"

definition spec_state :: "gate_broker \<Rightarrow> gate_spec" where
  "spec_state b = ((\<lambda>g. map_option spec_of (gate b g)), spec_log_of (bk_completions b))"

lemma gate_move_calm:
  assumes "gate_ok cfg b g r" "gate_move cfg e b g r r'" "e \<noteq> EAdvance g True"
  shows "calm (Some (spec_of r)) (Some (spec_of r'))"
  using assms(2)
proof cases
  case (mv_kill l)
  then show ?thesis using assms(1)
    by (cases "pg_status r")
      (auto simp: is_open_def spec_of_def dead_def gate_ok_def record_ok_def unanswered_def answered_def intro: calm.intros)
qed (use assms(3) in \<open>auto simp: spec_of_def accepted_record_def intro: calm.intros split: option.split\<close>)

lemma step_new_gate:
  assumes "gb_ok cfg b" "gb_apply cfg e b = Some b'" "gate b g = None"
  shows "calm None (map_option spec_of (gate b' g))"
proof (cases "\<exists>inp cont now. e = EOpen inp cont now")
  case True
  then obtain inp cont now where e: "b' = snd (openGate cfg inp cont now b)" using assms(2) by auto
  show ?thesis
  proof (cases "gate b' g")
    case (Some r)
    then have "unanswered r" "pg_status r \<noteq> GAccepted"
      using openGate_records(3) [OF assms(1), of inp cont now] assms(3) unfolding e by blast+
    then show ?thesis using Some by (cases "pg_status r") (auto simp: spec_of_def unanswered_def intro: calm.intros)
  qed (auto intro: calm.intros)
next
  case False
  then show ?thesis using step_moves(2) [OF assms(1,2)] assms(3) by (auto simp: moves_def intro: calm_same)
qed

lemma step_simulates:
  assumes "gb_ok cfg b" "gb_apply cfg e b = Some b'"
  shows "spec_step (spec_state b) e (spec_state b')"
proof (cases "\<exists>g. e = EAdvance g True")
  case True
  then obtain g where e: "in_phase b g PAdvance" "b' = afterAdvance g True b"
    using assms(2) by (auto split: if_splits)
  show ?thesis
    using afterAdvance_moves(2) [OF assms(1) e(1), of True]
  proof (elim disjE exE conjE)
    assume "bk_completions (afterAdvance g True b) = bk_completions b" "\<forall>h. gate (afterAdvance g True b) h = gate b h"
    then show ?thesis unfolding spec_state_def e(2) by (auto intro!: spec_calm calm_same)
  next
    fix r assume r: "gate b g = Some r" "pg_status r = GAccepted" "\<not> pg_advanced r"
      and log: "bk_completions (afterAdvance g True b) = bk_completions b @ [(g, pg_answer r)]"
      and new: "\<forall>h. gate (afterAdvance g True b) h = (if h = g then Some (r\<lparr>pg_advanced := True\<rparr>) else gate b h)"
    obtain a where a: "pg_answer r = Some a"
      using gb_okD(1) [OF assms(1) r(1)] r(2) by (auto simp: gate_ok_def record_ok_def answered_def)
    have "map_option spec_of (gate b g) = Some (Answered a)" using r a by (simp add: spec_of_def)
    then have "spec_step (spec_state b) e ((\<lambda>h. map_option spec_of (gate b h))(g \<mapsto> Done a), spec_log_of (bk_completions b) @ [(g, a)])"
      unfolding spec_state_def by (rule spec_done)
    moreover have "spec_state b' = ((\<lambda>h. map_option spec_of (gate b h))(g \<mapsto> Done a), spec_log_of (bk_completions b) @ [(g, a)])"
      using new log r(2) a by (auto simp: spec_state_def e(2) spec_log_of_def spec_of_def fun_eq_iff)
    ultimately show ?thesis by simp
  qed
next
  case False
  have "calm (map_option spec_of (gate b g)) (map_option spec_of (gate b' g))" for g
  proof (cases "gate b g")
    case None
    then show ?thesis using step_new_gate [OF assms None] by simp
  next
    case (Some r)
    then obtain r' where "gate b' g = Some r'" "gate_move cfg e b g r r'"
      using step_moves(1) [OF assms] by (auto simp: moves_old_def)
    then show ?thesis using gate_move_calm [OF gb_okD(1) [OF assms(1) Some]] False Some by simp
  qed
  then show ?thesis using step_completions [OF assms] False unfolding spec_state_def by (simp add: spec_calm)
qed

text \<open>
  C5. The broker implements the specification: every step of the broker, mapped to what a client sees
  of each gate and of the completions, is a step of the specification, and every reachable state is
  mapped to a reachable one. Hence the promise of the specification holds of the broker: a gate is
  completed at most once, and with the answer that was accepted for it.
\<close>

theorem broker_refines_spec:
  assumes "reach gb_init (gb_step cfg) b"
  shows "reach spec_init spec_step (spec_state b) \<and>
    (\<forall>e b'. gb_step cfg b e b' \<longrightarrow> spec_step (spec_state b) e (spec_state b')) \<and>
    distinct (map fst (bk_completions b)) \<and>
    (\<forall>g a. (g, Some a) \<in> set (bk_completions b) \<longleftrightarrow> fst (spec_state b) g = Some (Done a))"
proof -
  have ok: "gb_ok cfg b" by (rule gates.reachable_inv [OF assms])
  have reach: "reach spec_init spec_step (spec_state b)"
    using assms
  proof (induction rule: reach.induct)
    case (reach_init b)
    then have "spec_state b = (Map.empty, [])"
      by (auto simp: gb_init_def new_broker_def spec_state_def spec_log_of_def memory_store0_def beginRuntimeInstance_def get_def)
    then show ?case by (simp add: reach.reach_init spec_init_def)
  next
    case (reach_step b e b')
    then show ?case
      using step_simulates [OF gates.reachable_inv [OF reach_step.hyps(1)]] by (auto simp: gb_step_def intro: reach.reach_step)
  qed
  have "(g, a) \<in> set (snd (spec_state b)) \<longleftrightarrow> (g, Some a) \<in> set (bk_completions b)" for g a
    by (force simp: spec_state_def spec_log_of_def split: option.splits)
  then show ?thesis
    using reach spec_log [OF reach] step_simulates [OF ok] ok by (auto simp: gb_step_def gb_ok_def)
qed

section \<open>Advancing needs authority\<close>

lemma advances_simps [simp]:
  "bk_advances (audit a b) = bk_advances b" "bk_advances (returns g res b) = bk_advances b"
  "bk_advances (end_task g res b) = bk_advances b" "bk_advances (to_phase g p b) = bk_advances b"
  "bk_advances (save r b) = bk_advances b" "bk_advances (recordProof g q b) = bk_advances b"
  "bk_advances (startTerminalize g b) = bk_advances b" "bk_advances (afterTerminalize g hp b) = bk_advances b"
  "bk_advances (afterAdvance g ok b) = bk_advances b" "bk_advances (afterComplete g ok b) = bk_advances b"
  by (auto simp: audit_def returns_def end_task_def to_phase_def save_def recordProof_def startTerminalize_def afterTerminalize_def
      afterAdvance_def afterComplete_def Let_def split: option.splits gate_task.splits hook_proof.splits)

lemma lose_advances [simp]: "bk_advances (loseContinuation now g b) = bk_advances b"
  by (simp add: loseContinuation_def Let_def split: option.split)

lemma fence_advances [simp]: "bk_advances (foldl (\<lambda>s g. loseContinuation now g s) b gs) = bk_advances b"
  by (induction gs arbitrary: b) simp_all

lemma openGate_advances [simp]: "bk_advances (snd (openGate cfg inp cont now b)) = bk_advances b"
  by (auto simp: openGate_def install_gate_def mark_superseded_def Let_def split: sum.split option.split prod.split)

lemma resolveUnlocked_advances [simp]: "bk_advances (resolveUnlocked cfg resp opts now b) = bk_advances b"
  by (auto simp: resolveUnlocked_def answer_again_def answer_pending_def Let_def split: sum.split option.split)

lemma step_advances:
  assumes "gb_apply cfg e b = Some b'" "bk_advances b' \<noteq> bk_advances b"
  shows "\<exists>g. e \<in> {EFinalize g True, EResume g} \<and> b' = startAdvance cfg g b"
proof (cases e)
  case (EAck g policy)
  then show ?thesis using assms by (auto simp: updateAckPolicy_def split: option.splits if_splits)
next
  case (EFinalize g ok)
  then show ?thesis using assms by (auto simp: afterFinalize_def split: option.splits if_splits)
qed (use assms in \<open>auto simp: afterBefore_def selectRecovery_def startRecovery_def fenceContinuations_def prepareTerminalization_def
    clearPreparedTerminalization_def restart_def new_broker_def split: if_splits option.splits\<close>)

lemma startAdvance_cases:
  assumes "bk_advances (startAdvance cfg g b) \<noteq> bk_advances b"
  obtains r where "gate b g = Some r" "pg_status r = GAccepted" "\<not> pg_advanced r" "bc_advance cfg" "hasLiveContinuation b g"
    "startAdvance cfg g b = to_phase g PAdvance (b\<lparr>bk_advances := bk_advances b @ [(g, pg_answer r)]\<rparr>)"
  using assms by (auto simp: startAdvance_def split: option.splits if_splits)

lemma phase_continuations [simp]:
  "bk_continuations (to_phase g p b) = bk_continuations b" "bk_live (to_phase g p b) = bk_live b"
  "bk_instance (to_phase g p b) = bk_instance b"
  by (simp_all add: to_phase_def split: option.split)

text \<open>
  C7. The workflow is advanced only with authority: whenever \<open>advance\<close> is called for a gate, in
  \<open>resolve\<close> or in \<open>recover\<close>, the gate is accepted and not advanced yet, it belongs to
  this runtime instance, its continuation lives, its presentation was terminalized with a recorded
  proof, and the answer that is handed over is the accepted one, which its schema admits.
\<close>

theorem advance_needs_authority:
  assumes "reach gb_init (gb_step cfg) b" "gb_step cfg b e b'" "bk_advances b' \<noteq> bk_advances b"
  shows "\<exists>g r a. bk_advances b' = bk_advances b @ [(g, Some a)] \<and> gate b' g = Some r \<and> pg_answer r = Some a \<and>
    pg_status r = GAccepted \<and> \<not> pg_advanced r \<and> pg_owner r = Some (bk_instance b') \<and> pg_terminalProof r \<noteq> None \<and>
    hasLiveContinuation b' g \<and> bc_advance cfg \<and>
    (\<exists>c. schemaHash (bc_sha cfg) c = schemaHash (bc_sha cfg) (wf_schema (pg_gate r)) \<and> validate_compiled (bc_rx cfg) c a = [])"
proof -
  have ok: "gb_ok cfg b" by (rule gates.reachable_inv [OF assms(1)])
  then have ok': "gb_ok cfg b'" using gb_step_ok [OF assms(2)] by simp
  obtain g where g: "e \<in> {EFinalize g True, EResume g}" "b' = startAdvance cfg g b"
    using step_advances [of cfg e b b'] assms(2,3) by (auto simp: gb_step_def)
  then obtain t where t: "map_get (bk_tasks b) g = Some t"
    using assms(2) by (auto simp: gb_step_def in_phase_def split: if_splits)
  obtain r where r: "gate b g = Some r" "pg_status r = GAccepted" "\<not> pg_advanced r" "bc_advance cfg" "hasLiveContinuation b g"
    "b' = to_phase g PAdvance (b\<lparr>bk_advances := bk_advances b @ [(g, pg_answer r)]\<rparr>)"
    using startAdvance_cases [of cfg g b] assms(3) unfolding g(2) by metis
  have same: "gate b' g = Some r" "hasLiveContinuation b' g" "bk_advances b' = bk_advances b @ [(g, pg_answer r)]"
    using r(1,5) by (simp_all add: r(6) hasLiveContinuation_def)
  have "map_get (bk_tasks b') g = Some (at_phase PAdvance t)" using t by (simp add: r(6) to_phase_def)
  then have task: "pg_owner r = Some (bk_instance b')" "pg_terminalized r = Some True"
    using gb_okD(2) [OF ok'] same(1) by (fastforce simp: task_ok_def)+
  obtain a rs where "answered cfg r a rs" using gb_okD(1) [OF ok r(1)] r(2) by (auto simp: gate_ok_def record_ok_def)
  then show ?thesis using r(2-4) same task by (intro exI [of _ g] exI [of _ r] exI [of _ a]) (auto simp: answered_def)
qed

section \<open>Repeated answers\<close>

lemma answer_again_result:
  assumes "gb_ok cfg b" "gate b (wr_gate_id resp) = Some r" "pg_status r = GAccepted"
  shows "\<exists>res ev. resolveUnlocked cfg resp opts now b = returns (wr_gate_id resp) res (audit ev b) \<and>
    res = (if \<not> same_key r resp then Inl AlreadyResolved
           else if pg_responseHash r = Some (bodyHash cfg (wr_gate_id resp) (wr_answer resp)) then Inr (the (pg_resolution r))
           else Inl IdempotencyConflict)"
proof -
  obtain a rs where "answered cfg r a rs" using gb_okD(1) [OF assms(1,2)] assms(3) by (auto simp: gate_ok_def record_ok_def)
  then show ?thesis using assms(2,3) by (auto simp: resolveUnlocked_def answer_again_def Let_def answered_def)
qed

text \<open>
  C28. Answers to a gate that is accepted already are idempotent: a response with the same key and the
  accepted answer returns the very resolution that was returned for the first; with the same key and
  another body it is a conflict, and without the key it is refused; none of them changes a record,
  advances or completes anything. The lookup that runs before a presentation is claimed agrees: when
  it reports a completed resolution, answering again returns that resolution.
\<close>

theorem repeated_answers_idempotent:
  assumes "reach gb_init (gb_step cfg) b" "gate b (wr_gate_id resp) = Some r" "pg_status r = GAccepted"
    and "gb_step cfg b (EResolve resp opts now) b'"
  shows "bk_store b' = bk_store b \<and> bk_tasks b' = bk_tasks b \<and> bk_advances b' = bk_advances b \<and> bk_completions b' = bk_completions b \<and>
    (\<exists>res. bk_returned b' = bk_returned b @ [(wr_gate_id resp, res)] \<and>
       (same_key r resp \<and> pg_answer r = Some (wr_answer resp) \<longrightarrow> (\<exists>rs. pg_resolution r = Some rs \<and> res = Inr rs)) \<and>
       (same_key r resp \<and> pg_responseHash r \<noteq> Some (bodyHash cfg (wr_gate_id resp) (wr_answer resp)) \<longrightarrow> res = Inl IdempotencyConflict) \<and>
       (\<not> same_key r resp \<longrightarrow> res = Inl AlreadyResolved) \<and>
       (\<forall>rs. lookupCompletedResolution cfg resp b = Inr (LookupCompleted rs) \<longrightarrow> res = Inr rs))"
proof -
  have ok: "gb_ok cfg b" by (rule gates.reachable_inv [OF assms(1)])
  have b': "b' = resolveUnlocked cfg resp opts now b" using assms(4) by (auto simp: gb_step_def split: if_splits)
  obtain res ev where res: "b' = returns (wr_gate_id resp) res (audit ev b)"
    "res = (if \<not> same_key r resp then Inl AlreadyResolved
           else if pg_responseHash r = Some (bodyHash cfg (wr_gate_id resp) (wr_answer resp)) then Inr (the (pg_resolution r))
           else Inl IdempotencyConflict)"
    using answer_again_result [OF ok assms(2,3), of opts now] b' by metis
  obtain a rs where "answered cfg r a rs" using gb_okD(1) [OF ok assms(2)] assms(3) by (auto simp: gate_ok_def record_ok_def)
  then have r: "pg_answer r = Some a" "pg_responseHash r = Some (bodyHash cfg (wr_gate_id resp) a)" "pg_resolution r = Some rs"
    using gate_id [OF ok assms(2)] by (auto simp: answered_def)
  have "res = Inr x" if "lookupCompletedResolution cfg resp b = Inr (LookupCompleted x)" for x
    using that assms(2,3) r unfolding res(2) by (auto simp: lookupCompletedResolution_def Let_def split: if_splits)
  moreover have "bk_returned b' = bk_returned b @ [(wr_gate_id resp, res)]" by (simp add: res(1) returns_def audit_def)
  ultimately show ?thesis
    using r unfolding res(1) by (simp add: res(2))
qed

section \<open>Accepted answers are completed\<close>

text \<open>The events of a task whose hooks all succeed.\<close>

definition successes :: "string \<Rightarrow> terminal_proof \<Rightarrow> gb_event set" where
  "successes g p = {EBefore g True, EFinalize g True, ETerminalize g (ProofGiven (Some p)), EResume g, EAdvance g True, EComplete g True}"

fun gb_run :: "broker_config \<Rightarrow> gb_event list \<Rightarrow> gate_broker \<Rightarrow> gate_broker option" where
  "gb_run cfg [] b = Some b"
| "gb_run cfg (e # es) b = (case gb_apply cfg e b of None \<Rightarrow> None | Some b' \<Rightarrow> gb_run cfg es b')"

fun rank :: "task_phase \<Rightarrow> nat" where
  "rank PBefore = 6" | "rank PFinalize = 5" | "rank PTerminalize = 4" | "rank PTerminalized = 3" | "rank PAdvance = 2" | "rank PComplete = 1"

text \<open>A call of \<open>resolve\<close> in flight for a gate whose continuation lives.\<close>

definition under_way :: "gate_broker \<Rightarrow> string \<Rightarrow> gate_resolution \<Rightarrow> task_phase \<Rightarrow> json \<Rightarrow> bool" where
  "under_way b g rs ph a \<longleftrightarrow> map_get (bk_tasks b) g = Some (Resolving rs ph) \<and> hasLiveContinuation b g \<and>
     (\<exists>r. gate b g = Some r \<and> pg_status r = GAccepted \<and> pg_answer r = Some a)"

lemma save_live [simp]: "hasLiveContinuation (save r b) g = hasLiveContinuation b g"
  "hasLiveContinuation (to_phase h p b) g = hasLiveContinuation b g" "hasLiveContinuation (b\<lparr>bk_proofs := x\<rparr>) g = hasLiveContinuation b g"
  "hasLiveContinuation (b\<lparr>bk_advances := l\<rparr>) g = hasLiveContinuation b g"
  "hasLiveContinuation (b\<lparr>bk_completions := l\<rparr>) g = hasLiveContinuation b g"
  by (simp_all add: hasLiveContinuation_def save_def)

lemma under_way_phase:
  assumes "under_way b g rs ph a"
  shows "under_way (to_phase g ph' b) g rs ph' a"
  using assms by (simp add: under_way_def) (simp add: to_phase_def)

lemma recordProof_under_way:
  assumes "gb_ok cfg b" "under_way b g rs ph a" "ph \<noteq> PComplete"
  shows "under_way (recordProof g (Some p) b) g rs PTerminalized a"
proof -
  obtain r where r: "gate b g = Some r" "pg_status r = GAccepted" "pg_answer r = Some a" using assms(2) by (auto simp: under_way_def)
  have "\<not> pg_advanced r"
    using gb_okD(2) [OF assms(1), of g "Resolving rs ph"] assms(2,3) r(1) by (auto simp: under_way_def task_ok_def)
  let ?r = "r\<lparr>pg_terminalized := Some True, pg_terminalProof := Some p\<rparr>"
  have "under_way (save ?r (b\<lparr>bk_proofs := map_delete g (bk_proofs b)\<rparr>)) g rs ph a"
    using assms(2) r gate_id [OF assms(1) r(1)] by (simp add: under_way_def ms.lookup_store)
  then show ?thesis
    using r(1,2) \<open>\<not> pg_advanced r\<close> by (simp add: recordProof_def Let_def under_way_phase)
qed

lemma startAdvance_under_way:
  assumes "gb_ok cfg b" "under_way b g rs ph a" "ph \<noteq> PComplete" "bc_advance cfg"
  shows "under_way (startAdvance cfg g b) g rs PAdvance a"
proof -
  obtain r where r: "gate b g = Some r" "pg_status r = GAccepted" "pg_answer r = Some a" using assms(2) by (auto simp: under_way_def)
  have "\<not> pg_advanced r"
    using gb_okD(2) [OF assms(1), of g "Resolving rs ph"] assms(2,3) r(1) by (auto simp: under_way_def task_ok_def)
  then have "startAdvance cfg g b = to_phase g PAdvance (b\<lparr>bk_advances := bk_advances b @ [(g, Some a)]\<rparr>)"
    using r assms(2,4) by (simp add: startAdvance_def under_way_def)
  moreover have "under_way (b\<lparr>bk_advances := bk_advances b @ [(g, Some a)]\<rparr>) g rs ph a" using assms(2) by (simp add: under_way_def)
  ultimately show ?thesis by (simp add: under_way_phase)
qed

lemma progress:
  assumes "gb_ok cfg b" "under_way b g rs ph a" "ph \<noteq> PComplete" "bc_advance cfg"
  shows "\<exists>e\<in>successes g p. \<exists>b' ph'. gb_apply cfg e b = Some b' \<and> under_way b' g rs ph' a \<and> rank ph' < rank ph"
proof -
  have inp: "in_phase b g ph" using assms(2) by (simp add: in_phase_def under_way_def)
  obtain r where r: "gate b g = Some r" "pg_status r = GAccepted" "pg_answer r = Some a" using assms(2) by (auto simp: under_way_def)
  have adv: "\<not> pg_advanced r"
    using gb_okD(2) [OF assms(1), of g "Resolving rs ph"] assms(2,3) r(1) by (auto simp: under_way_def task_ok_def)
  note use = recordProof_under_way [OF assms(1-3)] startAdvance_under_way [OF assms] under_way_phase [OF assms(2)]
  show ?thesis
  proof (cases ph)
    case PBefore
    then show ?thesis using inp use(3) [of PFinalize]
      by (intro bexI [of _ "EBefore g True"] exI [of _ "to_phase g PFinalize b"] exI [of _ PFinalize])
        (auto simp: successes_def afterBefore_def)
  next
    case PFinalize
    have "\<not> is_recovering g b" using assms(2) by (simp add: is_recovering_def under_way_def)
    then have "\<exists>ph'. under_way (afterFinalize cfg g True b) g rs ph' a \<and> rank ph' < rank PFinalize"
      using r(1,2) adv use
      by (auto simp: afterFinalize_def startTerminalize_def split: option.split intro: exI [of _ PAdvance] exI [of _ PTerminalized] exI [of _ PTerminalize])
    then show ?thesis using inp PFinalize by (intro bexI [of _ "EFinalize g True"]) (auto simp: successes_def)
  next
    case PTerminalize
    then show ?thesis using inp use(1) [of p]
      by (intro bexI [of _ "ETerminalize g (ProofGiven (Some p))"] exI [of _ "recordProof g (Some p) b"] exI [of _ PTerminalized])
        (auto simp: successes_def afterTerminalize_def)
  next
    case PTerminalized
    then show ?thesis using inp use(2)
      by (intro bexI [of _ "EResume g"] exI [of _ "startAdvance cfg g b"] exI [of _ PAdvance]) (auto simp: successes_def)
  next
    case PAdvance
    let ?b = "(save (r\<lparr>pg_advanced := True\<rparr>) b)\<lparr>bk_completions := bk_completions b @ [(g, Some a)]\<rparr>"
    have "afterAdvance g True b = to_phase g PComplete ?b"
      using r assms(2) by (simp add: afterAdvance_def Let_def is_recovering_def under_way_def)
    moreover have "under_way ?b g rs ph a"
      using assms(2) r gate_id [OF assms(1) r(1)] by (simp add: under_way_def ms.lookup_store)
    ultimately show ?thesis using inp PAdvance under_way_phase
      by (intro bexI [of _ "EAdvance g True"] exI [of _ "afterAdvance g True b"] exI [of _ PComplete]) (auto simp: successes_def)
  qed (use assms(3) in simp)
qed

lemma under_way_completes:
  assumes "gb_ok cfg b" "under_way b g rs ph a" "bc_advance cfg"
  shows "\<exists>es b'. set es \<subseteq> successes g p \<and> length es \<le> rank ph \<and> gb_run cfg es b = Some b' \<and>
    (g, Some a) \<in> set (bk_completions b') \<and> (g, Inr rs) \<in> set (bk_returned b') \<and> map_get (bk_tasks b') g = None"
  using assms(1,2)
proof (induction "rank ph" arbitrary: b ph rule: less_induct)
  case less
  show ?case
  proof (cases "ph = PComplete")
    case True
    obtain r where r: "gate b g = Some r" "pg_answer r = Some a" using less.prems(2) by (auto simp: under_way_def)
    have "pg_advanced r"
      using gb_okD(2) [OF less.prems(1), of g "Resolving rs ph"] less.prems(2) r(1) True by (auto simp: under_way_def task_ok_def)
    then have "(g, Some a) \<in> set (bk_completions b)"
      using gb_okD(1) [OF less.prems(1) r(1)] r(2) by (fastforce simp: gate_ok_def)
    then show ?thesis
      using less.prems(2) True
      by (intro exI [of _ "[EComplete g True]"] exI [of _ "afterComplete g True b"])
        (auto simp: successes_def under_way_def in_phase_def afterComplete_quiet, auto simp: afterComplete_def end_task_def returns_def Let_def)
  next
    case False
    obtain e c ph' where e: "e \<in> successes g p" "gb_apply cfg e b = Some c" "under_way c g rs ph' a" "rank ph' < rank ph"
      using progress [OF less.prems False assms(3)] by blast
    have "gb_ok cfg c" using gb_step_ok [of cfg b e c] e(2) less.prems(1) by (simp add: gb_step_def)
    then obtain es b' where "set es \<subseteq> successes g p" "length es \<le> rank ph'" "gb_run cfg es c = Some b'"
      "(g, Some a) \<in> set (bk_completions b')" "(g, Inr rs) \<in> set (bk_returned b')" "map_get (bk_tasks b') g = None"
      using less.hyps [OF e(4) _ e(3)] by blast
    then show ?thesis using e by (intro exI [of _ "e # es"] exI [of _ b']) auto
  qed
qed

text \<open>
  C8. An admissible answer to a live pending gate is always completed: it is accepted, and if the
  hooks succeed and the continuation is not revoked, at most six further steps of the task complete
  the gate with this answer, return the accepted resolution to the caller and free the gate's lock.
\<close>

theorem accepted_answer_completes:
  assumes "reach gb_init (gb_step cfg) b" "bc_advance cfg" "gate b (wr_gate_id resp) = Some r" "pg_status r = GPending"
    and "pg_owner r = Some (bk_instance b)" "hasLiveContinuation b (wr_gate_id resp)" "map_get (bk_tasks b) (wr_gate_id resp) = None"
    and "compileGateSchema (bc_sha cfg) (bc_rx_error cfg) (wf_schema (pg_gate r)) (bk_cache b) = Inr (c, cache)"
    and "validateGateAnswer (bc_rx cfg) c (wr_gate_id resp) (wr_answer resp) = None"
    and "classifyAskGateDisposition (bc_isDI cfg) (wf_context (pg_gate r)) (wf_options (pg_gate r)) (wr_answer resp) = Inr d"
  shows "\<exists>es b' rs. set es \<subseteq> successes (wr_gate_id resp) p \<and> length es \<le> 6 \<and>
    gb_run cfg (EResolve resp opts now # es) b = Some b' \<and> (wr_gate_id resp, Some (wr_answer resp)) \<in> set (bk_completions b') \<and>
    rs_status rs = RAccepted \<and> (wr_gate_id resp, Inr rs) \<in> set (bk_returned b') \<and> map_get (bk_tasks b') (wr_gate_id resp) = None"
proof -
  let ?g = "wr_gate_id resp"
  let ?rs = "resolution_of cfg resp RAccepted None now"
  let ?b = "resolveUnlocked cfg resp opts now b"
  have ok: "gb_ok cfg b" by (rule gates.reachable_inv [OF assms(1)])
  have id: "pg_id r = ?g" by (rule gate_id [OF ok assms(3)])
  have "under_way ?b ?g ?rs PBefore (wr_answer resp)"
    using assms(3-6,8-10) id
    by (cases "ro_disposition opts") (auto simp: resolveUnlocked_def answer_pending_def Let_def under_way_def ms.lookup_store
        accepted_record_def hasLiveContinuation_def audit_def save_def)
  moreover have "gb_ok cfg ?b" by (rule resolveUnlocked_ok [OF ok assms(7)])
  ultimately obtain es b' where "set es \<subseteq> successes ?g p" "length es \<le> 6" "gb_run cfg es ?b = Some b'"
    "(?g, Some (wr_answer resp)) \<in> set (bk_completions b')" "(?g, Inr ?rs) \<in> set (bk_returned b')" "map_get (bk_tasks b') ?g = None"
    using under_way_completes [of cfg ?b ?g ?rs PBefore "wr_answer resp" p, OF _ _ assms(2)] by (simp only: rank.simps) blast
  then show ?thesis
    using assms(7) by (intro exI [of _ es] exI [of _ b'] exI [of _ ?rs]) (simp add: resolution_of_def)
qed

section \<open>A run\<close>

definition demo_cfg :: broker_config where
  "demo_cfg = \<lparr>bc_runId = ''r1'', bc_sha = (\<lambda>s. s), bc_rx = (\<lambda>p x. True), bc_rx_error = (\<lambda>p. None), bc_isDI = (\<lambda>x. False),
     bc_advance = True\<rparr>"

definition demo_input :: open_gate_input where
  "demo_input = \<lparr>og_stage = ''ralplan'', og_kind = ''approval'', og_schema = JObj [], og_options = None, og_context = None,
     og_supersedes = None, og_runtimeTurnId = None\<rparr>"

definition demo_id :: string where
  "demo_id = ''wg_r1_ralplan_000001''"

definition demo_response :: gate_response where
  "demo_response = \<lparr>wr_gate_id = demo_id, wr_answer = JBool True, wr_idempotency_key = Some ''k''\<rparr>"

definition demo_options :: resolution_options where
  "demo_options = \<lparr>ro_disposition = None, ro_origin = None, ro_ack = None\<rparr>"

definition demo_gate :: workflow_gate where
  "demo_gate = \<lparr>wf_gate_id = demo_id, wf_stage = ''ralplan'', wf_kind = ''approval'', wf_schema = JObj [], wf_schema_hash = ''{}'',
     wf_options = None, wf_context = empty_context, wf_created_at = ''t1'', wf_runtime_turn_id = None\<rparr>"

definition demo_pending :: gate_broker where
  "demo_pending = \<lparr>bk_store = \<lparr>ms_counters = [(''ralplan'', 1)], ms_gates = [(demo_id, blank_record demo_gate ''i'' GPending)],
       ms_runtime = Some ''i''\<rparr>,
     bk_instance = ''i'', bk_continuations = [(demo_id, \<lparr>ct_not_published = False\<rparr>)], bk_proofs = [], bk_recovering = [],
     bk_tasks = [], bk_live = [demo_id], bk_cache = [(''{}'', JObj [])], bk_emitted = [demo_id],
     bk_audit = [AuditEmitted demo_id ''ralplan'' ''approval''], bk_advances = [], bk_completions = [], bk_returned = []\<rparr>"

lemma demo_compile:
  "compileGateSchema (\<lambda>s. s) (\<lambda>p. None) (JObj []) [] = Inr (\<lparr>cg_schema = JObj [], cg_hash = ''{}''\<rparr>, [(''{}'', JObj [])])"
proof -
  have "walkSchema (\<lambda>p. None) (JObj []) 0 ''#'' = Inr ()"
    by (subst walkSchema.simps)
      (simp add: node_eval property_schemas_def additional_schemas_def item_schemas_def branch_schemas_def)
  then show ?thesis
    by (simp add: compileGateSchema_def schemaHash_def assertSupportedGateSchema_def maxSchemaBytes_def byteLength_def)
qed

lemma pad6_one: "pad6 1 = ''000001''"
  by code_simp

lemma demo_build: "build_gate demo_cfg demo_input 1 ''t1'' = demo_gate"
  by (simp add: build_gate_def demo_cfg_def demo_input_def demo_gate_def demo_id_def gate_id_of_def runShort_def pad6_one [unfolded One_nat_def]
      schemaHash_def Let_def is_alnum_def is_word_char_def is_digit_def)

lemma demo_open:
  "snd (openGate demo_cfg demo_input (Some \<lparr>ct_not_published = False\<rparr>) ''t1'' (new_broker memory_store0 ''i'' ''t0'')) = demo_pending"
proof -
  have "nextSeq ''ralplan'' \<lparr>ms_counters = [], ms_gates = [], ms_runtime = Some ''i''\<rparr> =
      (1, \<lparr>ms_counters = [(''ralplan'', 1)], ms_gates = [], ms_runtime = Some ''i''\<rparr>)"
    by (simp add: nextSeq_def counter_def)
  then show ?thesis
    using demo_compile demo_build
    by (simp add: openGate_def new_broker_def memory_store0_def beginRuntimeInstance_def demo_cfg_def demo_input_def
        RESERVED_WORKFLOW_STAGES_def WORKFLOW_GATE_V1_STAGES_def install_gate_def Let_def mark_superseded_def audit_def save_def
        put_def demo_pending_def blank_record_def demo_gate_def)
qed

lemma demo_pending_reach: "reach gb_init (gb_step demo_cfg) demo_pending"
proof -
  have "reach gb_init (gb_step demo_cfg) (new_broker memory_store0 ''i'' ''t0'')"
    by (rule reach_init) (auto simp: gb_init_def)
  then show ?thesis by (rule reach_step [where e = "EOpen demo_input (Some \<lparr>ct_not_published = False\<rparr>) ''t1''"]) (simp add: gb_step_def demo_open)
qed

lemma demo_gate_pending:
  "gate demo_pending (wr_gate_id demo_response) = Some (blank_record demo_gate ''i'' GPending)"
  "pg_status (blank_record demo_gate ''i'' GPending) = GPending"
  "pg_owner (blank_record demo_gate ''i'' GPending) = Some (bk_instance demo_pending)"
  "hasLiveContinuation demo_pending (wr_gate_id demo_response)" "map_get (bk_tasks demo_pending) (wr_gate_id demo_response) = None"
  by (simp_all add: demo_pending_def get_def demo_response_def blank_record_def hasLiveContinuation_def)

lemma demo_valid:
  "compileGateSchema (bc_sha demo_cfg) (bc_rx_error demo_cfg) (wf_schema (pg_gate (blank_record demo_gate ''i'' GPending))) (bk_cache demo_pending)
     = Inr (\<lparr>cg_schema = JObj [], cg_hash = ''{}''\<rparr>, [(''{}'', JObj [])])"
  "validateGateAnswer (bc_rx demo_cfg) \<lparr>cg_schema = JObj [], cg_hash = ''{}''\<rparr> (wr_gate_id demo_response) (wr_answer demo_response) = None"
  "classifyAskGateDisposition (bc_isDI demo_cfg) (wf_context (pg_gate (blank_record demo_gate ''i'' GPending)))
     (wf_options (pg_gate (blank_record demo_gate ''i'' GPending))) (wr_answer demo_response) = Inr Commit"
proof -
  show "validateGateAnswer (bc_rx demo_cfg) \<lparr>cg_schema = JObj [], cg_hash = ''{}''\<rparr> (wr_gate_id demo_response) (wr_answer demo_response) = None"
    unfolding validateGateAnswer_None
    by (simp add: validate_compiled_def maxAnswerBytes_def byteLength_def demo_response_def, subst validateValue.simps)
      (simp add: value_eval)
qed (simp_all add: demo_cfg_def demo_pending_def compileGateSchema_def schemaHash_def blank_record_def demo_gate_def
    classifyAskGateDisposition_def empty_context_def)

lemma demo_response_sel: "wr_gate_id demo_response = demo_id" "wr_answer demo_response = JBool True"
  by (simp_all add: demo_response_def)

theorem accepted_answer_completes_witness:
  "\<exists>es b'. length es \<le> 6 \<and> gb_run demo_cfg (EResolve demo_response demo_options ''t2'' # es) demo_pending = Some b' \<and>
     (demo_id, Some (JBool True)) \<in> set (bk_completions b')"
proof -
  have "bc_advance demo_cfg" by (simp add: demo_cfg_def)
  from accepted_answer_completes [OF demo_pending_reach this demo_gate_pending demo_valid, of Retired demo_options "''t2''"]
  show ?thesis unfolding demo_response_sel by blast
qed

definition demo_record :: persisted_gate where
  "demo_record = accepted_record demo_cfg demo_response demo_options Commit ''t2'' (blank_record demo_gate ''i'' GPending)"

definition demo_accepted :: gate_broker where
  "demo_accepted = demo_pending\<lparr>bk_store := (bk_store demo_pending)\<lparr>ms_gates := [(demo_id, demo_record)]\<rparr>,
     bk_audit := bk_audit demo_pending @ [AuditAccepted demo_id ''true''],
     bk_tasks := [(demo_id, Resolving (resolution_of demo_cfg demo_response RAccepted None ''t2'') PBefore)]\<rparr>"

lemma demo_accept: "resolveUnlocked demo_cfg demo_response demo_options ''t2'' demo_pending = demo_accepted"
proof -
  have id: "pg_id demo_record = demo_id" by (simp add: demo_record_def accepted_record_def blank_record_def demo_gate_def)
  have hash: "answerHashOf (bc_sha demo_cfg) (JBool True) = ''true''" by (simp add: answerHashOf_def demo_cfg_def)
  have cache: "demo_pending\<lparr>bk_cache := [(''{}'', JObj [])]\<rparr> = demo_pending" by (simp add: demo_pending_def)
  show ?thesis
    using demo_gate_pending demo_valid
    by (simp add: resolveUnlocked_def answer_pending_def Let_def demo_options_def [THEN arg_cong, of ro_disposition] demo_response_sel
        hash cache demo_record_def [symmetric] audit_def save_def put_def id, simp add: demo_accepted_def demo_pending_def demo_options_def)
qed

lemma demo_accept_step: "gb_step demo_cfg demo_pending (EResolve demo_response demo_options ''t2'') demo_accepted"
  using demo_gate_pending(5) by (simp add: gb_step_def demo_accept)

lemma demo_accepted_reach: "reach gb_init (gb_step demo_cfg) demo_accepted"
  using demo_pending_reach demo_accept_step by (rule reach.reach_step)

lemma demo_accepted_gate: "gate demo_accepted (wr_gate_id demo_response) = Some demo_record"
  by (simp add: demo_accepted_def get_def demo_response_sel)

lemma demo_record_sel: "pg_status demo_record = GAccepted" "pg_answer demo_record = Some (JBool True)" "\<not> pg_advanced demo_record"
  "pg_id demo_record = demo_id" "pg_terminalized demo_record = Some False" "pg_key demo_record = Some ''k''"
  by (simp_all add: demo_record_def accepted_record_def demo_response_def blank_record_def demo_gate_def)

theorem first_answer_wins_witness:
  "gb_step demo_cfg demo_pending (EResolve demo_response demo_options ''t2'') demo_accepted \<and>
   (\<exists>r. gate demo_accepted demo_id = Some r \<and> pg_gate r = demo_gate \<and> pg_answer r = Some (JBool True))"
  using first_answer_wins [OF demo_pending_reach demo_accept_step demo_gate_pending(1)] demo_accepted_gate demo_accept_step
  by (auto simp: demo_response_sel demo_record_sel blank_record_def)

theorem broker_refines_spec_witness:
  "fst (spec_state demo_pending) demo_id = Some Waiting \<and> fst (spec_state demo_accepted) demo_id = Some (Answered (JBool True)) \<and>
   spec_step (spec_state demo_pending) (EResolve demo_response demo_options ''t2'') (spec_state demo_accepted)"
  using broker_refines_spec [OF demo_pending_reach] demo_accept_step demo_accepted_gate demo_gate_pending(1,2) demo_record_sel
  by (simp add: spec_state_def spec_of_def demo_response_sel blank_record_def)

definition demo_proved :: gate_broker where
  "demo_proved = demo_accepted\<lparr>bk_store := put (demo_record\<lparr>pg_terminalized := Some True, pg_terminalProof := Some Retired\<rparr>) (bk_store demo_accepted),
     bk_tasks := [(demo_id, Resolving (resolution_of demo_cfg demo_response RAccepted None ''t2'') PTerminalized)]\<rparr>"

lemma demo_to_proved:
  "gb_run demo_cfg [EBefore demo_id True, EFinalize demo_id True, ETerminalize demo_id (ProofGiven (Some Retired))] demo_accepted
     = Some demo_proved"
proof -
  have acc: "bk_tasks demo_accepted = [(demo_id, Resolving (resolution_of demo_cfg demo_response RAccepted None ''t2'') PBefore)]"
    "gate demo_accepted demo_id = Some demo_record" "bk_proofs demo_accepted = []"
    using demo_accepted_gate by (simp_all add: demo_accepted_def demo_pending_def demo_response_sel)
  show ?thesis
    by (simp add: in_phase_def acc afterBefore_def to_phase_def afterFinalize_def demo_record_sel is_recovering_def
        startTerminalize_def afterTerminalize_def recordProof_def save_def demo_proved_def)
qed

lemma reach_run: "gb_run cfg es b = Some b' \<Longrightarrow> reach gb_init (gb_step cfg) b \<Longrightarrow> reach gb_init (gb_step cfg) b'"
proof (induction es arbitrary: b)
  case (Cons e es)
  then obtain c where "gb_apply cfg e b = Some c" "gb_run cfg es c = Some b'" by (auto split: option.splits)
  then show ?case using Cons.IH reach_step [OF Cons.prems(2), of e c] by (simp add: gb_step_def)
qed simp

lemma demo_proved_reach: "reach gb_init (gb_step demo_cfg) demo_proved"
  by (rule reach_run [OF demo_to_proved demo_accepted_reach])

lemma demo_advance:
  "gb_step demo_cfg demo_proved (EResume demo_id) (startAdvance demo_cfg demo_id demo_proved)"
  "bk_advances (startAdvance demo_cfg demo_id demo_proved) = [(demo_id, Some (JBool True))]" "bk_advances demo_proved = []"
proof -
  have "gate demo_proved demo_id = Some (demo_record\<lparr>pg_terminalized := Some True, pg_terminalProof := Some Retired\<rparr>)"
    by (simp add: demo_proved_def ms.lookup_store demo_record_sel)
  then show "bk_advances (startAdvance demo_cfg demo_id demo_proved) = [(demo_id, Some (JBool True))]"
    by (simp add: startAdvance_def demo_record_sel demo_proved_def demo_accepted_def demo_pending_def hasLiveContinuation_def demo_cfg_def)
qed (simp_all add: gb_step_def in_phase_def demo_proved_def demo_accepted_def demo_pending_def)

theorem advance_needs_authority_witness:
  "\<exists>r. gate (startAdvance demo_cfg demo_id demo_proved) demo_id = Some r \<and> pg_terminalProof r \<noteq> None \<and> pg_answer r = Some (JBool True)"
proof -
  have "bk_advances (startAdvance demo_cfg demo_id demo_proved) \<noteq> bk_advances demo_proved" by (simp add: demo_advance(2,3))
  from advance_needs_authority [OF demo_proved_reach demo_advance(1) this] show ?thesis by (auto simp: demo_advance(2,3))
qed

definition demo_retry :: gate_broker where
  "demo_retry = afterBefore demo_id False demo_accepted"

lemma demo_retry_reach: "reach gb_init (gb_step demo_cfg) demo_retry"
proof (rule reach_step [OF demo_accepted_reach])
  show "gb_step demo_cfg demo_accepted (EBefore demo_id False) demo_retry"
    by (simp add: gb_step_def demo_retry_def in_phase_def demo_accepted_def)
qed

lemma demo_retry_gate: "gate demo_retry (wr_gate_id demo_response) = Some demo_record" "map_get (bk_tasks demo_retry) demo_id = None"
  using demo_accepted_gate by (simp_all add: demo_retry_def afterBefore_def)

theorem repeated_answers_idempotent_witness:
  "\<exists>b' rs. gb_step demo_cfg demo_retry (EResolve demo_response demo_options ''t3'') b' \<and> pg_resolution demo_record = Some rs \<and>
     (demo_id, Inr rs) \<in> set (bk_returned b')"
proof -
  let ?b = "resolveUnlocked demo_cfg demo_response demo_options ''t3'' demo_retry"
  have step: "gb_step demo_cfg demo_retry (EResolve demo_response demo_options ''t3'') ?b"
    using demo_retry_gate(2) by (simp add: gb_step_def demo_response_sel)
  have "same_key demo_record demo_response \<and> pg_answer demo_record = Some (wr_answer demo_response)"
    by (simp add: same_key_def demo_record_sel demo_response_def)
  then show ?thesis
    using repeated_answers_idempotent [OF demo_retry_reach demo_retry_gate(1) demo_record_sel(1) step] step
    by (auto simp: demo_response_sel)
qed

end
