(* ===== verification/Hashline_Text.thy ===== *)
theory Hashline_Text
  imports JS_Prelude
begin

text \<open>
  Text as the line editor sees it (\<open>hashline/hash.ts\<close>, \<open>hashline/constants.ts\<close>,
  \<open>edit/normalize.ts\<close>). The op sigils of the editor lie outside Latin-1, so a string here is a list
  of UTF-16 code units, written as natural numbers. The theory has the white space and line terminators
  of the language, lines and their line endings, decimal numbers, and the line hash. The hash function
  xxHash32 of the runtime is the parameter \<open>xx\<close>.
\<close>

type_synonym ustr = "nat list"

definition utf16 :: "string \<Rightarrow> ustr" where
  "utf16 s = map of_char s"

lemma utf16_simps [simp]:
  "utf16 [] = []" "utf16 (c # s) = of_char c # utf16 s" "utf16 (s @ t) = utf16 s @ utf16 t"
  by (simp_all add: utf16_def)

section \<open>Characters\<close>

text \<open>The class \<open>\\s\<close>, which is also what \<open>trim\<close> removes, and the terminators that \<open>.\<close> excludes.\<close>

definition is_space :: "nat \<Rightarrow> bool" where
  "is_space c \<longleftrightarrow> 9 \<le> c \<and> c \<le> 13 \<or> c = 32 \<or> c = 160 \<or> c = 0x1680 \<or> 0x2000 \<le> c \<and> c \<le> 0x200A \<or>
     c = 0x2028 \<or> c = 0x2029 \<or> c = 0x202F \<or> c = 0x205F \<or> c = 0x3000 \<or> c = 0xFEFF"

definition is_terminator :: "nat \<Rightarrow> bool" where
  "is_terminator c \<longleftrightarrow> c = 10 \<or> c = 13 \<or> c = 0x2028 \<or> c = 0x2029"

definition is_dec :: "nat \<Rightarrow> bool" where
  "is_dec c \<longleftrightarrow> 48 \<le> c \<and> c \<le> 57"

definition is_lower :: "nat \<Rightarrow> bool" where
  "is_lower c \<longleftrightarrow> 97 \<le> c \<and> c \<le> 122"

definition blank :: "ustr \<Rightarrow> bool" where
  "blank s \<longleftrightarrow> list_all is_space s"

definition trimEnd :: "ustr \<Rightarrow> ustr" where
  "trimEnd s = rev (dropWhile is_space (rev s))"

definition utrim :: "ustr \<Rightarrow> ustr" where
  "utrim s = trimEnd (dropWhile is_space s)"

lemma is_dec_not_space: "is_dec c \<Longrightarrow> \<not> is_space c"
  by (auto simp: is_dec_def is_space_def)

lemma is_lower_not_space: "is_lower c \<Longrightarrow> \<not> is_space c"
  by (auto simp: is_lower_def is_space_def)

lemma terminator_is_space: "is_terminator c \<Longrightarrow> is_space c"
  by (auto simp: is_terminator_def is_space_def)

lemma blank_simps [simp]: "blank []" "blank (c # s) \<longleftrightarrow> is_space c \<and> blank s" "blank (s @ t) \<longleftrightarrow> blank s \<and> blank t"
  by (simp_all add: blank_def)

lemma trimEnd_blank: "trimEnd s = [] \<longleftrightarrow> blank s"
  by (auto simp: trimEnd_def blank_def list_all_iff dropWhile_eq_Nil_conv)

lemma trimEnd_snoc: "trimEnd (s @ [c]) = (if is_space c then trimEnd s else s @ [c])"
  by (simp add: trimEnd_def)

lemma trimEnd_id: "s = [] \<or> \<not> is_space (last s) \<Longrightarrow> trimEnd s = s"
  by (cases s rule: rev_cases) (auto simp: trimEnd_snoc trimEnd_def)

lemma trimEnd_split: "\<exists>w. s = trimEnd s @ w \<and> blank w"
proof -
  have "s = rev (dropWhile is_space (rev s)) @ rev (takeWhile is_space (rev s))"
    by (metis rev_append rev_rev_ident takeWhile_dropWhile_id)
  moreover have "blank (rev (takeWhile is_space (rev s)))"
    by (auto simp: blank_def list_all_iff dest: set_takeWhileD)
  ultimately show ?thesis unfolding trimEnd_def by blast
qed

section \<open>Lines\<close>

text \<open>\<open>s.split("\\n")\<close> and \<open>lines.join("\\n")\<close>.\<close>

fun split_lines :: "ustr \<Rightarrow> ustr list" where
  "split_lines [] = [[]]"
| "split_lines (c # s) =
     (if c = 10 then [] # split_lines s
      else (case split_lines s of [] \<Rightarrow> [[c]] | l # ls \<Rightarrow> (c # l) # ls))"

fun join_lines :: "ustr list \<Rightarrow> ustr" where
  "join_lines [] = []"
| "join_lines [l] = l"
| "join_lines (l # m # ls) = l @ 10 # join_lines (m # ls)"

lemma split_lines_ne [simp]: "split_lines s \<noteq> []"
  by (induction s) (auto split: list.splits)

lemma join_split_lines [simp]: "join_lines (split_lines s) = s"
proof (induction s)
  case (Cons c s)
  show ?case
  proof (cases "split_lines s")
    case (Cons l ls)
    then show ?thesis using Cons.IH by (cases ls) auto
  qed simp
qed simp

lemma split_lines_no_newline: "l \<in> set (split_lines s) \<Longrightarrow> 10 \<notin> set l"
  by (induction s arbitrary: l) (auto split: list.splits if_splits)

lemma split_lines_line: "10 \<notin> set l \<Longrightarrow> split_lines l = [l]"
  by (induction l) auto

lemma split_lines_append: "10 \<notin> set l \<Longrightarrow> split_lines (l @ 10 # s) = l # split_lines s"
  by (induction l) auto

lemma split_join_lines:
  assumes "ls \<noteq> []" "\<forall>l\<in>set ls. 10 \<notin> set l"
  shows "split_lines (join_lines ls) = ls"
  using assms by (induction ls rule: join_lines.induct) (auto simp: split_lines_line split_lines_append)

text \<open>\<open>s.split(/\\r?\\n/)\<close>: one carriage return before a newline belongs to the separator.\<close>

definition drop_cr :: "ustr \<Rightarrow> ustr" where
  "drop_cr l = (if l \<noteq> [] \<and> last l = 13 then butlast l else l)"

definition split_crlf :: "ustr \<Rightarrow> ustr list" where
  "split_crlf s = (let ls = split_lines s in map drop_cr (butlast ls) @ [last ls])"

lemma split_crlf_ne [simp]: "split_crlf s \<noteq> []"
  by (simp add: split_crlf_def Let_def)

lemma split_crlf_join:
  assumes "ls \<noteq> []" "\<forall>l\<in>set ls. 10 \<notin> set l" "\<forall>l\<in>set (butlast ls). l = [] \<or> last l \<noteq> 13"
  shows "split_crlf (join_lines ls) = ls"
proof -
  have "map drop_cr (butlast ls) = butlast ls"
    using assms(3) by (intro map_idI) (auto simp: drop_cr_def)
  then show ?thesis using assms by (simp add: split_crlf_def split_join_lines Let_def)
qed

section \<open>Decimal numbers\<close>

text \<open>The decimal digits of a line number and \<open>Number.parseInt(s, 10)\<close> on a string of digits.\<close>

definition dec :: "nat \<Rightarrow> ustr" where
  "dec n = utf16 (nat_str n)"

definition parse_dec :: "ustr \<Rightarrow> nat" where
  "parse_dec ds = foldl (\<lambda>a d. 10 * a + (d - 48)) 0 ds"

lemma of_digit_char: "d < 10 \<Longrightarrow> (of_char (digit_char d) :: nat) = 48 + d"
  by (simp add: digit_char_def)

lemma dec_rec: "dec n = (if n < 10 then [48 + n] else dec (n div 10) @ [48 + n mod 10])"
  by (simp add: dec_def nat_str.simps [of n] of_digit_char)

lemma parse_dec [simp]: "parse_dec (dec n) = n"
proof (induction n rule: nat_str.induct)
  case (1 n)
  then show ?case by (cases "n < 10") (simp_all add: dec_rec [of n] parse_dec_def)
qed

lemma dec_digits: "c \<in> set (dec n) \<Longrightarrow> is_dec c"
proof (induction n rule: nat_str.induct)
  case (1 n)
  show ?case
  proof (cases "n < 10")
    case False
    then have "dec n = dec (n div 10) @ [48 + n mod 10]" by (simp add: dec_rec [of n])
    then show ?thesis using 1 False by (auto simp: is_dec_def)
  qed (use 1 in \<open>auto simp: dec_rec [of n] is_dec_def\<close>)
qed

lemma dec_ne [simp]: "dec n \<noteq> []"
  by (subst dec_rec) simp

lemma dec_head: "0 < n \<Longrightarrow> hd (dec n) \<noteq> 48"
proof (induction n rule: nat_str.induct)
  case (1 n)
  then show ?case by (subst dec_rec) (auto simp: hd_append)
qed

lemma dec_inj: "dec m = dec n \<Longrightarrow> m = n"
  by (metis parse_dec)

section \<open>The line hash\<close>

text \<open>
  The 647 anchors of \<open>bigrams.json\<close>: all pairs of lower-case letters in order, but for 29 pairs.
\<close>

definition no_bigrams :: "string list" where
  "no_bigrams = [''bq'', ''gk'', ''gq'', ''jv'', ''jz'', ''kq'', ''kz'', ''lq'', ''nq'', ''qf'', ''qg'', ''qj'', ''qk'',
     ''qv'', ''qz'', ''rj'', ''tq'', ''wq'', ''wz'', ''xg'', ''xj'', ''xk'', ''xq'', ''xv'', ''xw'', ''yq'', ''zj'', ''zq'', ''zv'']"

definition letters :: "nat list" where
  "letters = [97..<123]"

lemma letters_facts:
  "set letters = {97..<123}" "distinct letters" "length letters = 26" "i < 26 \<Longrightarrow> letters ! i = 97 + i"
  by (simp_all add: letters_def del: upt_rec_numeral)

lemma letters_Cons: "letters = 97 # [98..<123]"
  using upt_conv_Cons [of 97 123] by (simp add: letters_def del: upt_rec_numeral)

definition HL_BIGRAMS :: "ustr list" where
  "HL_BIGRAMS = filter (\<lambda>b. b \<notin> set (map utf16 no_bigrams)) (concat (map (\<lambda>a. map (\<lambda>b. [a, b]) letters) letters))"

definition HL_BIGRAMS_COUNT :: nat where
  "HL_BIGRAMS_COUNT = length HL_BIGRAMS"

definition is_hash :: "ustr \<Rightarrow> bool" where
  "is_hash h \<longleftrightarrow> length h = 2 \<and> list_all is_lower h"

lemma HL_BIGRAMS_hash: "list_all is_hash HL_BIGRAMS"
  by (auto simp: HL_BIGRAMS_def list_all_iff is_hash_def is_lower_def letters_facts(1))

lemma pairs_eq: "concat (map (\<lambda>a. map (\<lambda>b. [a, b]) ys) xs) = map (\<lambda>(a, b). [a, b]) (List.product xs ys)"
  by (induction xs) (simp_all add: comp_def)

lemma pairs_distinct: "distinct (map (\<lambda>(a, b). [a, b]) (List.product letters letters))"
  by (auto simp: distinct_map distinct_product inj_on_def letters_facts(2))

lemma HL_BIGRAMS_distinct: "distinct HL_BIGRAMS"
  unfolding HL_BIGRAMS_def pairs_eq by (rule distinct_filter [OF pairs_distinct])

lemma HL_BIGRAMS_COUNT_647: "HL_BIGRAMS_COUNT = 647"
proof -
  let ?all = "map (\<lambda>(a, b). [a, b]) (List.product letters letters)"
  let ?no = "map utf16 no_bigrams"
  have no: "distinct ?no" by (simp add: no_bigrams_def)
  have "set ?no \<subseteq> set ?all" by (simp add: no_bigrams_def image_iff letters_facts(1))
  then have "card (set ?all - set ?no) = card (set ?all) - card (set ?no)" by (intro card_Diff_subset) simp_all
  also have "card (set ?all) = 676"
    using distinct_card [OF pairs_distinct] by (simp add: length_product letters_facts(3))
  also have "card (set ?no) = 29"
    using distinct_card [OF no] by (simp add: no_bigrams_def)
  finally have "card (set ?all - set ?no) = 647" by simp
  moreover have "set HL_BIGRAMS = set ?all - set ?no"
    unfolding HL_BIGRAMS_def pairs_eq by (simp only: set_filter set_diff_eq)
  ultimately show ?thesis using distinct_card [OF HL_BIGRAMS_distinct] by (simp add: HL_BIGRAMS_COUNT_def)
qed

text \<open>The first row of the table.\<close>

lemma HL_BIGRAMS_row:
  assumes "i < 26"
  shows "HL_BIGRAMS ! i = [97, 97 + i]"
proof -
  let ?P = "\<lambda>b. b \<notin> set (map utf16 no_bigrams)"
  let ?row = "\<lambda>a. map (\<lambda>b. [a, b]) letters"
  have no: "?P [97, b]" for b by (simp add: no_bigrams_def)
  have "filter ?P (?row 97) = ?row 97" by (metis (no_types, lifting) ex_map_conv filter_True no)
  moreover have "concat (map ?row letters) = ?row 97 @ concat (map ?row [98..<123])"
    by (subst (2) letters_Cons) simp
  ultimately have "HL_BIGRAMS = ?row 97 @ filter ?P (concat (map ?row [98..<123]))"
    by (simp add: HL_BIGRAMS_def)
  then obtain rest where r: "HL_BIGRAMS = ?row 97 @ rest" by blast
  show ?thesis unfolding r using assms by (simp add: nth_append letters_facts(3,4))
qed

definition computeLineHash :: "(ustr \<Rightarrow> nat) \<Rightarrow> nat \<Rightarrow> ustr \<Rightarrow> ustr" where
  "computeLineHash xx idx line =
     HL_BIGRAMS ! (xx (trimEnd (filter (\<lambda>c. c \<noteq> 13) line)) mod HL_BIGRAMS_COUNT)"

definition HL_BODY_SEP :: nat where "HL_BODY_SEP = 124"

definition formatLineHash :: "(ustr \<Rightarrow> nat) \<Rightarrow> nat \<Rightarrow> ustr \<Rightarrow> ustr" where
  "formatLineHash xx n line = dec n @ computeLineHash xx n line"

definition formatHashLine :: "(ustr \<Rightarrow> nat) \<Rightarrow> nat \<Rightarrow> ustr \<Rightarrow> ustr" where
  "formatHashLine xx n line = dec n @ computeLineHash xx n line @ [HL_BODY_SEP] @ line"

text \<open>The loop in TypeScript; the native routine is an optimization of it.\<close>

definition formatHashLines :: "(ustr \<Rightarrow> nat) \<Rightarrow> ustr \<Rightarrow> nat \<Rightarrow> ustr" where
  "formatHashLines xx s startLine =
     join_lines (map (\<lambda>(i, line). formatHashLine xx (startLine + i) line) (enumerate 0 (split_lines s)))"

lemma computeLineHash_is_hash: "is_hash (computeLineHash xx n line)"
proof -
  have "computeLineHash xx n line \<in> set HL_BIGRAMS"
    unfolding computeLineHash_def HL_BIGRAMS_COUNT_def [symmetric]
    by (rule nth_mem) (simp add: HL_BIGRAMS_COUNT_def [symmetric] HL_BIGRAMS_COUNT_647)
  then show ?thesis using HL_BIGRAMS_hash by (simp add: list_all_iff)
qed

text \<open>A hash depends on the content only: not on the line number, carriage returns or trailing white space.\<close>

lemma computeLineHash_stable:
  assumes "trimEnd (filter (\<lambda>c. c \<noteq> 13) l) = trimEnd (filter (\<lambda>c. c \<noteq> 13) l')"
  shows "computeLineHash xx n l = computeLineHash xx n' l'"
  using assms by (simp add: computeLineHash_def)

end
