(* ===== verification/Hashline_Parse.thy ===== *)
theory Hashline_Parse
  imports Hashline_Text
begin

text \<open>
  The patch format of the line editor (\<open>hashline/types.ts\<close>, \<open>hashline/parser.ts\<close>): anchors
  and ranges, op lines, payloads, and the parser. The regular expressions of the source are the
  functions whose names they have; each of them has one way to match, so a greedy scan decides it. Line
  numbers are exact. A thrown error is the left side of a sum, with the data its message shows.
\<close>

section \<open>Data\<close>

record anchor =
  an_line :: nat
  an_hash :: ustr

datatype hl_cursor = Bof | Eof | BeforeAnchor anchor | AfterAnchor anchor

datatype hl_edit =
    HInsert (he_cursor: hl_cursor) (he_text: ustr) (he_lineNum: nat) (he_index: nat)
  | HDelete (he_anchor: anchor) (he_lineNum: nat) (he_index: nat)

datatype parse_error =
    ExpectedAnchor nat ustr
  | RangeShape nat
  | RangeBackwards nat
  | RangeTwoHashes nat
  | PayloadMissing nat
  | UnrecognizedOp nat ustr
  | OrphanPayload nat ustr

definition RANGE_INTERIOR_HASH :: ustr where "RANGE_INTERIOR_HASH = utf16 ''**''"
definition BEGIN_PATCH_MARKER :: ustr where "BEGIN_PATCH_MARKER = utf16 ''*** Begin Patch''"
definition END_PATCH_MARKER :: ustr where "END_PATCH_MARKER = utf16 ''*** End Patch''"
definition ABORT_MARKER :: ustr where "ABORT_MARKER = utf16 ''*** Abort''"

text \<open>The only warning of the parser.\<close>

datatype parse_warning = ABORT_WARNING

definition HL_OP_INSERT_BEFORE :: nat where "HL_OP_INSERT_BEFORE = 0xAB"
definition HL_OP_INSERT_AFTER :: nat where "HL_OP_INSERT_AFTER = 0xBB"
definition HL_OP_REPLACE :: nat where "HL_OP_REPLACE = 0x2254"
definition HL_OP_CHARS :: "nat list" where "HL_OP_CHARS = [HL_OP_INSERT_BEFORE, HL_OP_INSERT_AFTER, HL_OP_REPLACE]"
definition HL_FILE_PREFIX :: nat where "HL_FILE_PREFIX = 0xA7"

lemmas marker_defs = RANGE_INTERIOR_HASH_def BEGIN_PATCH_MARKER_def END_PATCH_MARKER_def ABORT_MARKER_def
lemmas sigil_defs = HL_OP_INSERT_BEFORE_def HL_OP_INSERT_AFTER_def HL_OP_REPLACE_def HL_OP_CHARS_def HL_FILE_PREFIX_def HL_BODY_SEP_def

section \<open>Anchors and ranges\<close>

definition is_decoration :: "nat \<Rightarrow> bool" where
  "is_decoration c \<longleftrightarrow> c \<in> set (utf16 ''>+-*'')"

text \<open>What may follow the hash: \<open>(?:\\|.*)?\\s*$\<close>.\<close>

definition lid_tail :: "ustr \<Rightarrow> bool" where
  "lid_tail s = (case s of c # t \<Rightarrow> if c = HL_BODY_SEP then blank (dropWhile (\<lambda>x. \<not> is_terminator x) t) else blank s
     | [] \<Rightarrow> True)"

definition LID_CAPTURE_RE :: "ustr \<Rightarrow> (ustr \<times> ustr) option" where
  "LID_CAPTURE_RE raw =
     (let s = dropWhile is_space (dropWhile is_decoration (dropWhile is_space raw)); ds = takeWhile is_dec s
      in case dropWhile is_dec s of
        a # b # t \<Rightarrow>
          (if ds \<noteq> [] \<and> hd ds \<noteq> 48 \<and> is_lower a \<and> is_lower b \<and> lid_tail t then Some (ds, [a, b]) else None)
      | _ \<Rightarrow> None)"

definition parseLid :: "ustr \<Rightarrow> nat \<Rightarrow> parse_error + anchor" where
  "parseLid raw lineNum =
     (case LID_CAPTURE_RE raw of None \<Rightarrow> Inl (ExpectedAnchor lineNum raw)
      | Some (ds, h) \<Rightarrow> Inr \<lparr>an_line = parse_dec ds, an_hash = h\<rparr>)"

text \<open>\<open>raw.split("..")\<close>, and whether \<open>raw\<close> includes the separator.\<close>

fun split_dots :: "ustr \<Rightarrow> ustr list" where
  "split_dots [] = [[]]"
| "split_dots [c] = [[c]]"
| "split_dots (c # d # s) =
     (if c = 46 \<and> d = 46 then [] # split_dots s
      else (case split_dots (d # s) of [] \<Rightarrow> [[c]] | l # ls \<Rightarrow> (c # l) # ls))"

definition parseRange :: "ustr \<Rightarrow> nat \<Rightarrow> parse_error + (anchor \<times> anchor)" where
  "parseRange raw lineNum =
     (case split_dots raw of
        [one] \<Rightarrow> andThen (parseLid raw lineNum) (\<lambda>start. Inr (start, start))
      | [startRaw, endRaw] \<Rightarrow>
          (if startRaw = [] \<or> endRaw = [] then Inl (RangeShape lineNum)
           else andThen (parseLid startRaw lineNum) (\<lambda>start. andThen (parseLid endRaw lineNum) (\<lambda>stop.
             if an_line stop < an_line start then Inl (RangeBackwards lineNum)
             else if an_line stop = an_line start \<and> an_hash stop \<noteq> an_hash start then Inl (RangeTwoHashes lineNum)
             else Inr (start, stop))))
      | _ \<Rightarrow> Inl (RangeShape lineNum))"

definition expandRange :: "anchor \<Rightarrow> anchor \<Rightarrow> anchor list" where
  "expandRange start stop =
     map (\<lambda>line. \<lparr>an_line = line,
           an_hash = (if line = an_line start then an_hash start
                      else if line = an_line stop then an_hash stop else RANGE_INTERIOR_HASH)\<rparr>)
       [an_line start..<Suc (an_line stop)]"

section \<open>Op lines\<close>

definition parseInsertTarget :: "ustr \<Rightarrow> nat \<Rightarrow> bool \<Rightarrow> parse_error + hl_cursor" where
  "parseInsertTarget raw lineNum before =
     (if raw = utf16 ''BOF'' then Inr Bof
      else if raw = utf16 ''EOF'' then Inr Eof
      else andThen (parseLid raw lineNum) (\<lambda>a. Inr (if before then BeforeAnchor a else AfterAnchor a)))"

definition resolveInlineInsertBody :: "(ustr \<Rightarrow> nat) \<Rightarrow> hl_cursor \<Rightarrow> ustr option \<Rightarrow> ustr option" where
  "resolveInlineInsertBody xx cursor body =
     (case (body, cursor) of
        (Some b, BeforeAnchor a) \<Rightarrow> if computeLineHash xx (an_line a) b = an_hash a then None else Some b
      | (Some b, AfterAnchor a) \<Rightarrow> if computeLineHash xx (an_line a) b = an_hash a then None else Some b
      | _ \<Rightarrow> body)"

text \<open>\<open>INSERT_BEFORE_OP_RE\<close> and \<open>INSERT_AFTER_OP_RE\<close> after their sigil.\<close>

definition INSERT_OP_RE :: "ustr \<Rightarrow> (ustr \<times> ustr option) option" where
  "INSERT_OP_RE s =
     (let s1 = dropWhile is_space s; tok = takeWhile (\<lambda>c. \<not> is_space c \<and> c \<noteq> HL_BODY_SEP) s1;
          rest = dropWhile (\<lambda>c. \<not> is_space c \<and> c \<noteq> HL_BODY_SEP) s1
      in if tok = [] then None
         else (case rest of
             [] \<Rightarrow> Some (tok, None)
           | c # b \<Rightarrow>
               (if c \<noteq> HL_BODY_SEP then (if blank rest then Some (tok, None) else None)
                else if blank (dropWhile (\<lambda>x. \<not> is_terminator x) b)
                  then Some (tok, Some (takeWhile (\<lambda>x. \<not> is_terminator x) b)) else None)))"

definition REPLACE_OP_RE :: "ustr \<Rightarrow> ustr option" where
  "REPLACE_OP_RE s =
     (let s1 = dropWhile is_space s; tok = takeWhile (\<lambda>c. \<not> is_space c) s1
      in if tok \<noteq> [] \<and> hd tok \<notin> set (utf16 ''+<-='') \<and> blank (dropWhile (\<lambda>c. \<not> is_space c) s1) then Some tok else None)"

datatype op_line = OpInsert bool ustr "ustr option" | OpReplace ustr

text \<open>The three matches that the loop tries on a line, in its order; the flag says \<open>before\<close>.\<close>

definition match_op :: "ustr \<Rightarrow> op_line option" where
  "match_op line =
     (case line of [] \<Rightarrow> None
      | c # s \<Rightarrow>
          (if c = HL_OP_INSERT_BEFORE then map_option (\<lambda>(t, b). OpInsert True t b) (INSERT_OP_RE s)
           else if c = HL_OP_INSERT_AFTER then map_option (\<lambda>(t, b). OpInsert False t b) (INSERT_OP_RE s)
           else if c = HL_OP_REPLACE then map_option OpReplace (REPLACE_OP_RE s)
           else None))"

definition isEnvelopeOrAbortMarkerLine :: "ustr \<Rightarrow> bool" where
  "isEnvelopeOrAbortMarkerLine line \<longleftrightarrow> trimEnd line \<in> {BEGIN_PATCH_MARKER, END_PATCH_MARKER, ABORT_MARKER}"

definition isPayloadTerminatorLine :: "ustr \<Rightarrow> bool" where
  "isPayloadTerminatorLine line \<longleftrightarrow>
     (line \<noteq> [] \<and> (hd line = HL_FILE_PREFIX \<or> hd line \<in> set HL_OP_CHARS)) \<or> isEnvelopeOrAbortMarkerLine line"

text \<open>The payload after an op line, and the lines after the payload.\<close>

definition collectPayload :: "ustr list \<Rightarrow> nat \<Rightarrow> bool \<Rightarrow> parse_error + (ustr list \<times> ustr list)" where
  "collectPayload ls opLineNum requirePayload =
     (let payload = takeWhile (\<lambda>l. \<not> isPayloadTerminatorLine l) ls
      in if payload = [] \<and> requirePayload then Inl (PayloadMissing opLineNum)
         else Inr (payload, dropWhile (\<lambda>l. \<not> isPayloadTerminatorLine l) ls))"

section \<open>The parser\<close>

text \<open>Edits with consecutive indices from \<open>k\<close>.\<close>

definition pushInserts :: "hl_cursor \<Rightarrow> nat \<Rightarrow> nat \<Rightarrow> ustr list \<Rightarrow> hl_edit list" where
  "pushInserts cursor lineNum k texts = map (\<lambda>(i, t). HInsert cursor t lineNum i) (enumerate k texts)"

definition pushDeletes :: "nat \<Rightarrow> nat \<Rightarrow> anchor list \<Rightarrow> hl_edit list" where
  "pushDeletes lineNum k as = map (\<lambda>(i, a). HDelete a lineNum i) (enumerate k as)"

text \<open>What one op line with its payload turns into, and the lines after the payload.\<close>

definition op_edits ::
  "(ustr \<Rightarrow> nat) \<Rightarrow> nat \<Rightarrow> nat \<Rightarrow> op_line \<Rightarrow> ustr list \<Rightarrow> parse_error + (hl_edit list \<times> ustr list \<times> ustr list)" where
  "op_edits xx lineNum k op ls =
     (case op of
        OpInsert before tok body \<Rightarrow>
          andThen (parseInsertTarget tok lineNum before) (\<lambda>cursor.
            let inline = resolveInlineInsertBody xx cursor body
            in andThen (collectPayload ls lineNum (inline = None)) (\<lambda>(payload, rest).
                 Inr (pushInserts cursor lineNum k ((case inline of None \<Rightarrow> [] | Some b \<Rightarrow> [b]) @ payload), payload, rest)))
      | OpReplace tok \<Rightarrow>
          andThen (parseRange tok lineNum) (\<lambda>(start, stop).
            andThen (collectPayload ls lineNum False) (\<lambda>(payload, rest).
              Inr (pushInserts (BeforeAnchor start) lineNum k payload @
                     pushDeletes lineNum (k + length payload) (expandRange start stop), payload, rest))))"

lemma collectPayload_shape:
  "collectPayload ls n r = Inr (payload, rest) \<Longrightarrow> ls = payload @ rest"
  by (auto simp: collectPayload_def Let_def split: if_splits)

lemma op_edits_shape:
  "op_edits xx n k op ls = Inr (es, payload, rest) \<Longrightarrow> ls = payload @ rest"
  by (auto simp: op_edits_def Let_def split: op_line.splits dest!: collectPayload_shape)

text \<open>
  The loop over the lines, where \<open>lineNum\<close> numbers the first of them and \<open>k\<close> is the next edit
  index. An error in an op comes before the errors of the lines behind it.
\<close>

function parse_loop ::
  "(ustr \<Rightarrow> nat) \<Rightarrow> nat \<Rightarrow> nat \<Rightarrow> ustr list \<Rightarrow> parse_error + (hl_edit list \<times> parse_warning list)" where
  "parse_loop xx lineNum k [] = Inr ([], [])"
| "parse_loop xx lineNum k (line # ls) =
     (if blank line then parse_loop xx (Suc lineNum) k ls
      else if line = END_PATCH_MARKER then Inr ([], [])
      else if line = ABORT_MARKER then Inr ([], [ABORT_WARNING])
      else if line = BEGIN_PATCH_MARKER then parse_loop xx (Suc lineNum) k ls
      else (case match_op line of
          Some op \<Rightarrow>
            andThen (op_edits xx lineNum k op ls) (\<lambda>(es, payload, rest).
              andThen (parse_loop xx (lineNum + 1 + length payload) (k + length es) rest) (\<lambda>(es', ws).
                Inr (es @ es', ws)))
        | None \<Rightarrow>
            (if isPayloadTerminatorLine line \<or> hd line \<in> {45, 64, 0xB6} then Inl (UnrecognizedOp lineNum line)
             else Inl (OrphanPayload lineNum line))))"
  by pat_completeness auto
termination
  by (relation "measure (\<lambda>(xx, n, k, ls). length ls)") (auto dest!: op_edits_shape)

text \<open>\<open>diff.split(/\\r?\\n/)\<close> without the empty line after a final newline.\<close>

definition diff_lines :: "ustr \<Rightarrow> ustr list" where
  "diff_lines diff = (let ls = split_crlf diff in if diff \<noteq> [] \<and> last diff = 10 \<and> last ls = [] then butlast ls else ls)"

definition parseHashlineWithWarnings :: "(ustr \<Rightarrow> nat) \<Rightarrow> ustr \<Rightarrow> parse_error + (hl_edit list \<times> parse_warning list)" where
  "parseHashlineWithWarnings xx diff = parse_loop xx 1 0 (diff_lines diff)"

definition parseHashline :: "(ustr \<Rightarrow> nat) \<Rightarrow> ustr \<Rightarrow> parse_error + hl_edit list" where
  "parseHashline xx diff = andThen (parseHashlineWithWarnings xx diff) (\<lambda>(es, ws). Inr es)"

section \<open>Anchors that the parser reads\<close>

definition anchor_ok :: "anchor \<Rightarrow> bool" where
  "anchor_ok a \<longleftrightarrow> 0 < an_line a \<and> is_hash (an_hash a)"

fun cursor_ok :: "hl_cursor \<Rightarrow> bool" where
  "cursor_ok (BeforeAnchor a) = anchor_ok a"
| "cursor_ok (AfterAnchor a) = anchor_ok a"
| "cursor_ok _ = True"

fun edit_ok :: "hl_edit \<Rightarrow> bool" where
  "edit_ok (HInsert c t n i) = cursor_ok c"
| "edit_ok (HDelete a n i) \<longleftrightarrow> 0 < an_line a \<and> (is_hash (an_hash a) \<or> an_hash a = RANGE_INTERIOR_HASH)"

text \<open>The text of an anchor.\<close>

definition lid :: "anchor \<Rightarrow> ustr" where
  "lid a = dec (an_line a) @ an_hash a"

lemma parse_dec_pos:
  assumes "\<forall>c\<in>set ds. is_dec c" "ds \<noteq> []" "hd ds \<noteq> 48"
  shows "0 < parse_dec ds"
proof -
  have mono: "0 < a \<Longrightarrow> 0 < foldl (\<lambda>a d. 10 * a + (d - 48)) a ds" for a :: nat and ds
    by (induction ds arbitrary: a) auto
  obtain d ds' where "ds = d # ds'" using assms(2) by (cases ds) auto
  then show ?thesis using assms mono [of "d - 48" ds'] by (auto simp: parse_dec_def is_dec_def)
qed

lemma parseLid_ok: "parseLid raw n = Inr a \<Longrightarrow> anchor_ok a"
  by (auto simp: parseLid_def LID_CAPTURE_RE_def Let_def anchor_ok_def is_hash_def
      split: option.splits list.splits if_splits intro!: parse_dec_pos dest: set_takeWhileD)

lemma parseRange_ok:
  "parseRange raw n = Inr (a, b) \<Longrightarrow> anchor_ok a \<and> anchor_ok b \<and> an_line a \<le> an_line b"
  by (auto simp: parseRange_def split: list.splits if_splits dest: parseLid_ok)

lemma expandRange_ok:
  "anchor_ok a \<Longrightarrow> anchor_ok b \<Longrightarrow> x \<in> set (expandRange a b) \<Longrightarrow>
   0 < an_line x \<and> (is_hash (an_hash x) \<or> an_hash x = RANGE_INTERIOR_HASH)"
  by (auto simp: expandRange_def anchor_ok_def)

lemma parseInsertTarget_ok: "parseInsertTarget raw n before = Inr c \<Longrightarrow> cursor_ok c"
  by (auto simp: parseInsertTarget_def split: if_splits dest: parseLid_ok)

lemma push_facts [simp]:
  "length (pushInserts c n k ts) = length ts" "length (pushDeletes n k as) = length as"
  "map he_index (pushInserts c n k ts) = [k..<k + length ts]" "map he_index (pushDeletes n k as) = [k..<k + length as]"
  "e \<in> set (pushInserts c n k ts) \<Longrightarrow> he_lineNum e = n" "e \<in> set (pushDeletes n k as) \<Longrightarrow> he_lineNum e = n"
  by (auto simp: pushInserts_def pushDeletes_def comp_def split_beta in_set_enumerate_eq)

lemma push_edits:
  "e \<in> set (pushInserts c n k ts) \<Longrightarrow> \<exists>t i. t \<in> set ts \<and> e = HInsert c t n i"
  "e \<in> set (pushDeletes n k as) \<Longrightarrow> \<exists>a i. a \<in> set as \<and> e = HDelete a n i"
  by (auto simp: pushInserts_def pushDeletes_def dest: set_zip_rightD simp: enumerate_eq_zip)

lemma upt_glue: "[k..<k + m] @ [k + m..<k + (m + l)] = [k..<k + (m + l)]"
  using upt_add_eq_append [of k "k + m" l] by (simp add: add.assoc)

lemma op_edits_ok:
  assumes "op_edits xx n k op ls = Inr (es, payload, rest)"
  shows "(\<forall>e\<in>set es. edit_ok e \<and> he_lineNum e = n) \<and> map he_index es = [k..<k + length es]"
proof (cases op)
  case (OpInsert b tok body)
  obtain c ts where c: "parseInsertTarget tok n b = Inr c" "es = pushInserts c n k ts"
    using assms by (auto simp: op_edits_def OpInsert Let_def)
  have "\<forall>e\<in>set es. edit_ok e \<and> he_lineNum e = n"
    using parseInsertTarget_ok [OF c(1)] by (auto simp: c(2) pushInserts_def)
  then show ?thesis by (simp add: c(2))
next
  case (OpReplace tok)
  obtain a b where r: "parseRange tok n = Inr (a, b)"
      "es = pushInserts (BeforeAnchor a) n k payload @ pushDeletes n (k + length payload) (expandRange a b)"
    using assms by (auto simp: op_edits_def OpReplace)
  have ok: "anchor_ok a" "anchor_ok b" using parseRange_ok [OF r(1)] by auto
  have "edit_ok e \<and> he_lineNum e = n" if "e \<in> set es" for e
    using that expandRange_ok [OF ok] ok(1) by (auto simp: r(2) dest!: push_edits)
  then show ?thesis by (simp add: r(2) add.assoc upt_glue)
qed

lemma parse_loop_ok:
  "parse_loop xx n k ls = Inr (es, ws) \<Longrightarrow>
   (\<forall>e\<in>set es. edit_ok e \<and> n \<le> he_lineNum e \<and> he_lineNum e < n + length ls) \<and>
   map he_index es = [k..<k + length es] \<and> sorted (map he_lineNum es)"
proof (induction xx n k ls arbitrary: es ws rule: parse_loop.induct)
  case (2 xx n k line ls)
  consider "parse_loop xx (Suc n) k ls = Inr (es, ws)" "blank line \<or> line = BEGIN_PATCH_MARKER" "line \<noteq> END_PATCH_MARKER \<or> blank line"
      "line \<noteq> ABORT_MARKER \<or> blank line"
    | "es = []"
    | op e1 payload rest es' where "\<not> blank line" "line \<noteq> END_PATCH_MARKER" "line \<noteq> ABORT_MARKER" "line \<noteq> BEGIN_PATCH_MARKER"
        "match_op line = Some op" "op_edits xx n k op ls = Inr (e1, payload, rest)"
        "parse_loop xx (n + 1 + length payload) (k + length e1) rest = Inr (es', ws)" "es = e1 @ es'"
    using "2.prems" by (auto split: if_splits option.splits)
  then show ?case
  proof cases
    case 1
    then show ?thesis using "2.IH"(1,2) by (cases "blank line") fastforce+
  next
    case 3
    note ok = op_edits_ok [OF 3(6)]
    have len: "length ls = length payload + length rest" using op_edits_shape [OF 3(6)] by simp
    have ih: "(\<forall>e\<in>set es'. edit_ok e \<and> n + 1 + length payload \<le> he_lineNum e \<and> he_lineNum e < n + 1 + length payload + length rest) \<and>
        map he_index es' = [k + length e1..<k + length e1 + length es'] \<and> sorted (map he_lineNum es')"
      using "2.IH"(3) [OF 3(1-5) 3(6) _ _ 3(7)] by simp
    have "map he_lineNum e1 = replicate (length e1) n"
      using ok by (intro replicate_eqI) auto
    then have "sorted (map he_lineNum es)"
      using ih by (auto simp: 3(8) sorted_append)
    moreover have "map he_index es = [k..<k + length es]"
      using ih ok by (simp add: 3(8) add.assoc upt_glue)
    moreover have "edit_ok e \<and> n \<le> he_lineNum e \<and> he_lineNum e < n + length (line # ls)" if "e \<in> set es" for e
      using that ih ok len unfolding 3(8) by fastforce
    ultimately show ?thesis by blast
  qed simp
qed simp

text \<open>
  C40. Whatever the parser returns is well formed: every anchor names a line from one on with a hash of
  two lower-case letters (or the wildcard of a range interior), indices count the edits from zero, and
  the edits come in the order of the patch lines they were written on, which are lines of the patch.
\<close>

theorem parsed_edits_well_formed:
  assumes "parseHashlineWithWarnings xx diff = Inr (es, ws)"
  shows "(\<forall>e\<in>set es. edit_ok e \<and> 1 \<le> he_lineNum e \<and> he_lineNum e \<le> length (diff_lines diff)) \<and>
    map he_index es = [0..<length es] \<and> sorted (map he_lineNum es)"
  using parse_loop_ok [OF assms [unfolded parseHashlineWithWarnings_def]] by auto

section \<open>Patches that are written out\<close>

text \<open>The operations of a patch, their text, and the edits they stand for.\<close>

datatype patch_op = PInsert hl_cursor "ustr list" | PReplace anchor anchor "ustr list"

fun insert_line :: "hl_cursor \<Rightarrow> ustr" where
  "insert_line Bof = HL_OP_INSERT_BEFORE # utf16 ''BOF''"
| "insert_line Eof = HL_OP_INSERT_AFTER # utf16 ''EOF''"
| "insert_line (BeforeAnchor a) = HL_OP_INSERT_BEFORE # lid a"
| "insert_line (AfterAnchor a) = HL_OP_INSERT_AFTER # lid a"

fun op_lines :: "patch_op \<Rightarrow> ustr list" where
  "op_lines (PInsert c ps) = insert_line c # ps"
| "op_lines (PReplace a b ps) = (HL_OP_REPLACE # lid a @ utf16 ''..'' @ lid b) # ps"

definition render :: "patch_op list \<Rightarrow> ustr" where
  "render ops = concat (map (\<lambda>l. l @ [10]) (concat (map op_lines ops)))"

definition payload_ok :: "ustr list \<Rightarrow> bool" where
  "payload_ok ps \<longleftrightarrow> (\<forall>p\<in>set ps. 10 \<notin> set p \<and> (p = [] \<or> last p \<noteq> 13) \<and> \<not> isPayloadTerminatorLine p)"

fun op_ok :: "patch_op \<Rightarrow> bool" where
  "op_ok (PInsert c ps) \<longleftrightarrow> cursor_ok c \<and> ps \<noteq> [] \<and> payload_ok ps"
| "op_ok (PReplace a b ps) \<longleftrightarrow> anchor_ok a \<and> anchor_ok b \<and> an_line a \<le> an_line b \<and>
     (an_line a = an_line b \<longrightarrow> an_hash a = an_hash b) \<and> payload_ok ps"

fun op_meaning :: "nat \<Rightarrow> nat \<Rightarrow> patch_op \<Rightarrow> hl_edit list" where
  "op_meaning n k (PInsert c ps) = pushInserts c n k ps"
| "op_meaning n k (PReplace a b ps) =
     pushInserts (BeforeAnchor a) n k ps @ pushDeletes n (k + length ps) (expandRange a b)"

fun patch_meaning :: "nat \<Rightarrow> nat \<Rightarrow> patch_op list \<Rightarrow> hl_edit list" where
  "patch_meaning n k [] = []"
| "patch_meaning n k (p # ps) =
     op_meaning n k p @ patch_meaning (n + length (op_lines p)) (k + length (op_meaning n k p)) ps"

lemma is_hash_cases: "is_hash h \<Longrightarrow> \<exists>a b. h = [a, b] \<and> is_lower a \<and> is_lower b"
  by (cases h; cases "tl h"; auto simp: is_hash_def)

lemma dec_Cons: "\<exists>d ds. dec n = d # ds \<and> is_dec d \<and> list_all is_dec ds"
  using dec_digits [of _ n] by (cases "dec n") (auto simp: list_all_iff)

lemma is_dec_not_decoration: "is_dec c \<Longrightarrow> \<not> is_decoration c"
  by (auto simp: is_dec_def is_decoration_def)

lemma is_lower_not_dec: "is_lower c \<Longrightarrow> \<not> is_dec c"
  by (auto simp: is_dec_def is_lower_def)

lemma LID_CAPTURE_lid:
  assumes "0 < n" "is_hash h" "lid_tail t"
  shows "LID_CAPTURE_RE (dec n @ h @ t) = Some (dec n, h)"
proof -
  obtain a b where h: "h = [a, b]" "is_lower a" "is_lower b" using is_hash_cases [OF assms(2)] by blast
  obtain d ds where d: "dec n = d # ds" "is_dec d" "list_all is_dec ds" using dec_Cons by blast
  have "takeWhile is_dec (ds @ a # b # t) = ds" "dropWhile is_dec (ds @ a # b # t) = a # b # t"
    using d(3) h is_lower_not_dec by (auto simp: list_all_iff takeWhile_append2 dropWhile_append2)
  then show ?thesis
    using d h assms(3) dec_head [OF assms(1)]
    by (simp add: LID_CAPTURE_RE_def Let_def is_dec_not_space is_dec_not_decoration)
qed

lemma parseLid_lid: "anchor_ok a \<Longrightarrow> parseLid (lid a) n = Inr a"
  using LID_CAPTURE_lid [of "an_line a" "an_hash a" "[]"]
  by (simp add: parseLid_def lid_def anchor_ok_def lid_tail_def)

lemma lid_chars: "anchor_ok a \<Longrightarrow> c \<in> set (lid a) \<Longrightarrow> is_dec c \<or> is_lower c"
  using dec_digits by (auto simp: lid_def anchor_ok_def is_hash_def list_all_iff)

lemma lid_char_facts:
  assumes "anchor_ok a" "c \<in> set (lid a)"
  shows "\<not> is_space c" "c \<noteq> 124" "c \<noteq> 46" "c \<noteq> 10"
  using lid_chars [OF assms] by (auto simp: is_dec_def is_lower_def is_space_def)

lemma lid_hd: "is_dec (hd (lid a))" "lid a \<noteq> []"
  using dec_Cons [of "an_line a"] by (auto simp: lid_def)

lemma INSERT_OP_RE_token:
  assumes "s \<noteq> []" "\<forall>c\<in>set s. \<not> is_space c \<and> c \<noteq> 124"
  shows "INSERT_OP_RE s = Some (s, None)"
proof -
  have w: "dropWhile is_space s = s" using assms by (cases s) auto
  have t: "takeWhile (\<lambda>c. \<not> is_space c \<and> c \<noteq> 124) s = s" "dropWhile (\<lambda>c. \<not> is_space c \<and> c \<noteq> 124) s = []"
    using assms(2) by (simp_all add: takeWhile_eq_all_conv dropWhile_eq_Nil_conv)
  show ?thesis using assms(1) by (simp add: INSERT_OP_RE_def Let_def HL_BODY_SEP_def w t)
qed

lemma REPLACE_OP_RE_token:
  assumes "s \<noteq> []" "\<forall>c\<in>set s. \<not> is_space c" "is_dec (hd s)"
  shows "REPLACE_OP_RE s = Some s"
proof -
  have w: "dropWhile is_space s = s" using assms by (cases s) auto
  have t: "takeWhile (\<lambda>c. \<not> is_space c) s = s" "dropWhile (\<lambda>c. \<not> is_space c) s = []"
    using assms(2) by (simp_all add: takeWhile_eq_all_conv dropWhile_eq_Nil_conv)
  show ?thesis using assms(1,3) by (auto simp: REPLACE_OP_RE_def Let_def is_dec_def w t)
qed

lemma split_dots_none: "46 \<notin> set s \<Longrightarrow> split_dots s = [s]"
  by (induction s rule: split_dots.induct) auto

lemma split_dots_once: "46 \<notin> set s \<Longrightarrow> split_dots (s @ 46 # 46 # t) = s # split_dots t"
proof (induction s)
  case (Cons c s)
  then show ?case by (cases "s @ 46 # 46 # t") (auto simp: Cons_eq_append_conv)
qed simp

lemma parseRange_render:
  assumes "anchor_ok a" "anchor_ok b" "an_line a \<le> an_line b" "an_line a = an_line b \<longrightarrow> an_hash a = an_hash b"
  shows "parseRange (lid a @ utf16 ''..'' @ lid b) n = Inr (a, b)"
proof -
  have "split_dots (lid a @ utf16 ''..'' @ lid b) = [lid a, lid b]"
  proof -
    have "46 \<notin> set (lid a)" "46 \<notin> set (lid b)" using lid_char_facts(3) assms(1,2) by blast+
    then show ?thesis by (simp add: split_dots_once split_dots_none)
  qed
  then show ?thesis using assms by (auto simp: parseRange_def parseLid_lid lid_hd)
qed

lemma match_op_insert:
  assumes "cursor_ok c"
  shows "\<exists>b tok. match_op (insert_line c) = Some (OpInsert b tok None) \<and> parseInsertTarget tok n b = Inr c"
proof (cases c)
  case (BeforeAnchor a)
  then have a: "anchor_ok a" using assms by simp
  then have "INSERT_OP_RE (lid a) = Some (lid a, None)"
    using lid_char_facts [OF a] by (intro INSERT_OP_RE_token) (auto simp: lid_hd)
  moreover have "lid a \<noteq> utf16 ''BOF''" "lid a \<noteq> utf16 ''EOF''" using lid_hd [of a] by (auto simp: is_dec_def)
  ultimately show ?thesis using a by (auto simp: BeforeAnchor match_op_def parseInsertTarget_def parseLid_lid)
next
  case (AfterAnchor a)
  then have a: "anchor_ok a" using assms by simp
  then have "INSERT_OP_RE (lid a) = Some (lid a, None)"
    using lid_char_facts [OF a] by (intro INSERT_OP_RE_token) (auto simp: lid_hd)
  moreover have "lid a \<noteq> utf16 ''BOF''" "lid a \<noteq> utf16 ''EOF''" using lid_hd [of a] by (auto simp: is_dec_def)
  ultimately show ?thesis using a by (auto simp: AfterAnchor match_op_def parseInsertTarget_def parseLid_lid sigil_defs)
qed (auto simp: match_op_def parseInsertTarget_def sigil_defs INSERT_OP_RE_token is_space_def)

lemma match_op_replace:
  assumes "op_ok (PReplace a b ps)"
  shows "match_op (HL_OP_REPLACE # lid a @ utf16 ''..'' @ lid b) = Some (OpReplace (lid a @ utf16 ''..'' @ lid b))"
proof -
  have ok: "anchor_ok a" "anchor_ok b" using assms by simp_all
  have "REPLACE_OP_RE (lid a @ utf16 ''..'' @ lid b) = Some (lid a @ utf16 ''..'' @ lid b)"
    using lid_char_facts(1) [OF ok(1)] lid_char_facts(1) [OF ok(2)] lid_hd [of a]
    by (intro REPLACE_OP_RE_token) (auto simp: is_space_def)
  then show ?thesis by (simp add: match_op_def sigil_defs)
qed

text \<open>The line of an operation starts with a sigil: it is no blank line and no marker, and ends a payload.\<close>

lemma op_line_head:
  assumes "op_ok p"
  obtains c s where "op_lines p = (c # s) # tl (op_lines p)" "c \<in> set HL_OP_CHARS"
  using assms by (cases p; cases "hd (op_lines p)"; cases "case p of PInsert c _ \<Rightarrow> c | _ \<Rightarrow> Bof") (auto simp: sigil_defs)

lemma sigil_line:
  assumes "c \<in> set HL_OP_CHARS"
  shows "\<not> is_space c" "c # s \<noteq> END_PATCH_MARKER" "c # s \<noteq> ABORT_MARKER" "c # s \<noteq> BEGIN_PATCH_MARKER"
    "isPayloadTerminatorLine (c # s)"
  using assms by (auto simp: sigil_defs marker_defs is_space_def isPayloadTerminatorLine_def)

lemma collectPayload_ops:
  assumes "payload_ok ps" "list_all op_ok ops" "ps \<noteq> [] \<or> \<not> r"
  shows "collectPayload (ps @ concat (map op_lines ops)) n r = Inr (ps, concat (map op_lines ops))"
proof -
  let ?P = "\<lambda>l. \<not> isPayloadTerminatorLine l"
  have ps: "\<forall>p\<in>set ps. ?P p" using assms(1) by (simp add: payload_ok_def)
  have "takeWhile ?P (concat (map op_lines ops)) = [] \<and>
        dropWhile ?P (concat (map op_lines ops)) = concat (map op_lines ops)"
  proof (cases ops)
    case (Cons q qs)
    then obtain c s where "op_lines q = (c # s) # tl (op_lines q)" "c \<in> set HL_OP_CHARS"
      using op_line_head [of q] assms(2) by auto
    then have "\<exists>t. concat (map op_lines ops) = (c # s) # t" by (metis Cons append_Cons concat.simps(2) list.simps(9))
    then show ?thesis using sigil_line(5) \<open>c \<in> set HL_OP_CHARS\<close> by auto
  qed simp
  then show ?thesis using assms(3) ps
    by (auto simp: collectPayload_def Let_def takeWhile_append2 dropWhile_append2)
qed

lemma op_edits_render:
  assumes "op_ok p" "list_all op_ok ops"
  shows "\<exists>op. match_op (hd (op_lines p)) = Some op \<and>
    op_edits xx n k op (tl (op_lines p) @ concat (map op_lines ops)) =
      Inr (op_meaning n k p, tl (op_lines p), concat (map op_lines ops))"
proof (cases p)
  case (PInsert c ps)
  then obtain b tok where m: "match_op (insert_line c) = Some (OpInsert b tok None)" "parseInsertTarget tok n b = Inr c"
    using match_op_insert [of c n] assms(1) by auto
  have "collectPayload (ps @ concat (map op_lines ops)) n True = Inr (ps, concat (map op_lines ops))"
    using assms PInsert by (intro collectPayload_ops) auto
  then show ?thesis using m
    by (cases c) (auto simp: PInsert op_edits_def resolveInlineInsertBody_def)
next
  case (PReplace a b ps)
  have "collectPayload (ps @ concat (map op_lines ops)) n False = Inr (ps, concat (map op_lines ops))"
    using assms PReplace by (intro collectPayload_ops) auto
  then show ?thesis using assms(1) match_op_replace [of a b ps] parseRange_render [of a b n]
    by (auto simp: PReplace op_edits_def)
qed

lemma parse_loop_render:
  assumes "list_all op_ok ops"
  shows "parse_loop xx n k (concat (map op_lines ops)) = Inr (patch_meaning n k ops, [])"
  using assms
proof (induction ops arbitrary: n k)
  case (Cons p ops)
  then have ok: "op_ok p" "list_all op_ok ops" by simp_all
  obtain c s where h: "op_lines p = (c # s) # tl (op_lines p)" "c \<in> set HL_OP_CHARS" using op_line_head [OF ok(1)] .
  obtain op where op: "match_op (c # s) = Some op"
      "op_edits xx n k op (tl (op_lines p) @ concat (map op_lines ops)) = Inr (op_meaning n k p, tl (op_lines p), concat (map op_lines ops))"
    using op_edits_render [OF ok] h(1) by (metis list.sel(1))
  have len: "n + length (op_lines p) = Suc (n + length (tl (op_lines p)))" by (subst h(1)) simp
  have split: "concat (map op_lines (p # ops)) = (c # s) # (tl (op_lines p) @ concat (map op_lines ops))"
    by (subst list.map, subst concat.simps, subst h(1)) simp
  show ?case unfolding split
    by (subst parse_loop.simps(2)) (simp add: sigil_line [OF h(2)] op Cons.IH [OF ok(2)] len)
qed simp

lemma render_lines: "render ops = join_lines (concat (map op_lines ops) @ [[]])"
proof -
  have "concat (map (\<lambda>l. l @ [10]) ls) = join_lines (ls @ [[]])" for ls
  proof (induction ls)
    case (Cons l ls)
    then show ?case by (cases ls) simp_all
  qed simp
  then show ?thesis by (simp add: render_def)
qed

lemma op_lines_text:
  assumes "op_ok p" "l \<in> set (op_lines p)"
  shows "10 \<notin> set l \<and> (l = [] \<or> last l \<noteq> 13)"
proof -
  have lid: "10 \<notin> set (lid a) \<and> last (lid a) \<noteq> 13 \<and> lid a \<noteq> []" if "anchor_ok a" for a
    using lid_char_facts(4) [OF that] lid_char_facts(1) [OF that last_in_set] lid_hd(2) [of a]
    by (auto simp: is_space_def)
  show ?thesis
  proof (cases p)
    case (PInsert c ps)
    then show ?thesis using assms lid by (cases c) (auto simp: payload_ok_def sigil_defs)
  next
    case (PReplace a b ps)
    then show ?thesis using assms lid [of a] lid [of b] by (auto simp: payload_ok_def sigil_defs)
  qed
qed

lemma diff_lines_render:
  assumes "list_all op_ok ops" "ops \<noteq> []"
  shows "diff_lines (render ops) = concat (map op_lines ops)"
proof -
  let ?ls = "concat (map op_lines ops)"
  have lines_ok: "\<forall>l\<in>set ?ls. 10 \<notin> set l \<and> (l = [] \<or> last l \<noteq> 13)"
    using assms(1) op_lines_text by (auto simp: list_all_iff)
  have "op_lines (hd ops) \<noteq> []" by (cases "hd ops") auto
  then have "?ls \<noteq> []" using assms(2) by (cases ops) auto
  then have "render ops \<noteq> [] \<and> last (render ops) = 10"
    by (cases ?ls rule: rev_cases) (auto simp: render_def simp del: concat_map_singleton concat_eq_Nil_conv)
  moreover have "split_crlf (render ops) = ?ls @ [[]]"
    unfolding render_lines using lines_ok by (intro split_crlf_join) auto
  ultimately show ?thesis by (simp add: diff_lines_def Let_def)
qed

lemma parse_render:
  assumes "list_all op_ok ops"
  shows "parseHashlineWithWarnings xx (render ops) = Inr (patch_meaning 1 0 ops, [])"
proof (cases "ops = []")
  case True
  then show ?thesis by (simp add: parseHashlineWithWarnings_def render_def diff_lines_def split_crlf_def)
next
  case False
  then show ?thesis
    using assms by (simp add: parseHashlineWithWarnings_def diff_lines_render parse_loop_render)
qed

text \<open>
  C14. The patch format is unambiguous: any list of insertions and replacements with well-formed
  anchors and payload lines that are not themselves op lines, headers or markers is read back by
  the parser as exactly the edits it stands for, payload lines verbatim and in order, without a warning.
\<close>

theorem rendered_patch_parses:
  assumes "list_all op_ok ops"
  shows "parseHashlineWithWarnings xx (render ops) = Inr (patch_meaning 1 0 ops, [])"
  by (rule parse_render [OF assms])

section \<open>Lines pasted from the output of the read tool\<close>

lemma no_terminators:
  assumes "\<forall>c\<in>set line. \<not> is_terminator c"
  shows "takeWhile (\<lambda>x. \<not> is_terminator x) line = line" "dropWhile (\<lambda>x. \<not> is_terminator x) line = []"
  using assms by (simp_all add: takeWhile_eq_all_conv dropWhile_eq_Nil_conv)

lemma lid_tail_pasted: "\<forall>c\<in>set line. \<not> is_terminator c \<Longrightarrow> lid_tail (HL_BODY_SEP # line)"
  by (simp add: lid_tail_def no_terminators)

lemma INSERT_OP_RE_pasted:
  assumes "\<forall>c\<in>set tok. \<not> is_space c \<and> c \<noteq> 124" "tok \<noteq> []" "\<forall>c\<in>set line. \<not> is_terminator c"
  shows "INSERT_OP_RE (tok @ HL_BODY_SEP # line) = Some (tok, Some line)"
proof -
  have w: "dropWhile is_space (tok @ HL_BODY_SEP # line) = tok @ HL_BODY_SEP # line"
    using assms by (cases tok) auto
  have t: "takeWhile (\<lambda>c. \<not> is_space c \<and> c \<noteq> HL_BODY_SEP) (tok @ HL_BODY_SEP # line) = tok"
      "dropWhile (\<lambda>c. \<not> is_space c \<and> c \<noteq> HL_BODY_SEP) (tok @ HL_BODY_SEP # line) = HL_BODY_SEP # line"
    using assms(1) by (simp_all add: HL_BODY_SEP_def takeWhile_append2 dropWhile_append2)
  show ?thesis using assms(2) by (simp only: INSERT_OP_RE_def Let_def w t) (simp add: no_terminators [OF assms(3)])
qed

lemma shown_anchor_ok: "0 < n \<Longrightarrow> anchor_ok \<lparr>an_line = n, an_hash = computeLineHash xx n line\<rparr>"
  by (simp add: anchor_ok_def computeLineHash_is_hash)

lemma op_edits_pasted:
  assumes "0 < m" "\<forall>c\<in>set line. \<not> is_terminator c" "sigil \<in> {HL_OP_INSERT_BEFORE, HL_OP_INSERT_AFTER}"
  shows "\<exists>b. match_op (sigil # formatHashLine xx m line) = Some (OpInsert b (formatLineHash xx m line) (Some line)) \<and>
    match_op (sigil # formatLineHash xx m line) = Some (OpInsert b (formatLineHash xx m line) None) \<and>
    op_edits xx n k (OpInsert b (formatLineHash xx m line) (Some line)) ls =
      op_edits xx n k (OpInsert b (formatLineHash xx m line) None) ls"
proof -
  let ?a = "\<lparr>an_line = m, an_hash = computeLineHash xx m line\<rparr>"
  have a: "anchor_ok ?a" "lid ?a = formatLineHash xx m line"
    using assms(1) by (simp_all add: shown_anchor_ok lid_def formatLineHash_def)
  have shown: "formatHashLine xx m line = lid ?a @ HL_BODY_SEP # line"
    by (simp add: lid_def formatHashLine_def)
  have re: "INSERT_OP_RE (lid ?a @ HL_BODY_SEP # line) = Some (lid ?a, Some line)" "INSERT_OP_RE (lid ?a) = Some (lid ?a, None)"
    using lid_char_facts [OF a(1)] lid_hd(2) [of ?a] assms(2)
    by (auto intro!: INSERT_OP_RE_pasted INSERT_OP_RE_token)
  have target: "parseInsertTarget (lid ?a) n b = Inr (if b then BeforeAnchor ?a else AfterAnchor ?a)" for b
    using lid_hd [of ?a] parseLid_lid [OF a(1)] by (auto simp: parseInsertTarget_def is_dec_def)
  show ?thesis
    unfolding shown a(2) [symmetric] using assms(3) re
    by (auto simp: match_op_def sigil_defs op_edits_def target resolveInlineInsertBody_def intro: exI [of _ False])
qed

text \<open>
  Output of the read tool can be pasted as an anchor: an insert op followed by a whole line as it
  was shown (line number, hash, bar, content) means the same as the bare anchor, whatever the content is,
  and the shown line by itself is read as that anchor.
\<close>

theorem pasted_line_is_its_anchor:
  assumes "0 < m" "\<forall>c\<in>set line. \<not> is_terminator c" "sigil \<in> {HL_OP_INSERT_BEFORE, HL_OP_INSERT_AFTER}"
  shows "parse_loop xx n k ((sigil # formatHashLine xx m line) # ls) = parse_loop xx n k ((sigil # formatLineHash xx m line) # ls) \<and>
    parseLid (formatHashLine xx m line) n = Inr \<lparr>an_line = m, an_hash = computeLineHash xx m line\<rparr>"
proof -
  obtain b where b: "match_op (sigil # formatHashLine xx m line) = Some (OpInsert b (formatLineHash xx m line) (Some line))"
     "match_op (sigil # formatLineHash xx m line) = Some (OpInsert b (formatLineHash xx m line) None)"
     "op_edits xx n k (OpInsert b (formatLineHash xx m line) (Some line)) ls = op_edits xx n k (OpInsert b (formatLineHash xx m line) None) ls"
    using op_edits_pasted [OF assms] by blast
  have s: "sigil \<in> set HL_OP_CHARS" using assms(3) by (auto simp: HL_OP_CHARS_def)
  have "parseLid (formatHashLine xx m line) n = Inr \<lparr>an_line = m, an_hash = computeLineHash xx m line\<rparr>"
    using LID_CAPTURE_lid [OF assms(1) computeLineHash_is_hash lid_tail_pasted [OF assms(2)]]
    by (simp add: formatHashLine_def parseLid_def)
  then show ?thesis
    by (simp add: sigil_line [OF s] b split: option.splits)
qed

text \<open>Instances: two operations on a file of short lines, whose hash here is their length.\<close>

definition demo_ops :: "patch_op list" where
  "demo_ops = [PReplace \<lparr>an_line = 2, an_hash = utf16 ''ad''\<rparr> \<lparr>an_line = 3, an_hash = utf16 ''ab''\<rparr> [utf16 ''two'', []],
     PInsert Eof [utf16 ''end'']]"

lemma demo_ops_ok: "list_all op_ok demo_ops"
  by (simp add: demo_ops_def anchor_ok_def is_hash_def is_lower_def payload_ok_def isPayloadTerminatorLine_def sigil_defs
      isEnvelopeOrAbortMarkerLine_def marker_defs trimEnd_def is_space_def)

lemma demo_ops_meaning:
  "patch_meaning 1 0 demo_ops =
    [HInsert (BeforeAnchor \<lparr>an_line = 2, an_hash = utf16 ''ad''\<rparr>) (utf16 ''two'') 1 0,
     HInsert (BeforeAnchor \<lparr>an_line = 2, an_hash = utf16 ''ad''\<rparr>) [] 1 1,
     HDelete \<lparr>an_line = 2, an_hash = utf16 ''ad''\<rparr> 1 2, HDelete \<lparr>an_line = 3, an_hash = utf16 ''ab''\<rparr> 1 3,
     HInsert Eof (utf16 ''end'') 4 4]"
  by (simp add: demo_ops_def pushInserts_def pushDeletes_def expandRange_def upt_rec)

theorem rendered_patch_parses_witness:
  "parseHashlineWithWarnings length (render demo_ops) = Inr (patch_meaning 1 0 demo_ops, [])"
  by (rule rendered_patch_parses [OF demo_ops_ok])

theorem parsed_edits_well_formed_witness:
  "map he_index (patch_meaning 1 0 demo_ops) = [0..<5] \<and> sorted (map he_lineNum (patch_meaning 1 0 demo_ops))"
  using parsed_edits_well_formed [OF parse_render [OF demo_ops_ok, of length]] unfolding demo_ops_meaning by (simp add: upt_rec)

theorem pasted_line_is_its_anchor_witness:
  "parseLid (formatHashLine length 7 (utf16 ''x := 1..2|'')) 1 = Inr \<lparr>an_line = 7, an_hash = utf16 ''ak''\<rparr>"
proof -
  have "\<forall>c\<in>set (utf16 ''x := 1..2|''). \<not> is_terminator c" by (simp add: is_terminator_def)
  then have "parseLid (formatHashLine length 7 (utf16 ''x := 1..2|'')) 1 =
      Inr \<lparr>an_line = 7, an_hash = computeLineHash length 7 (utf16 ''x := 1..2|'')\<rparr>"
    using pasted_line_is_its_anchor [of 7 "utf16 ''x := 1..2|''" HL_OP_INSERT_BEFORE length 1 0 "[]"] by simp
  then show ?thesis
    by (simp add: computeLineHash_def HL_BIGRAMS_COUNT_647 HL_BIGRAMS_row trimEnd_def is_space_def)
qed

end
