(* ===== verification/Hashline_Apply.thy ===== *)
theory Hashline_Apply
  imports Hashline_Parse
begin

text \<open>
  Applying edits to a file (\<open>hashline/apply.ts\<close>): the check of every anchor, the absorption of
  payload lines that repeat the lines around them, and the splices, from the last line to the first.
  Line numbers count from one. A warning is a value with the numbers its text shows. The array
  \<open>lineOrigins\<close> of the source is written and never read, and \<open>noopEdits\<close> is never set; both
  are left out.
\<close>

section \<open>Anchors\<close>

record hash_mismatch =
  hm_line :: nat
  hm_expected :: ustr
  hm_actual :: ustr

datatype apply_error =
    LineDoesNotExist nat nat
  | HashlineMismatchError "hash_mismatch list" "ustr list"

fun getHashlineEditAnchors :: "hl_edit \<Rightarrow> anchor list" where
  "getHashlineEditAnchors (HDelete a n i) = [a]"
| "getHashlineEditAnchors (HInsert (BeforeAnchor a) t n i) = [a]"
| "getHashlineEditAnchors (HInsert (AfterAnchor a) t n i) = [a]"
| "getHashlineEditAnchors (HInsert c t n i) = []"

text \<open>\<open>fileLines[line - 1] ?? ""\<close>.\<close>

definition line_at :: "ustr list \<Rightarrow> nat \<Rightarrow> ustr" where
  "line_at fileLines line = (if 1 \<le> line \<and> line \<le> length fileLines then fileLines ! (line - 1) else [])"

definition validate_anchor ::
  "(ustr \<Rightarrow> nat) \<Rightarrow> ustr list \<Rightarrow> hash_mismatch list \<Rightarrow> anchor \<Rightarrow> apply_error + hash_mismatch list" where
  "validate_anchor xx fileLines ms a =
     (if an_line a < 1 \<or> length fileLines < an_line a then Inl (LineDoesNotExist (an_line a) (length fileLines))
      else if an_hash a = RANGE_INTERIOR_HASH then Inr ms
      else (let actual = computeLineHash xx (an_line a) (line_at fileLines (an_line a))
            in if actual = an_hash a then Inr ms
               else Inr (ms @ [\<lparr>hm_line = an_line a, hm_expected = an_hash a, hm_actual = actual\<rparr>])))"

definition validateHashlineAnchors ::
  "(ustr \<Rightarrow> nat) \<Rightarrow> hl_edit list \<Rightarrow> ustr list \<Rightarrow> apply_error + hash_mismatch list" where
  "validateHashlineAnchors xx edits fileLines =
     for_each (validate_anchor xx fileLines) [] (concat (map getHashlineEditAnchors edits))"

fun getAnchorTargetLine :: "hl_edit \<Rightarrow> nat option" where
  "getAnchorTargetLine (HDelete a n i) = Some (an_line a)"
| "getAnchorTargetLine (HInsert (BeforeAnchor a) t n i) = Some (an_line a)"
| "getAnchorTargetLine (HInsert (AfterAnchor a) t n i) = Some (an_line a)"
| "getAnchorTargetLine (HInsert c t n i) = None"

definition collectAnchorTargetLines :: "hl_edit list \<Rightarrow> nat set" where
  "collectAnchorTargetLines edits = set (List.map_filter getAnchorTargetLine edits)"

section \<open>Groups of edits\<close>

record replacement_group =
  rg_members :: "hl_edit list"
  rg_sourceLineNum :: nat
  rg_replacement :: "ustr list"
  rg_deletes :: "anchor list"

fun group_insert :: "nat \<Rightarrow> hl_edit \<Rightarrow> bool" where
  "group_insert n (HInsert (BeforeAnchor a) t m i) \<longleftrightarrow> m = n"
| "group_insert n _ \<longleftrightarrow> False"

fun group_delete :: "nat \<Rightarrow> hl_edit \<Rightarrow> bool" where
  "group_delete n (HDelete a m i) \<longleftrightarrow> m = n"
| "group_delete n _ \<longleftrightarrow> False"

text \<open>The groups are looked for at the head of the edits that remain.\<close>

fun findReplacementGroup :: "hl_edit list \<Rightarrow> replacement_group option" where
  "findReplacementGroup (HInsert (BeforeAnchor a) t n i # es) =
     (let edits = HInsert (BeforeAnchor a) t n i # es;
          ins = takeWhile (group_insert n) edits;
          dels = takeWhile (group_delete n) (dropWhile (group_insert n) edits);
          lines = map (\<lambda>e. an_line (he_anchor e)) dels
      in if dels = [] then None
         else if lines \<noteq> [hd lines..<hd lines + length lines] \<or> an_line a \<noteq> hd lines then None
         else Some \<lparr>rg_members = ins @ dels, rg_sourceLineNum = n, rg_replacement = map he_text ins,
                    rg_deletes = map he_anchor dels\<rparr>)"
| "findReplacementGroup _ = None"

definition cursorMatches :: "hl_cursor \<Rightarrow> hl_cursor \<Rightarrow> bool" where
  "cursorMatches a b \<longleftrightarrow> a = b"

record pure_insert_group =
  pi_members :: "hl_edit list"
  pi_sourceLineNum :: nat
  pi_cursor :: hl_cursor
  pi_payload :: "ustr list"

fun pure_insert :: "hl_cursor \<Rightarrow> nat \<Rightarrow> hl_edit \<Rightarrow> bool" where
  "pure_insert c n (HInsert c' t m i) \<longleftrightarrow> m = n \<and> cursorMatches c' c"
| "pure_insert c n (HDelete a m i) \<longleftrightarrow> False"

fun findPureInsertGroup :: "hl_edit list \<Rightarrow> pure_insert_group option" where
  "findPureInsertGroup (HInsert c t n i # es) =
     (let edits = HInsert c t n i # es; run = takeWhile (pure_insert c n) edits; rest = dropWhile (pure_insert c n) edits
      in if rest \<noteq> [] \<and> group_delete n (hd rest) then None
         else Some \<lparr>pi_members = run, pi_sourceLineNum = n, pi_cursor = c, pi_payload = map he_text run\<rparr>)"
| "findPureInsertGroup _ = None"

section \<open>Repeated lines around an edit\<close>

text \<open>The greatest count from \<open>m\<close> down to two that satisfies \<open>P\<close>, or zero.\<close>

definition greatest_count :: "(nat \<Rightarrow> bool) \<Rightarrow> nat \<Rightarrow> nat" where
  "greatest_count P m = (case find P (rev [2..<Suc m]) of None \<Rightarrow> 0 | Some c \<Rightarrow> c)"

definition countMatchingPrefixBlock :: "ustr list \<Rightarrow> nat \<Rightarrow> ustr list \<Rightarrow> nat" where
  "countMatchingPrefixBlock fileLines startLine replacement =
     greatest_count (\<lambda>n. take n (drop (startLine - 1 - n) fileLines) = take n replacement)
       (min (length replacement) (startLine - 1))"

definition countMatchingSuffixBlock :: "ustr list \<Rightarrow> nat \<Rightarrow> ustr list \<Rightarrow> nat" where
  "countMatchingSuffixBlock fileLines endLine replacement =
     greatest_count (\<lambda>n. take n (drop endLine fileLines) = drop (length replacement - n) replacement)
       (min (length replacement) (length fileLines - endLine))"

definition isStructuralClosingBoundaryLine :: "ustr \<Rightarrow> bool" where
  "isStructuralClosingBoundaryLine line =
     (let s = dropWhile is_space line; closing = \<lambda>c. c \<in> set (utf16 ''])}''); rest = dropWhile closing s
      in takeWhile closing s \<noteq> [] \<and>
         blank (if rest \<noteq> [] \<and> hd rest \<in> set (utf16 '';,'') then tl rest else rest))"

record delimiter_balance =
  db_paren :: int
  db_bracket :: int
  db_brace :: int

definition ZERO_DELIMITER_BALANCE :: delimiter_balance where
  "ZERO_DELIMITER_BALANCE = \<lparr>db_paren = 0, db_bracket = 0, db_brace = 0\<rparr>"

definition count_delimiter :: "delimiter_balance \<Rightarrow> nat \<Rightarrow> delimiter_balance" where
  "count_delimiter b c =
     (if c = 40 then b\<lparr>db_paren := db_paren b + 1\<rparr> else if c = 41 then b\<lparr>db_paren := db_paren b - 1\<rparr>
      else if c = 91 then b\<lparr>db_bracket := db_bracket b + 1\<rparr> else if c = 93 then b\<lparr>db_bracket := db_bracket b - 1\<rparr>
      else if c = 123 then b\<lparr>db_brace := db_brace b + 1\<rparr> else if c = 125 then b\<lparr>db_brace := db_brace b - 1\<rparr>
      else b)"

definition computeDelimiterBalance :: "ustr list \<Rightarrow> delimiter_balance" where
  "computeDelimiterBalance ls = foldl count_delimiter ZERO_DELIMITER_BALANCE (concat ls)"

definition shouldDropSingleStructuralBoundary :: "ustr list \<Rightarrow> ustr list \<Rightarrow> delimiter_balance \<Rightarrow> bool" where
  "shouldDropSingleStructuralBoundary fullPayload keptPayload expected \<longleftrightarrow>
     computeDelimiterBalance keptPayload = expected \<and> computeDelimiterBalance fullPayload \<noteq> expected"

definition countMatchingSingleStructuralPrefixBoundary ::
  "ustr list \<Rightarrow> nat \<Rightarrow> ustr list \<Rightarrow> delimiter_balance \<Rightarrow> nat" where
  "countMatchingSingleStructuralPrefixBoundary fileLines startLine replacement expected =
     (if replacement = [] \<or> startLine \<le> 1 then 0
      else if \<not> isStructuralClosingBoundaryLine (hd replacement) then 0
      else if line_at fileLines (startLine - 1) \<noteq> hd replacement then 0
      else if shouldDropSingleStructuralBoundary replacement (tl replacement) expected then 1 else 0)"

definition countMatchingSingleStructuralSuffixBoundary ::
  "ustr list \<Rightarrow> nat \<Rightarrow> ustr list \<Rightarrow> delimiter_balance \<Rightarrow> nat" where
  "countMatchingSingleStructuralSuffixBoundary fileLines endLine replacement expected =
     (if replacement = [] \<or> length fileLines \<le> endLine then 0
      else if \<not> isStructuralClosingBoundaryLine (last replacement) then 0
      else if line_at fileLines (endLine + 1) \<noteq> last replacement then 0
      else if shouldDropSingleStructuralBoundary replacement (butlast replacement) expected then 1 else 0)"

definition hasExternalTargets :: "nat list \<Rightarrow> nat set \<Rightarrow> bool" where
  "hasExternalTargets ls targets \<longleftrightarrow> (\<exists>l\<in>set ls. l \<in> targets)"

definition contiguousRange :: "nat \<Rightarrow> nat \<Rightarrow> nat list" where
  "contiguousRange start n = [start..<start + n]"

definition deleteEditForAutoAbsorbedLine :: "(ustr \<Rightarrow> nat) \<Rightarrow> nat \<Rightarrow> nat \<Rightarrow> nat \<Rightarrow> ustr list \<Rightarrow> hl_edit" where
  "deleteEditForAutoAbsorbedLine xx line sourceLineNum index fileLines =
     HDelete \<lparr>an_line = line, an_hash = computeLineHash xx line (line_at fileLines line)\<rparr> sourceLineNum index"

text \<open>
  The number of lines above the insertion point, that is \<open>aboveEndIdx + 1\<close>, and
  \<open>belowStartIdx\<close>.
\<close>

fun pureInsertNeighborhood :: "hl_cursor \<Rightarrow> ustr list \<Rightarrow> nat \<times> nat" where
  "pureInsertNeighborhood Bof fileLines = (0, 0)"
| "pureInsertNeighborhood Eof fileLines = (length fileLines, length fileLines)"
| "pureInsertNeighborhood (BeforeAnchor a) fileLines = (an_line a - 1, an_line a - 1)"
| "pureInsertNeighborhood (AfterAnchor a) fileLines = (an_line a, an_line a)"

fun is_before :: "hl_cursor \<Rightarrow> bool" where "is_before (BeforeAnchor a) = True" | "is_before _ = False"
fun is_after :: "hl_cursor \<Rightarrow> bool" where "is_after (AfterAnchor a) = True" | "is_after _ = False"

text \<open>The two counts of \<open>tryAbsorbPureInsertGroup\<close>: payload lines dropped at the start and at the end.\<close>

definition absorbedLeading :: "pure_insert_group \<Rightarrow> ustr list \<Rightarrow> bool \<Rightarrow> nat" where
  "absorbedLeading g fileLines generic =
     (let payload = pi_payload g; above = fst (pureInsertNeighborhood (pi_cursor g) fileLines);
          block = (if generic
            then greatest_count (\<lambda>n. take n payload = take n (drop (above - n) fileLines)) (min (length payload) above)
            else 0)
      in if block \<noteq> 0 then block
         else if generic \<and> is_after (pi_cursor g) \<and> 0 < above \<and> \<not> isStructuralClosingBoundaryLine (hd payload) \<and>
                 hd payload = line_at fileLines above then 1
         else if 0 < above \<and> isStructuralClosingBoundaryLine (hd payload) \<and> hd payload = line_at fileLines above \<and>
                 shouldDropSingleStructuralBoundary payload (tl payload) ZERO_DELIMITER_BALANCE then 1
         else 0)"

definition absorbedTrailing :: "pure_insert_group \<Rightarrow> ustr list \<Rightarrow> bool \<Rightarrow> nat \<Rightarrow> nat" where
  "absorbedTrailing g fileLines generic leading =
     (let payload = pi_payload g; remaining = drop leading payload;
          below = snd (pureInsertNeighborhood (pi_cursor g) fileLines);
          block = (if generic
            then greatest_count (\<lambda>n. drop (length payload - n) payload = take n (drop below fileLines))
                   (min (length remaining) (length fileLines - below))
            else 0)
      in if block \<noteq> 0 then block
         else if is_before (pi_cursor g) \<and> generic \<and> remaining \<noteq> [] \<and> below < length fileLines \<and>
                 \<not> isStructuralClosingBoundaryLine (last remaining) \<and> last remaining = line_at fileLines (below + 1) then 1
         else if remaining \<noteq> [] \<and> below < length fileLines \<and> isStructuralClosingBoundaryLine (last remaining) \<and>
                 last remaining = line_at fileLines (below + 1) \<and>
                 shouldDropSingleStructuralBoundary remaining (butlast remaining) ZERO_DELIMITER_BALANCE then 1
         else 0)"

definition tryAbsorbPureInsertGroup :: "pure_insert_group \<Rightarrow> ustr list \<Rightarrow> bool \<Rightarrow> ustr list \<times> nat \<times> nat" where
  "tryAbsorbPureInsertGroup g fileLines generic =
     (if pi_payload g = [] then ([], 0, 0)
      else (let l = absorbedLeading g fileLines generic; t = absorbedTrailing g fileLines generic l
            in (take (length (pi_payload g) - t - l) (drop l (pi_payload g)), l, t)))"

section \<open>Absorption\<close>

datatype absorb_side = PureLeading | PureTrailing | Prefix | Suffix

text \<open>A warning: side, number of lines, patch line of the op, and the file lines it names.\<close>

type_synonym absorb_warning = "absorb_side \<times> nat \<times> nat \<times> nat \<times> nat"

record absorb_state =
  ab_next :: nat
  ab_out :: "hl_edit list"
  ab_keys :: "(absorb_side \<times> nat \<times> nat) list"
  ab_warnings :: "absorb_warning list"

definition absorb_warn :: "absorb_side \<Rightarrow> nat \<Rightarrow> nat \<Rightarrow> nat \<Rightarrow> nat \<Rightarrow> absorb_state \<Rightarrow> absorb_state" where
  "absorb_warn side n sourceLineNum start stop st =
     (if n = 0 \<or> (side, start, stop) \<in> set (ab_keys st) then st
      else st\<lparr>ab_keys := ab_keys st @ [(side, start, stop)],
              ab_warnings := ab_warnings st @ [(side, n, sourceLineNum, start, stop)]\<rparr>)"

definition push_edits_out :: "hl_edit list \<Rightarrow> absorb_state \<Rightarrow> absorb_state" where
  "push_edits_out es st = st\<lparr>ab_out := ab_out st @ es\<rparr>"

definition absorb_insert :: "ustr list \<Rightarrow> bool \<Rightarrow> pure_insert_group \<Rightarrow> absorb_state \<Rightarrow> absorb_state" where
  "absorb_insert fileLines generic g st =
     (let (kept, l, t) = tryAbsorbPureInsertGroup g fileLines generic; n = pi_sourceLineNum g;
          (above, below) = pureInsertNeighborhood (pi_cursor g) fileLines
      in if l = 0 \<and> t = 0 then push_edits_out (pi_members g) st
         else (let st2 = absorb_warn PureTrailing t n (below + 1) (below + t) (absorb_warn PureLeading l n (above - l + 1) above st)
               in (push_edits_out (pushInserts (pi_cursor g) n (ab_next st2) kept) st2)\<lparr>ab_next := ab_next st2 + length kept\<rparr>))"

definition synthetic_deletes :: "(ustr \<Rightarrow> nat) \<Rightarrow> ustr list \<Rightarrow> nat \<Rightarrow> nat list \<Rightarrow> absorb_state \<Rightarrow> absorb_state" where
  "synthetic_deletes xx fileLines sourceLineNum ls st =
     (push_edits_out (map (\<lambda>(i, line). deleteEditForAutoAbsorbedLine xx line sourceLineNum i fileLines) (enumerate (ab_next st) ls)) st)
       \<lparr>ab_next := ab_next st + length ls\<rparr>"

text \<open>The lines above and below a replacement that the deletion is widened to.\<close>

definition safe_counts :: "ustr list \<Rightarrow> nat set \<Rightarrow> replacement_group \<Rightarrow> nat \<times> nat" where
  "safe_counts fileLines targets g =
     (let startLine = an_line (hd (rg_deletes g)); endLine = an_line (last (rg_deletes g));
          deletedBalance = computeDelimiterBalance (map (\<lambda>a. line_at fileLines (an_line a)) (rg_deletes g));
          p = countMatchingPrefixBlock fileLines startLine (rg_replacement g);
          prefixCount = (if p \<noteq> 0 then p
            else countMatchingSingleStructuralPrefixBoundary fileLines startLine (rg_replacement g) deletedBalance);
          s = countMatchingSuffixBlock fileLines endLine (rg_replacement g);
          suffixCount = (if s \<noteq> 0 then s
            else countMatchingSingleStructuralSuffixBoundary fileLines endLine (rg_replacement g) deletedBalance)
      in (if hasExternalTargets (contiguousRange (startLine - prefixCount) prefixCount) targets then 0 else prefixCount,
          if hasExternalTargets (contiguousRange (endLine + 1) suffixCount) targets then 0 else suffixCount))"

definition absorb_replacement ::
  "(ustr \<Rightarrow> nat) \<Rightarrow> ustr list \<Rightarrow> nat set \<Rightarrow> replacement_group \<Rightarrow> absorb_state \<Rightarrow> absorb_state" where
  "absorb_replacement xx fileLines targets g st =
     (let startLine = an_line (hd (rg_deletes g)); endLine = an_line (last (rg_deletes g)); n = rg_sourceLineNum g;
          (p, s) = safe_counts fileLines targets g;
          st1 = absorb_warn Suffix s n (endLine + 1) (endLine + s) (absorb_warn Prefix p n (startLine - p) (startLine - 1) st)
      in synthetic_deletes xx fileLines n (contiguousRange (endLine + 1) s)
           (push_edits_out (rg_members g)
             (synthetic_deletes xx fileLines n (contiguousRange (startLine - p) p) st1)))"

text \<open>One round of the loop: how many edits it consumes, and the state after it.\<close>

definition absorb_round ::
  "(ustr \<Rightarrow> nat) \<Rightarrow> ustr list \<Rightarrow> nat set \<Rightarrow> bool \<Rightarrow> hl_edit list \<Rightarrow> absorb_state \<Rightarrow> nat \<times> absorb_state" where
  "absorb_round xx fileLines targets generic es st =
     (case findReplacementGroup es of
        Some g \<Rightarrow> (length (rg_members g), absorb_replacement xx fileLines targets g st)
      | None \<Rightarrow>
          (case findPureInsertGroup es of
             Some g \<Rightarrow> (length (pi_members g), absorb_insert fileLines generic g st)
           | None \<Rightarrow> (1, push_edits_out [hd es] st)))"

function absorb_loop ::
  "(ustr \<Rightarrow> nat) \<Rightarrow> ustr list \<Rightarrow> nat set \<Rightarrow> bool \<Rightarrow> hl_edit list \<Rightarrow> absorb_state \<Rightarrow> absorb_state" where
  "absorb_loop xx fileLines targets generic [] st = st"
| "absorb_loop xx fileLines targets generic (e # es) st =
     (let (n, st') = absorb_round xx fileLines targets generic (e # es) st
      in absorb_loop xx fileLines targets generic (drop (n - 1) es) st')"
  by pat_completeness auto
termination
  by (relation "measure (\<lambda>(xx, fileLines, targets, generic, es, st). length es)") auto

definition absorbReplacementBoundaryDuplicates ::
  "(ustr \<Rightarrow> nat) \<Rightarrow> hl_edit list \<Rightarrow> ustr list \<Rightarrow> bool \<Rightarrow> hl_edit list \<times> absorb_warning list" where
  "absorbReplacementBoundaryDuplicates xx edits fileLines generic =
     (let st = absorb_loop xx fileLines (collectAnchorTargetLines edits) generic edits
                 \<lparr>ab_next = length edits, ab_out = [], ab_keys = [], ab_warnings = []\<rparr>
      in (ab_out st, ab_warnings st))"

section \<open>Applying edits\<close>

text \<open>\<open>insertAtStart\<close> and \<open>insertAtEnd\<close>; the latter also returns the line it changed first.\<close>

definition insertAtStart :: "ustr list \<Rightarrow> ustr list \<Rightarrow> ustr list" where
  "insertAtStart fileLines ls = (if ls = [] then fileLines else if fileLines = [[]] then ls else ls @ fileLines)"

definition insertAtEnd :: "ustr list \<Rightarrow> ustr list \<Rightarrow> ustr list \<times> nat option" where
  "insertAtEnd fileLines ls =
     (if ls = [] then (fileLines, None)
      else if fileLines = [[]] then (ls, Some 1)
      else (let i = (if fileLines \<noteq> [] \<and> last fileLines = [] then length fileLines - 1 else length fileLines)
            in (take i fileLines @ ls @ drop i fileLines, Some (i + 1))))"

text \<open>Inserts after a line become inserts before the next line, or at the end of the file.\<close>

fun normalizeAfterAnchor :: "(ustr \<Rightarrow> nat) \<Rightarrow> ustr list \<Rightarrow> hl_edit \<Rightarrow> hl_edit" where
  "normalizeAfterAnchor xx fileLines (HInsert (AfterAnchor a) t n i) =
     (if length fileLines \<le> an_line a then HInsert Eof t n i
      else HInsert (BeforeAnchor \<lparr>an_line = an_line a + 1,
             an_hash = computeLineHash xx (an_line a + 1) (line_at fileLines (an_line a + 1))\<rparr>) t n i)"
| "normalizeAfterAnchor xx fileLines e = e"

type_synonym indexed_edit = "nat \<times> hl_edit"

fun at_bof :: "hl_edit \<Rightarrow> bool" where "at_bof (HInsert Bof t n i) = True" | "at_bof _ = False"
fun at_eof :: "hl_edit \<Rightarrow> bool" where "at_eof (HInsert Eof t n i) = True" | "at_eof _ = False"

text \<open>The line of the bucket an edit goes to; after normalization no edit goes to bucket zero.\<close>

fun bucket_line :: "hl_edit \<Rightarrow> nat" where
  "bucket_line (HDelete a n i) = an_line a"
| "bucket_line (HInsert (BeforeAnchor a) t n i) = an_line a"
| "bucket_line (HInsert c t n i) = 0"

definition bucketAnchorEditsByLine :: "indexed_edit list \<Rightarrow> (nat, indexed_edit list) js_map" where
  "bucketAnchorEditsByLine entries =
     foldl (\<lambda>m en. let line = bucket_line (snd en)
                   in map_set line ((case map_get m line of None \<Rightarrow> [] | Some b \<Rightarrow> b) @ [en]) m) [] entries"

definition trackFirstChanged :: "nat \<Rightarrow> nat option \<Rightarrow> nat option" where
  "trackFirstChanged line f = (case f of None \<Rightarrow> Some line | Some l \<Rightarrow> if line < l then Some line else f)"

definition splice1 :: "nat \<Rightarrow> ustr list \<Rightarrow> ustr list \<Rightarrow> ustr list" where
  "splice1 i new xs = take i xs @ new @ drop (i + 1) xs"

fun insert_text :: "hl_edit \<Rightarrow> ustr option" where
  "insert_text (HInsert c t n i) = Some t"
| "insert_text (HDelete a n i) = None"

definition is_delete :: "hl_edit \<Rightarrow> bool" where
  "is_delete e \<longleftrightarrow> insert_text e = None"

text \<open>One bucket: the state is the lines so far and the first changed line.\<close>

definition apply_bucket :: "(nat, indexed_edit list) js_map \<Rightarrow> ustr list \<times> nat option \<Rightarrow> nat \<Rightarrow> ustr list \<times> nat option" where
  "apply_bucket byLine st line =
     (case map_get byLine line of None \<Rightarrow> st
      | Some bucket \<Rightarrow>
          (let fileLines = fst st; edits = map snd (sort_key fst bucket);
               beforeLines = List.map_filter insert_text edits; deleteLine = list_ex is_delete edits
           in if beforeLines = [] \<and> \<not> deleteLine then st
              else (splice1 (line - 1) (if deleteLine then beforeLines else beforeLines @ [line_at fileLines line]) fileLines,
                    trackFirstChanged line (snd st))))"

record apply_result =
  ap_lines :: ustr
  ap_firstChangedLine :: "nat option"
  ap_warnings :: "absorb_warning list"

text \<open>The lines and the first changed line after the normalized edits.\<close>

definition apply_normalized :: "ustr list \<Rightarrow> hl_edit list \<Rightarrow> ustr list \<times> nat option" where
  "apply_normalized fileLines es =
     (let bofLines = List.map_filter insert_text (filter at_bof es);
          eofLines = List.map_filter insert_text (filter at_eof es);
          byLine = bucketAnchorEditsByLine (filter (\<lambda>(i, e). \<not> at_bof e \<and> \<not> at_eof e) (enumerate 0 es));
          (ls, f) = foldl (apply_bucket byLine) (fileLines, None) (rev (sort (map fst byLine)));
          f1 = (if bofLines = [] then f else trackFirstChanged 1 f);
          (ls2, changed) = insertAtEnd (insertAtStart ls bofLines) eofLines
      in (ls2, case changed of None \<Rightarrow> f1 | Some l \<Rightarrow> trackFirstChanged l f1))"

definition applyHashlineEdits :: "(ustr \<Rightarrow> nat) \<Rightarrow> ustr \<Rightarrow> hl_edit list \<Rightarrow> bool \<Rightarrow> apply_error + apply_result" where
  "applyHashlineEdits xx txt_in edits generic =
     (if edits = [] then Inr \<lparr>ap_lines = txt_in, ap_firstChangedLine = None, ap_warnings = []\<rparr>
      else let fileLines = split_lines txt_in in
        andThen (validateHashlineAnchors xx edits fileLines) (\<lambda>ms.
          if ms \<noteq> [] then Inl (HashlineMismatchError ms fileLines)
          else let (absorbed, warnings) = absorbReplacementBoundaryDuplicates xx edits fileLines generic;
                   (ls, f) = apply_normalized fileLines (map (normalizeAfterAnchor xx fileLines) absorbed)
               in Inr \<lparr>ap_lines = join_lines ls, ap_firstChangedLine = f, ap_warnings = warnings\<rparr>))"

section \<open>Anchors are checked first\<close>

definition anchor_exists :: "ustr list \<Rightarrow> anchor \<Rightarrow> bool" where
  "anchor_exists fileLines a \<longleftrightarrow> 1 \<le> an_line a \<and> an_line a \<le> length fileLines"

definition stale :: "(ustr \<Rightarrow> nat) \<Rightarrow> ustr list \<Rightarrow> anchor \<Rightarrow> bool" where
  "stale xx fileLines a \<longleftrightarrow> an_hash a \<noteq> RANGE_INTERIOR_HASH \<and>
     computeLineHash xx (an_line a) (fileLines ! (an_line a - 1)) \<noteq> an_hash a"

definition edit_anchors :: "hl_edit list \<Rightarrow> anchor list" where
  "edit_anchors edits = concat (map getHashlineEditAnchors edits)"

definition mismatch_of :: "(ustr \<Rightarrow> nat) \<Rightarrow> ustr list \<Rightarrow> anchor \<Rightarrow> hash_mismatch" where
  "mismatch_of xx fileLines a = \<lparr>hm_line = an_line a, hm_expected = an_hash a,
     hm_actual = computeLineHash xx (an_line a) (fileLines ! (an_line a - 1))\<rparr>"

lemma validate_anchor_cases:
  "validate_anchor xx fileLines ms a =
     (if \<not> anchor_exists fileLines a then Inl (LineDoesNotExist (an_line a) (length fileLines))
      else Inr (ms @ (if stale xx fileLines a then [mismatch_of xx fileLines a] else [])))"
  by (auto simp: validate_anchor_def anchor_exists_def stale_def mismatch_of_def line_at_def Let_def)

lemma validate_all:
  "for_each (validate_anchor xx fileLines) ms as =
     (case find (\<lambda>a. \<not> anchor_exists fileLines a) as of
        Some a \<Rightarrow> Inl (LineDoesNotExist (an_line a) (length fileLines))
      | None \<Rightarrow> Inr (ms @ map (mismatch_of xx fileLines) (filter (stale xx fileLines) as)))"
  by (induction as arbitrary: ms) (auto simp: validate_anchor_cases split: option.splits)

lemma validate_edits:
  "validateHashlineAnchors xx edits fileLines =
     (case find (\<lambda>a. \<not> anchor_exists fileLines a) (edit_anchors edits) of
        Some a \<Rightarrow> Inl (LineDoesNotExist (an_line a) (length fileLines))
      | None \<Rightarrow> Inr (map (mismatch_of xx fileLines) (filter (stale xx fileLines) (edit_anchors edits))))"
  by (simp add: validateHashlineAnchors_def validate_all edit_anchors_def split: option.splits)

definition anchors_valid :: "(ustr \<Rightarrow> nat) \<Rightarrow> hl_edit list \<Rightarrow> ustr list \<Rightarrow> bool" where
  "anchors_valid xx edits fileLines \<longleftrightarrow>
     (\<forall>a\<in>set (edit_anchors edits). anchor_exists fileLines a \<and> \<not> stale xx fileLines a)"

lemma apply_Inr_cases:
  assumes "applyHashlineEdits xx t edits generic = Inr r"
  obtains "edits = []" "ap_lines r = t" "ap_firstChangedLine r = None" "ap_warnings r = []"
  | absorbed ls where "edits \<noteq> []" "anchors_valid xx edits (split_lines t)"
      "absorbReplacementBoundaryDuplicates xx edits (split_lines t) generic = (absorbed, ap_warnings r)"
      "apply_normalized (split_lines t) (map (normalizeAfterAnchor xx (split_lines t)) absorbed) = (ls, ap_firstChangedLine r)"
      "ap_lines r = join_lines ls"
proof (cases "edits = []")
  case False
  have v: "anchors_valid xx edits (split_lines t)"
    using assms False
    by (auto simp: applyHashlineEdits_def validate_edits anchors_valid_def find_None_iff filter_empty_conv Let_def
        split: option.splits if_splits)
  show thesis
    using assms False by (auto simp: applyHashlineEdits_def Let_def split: prod.splits if_splits intro: that(2) [OF False v])
qed (use assms that(1) in \<open>auto simp: applyHashlineEdits_def\<close>)

text \<open>
  C10. No edit is applied to a file that its anchors do not describe. Edits are applied exactly when
  every anchor names an existing line whose content has the anchor's hash (the lines inside a range carry
  no hash). Otherwise nothing is applied: a missing line is reported first, the first one in the order of
  the edits, and failing that all stale anchors, each with its expected and its actual hash.
\<close>

theorem stale_edits_are_refused:
  "(\<exists>r. applyHashlineEdits xx t edits generic = Inr r) = anchors_valid xx edits (split_lines t) \<and>
   (\<forall>e. applyHashlineEdits xx t edits generic = Inl e \<longrightarrow>
      (case find (\<lambda>a. \<not> anchor_exists (split_lines t) a) (edit_anchors edits) of
         Some a \<Rightarrow> e = LineDoesNotExist (an_line a) (length (split_lines t))
       | None \<Rightarrow> e = HashlineMismatchError (map (mismatch_of xx (split_lines t)) (filter (stale xx (split_lines t)) (edit_anchors edits)))
                   (split_lines t)))"
proof (cases "edits = []")
  case True
  then show ?thesis by (simp add: applyHashlineEdits_def anchors_valid_def edit_anchors_def)
next
  case False
  show ?thesis
  proof (cases "find (\<lambda>a. \<not> anchor_exists (split_lines t) a) (edit_anchors edits)")
    case None
    then have "\<forall>a\<in>set (edit_anchors edits). anchor_exists (split_lines t) a" by (auto simp: find_None_iff)
    then show ?thesis using False
      by (auto simp: applyHashlineEdits_def validate_edits None anchors_valid_def Let_def filter_empty_conv split: prod.splits)
  next
    case (Some a)
    then have "a \<in> set (edit_anchors edits)" "\<not> anchor_exists (split_lines t) a" by (auto simp: find_Some_iff)
    then show ?thesis using False Some by (auto simp: applyHashlineEdits_def validate_edits anchors_valid_def Let_def)
  qed
qed

section \<open>Instances\<close>

text \<open>In the instances the hash of a line is its length, which picks a pair of the first row of the table.\<close>

lemma demo_hash:
  assumes "length (trimEnd (filter (\<lambda>c. c \<noteq> 13) l)) < 26"
  shows "computeLineHash length n l = [97, 97 + length (trimEnd (filter (\<lambda>c. c \<noteq> 13) l))]"
  using assms by (simp add: computeLineHash_def HL_BIGRAMS_COUNT_647 HL_BIGRAMS_row)

definition demo_edits :: "hl_edit list" where
  "demo_edits = [HInsert (AfterAnchor \<lparr>an_line = 1, an_hash = utf16 ''ab''\<rparr>) (utf16 ''new'') 1 0, HDelete \<lparr>an_line = 3, an_hash = utf16 ''ad''\<rparr> 3 1]"

theorem stale_edits_are_refused_witness:
  "applyHashlineEdits length (join_lines (map utf16 [''a'', ''be'', ''bcde'', ''f''])) demo_edits False =
     Inl (HashlineMismatchError [\<lparr>hm_line = 3, hm_expected = utf16 ''ad'', hm_actual = utf16 ''ae''\<rparr>]
       (map utf16 [''a'', ''be'', ''bcde'', ''f'']))"
proof -
  let ?t = "join_lines (map utf16 [''a'', ''be'', ''bcde'', ''f''])"
  note ok = stale_edits_are_refused [of length ?t demo_edits False]
  have find: "find (\<lambda>a. \<not> anchor_exists (split_lines ?t) a) (edit_anchors demo_edits) = None"
    by (simp add: demo_edits_def edit_anchors_def anchor_exists_def)
  have stale: "map (mismatch_of length (split_lines ?t)) (filter (stale length (split_lines ?t)) (edit_anchors demo_edits)) =
      [\<lparr>hm_line = 3, hm_expected = utf16 ''ad'', hm_actual = utf16 ''ae''\<rparr>]"
    by (simp add: demo_edits_def edit_anchors_def stale_def mismatch_of_def demo_hash trimEnd_def is_space_def RANGE_INTERIOR_HASH_def)
  have "\<not> anchors_valid length demo_edits (split_lines ?t)"
    by (simp add: anchors_valid_def demo_edits_def edit_anchors_def anchor_exists_def stale_def demo_hash trimEnd_def is_space_def
        RANGE_INTERIOR_HASH_def)
  then obtain e where e: "applyHashlineEdits length ?t demo_edits False = Inl e"
    using ok by (cases "applyHashlineEdits length ?t demo_edits False") auto
  then have "e = HashlineMismatchError [\<lparr>hm_line = 3, hm_expected = utf16 ''ad'', hm_actual = utf16 ''ae''\<rparr>] (split_lines ?t)"
    using ok unfolding find stale by simp
  then show ?thesis using e by simp
qed

end
