(* ===== verification/Hashline_Splice.thy ===== *)
theory Hashline_Splice
  imports Hashline_Apply "HOL-Library.Sublist"
begin

text \<open>
  What the splices of \<open>applyHashlineEdits\<close> amount to: buckets applied from the last line to the
  first, and the two ends of the file, give the file that is read off line by line from the places of
  the edits. The theory then follows the absorption of repeated lines through its loop and states what
  an application of edits keeps of the file.
\<close>

section \<open>The reference\<close>

text \<open>
  The reference: every insert has one place, counted in lines of the file before any edit, and the
  new file is read off line by line.
\<close>

datatype place = AtBof | AtEof | AtLine nat

fun cursor_place :: "nat \<Rightarrow> hl_cursor \<Rightarrow> place" where
  "cursor_place n Bof = AtBof"
| "cursor_place n Eof = AtEof"
| "cursor_place n (BeforeAnchor a) = AtLine (an_line a)"
| "cursor_place n (AfterAnchor a) = (if n \<le> an_line a then AtEof else AtLine (an_line a + 1))"

definition inserts_at :: "nat \<Rightarrow> hl_edit list \<Rightarrow> place \<Rightarrow> ustr list" where
  "inserts_at n es p =
     map he_text (filter (\<lambda>e. \<not> is_delete e \<and> cursor_place n (he_cursor e) = p) es)"

definition deletes_line :: "hl_edit list \<Rightarrow> nat \<Rightarrow> bool" where
  "deletes_line es l \<longleftrightarrow> (\<exists>e\<in>set es. is_delete e \<and> an_line (he_anchor e) = l)"

definition new_segment :: "ustr list \<Rightarrow> hl_edit list \<Rightarrow> nat \<Rightarrow> ustr list" where
  "new_segment fileLines es l =
     inserts_at (length fileLines) es (AtLine l) @ (if deletes_line es l then [] else [fileLines ! (l - 1)])"

definition new_body :: "ustr list \<Rightarrow> hl_edit list \<Rightarrow> ustr list" where
  "new_body fileLines es = concat (map (new_segment fileLines es) [1..<Suc (length fileLines)])"

definition new_file :: "ustr list \<Rightarrow> hl_edit list \<Rightarrow> ustr list" where
  "new_file fileLines es =
     fst (insertAtEnd (insertAtStart (new_body fileLines es) (inserts_at (length fileLines) es AtBof))
            (inserts_at (length fileLines) es AtEof))"

subsection \<open>Buckets\<close>

lemma bucket_get:
  "map_get (bucketAnchorEditsByLine es) l =
     (case filter (\<lambda>en. bucket_line (snd en) = l) es of [] \<Rightarrow> None | b \<Rightarrow> Some b)"
proof (induction es rule: rev_induct)
  case (snoc e es)
  then show ?case by (auto simp: bucketAnchorEditsByLine_def Let_def split: list.splits)
qed (simp add: bucketAnchorEditsByLine_def)

lemma bucket_keys: "set (map fst (bucketAnchorEditsByLine es)) = (\<lambda>en. bucket_line (snd en)) ` set es"
proof (induction es rule: rev_induct)
  case (snoc e es)
  then show ?case by (auto simp: bucketAnchorEditsByLine_def Let_def dom_update)
qed (simp add: bucketAnchorEditsByLine_def)

lemma bucket_distinct: "distinct (map fst (bucketAnchorEditsByLine es))"
proof (induction es rule: rev_induct)
  case (snoc e es)
  then show ?case by (simp add: bucketAnchorEditsByLine_def Let_def distinct_update)
qed (simp add: bucketAnchorEditsByLine_def)

lemma sort_key_sorted: "sorted (map f xs) \<Longrightarrow> sort_key f xs = xs"
  by (induction xs) (simp_all add: insort_is_Cons)

lemma map_snd_filter_enumerate: "map snd (filter (\<lambda>en. P (snd en)) (enumerate k xs)) = filter P xs"
  by (induction xs arbitrary: k) auto

lemma map_filter_inserts:
  "List.map_filter insert_text es = map he_text (filter (\<lambda>e. \<not> is_delete e) es)"
  by (induction es) (auto simp: List.map_filter_simps is_delete_def elim: insert_text.elims split: option.splits)

text \<open>Edits that the buckets and the two ends can take: the anchors exist, and no insert is after a line.\<close>

fun edit_placed :: "ustr list \<Rightarrow> hl_edit \<Rightarrow> bool" where
  "edit_placed fileLines (HDelete a n i) = anchor_exists fileLines a"
| "edit_placed fileLines (HInsert (BeforeAnchor a) t n i) = anchor_exists fileLines a"
| "edit_placed fileLines (HInsert (AfterAnchor a) t n i) = False"
| "edit_placed fileLines (HInsert c t n i) = True"

definition anchored :: "hl_edit list \<Rightarrow> indexed_edit list" where
  "anchored es = filter (\<lambda>(i, e). \<not> at_bof e \<and> \<not> at_eof e) (enumerate 0 es)"

lemma bucket_edits:
  assumes "map_get (bucketAnchorEditsByLine (anchored es)) l = Some b"
  shows "map snd (sort_key fst b) = filter (\<lambda>e. \<not> at_bof e \<and> \<not> at_eof e \<and> bucket_line e = l) es"
proof -
  have b: "b = filter (\<lambda>en. bucket_line (snd en) = l) (anchored es)"
    using assms by (auto simp: bucket_get split: list.splits)
  then have b': "b = filter (\<lambda>en. (\<lambda>e. \<not> at_bof e \<and> \<not> at_eof e \<and> bucket_line e = l) (snd en)) (enumerate 0 es)"
    by (simp add: anchored_def split_beta conj_ac)
  have "sorted (map fst b)" unfolding b' by (rule sorted_filter) simp
  then have "sort_key fst b = b" by (rule sort_key_sorted)
  moreover have "map snd b = filter (\<lambda>e. \<not> at_bof e \<and> \<not> at_eof e \<and> bucket_line e = l) es"
    unfolding b' by (rule map_snd_filter_enumerate)
  ultimately show ?thesis by simp
qed

lemma placed_line:
  assumes "edit_placed F e" "\<not> at_bof e" "\<not> at_eof e"
  shows "1 \<le> bucket_line e \<and> bucket_line e \<le> length F"
  using assms by (cases e rule: bucket_line.cases) (auto simp: anchor_exists_def)

text \<open>What one bucket contributes.\<close>

lemma bucket_segment:
  assumes "list_all (edit_placed F) es"
  shows "map he_text (filter (\<lambda>e. \<not> is_delete e) (filter (\<lambda>e. \<not> at_bof e \<and> \<not> at_eof e \<and> bucket_line e = l) es)) =
      inserts_at n es (AtLine l)"
    and "list_ex is_delete (filter (\<lambda>e. \<not> at_bof e \<and> \<not> at_eof e \<and> bucket_line e = l) es) = deletes_line es l"
proof -
  have "\<not> is_delete e \<and> \<not> at_bof e \<and> \<not> at_eof e \<and> bucket_line e = l \<longleftrightarrow> \<not> is_delete e \<and> cursor_place n (he_cursor e) = AtLine l"
    if "e \<in> set es" for e
  proof -
    have "edit_placed F e" using that assms by (simp add: list_all_iff)
    then show ?thesis by (cases e; cases "he_cursor e") (auto simp: is_delete_def)
  qed
  then show "map he_text (filter (\<lambda>e. \<not> is_delete e) (filter (\<lambda>e. \<not> at_bof e \<and> \<not> at_eof e \<and> bucket_line e = l) es)) =
      inserts_at n es (AtLine l)"
    by (auto simp: inserts_at_def intro!: arg_cong [where f = "map he_text"] filter_cong)
  have "is_delete e \<Longrightarrow> \<not> at_bof e \<and> \<not> at_eof e \<and> bucket_line e = an_line (he_anchor e)" for e
    by (cases e) (auto simp: is_delete_def)
  then show "list_ex is_delete (filter (\<lambda>e. \<not> at_bof e \<and> \<not> at_eof e \<and> bucket_line e = l) es) = deletes_line es l"
    by (auto simp: list_ex_iff deletes_line_def)
qed

subsection \<open>Splices from the last line to the first\<close>

definition partial_body :: "ustr list \<Rightarrow> (nat \<Rightarrow> ustr list) \<Rightarrow> nat set \<Rightarrow> ustr list" where
  "partial_body F rep P = concat (map (\<lambda>l. if l \<in> P then rep l else [F ! (l - 1)]) [1..<Suc (length F)])"

lemma partial_body_split:
  assumes "1 \<le> l" "l \<le> length F" "\<forall>p\<in>P. l < p"
  shows "\<exists>tail. length (take (l - 1) F) = l - 1 \<and> partial_body F rep P = take (l - 1) F @ (F ! (l - 1)) # tail \<and>
    partial_body F rep (insert l P) = take (l - 1) F @ rep l @ tail"
proof -
  let ?f = "\<lambda>P l. if l \<in> P then rep l else [F ! (l - 1)]"
  have upt: "[1..<Suc (length F)] = [1..<l] @ l # [Suc l..<Suc (length F)]"
    using assms(1,2) upt_add_eq_append [of 1 l "Suc (length F) - l"] upt_conv_Cons [of l "Suc (length F)"] by simp
  have head: "concat (map (?f Q) [1..<l]) = take (l - 1) F" if "\<forall>p\<in>Q. l \<le> p" for Q
  proof -
    have "map (?f Q) [1..<l] = map (\<lambda>i. [F ! (i - 1)]) [1..<l]" using that by (intro map_cong) auto
    then have "concat (map (?f Q) [1..<l]) = map (\<lambda>i. F ! (i - 1)) [1..<l]" by (simp only: concat_map_singleton)
    also have "\<dots> = take (l - 1) F"
      using assms(1,2) by (intro nth_equalityI) (auto simp: nth_append)
    finally show ?thesis .
  qed
  have tl: "map (?f (insert l P)) [Suc l..<Suc (length F)] = map (?f P) [Suc l..<Suc (length F)]"
    by (intro map_cong) auto
  have "l \<notin> P" using assms(3) by auto
  then show ?thesis
    using assms head [of P] head [of "insert l P"] less_imp_le
    unfolding partial_body_def upt map_append concat_append list.map concat.simps tl by auto
qed

lemma splice_partial_body:
  assumes "1 \<le> l" "l \<le> length F" "\<forall>p\<in>P. l < p"
  shows "splice1 (l - 1) (rep l) (partial_body F rep P) = partial_body F rep (insert l P)"
    and "line_at (partial_body F rep P) l = F ! (l - 1)"
proof -
  obtain tail where t: "length (take (l - 1) F) = l - 1" "partial_body F rep P = take (l - 1) F @ (F ! (l - 1)) # tail"
      "partial_body F rep (insert l P) = take (l - 1) F @ rep l @ tail"
    using partial_body_split [OF assms] by blast
  show "splice1 (l - 1) (rep l) (partial_body F rep P) = partial_body F rep (insert l P)"
    unfolding t(2,3) splice1_def using t(1) by simp
  show "line_at (partial_body F rep P) l = F ! (l - 1)"
    unfolding t(2) line_at_def using t(1) assms(1) by (auto simp: nth_append)
qed

text \<open>One bucket, and all buckets.\<close>

lemma apply_bucket_step:
  assumes "list_all (edit_placed F) es" "1 \<le> l" "l \<le> length F" "\<forall>p\<in>P. l < p"
    and "l \<in> set (map fst (bucketAnchorEditsByLine (anchored es)))"
  shows "apply_bucket (bucketAnchorEditsByLine (anchored es)) (partial_body F (new_segment F es) P, f) l =
    (partial_body F (new_segment F es) (insert l P), trackFirstChanged l f)"
proof -
  let ?m = "bucketAnchorEditsByLine (anchored es)"
  let ?E = "filter (\<lambda>e. \<not> at_bof e \<and> \<not> at_eof e \<and> bucket_line e = l) es"
  obtain b where b: "map_get ?m l = Some b" using assms(5) by (metis map_of_eq_None_iff not_Some_eq set_map)
  have E: "map snd (sort_key fst b) = ?E" by (rule bucket_edits [OF b])
  have "b \<noteq> []" using b by (auto simp: bucket_get split: list.splits)
  then have "?E \<noteq> []" unfolding E [symmetric] by (metis length_0_conv length_map length_sort)
  have ne: "inserts_at (length F) es (AtLine l) \<noteq> [] \<or> deletes_line es l"
  proof -
    obtain e where e: "e \<in> set ?E" using \<open>?E \<noteq> []\<close> by (cases ?E) auto
    show ?thesis
    proof (cases "is_delete e")
      case True
      then show ?thesis using e bucket_segment(2) [OF assms(1), of l] by (auto simp: list_ex_iff)
    next
      case False
      then have "filter (\<lambda>e. \<not> is_delete e) ?E \<noteq> []" using e by (auto simp: filter_empty_conv)
      then show ?thesis using bucket_segment(1) [OF assms(1), of l "length F"] by (metis map_is_Nil_conv)
    qed
  qed
  have seg: "new_segment F es l = (if deletes_line es l then inserts_at (length F) es (AtLine l)
      else inserts_at (length F) es (AtLine l) @ [line_at (partial_body F (new_segment F es) P) l])"
    unfolding splice_partial_body(2) [OF assms(2-4)] by (simp add: new_segment_def)
  show ?thesis
    unfolding apply_bucket_def b option.case fst_conv snd_conv E Let_def map_filter_inserts
      bucket_segment(1) [OF assms(1), of l "length F"] bucket_segment(2) [OF assms(1)]
    using ne splice_partial_body(1) [OF assms(2-4), of "new_segment F es"] unfolding seg by auto
qed

lemma partial_body_empty: "partial_body F rep {} = F"
proof -
  have "partial_body F rep {} = map (\<lambda>l. F ! (l - 1)) [1..<Suc (length F)]"
    by (simp only: partial_body_def empty_iff if_False concat_map_singleton)
  also have "\<dots> = F" by (intro nth_equalityI) (auto simp del: upt_Suc)
  finally show ?thesis .
qed

lemma apply_buckets:
  assumes "list_all (edit_placed F) es" "set ds \<subseteq> set (map fst (bucketAnchorEditsByLine (anchored es)))"
    and "sorted_wrt (>) ds" "\<forall>l\<in>set ds. 1 \<le> l \<and> l \<le> length F"
  shows "foldl (apply_bucket (bucketAnchorEditsByLine (anchored es))) (F, None) ds =
    (partial_body F (new_segment F es) (set ds), if ds = [] then None else Some (last ds))"
  using assms(2-4)
proof (induction ds rule: rev_induct)
  case Nil
  show ?case by (simp add: partial_body_empty)
next
  case (snoc l ds)
  have lt: "\<forall>p\<in>set ds. l < p" using snoc.prems(2) by (simp add: sorted_wrt_append)
  have ih: "foldl (apply_bucket (bucketAnchorEditsByLine (anchored es))) (F, None) ds =
    (partial_body F (new_segment F es) (set ds), if ds = [] then None else Some (last ds))"
    using snoc by (simp add: sorted_wrt_append)
  have "apply_bucket (bucketAnchorEditsByLine (anchored es))
      (partial_body F (new_segment F es) (set ds), if ds = [] then None else Some (last ds)) l =
    (partial_body F (new_segment F es) (insert l (set ds)), trackFirstChanged l (if ds = [] then None else Some (last ds)))"
    using snoc.prems lt by (intro apply_bucket_step [OF assms(1)]) auto
  then show ?case using ih lt by (auto simp: trackFirstChanged_def)
qed

lemma anchored_keys:
  "set (map fst (bucketAnchorEditsByLine (anchored es))) = bucket_line ` {e \<in> set es. \<not> at_bof e \<and> \<not> at_eof e}"
proof -
  have "(\<lambda>en. bucket_line (snd en)) ` set (anchored es) = bucket_line ` set (map snd (anchored es))" by (simp add: image_image)
  also have "map snd (anchored es) = filter (\<lambda>e. \<not> at_bof e \<and> \<not> at_eof e) es"
    using map_snd_filter_enumerate [of "\<lambda>e. \<not> at_bof e \<and> \<not> at_eof e" 0 es] by (simp add: anchored_def case_prod_unfold)
  finally show ?thesis unfolding bucket_keys by simp
qed

text \<open>The lines that some edit is anchored at.\<close>

definition touched :: "hl_edit list \<Rightarrow> nat set" where
  "touched es = bucket_line ` {e \<in> set es. \<not> at_bof e \<and> \<not> at_eof e}"

lemma touched_range: "list_all (edit_placed F) es \<Longrightarrow> l \<in> touched es \<Longrightarrow> 1 \<le> l \<and> l \<le> length F"
  using placed_line by (auto simp: touched_def list_all_iff)

lemma untouched_segment:
  assumes "list_all (edit_placed F) es" "l \<notin> touched es"
  shows "new_segment F es l = [F ! (l - 1)]"
proof -
  have none: "filter (\<lambda>e. \<not> at_bof e \<and> \<not> at_eof e \<and> bucket_line e = l) es = []"
    using assms(2) by (auto simp: touched_def filter_empty_conv)
  have "inserts_at (length F) es (AtLine l) = []" "\<not> deletes_line es l"
    using bucket_segment(1) [OF assms(1), of l "length F"] bucket_segment(2) [OF assms(1), of l] unfolding none by simp_all
  then show ?thesis by (simp add: new_segment_def)
qed

lemma new_body_partial:
  "list_all (edit_placed F) es \<Longrightarrow> partial_body F (new_segment F es) (touched es) = new_body F es"
  unfolding partial_body_def new_body_def
  by (intro arg_cong [where f = concat] map_cong) (auto simp: untouched_segment)

lemma placed_ends:
  assumes "list_all (edit_placed F) es"
  shows "List.map_filter insert_text (filter at_bof es) = inserts_at n es AtBof"
    and "List.map_filter insert_text (filter at_eof es) = inserts_at n es AtEof"
proof -
  have *: "at_bof e \<and> \<not> is_delete e \<longleftrightarrow> \<not> is_delete e \<and> cursor_place n (he_cursor e) = AtBof"
      "at_eof e \<and> \<not> is_delete e \<longleftrightarrow> \<not> is_delete e \<and> cursor_place n (he_cursor e) = AtEof" if "e \<in> set es" for e
  proof -
    have "edit_placed F e" using that assms by (simp add: list_all_iff)
    then show "at_bof e \<and> \<not> is_delete e \<longleftrightarrow> \<not> is_delete e \<and> cursor_place n (he_cursor e) = AtBof"
        "at_eof e \<and> \<not> is_delete e \<longleftrightarrow> \<not> is_delete e \<and> cursor_place n (he_cursor e) = AtEof"
      by (cases e; cases "he_cursor e"; auto simp: is_delete_def)+
  qed
  show "List.map_filter insert_text (filter at_bof es) = inserts_at n es AtBof"
    "List.map_filter insert_text (filter at_eof es) = inserts_at n es AtEof"
    using * by (auto simp: map_filter_inserts inserts_at_def conj_commute intro!: arg_cong [where f = "map he_text"] filter_cong)
qed

definition first_touched :: "hl_edit list \<Rightarrow> nat option" where
  "first_touched es = (if touched es = {} then None else Some (Min (touched es)))"

lemma last_descending:
  fixes ds :: "nat list"
  assumes "sorted_wrt (>) ds" "ds \<noteq> []"
  shows "last ds = Min (set ds)"
proof (cases ds rule: rev_cases)
  case (snoc ys y)
  then have "\<forall>x\<in>set ys. y < x" using assms(1) by (simp add: sorted_wrt_append)
  then show ?thesis by (intro Min_eqI [symmetric]) (auto simp: snoc)
qed (use assms(2) in simp)

lemma apply_normalized_eq:
  assumes "list_all (edit_placed F) es"
  shows "fst (apply_normalized F es) = new_file F es"
    and "snd (apply_normalized F es) =
      (let f1 = (if inserts_at (length F) es AtBof = [] then first_touched es else trackFirstChanged 1 (first_touched es))
       in case snd (insertAtEnd (insertAtStart (new_body F es) (inserts_at (length F) es AtBof)) (inserts_at (length F) es AtEof)) of
            None \<Rightarrow> f1 | Some l \<Rightarrow> trackFirstChanged l f1)"
proof -
  let ?m = "bucketAnchorEditsByLine (anchored es)"
  let ?ds = "rev (sort (map fst ?m))"
  have keys: "set ?ds = touched es" using anchored_keys [of es] by (simp add: touched_def)
  have "sorted_wrt (<) (sort (map fst ?m))" by (simp add: strict_sorted_iff bucket_distinct)
  then have desc: "sorted_wrt (>) ?ds" by (simp add: sorted_wrt_rev)
  have range: "\<forall>l\<in>set ?ds. 1 \<le> l \<and> l \<le> length F" using touched_range [OF assms] keys by blast
  have f: "(if ?ds = [] then None else Some (last ?ds)) = first_touched es"
  proof (cases "?ds = []")
    case False
    have "last ?ds = Min (set ?ds)" by (rule last_descending [OF desc False])
    then show ?thesis using False keys by (auto simp: first_touched_def)
  qed (use keys in \<open>auto simp: first_touched_def\<close>)
  have buckets: "foldl (apply_bucket ?m) (F, None) ?ds = (new_body F es, first_touched es)"
    using apply_buckets [OF assms _ desc range] unfolding keys f new_body_partial [OF assms]
    by (simp add: anchored_keys touched_def del: set_map)
  show "fst (apply_normalized F es) = new_file F es"
    "snd (apply_normalized F es) =
      (let f1 = (if inserts_at (length F) es AtBof = [] then first_touched es else trackFirstChanged 1 (first_touched es))
       in case snd (insertAtEnd (insertAtStart (new_body F es) (inserts_at (length F) es AtBof)) (inserts_at (length F) es AtEof)) of
            None \<Rightarrow> f1 | Some l \<Rightarrow> trackFirstChanged l f1)"
    unfolding apply_normalized_def new_file_def
    by (simp_all add: anchored_def [symmetric] placed_ends [OF assms, of "length F"] Let_def split_beta buckets split: option.splits)
qed

section \<open>Inserts after a line\<close>

lemma is_delete_simps [simp]: "is_delete (HDelete a n i)" "\<not> is_delete (HInsert c t n i)"
  by (simp_all add: is_delete_def)

lemma normalize_facts:
  "is_delete (normalizeAfterAnchor xx F e) = is_delete e"
  "is_delete e \<Longrightarrow> normalizeAfterAnchor xx F e = e"
  "\<not> is_delete e \<Longrightarrow> he_text (normalizeAfterAnchor xx F e) = he_text e \<and>
     cursor_place (length F) (he_cursor (normalizeAfterAnchor xx F e)) = cursor_place (length F) (he_cursor e)"
  by (cases e; cases "he_cursor e"; auto)+

lemma normalize_inserts [simp]:
  "inserts_at (length F) (map (normalizeAfterAnchor xx F) es) p = inserts_at (length F) es p"
  by (induction es) (auto simp: inserts_at_def normalize_facts)

lemma normalize_deletes [simp]: "deletes_line (map (normalizeAfterAnchor xx F) es) l = deletes_line es l"
  using normalize_facts(1,2) by (auto simp: deletes_line_def)

lemma normalize_new_body [simp]: "new_body F (map (normalizeAfterAnchor xx F) es) = new_body F es"
proof -
  have "new_segment F (map (normalizeAfterAnchor xx F) es) = new_segment F es" by (rule ext) (simp add: new_segment_def)
  then show ?thesis by (simp only: new_body_def)
qed

lemma normalize_new_file [simp]: "new_file F (map (normalizeAfterAnchor xx F) es) = new_file F es"
  by (simp add: new_file_def)

definition edit_exists :: "ustr list \<Rightarrow> hl_edit \<Rightarrow> bool" where
  "edit_exists F e \<longleftrightarrow> (\<forall>a\<in>set (getHashlineEditAnchors e). anchor_exists F a)"

lemma normalize_placed: "edit_exists F e \<Longrightarrow> edit_placed F (normalizeAfterAnchor xx F e)"
  by (cases e; cases "he_cursor e") (auto simp: edit_exists_def anchor_exists_def)

lemma valid_edit_exists: "anchors_valid xx edits F \<Longrightarrow> e \<in> set edits \<Longrightarrow> edit_exists F e"
  by (auto simp: anchors_valid_def edit_anchors_def edit_exists_def)

section \<open>The absorption loop\<close>

lemma takeWhile_twice:
  "takeWhile P xs @ takeWhile Q (dropWhile P xs) = take (length (takeWhile P xs @ takeWhile Q (dropWhile P xs))) xs"
proof -
  have "xs = (takeWhile P xs @ takeWhile Q (dropWhile P xs)) @ dropWhile Q (dropWhile P xs)" by simp
  then show ?thesis by (metis append_eq_conv_conj)
qed

lemma replacement_members:
  assumes "findReplacementGroup es = Some g"
  shows "rg_members g = take (length (rg_members g)) es" "rg_members g \<noteq> []" "rg_deletes g \<noteq> []"
    "t \<in> set (rg_replacement g) \<Longrightarrow> \<exists>c n i. HInsert c t n i \<in> set (rg_members g)"
    "a \<in> set (rg_deletes g) \<Longrightarrow> \<exists>n i. HDelete a n i \<in> set (rg_members g)"
    "an_line (hd (rg_deletes g)) \<le> an_line (last (rg_deletes g))"
proof -
  obtain a t n i es' where es: "es = HInsert (BeforeAnchor a) t n i # es'"
    using assms by (cases es rule: findReplacementGroup.cases) auto
  let ?ins = "takeWhile (group_insert n) es"
  let ?dels = "takeWhile (group_delete n) (dropWhile (group_insert n) es)"
  let ?lines = "map (\<lambda>e. an_line (he_anchor e)) ?dels"
  have g: "?dels \<noteq> []" "?lines = [hd ?lines..<hd ?lines + length ?lines]" "rg_members g = ?ins @ ?dels"
      "rg_replacement g = map he_text ?ins" "rg_deletes g = map he_anchor ?dels"
    using assms unfolding es by (auto simp: Let_def split: if_splits)
  show "rg_members g = take (length (rg_members g)) es" unfolding g(3) by (rule takeWhile_twice)
  show "rg_members g \<noteq> []" "rg_deletes g \<noteq> []" using g(1,3,5) by auto
  show "\<exists>c n i. HInsert c t n i \<in> set (rg_members g)" if m: "t \<in> set (rg_replacement g)" for t
  proof -
    obtain e where e: "e \<in> set ?ins" "t = he_text e" using m by (auto simp: g(4))
    then have "group_insert n e" using set_takeWhileD by fast
    then show ?thesis using e unfolding g(3) by (cases e; cases "he_cursor e") auto
  qed
  show "\<exists>n i. HDelete a n i \<in> set (rg_members g)" if m: "a \<in> set (rg_deletes g)" for a
  proof -
    obtain e where e: "e \<in> set ?dels" "a = he_anchor e" using m by (auto simp: g(5))
    then have "group_delete n e" using set_takeWhileD by fast
    then show ?thesis using e unfolding g(3) by (cases e) auto
  qed
  have "sorted ?lines" by (subst g(2)) simp
  moreover have "?lines \<noteq> []" using g(1) by simp
  ultimately have "hd ?lines \<le> last ?lines" by (cases ?lines) auto
  then show "an_line (hd (rg_deletes g)) \<le> an_line (last (rg_deletes g))"
    using g(1) by (simp add: g(5) hd_map last_map)
qed

lemma pure_members:
  assumes "findPureInsertGroup es = Some g"
  shows "pi_members g = take (length (pi_members g)) es" "pi_members g \<noteq> []" "pi_payload g = map he_text (pi_members g)"
    "e \<in> set (pi_members g) \<Longrightarrow> \<exists>t i. e = HInsert (pi_cursor g) t (pi_sourceLineNum g) i"
proof -
  obtain c t n i es' where es: "es = HInsert c t n i # es'"
    using assms by (cases es rule: findPureInsertGroup.cases) auto
  have g: "pi_members g = takeWhile (pure_insert c n) es" "pi_cursor g = c" "pi_sourceLineNum g = n"
      "pi_payload g = map he_text (pi_members g)"
    using assms unfolding es by (auto simp: Let_def split: if_splits)
  show "pi_members g = take (length (pi_members g)) es" unfolding g(1) by (rule takeWhile_eq_take)
  show "pi_members g \<noteq> []" by (simp add: g(1) es cursorMatches_def)
  show "pi_payload g = map he_text (pi_members g)" by (rule g(4))
  show "\<exists>t i. e = HInsert (pi_cursor g) t (pi_sourceLineNum g) i" if m: "e \<in> set (pi_members g)" for e
  proof -
    have "pure_insert c n e" using m set_takeWhileD unfolding g(1) by fast
    then show ?thesis by (cases e) (auto simp: g(2,3) cursorMatches_def)
  qed
qed

lemma round_cases:
  assumes "absorb_round xx F T generic es st = (n, st')" "es \<noteq> []"
  obtains (replacement) g where "findReplacementGroup es = Some g" "take n es = rg_members g"
      "st' = absorb_replacement xx F T g st"
  | (insertion) g where "findPureInsertGroup es = Some g" "take n es = pi_members g" "st' = absorb_insert F generic g st"
  | (single) "take n es = [hd es]" "st' = push_edits_out [hd es] st"
  using assms by (cases es) (auto simp: absorb_round_def split: option.splits dest: replacement_members(1) pure_members(1))

lemma round_progress:
  assumes "absorb_round xx F T generic es st = (n, st')" "es \<noteq> []"
  shows "1 \<le> n \<and> n \<le> length es"
proof -
  have "take n es \<noteq> []" using round_cases [OF assms] replacement_members(2) pure_members(2) by (metis list.discI)
  moreover have "n \<le> length es"
    using assms replacement_members(1) pure_members(1)
    by (cases es) (auto simp: absorb_round_def split: option.splits, (metis length_Cons length_take min.cobounded1)+)
  ultimately show ?thesis by (cases n) auto
qed

lemma absorb_loop_rule:
  assumes "P [] st"
    and "\<And>pre es st n st'. P pre st \<Longrightarrow> pre @ es = edits \<Longrightarrow> es \<noteq> [] \<Longrightarrow> absorb_round xx F T generic es st = (n, st') \<Longrightarrow>
      P (pre @ take n es) st'"
  shows "P edits (absorb_loop xx F T generic edits st)"
proof -
  have "P pre st \<Longrightarrow> pre @ es = edits \<Longrightarrow> P edits (absorb_loop xx F T generic es st)" for pre es
  proof (induction "length es" arbitrary: es pre st rule: less_induct)
    case less
    show ?case
    proof (cases es)
      case (Cons e rest)
      obtain n st' where r: "absorb_round xx F T generic es st = (n, st')" by fastforce
      have n: "1 \<le> n" "n \<le> length es" using round_progress [OF r] Cons by auto
      have "P edits (absorb_loop xx F T generic (drop n es) st')"
        using assms(2) [OF less.prems _ r] n Cons less.prems(2) by (intro less.hyps [of "drop n es" "pre @ take n es"]) auto
      then show ?thesis using r n by (cases n) (auto simp: Cons)
    qed (use less.prems in simp)
  qed
  from this [of "[]"] assms(1) show ?thesis by simp
qed

subsection \<open>Without a warning nothing is absorbed\<close>

lemma absorb_warn_facts [simp]:
  "ab_out (absorb_warn side n m a b st) = ab_out st" "ab_next (absorb_warn side n m a b st) = ab_next st"
  by (simp_all add: absorb_warn_def)

lemma absorb_warn_none: "absorb_warn side 0 m a b st = st"
  by (simp add: absorb_warn_def)

definition quiet :: "hl_edit list \<Rightarrow> absorb_state \<Rightarrow> bool" where
  "quiet pre st \<longleftrightarrow> (ab_warnings st = [] \<longrightarrow> ab_keys st = [] \<and> ab_out st = pre)"

lemma absorb_warn_quiet:
  assumes "ab_warnings st = [] \<longrightarrow> ab_keys st = []" "ab_warnings (absorb_warn side n m a b st) = []"
  shows "n = 0 \<and> ab_warnings st = []"
  using assms by (auto simp: absorb_warn_def split: if_splits)

lemma synthetic_facts [simp]:
  "ab_warnings (synthetic_deletes xx F n ls st) = ab_warnings st" "ab_keys (synthetic_deletes xx F n ls st) = ab_keys st"
  "synthetic_deletes xx F n [] st = st"
  by (simp_all add: synthetic_deletes_def push_edits_out_def)

lemma push_out_facts [simp]:
  "ab_warnings (push_edits_out es st) = ab_warnings st" "ab_keys (push_edits_out es st) = ab_keys st"
  "ab_out (push_edits_out es st) = ab_out st @ es" "ab_next (push_edits_out es st) = ab_next st"
  by (simp_all add: push_edits_out_def)

lemma absorb_warn_grows: "ab_warnings (absorb_warn side n m a b st) = [] \<Longrightarrow> ab_warnings st = []"
  by (auto simp: absorb_warn_def split: if_splits)

lemma quiet_warn:
  assumes "ab_warnings st = [] \<longrightarrow> ab_keys st = []"
    and "ab_warnings (absorb_warn s2 n2 m2 a2 b2 (absorb_warn s1 n1 m1 a1 b1 st)) = []"
  shows "n1 = 0 \<and> n2 = 0 \<and> ab_warnings st = []"
proof -
  have w: "ab_warnings (absorb_warn s1 n1 m1 a1 b1 st) = []" by (rule absorb_warn_grows [OF assms(2)])
  have 1: "n1 = 0" "ab_warnings st = []" using absorb_warn_quiet [OF assms(1) w] by auto
  then have "n2 = 0" using assms absorb_warn_quiet [of st s2 n2] by (simp add: absorb_warn_none)
  then show ?thesis using 1 by simp
qed

lemma quiet_round:
  assumes "quiet pre st" "es \<noteq> []" "absorb_round xx F T generic es st = (n, st')"
  shows "quiet (pre @ take n es) st'"
proof -
  have k: "ab_warnings st = [] \<longrightarrow> ab_keys st = []" using assms(1) by (simp add: quiet_def)
  show ?thesis
  proof (cases rule: round_cases [OF assms(3,2)])
    case (1 g)
    obtain p s where ps: "safe_counts F T g = (p, s)" by fastforce
    show ?thesis
      unfolding quiet_def
    proof (intro impI)
      assume "ab_warnings st' = []"
      then have "p = 0" "s = 0" "ab_warnings st = []"
        using quiet_warn [OF k] by (auto simp: 1(3) absorb_replacement_def ps Let_def)
      then show "ab_keys st' = [] \<and> ab_out st' = pre @ take n es"
        using assms(1) by (auto simp: 1(2,3) absorb_replacement_def ps Let_def absorb_warn_none contiguousRange_def quiet_def)
    qed
  next
    case (2 g)
    obtain kept l t where r: "tryAbsorbPureInsertGroup g F generic = (kept, l, t)" by (cases "tryAbsorbPureInsertGroup g F generic")
    show ?thesis
    proof (cases "l = 0 \<and> t = 0")
      case True
      then have "st' = push_edits_out (pi_members g) st"
        by (auto simp: 2(3) absorb_insert_def r split: prod.splits)
      then show ?thesis using assms(1) by (auto simp: quiet_def 2(2))
    next
      case False
      then have "ab_warnings st' \<noteq> []"
        by (auto simp: 2(3) absorb_insert_def r Let_def split: prod.splits dest!: quiet_warn [OF k])
      then show ?thesis by (simp add: quiet_def)
    qed
  next
    case 3
    then show ?thesis using assms(1) by (auto simp: quiet_def)
  qed
qed

lemma no_warning_no_absorption:
  assumes "absorbReplacementBoundaryDuplicates xx edits F generic = (absorbed, [])"
  shows "absorbed = edits"
proof -
  let ?st = "absorb_loop xx F (collectAnchorTargetLines edits) generic edits
      \<lparr>ab_next = length edits, ab_out = [], ab_keys = [], ab_warnings = []\<rparr>"
  have "quiet edits ?st"
    by (rule absorb_loop_rule [where P = quiet]) (simp_all add: quiet_def [of "[]"] quiet_round)
  then show ?thesis using assms by (auto simp: absorbReplacementBoundaryDuplicates_def quiet_def Let_def)
qed

text \<open>
  C9. The editor applies a batch of edits all at once. When no line is absorbed, the result of splicing
  bucket after bucket is the file that the reference reads off: every edit speaks about the file as
  it was before the batch, whatever the other edits do to line numbers; texts inserted at one place keep
  the order in which they were written; a line stays exactly when no edit deletes it, and the lines that
  stay keep their order.
\<close>

theorem edits_apply_simultaneously:
  assumes "applyHashlineEdits xx t edits generic = Inr r" "ap_warnings r = []" "edits \<noteq> []"
  shows "ap_lines r = join_lines (new_file (split_lines t) edits) \<and>
    subseq (map (\<lambda>l. split_lines t ! (l - 1)) (filter (\<lambda>l. \<not> deletes_line edits l) [1..<Suc (length (split_lines t))]))
      (new_body (split_lines t) edits)"
proof -
  let ?F = "split_lines t"
  obtain absorbed ls where r: "anchors_valid xx edits ?F"
      "absorbReplacementBoundaryDuplicates xx edits ?F generic = (absorbed, ap_warnings r)"
      "apply_normalized ?F (map (normalizeAfterAnchor xx ?F) absorbed) = (ls, ap_firstChangedLine r)" "ap_lines r = join_lines ls"
    using assms(3) by (cases rule: apply_Inr_cases [OF assms(1)]) auto
  have a: "absorbed = edits" using no_warning_no_absorption r(2) assms(2) by simp
  have "list_all (edit_placed ?F) (map (normalizeAfterAnchor xx ?F) edits)"
    using valid_edit_exists [OF r(1)] normalize_placed by (auto simp: list_all_iff)
  from apply_normalized_eq(1) [OF this] have "ls = new_file ?F edits" using r(3) by (simp add: a)
  moreover have "subseq (map (\<lambda>l. ?F ! (l - 1)) (filter (\<lambda>l. \<not> deletes_line edits l) ns)) (concat (map (new_segment ?F edits) ns))" for ns
    by (induction ns) (auto simp: new_segment_def intro!: list_emb_append2 list_emb_append_mono)
  ultimately show ?thesis using r(4) by (simp only: new_body_def)
qed

subsection \<open>What is absorbed\<close>

lemma greatest_count_cases: "greatest_count P m = 0 \<or> (2 \<le> greatest_count P m \<and> greatest_count P m \<le> m \<and> P (greatest_count P m))"
proof (cases "find P (rev [2..<Suc m])")
  case (Some c)
  then have "c \<in> set (rev [2..<Suc m]) \<and> P c" by (metis find_Some_iff nth_mem)
  moreover have "greatest_count P m = c" by (simp add: greatest_count_def Some del: upt_Suc)
  ultimately show ?thesis by auto
qed (simp add: greatest_count_def)

lemma prefix_block_line:
  assumes "s \<le> length F" "p = countMatchingPrefixBlock F s rep" "l \<in> set (contiguousRange (s - p) p)"
  shows "1 \<le> l \<and> l \<le> length F \<and> F ! (l - 1) \<in> set rep"
proof -
  have "p \<noteq> 0" using assms(3) by (auto simp: contiguousRange_def)
  then have p: "p \<le> length rep" "p \<le> s - 1" "take p (drop (s - 1 - p) F) = take p rep"
    using greatest_count_cases [of "\<lambda>n. take n (drop (s - 1 - n) F) = take n rep" "min (length rep) (s - 1)"]
    by (auto simp: assms(2) countMatchingPrefixBlock_def)
  obtain j where j: "l = s - p + j" "j < p" using assms(3) by (auto simp: contiguousRange_def dest!: le_Suc_ex)
  have i: "l - 1 = s - 1 - p + j" using p(2) \<open>p \<noteq> 0\<close> by (simp add: j(1))
  have "F ! (l - 1) = take p (drop (s - 1 - p) F) ! j" unfolding i using j(2) p(2) assms(1) by simp
  also have "\<dots> = take p rep ! j" by (simp only: p(3))
  also have "\<dots> = rep ! j" using j(2) by simp
  finally show ?thesis using j p assms(1) by auto
qed

lemma suffix_block_line:
  assumes "p = countMatchingSuffixBlock F e rep" "l \<in> set (contiguousRange (e + 1) p)"
  shows "1 \<le> l \<and> l \<le> length F \<and> F ! (l - 1) \<in> set rep"
proof -
  have "p \<noteq> 0" using assms(2) by (auto simp: contiguousRange_def)
  then have p: "p \<le> length rep" "p \<le> length F - e" "take p (drop e F) = drop (length rep - p) rep"
    using greatest_count_cases [of "\<lambda>n. take n (drop e F) = drop (length rep - n) rep" "min (length rep) (length F - e)"]
    by (auto simp: assms(1) countMatchingSuffixBlock_def)
  obtain j where j: "l = e + 1 + j" "j < p" using assms(2) by (auto simp: contiguousRange_def dest!: le_Suc_ex)
  have "F ! (l - 1) = take p (drop e F) ! j" using j p(2) by simp
  also have "\<dots> = drop (length rep - p) rep ! j" by (simp only: p(3))
  also have "\<dots> = rep ! (length rep - p + j)" using j(2) p(1) by simp
  finally show ?thesis using j p by auto
qed

lemma single_prefix_line:
  assumes "s \<le> length F" "p = countMatchingSingleStructuralPrefixBoundary F s rep b" "l \<in> set (contiguousRange (s - p) p)"
  shows "1 \<le> l \<and> l \<le> length F \<and> F ! (l - 1) \<in> set rep"
proof -
  have "p \<noteq> 0" using assms(3) by (auto simp: contiguousRange_def)
  then have p: "p = 1" "rep \<noteq> []" "1 < s" "line_at F (s - 1) = hd rep"
    using assms(2) by (auto simp: countMatchingSingleStructuralPrefixBoundary_def split: if_splits)
  then have "l = s - 1" using assms(3) by (auto simp: contiguousRange_def)
  then show ?thesis using p assms(1) by (auto simp: line_at_def split: if_splits)
qed

lemma single_suffix_line:
  assumes "p = countMatchingSingleStructuralSuffixBoundary F e rep b" "l \<in> set (contiguousRange (e + 1) p)"
  shows "1 \<le> l \<and> l \<le> length F \<and> F ! (l - 1) \<in> set rep"
proof -
  have "p \<noteq> 0" using assms(2) by (auto simp: contiguousRange_def)
  then have p: "p = 1" "rep \<noteq> []" "e < length F" "line_at F (e + 1) = last rep"
    using assms(1) by (auto simp: countMatchingSingleStructuralSuffixBoundary_def split: if_splits)
  then have "l = e + 1" using assms(2) by (auto simp: contiguousRange_def)
  then show ?thesis using p by (auto simp: line_at_def)
qed

lemma safe_lines:
  assumes "safe_counts F T g = (p, s)" "an_line (hd (rg_deletes g)) \<le> length F"
    and "l \<in> set (contiguousRange (an_line (hd (rg_deletes g)) - p) p) \<union> set (contiguousRange (an_line (last (rg_deletes g)) + 1) s)"
  shows "1 \<le> l \<and> l \<le> length F \<and> l \<notin> T \<and> F ! (l - 1) \<in> set (rg_replacement g)"
  using assms(3)
proof
  assume l: "l \<in> set (contiguousRange (an_line (hd (rg_deletes g)) - p) p)"
  then have "p \<noteq> 0" by (auto simp: contiguousRange_def)
  then show ?thesis
    using assms(1) l prefix_block_line [OF assms(2)] single_prefix_line [OF assms(2)]
    by (auto simp: safe_counts_def Let_def hasExternalTargets_def split: if_splits)
next
  assume l: "l \<in> set (contiguousRange (an_line (last (rg_deletes g)) + 1) s)"
  then have "s \<noteq> 0" by (auto simp: contiguousRange_def)
  then show ?thesis
    using assms(1) l suffix_block_line single_suffix_line
    by (auto simp: safe_counts_def Let_def hasExternalTargets_def split: if_splits)
qed

lemma synthetic_out:
  "\<exists>ds. ab_out (synthetic_deletes xx F n ls st) = ab_out st @ ds \<and>
     (\<forall>e\<in>set ds. is_delete e \<and> an_line (he_anchor e) \<in> set ls)"
  by (force simp: synthetic_deletes_def deleteEditForAutoAbsorbedLine_def in_set_enumerate_eq)

lemma replacement_out:
  assumes "safe_counts F T g = (p, s)"
  shows "\<exists>d1 d2. ab_out (absorb_replacement xx F T g st) = ab_out st @ d1 @ rg_members g @ d2 \<and>
    (\<forall>e\<in>set (d1 @ d2). is_delete e \<and> an_line (he_anchor e) \<in>
       set (contiguousRange (an_line (hd (rg_deletes g)) - p) p) \<union> set (contiguousRange (an_line (last (rg_deletes g)) + 1) s))"
proof -
  let ?n = "rg_sourceLineNum g" and ?r1 = "contiguousRange (an_line (hd (rg_deletes g)) - p) p"
  let ?r2 = "contiguousRange (an_line (last (rg_deletes g)) + 1) s"
  let ?st1 = "absorb_warn Suffix s ?n (an_line (last (rg_deletes g)) + 1) (an_line (last (rg_deletes g)) + s)
     (absorb_warn Prefix p ?n (an_line (hd (rg_deletes g)) - p) (an_line (hd (rg_deletes g)) - 1) st)"
  obtain d1 where d1: "ab_out (synthetic_deletes xx F ?n ?r1 ?st1) = ab_out st @ d1"
      "\<forall>e\<in>set d1. is_delete e \<and> an_line (he_anchor e) \<in> set ?r1"
    using synthetic_out [of xx F ?n ?r1 ?st1] by auto
  obtain d2 where d2: "ab_out (synthetic_deletes xx F ?n ?r2 (push_edits_out (rg_members g) (synthetic_deletes xx F ?n ?r1 ?st1))) =
      ab_out st @ d1 @ rg_members g @ d2" "\<forall>e\<in>set d2. is_delete e \<and> an_line (he_anchor e) \<in> set ?r2"
    using synthetic_out [of xx F ?n ?r2 "push_edits_out (rg_members g) (synthetic_deletes xx F ?n ?r1 ?st1)"] d1(1) by auto
  have "ab_out (absorb_replacement xx F T g st) = ab_out st @ d1 @ rg_members g @ d2"
    using d2(1) by (simp add: absorb_replacement_def assms Let_def)
  then show ?thesis using d1(2) d2(2) by (intro exI [of _ d1] exI [of _ d2]) auto
qed

lemma insert_out:
  "\<exists>es. ab_out (absorb_insert F generic g st) = ab_out st @ es \<and>
     (es = pi_members g \<or> (\<exists>k kept. es = pushInserts (pi_cursor g) (pi_sourceLineNum g) k kept \<and> set kept \<subseteq> set (pi_payload g)))"
proof -
  obtain kept l t where r: "tryAbsorbPureInsertGroup g F generic = (kept, l, t)" by (cases "tryAbsorbPureInsertGroup g F generic")
  have "set kept \<subseteq> set (pi_payload g)"
    using r by (auto simp: tryAbsorbPureInsertGroup_def Let_def split: if_splits dest: in_set_takeD in_set_dropD)
  then show ?thesis by (auto simp: absorb_insert_def r Let_def split: prod.splits)
qed

text \<open>
  Where the edits after absorption come from: inserts repeat a payload line of the batch, and a
  line that is deleted without the batch saying so is anchored by no edit and is inserted again.
\<close>

definition traced :: "hl_edit list \<Rightarrow> ustr list \<Rightarrow> nat set \<Rightarrow> hl_edit list \<Rightarrow> bool" where
  "traced edits F T out \<longleftrightarrow> (\<forall>e\<in>set out. edit_exists F e) \<and>
     (\<forall>e\<in>set out. \<not> is_delete e \<longrightarrow> (\<exists>e'\<in>set edits. \<not> is_delete e' \<and> he_text e' = he_text e)) \<and>
     (\<forall>e\<in>set out. is_delete e \<longrightarrow> deletes_line edits (an_line (he_anchor e)) \<or>
        (an_line (he_anchor e) \<notin> T \<and> (\<exists>e'\<in>set out. \<not> is_delete e' \<and> he_text e' = F ! (an_line (he_anchor e) - 1))))"

lemma traced_append: "traced edits F T a \<Longrightarrow> traced edits F T b \<Longrightarrow> traced edits F T (a @ b)"
  unfolding traced_def set_append by blast

lemma traced_members:
  assumes "\<forall>e\<in>set edits. edit_exists F e" "set es \<subseteq> set edits"
  shows "traced edits F T es"
  using assms unfolding traced_def deletes_line_def by blast

lemma traced_replacement:
  assumes "\<forall>e\<in>set edits. edit_exists F e" "set (rg_members g) \<subseteq> set edits" "findReplacementGroup es = Some g"
    and "\<forall>e\<in>set (d1 @ d2). is_delete e \<and> an_line (he_anchor e) \<in> L"
    and "\<And>l. l \<in> L \<Longrightarrow> 1 \<le> l \<and> l \<le> length F \<and> l \<notin> T \<and> F ! (l - 1) \<in> set (rg_replacement g)"
  shows "traced edits F T (d1 @ rg_members g @ d2)"
proof -
  have m: "traced edits F T (rg_members g)" by (rule traced_members [OF assms(1,2)])
  have d: "edit_exists F e \<and> an_line (he_anchor e) \<notin> T \<and>
      (\<exists>e'\<in>set (rg_members g). \<not> is_delete e' \<and> he_text e' = F ! (an_line (he_anchor e) - 1)) \<and> is_delete e"
    if "e \<in> set d1 \<or> e \<in> set d2" for e
  proof -
    have e: "is_delete e" "an_line (he_anchor e) \<in> L" using assms(4) that by auto
    obtain c n i where "HInsert c (F ! (an_line (he_anchor e) - 1)) n i \<in> set (rg_members g)"
      using replacement_members(4) [OF assms(3)] assms(5) [OF e(2)] by blast
    then have "\<exists>e'\<in>set (rg_members g). \<not> is_delete e' \<and> he_text e' = F ! (an_line (he_anchor e) - 1)" by force
    moreover have "edit_exists F e"
      using e(1) assms(5) [OF e(2)] by (cases e) (auto simp: edit_exists_def anchor_exists_def)
    ultimately show ?thesis using e(1) assms(5) [OF e(2)] by blast
  qed
  show ?thesis using m d unfolding traced_def set_append by blast
qed

lemma traced_inserts:
  assumes "\<forall>e\<in>set edits. edit_exists F e" "set (pi_members g) \<subseteq> set edits" "findPureInsertGroup es = Some g"
    and "set kept \<subseteq> set (pi_payload g)"
  shows "traced edits F T (pushInserts (pi_cursor g) (pi_sourceLineNum g) k kept)"
proof -
  have "edit_exists F e \<and> \<not> is_delete e \<and> (\<exists>e'\<in>set edits. \<not> is_delete e' \<and> he_text e' = he_text e)"
    if e: "e \<in> set (pushInserts (pi_cursor g) (pi_sourceLineNum g) k kept)" for e
  proof -
    obtain t i where t: "t \<in> set kept" "e = HInsert (pi_cursor g) t (pi_sourceLineNum g) i" using push_edits(1) [OF e] by blast
    then obtain e' where e': "e' \<in> set (pi_members g)" "he_text e' = t"
      using assms(4) pure_members(3) [OF assms(3)] by auto
    then obtain i' where i': "e' = HInsert (pi_cursor g) t (pi_sourceLineNum g) i'"
      using pure_members(4) [OF assms(3) e'(1)] by auto
    have "edit_exists F e'" "e' \<in> set edits" using assms(1,2) e'(1) by auto
    moreover from this have "edit_exists F e" by (cases "pi_cursor g") (auto simp: t(2) i' edit_exists_def)
    moreover have "\<not> is_delete e" "\<not> is_delete e'" by (simp_all add: t(2) i')
    ultimately show ?thesis using e'(2) t(2) by auto
  qed
  then show ?thesis by (auto simp: traced_def)
qed

lemma absorbed_traced:
  assumes "anchors_valid xx edits F" "absorbReplacementBoundaryDuplicates xx edits F generic = (absorbed, ws)"
  shows "traced edits F (collectAnchorTargetLines edits) absorbed"
proof -
  let ?T = "collectAnchorTargetLines edits"
  let ?P = "\<lambda>pre st. traced edits F ?T (ab_out st)"
  have ex: "\<forall>e\<in>set edits. edit_exists F e" using valid_edit_exists [OF assms(1)] by blast
  have "?P edits (absorb_loop xx F ?T generic edits \<lparr>ab_next = length edits, ab_out = [], ab_keys = [], ab_warnings = []\<rparr>)"
  proof (rule absorb_loop_rule [where P = ?P])
    fix pre es st n st'
    assume p: "?P pre st" "pre @ es = edits" "es \<noteq> []" "absorb_round xx F ?T generic es st = (n, st')"
    have sub: "set (take n es) \<subseteq> set edits" using p(2) by (auto dest: in_set_takeD)
    show "?P (pre @ take n es) st'"
    proof (cases rule: round_cases [OF p(4,3)])
      case (1 g)
      obtain a b where ps: "safe_counts F ?T g = (a, b)" by fastforce
      obtain nn i where "HDelete (hd (rg_deletes g)) nn i \<in> set (rg_members g)"
        using replacement_members(5) [OF 1(1)] replacement_members(3) [OF 1(1)] by (meson hd_in_set)
      then have "HDelete (hd (rg_deletes g)) nn i \<in> set edits" using sub 1(2) by auto
      then have "edit_exists F (HDelete (hd (rg_deletes g)) nn i)" using ex by blast
      then have hd: "an_line (hd (rg_deletes g)) \<le> length F" by (simp add: edit_exists_def anchor_exists_def)
      obtain d1 d2 where d: "ab_out st' = ab_out st @ d1 @ rg_members g @ d2"
          "\<forall>e\<in>set (d1 @ d2). is_delete e \<and> an_line (he_anchor e) \<in>
             set (contiguousRange (an_line (hd (rg_deletes g)) - a) a) \<union> set (contiguousRange (an_line (last (rg_deletes g)) + 1) b)"
        using replacement_out [OF ps, of xx st] unfolding 1(3) by blast
      have "traced edits F ?T (d1 @ rg_members g @ d2)"
        using sub 1(2) by (intro traced_replacement [OF ex _ 1(1) d(2) safe_lines [OF ps hd]]) auto
      then show ?thesis unfolding d(1) by (rule traced_append [OF p(1)])
    next
      case (2 g)
      obtain es' where o: "ab_out st' = ab_out st @ es'" "es' = pi_members g \<or>
          (\<exists>k kept. es' = pushInserts (pi_cursor g) (pi_sourceLineNum g) k kept \<and> set kept \<subseteq> set (pi_payload g))"
        using insert_out [of F generic g st] unfolding 2(3) by blast
      have "traced edits F ?T es'"
        using o(2) traced_members [OF ex] traced_inserts [OF ex _ 2(1)] sub 2(2) by auto
      then show ?thesis unfolding o(1) by (rule traced_append [OF p(1)])
    next
      case 3
      have "traced edits F ?T [hd es]" using sub 3(1) by (intro traced_members [OF ex]) auto
      then show ?thesis using p(1) by (simp add: 3(2) traced_append)
    qed
  qed (simp add: traced_def)
  then show ?thesis using assms(2) by (auto simp: absorbReplacementBoundaryDuplicates_def Let_def)
qed

section \<open>What an application keeps\<close>

lemma in_insertAtStart: "x \<noteq> [] \<Longrightarrow> x \<in> set b \<union> set ls \<Longrightarrow> x \<in> set (insertAtStart b ls)"
  by (auto simp: insertAtStart_def)

lemma in_insertAtEnd: "x \<noteq> [] \<Longrightarrow> x \<in> set b \<union> set ls \<Longrightarrow> x \<in> set (fst (insertAtEnd b ls))"
proof -
  have "set (take i b @ ls @ drop i b) = set b \<union> set ls" for i
    by (metis append_take_drop_id set_append sup.commute sup_assoc)
  then show "x \<noteq> [] \<Longrightarrow> x \<in> set b \<union> set ls \<Longrightarrow> x \<in> set (fst (insertAtEnd b ls))"
    by (auto simp: insertAtEnd_def Let_def)
qed

lemma set_insertAtStart: "set (insertAtStart b ls) \<subseteq> set b \<union> set ls"
  by (auto simp: insertAtStart_def)

lemma set_insertAtEnd: "set (fst (insertAtEnd b ls)) \<subseteq> set b \<union> set ls"
  by (auto simp: insertAtEnd_def Let_def dest: in_set_takeD in_set_dropD)

lemma in_new_file:
  assumes "x \<noteq> []" "x \<in> set (new_body F es) \<or> x \<in> set (inserts_at (length F) es AtBof) \<or> x \<in> set (inserts_at (length F) es AtEof)"
  shows "x \<in> set (new_file F es)"
  unfolding new_file_def using assms by (intro in_insertAtEnd) (auto intro: in_insertAtStart)

lemma in_new_body: "1 \<le> l \<Longrightarrow> l \<le> length F \<Longrightarrow> x \<in> set (new_segment F es l) \<Longrightarrow> x \<in> set (new_body F es)"
  unfolding new_body_def by (auto simp del: upt_Suc)

lemma insert_in_new_file:
  assumes "e \<in> set es" "\<not> is_delete e" "edit_exists F e" "he_text e \<noteq> []"
  shows "he_text e \<in> set (new_file F es)"
proof -
  have t: "he_text e \<in> set (inserts_at (length F) es (cursor_place (length F) (he_cursor e)))"
    using assms(1,2) by (auto simp: inserts_at_def)
  have "cursor_place (length F) (he_cursor e) \<in> {AtBof, AtEof} \<or>
      (\<exists>l. cursor_place (length F) (he_cursor e) = AtLine l \<and> 1 \<le> l \<and> l \<le> length F)"
    using assms(2,3) by (cases e; cases "he_cursor e") (auto simp: edit_exists_def anchor_exists_def)
  then consider "cursor_place (length F) (he_cursor e) \<in> {AtBof, AtEof}"
    | l where "cursor_place (length F) (he_cursor e) = AtLine l" "1 \<le> l" "l \<le> length F" by blast
  then show ?thesis
  proof cases
    case 1
    then show ?thesis using t assms(4) by (intro in_new_file) auto
  next
    case (2 l)
    then show ?thesis using t assms(4) in_new_body [of l F "he_text e" es] by (intro in_new_file) (auto simp: new_segment_def)
  qed
qed

lemma set_new_file:
  "set (new_file F es) \<subseteq> set F \<union> he_text ` {e \<in> set es. \<not> is_delete e}"
proof -
  have ins: "set (inserts_at n es p) \<subseteq> he_text ` {e \<in> set es. \<not> is_delete e}" for n p by (auto simp: inserts_at_def)
  have seg: "set (new_segment F es l) \<subseteq> set F \<union> he_text ` {e \<in> set es. \<not> is_delete e}" if "1 \<le> l" "l \<le> length F" for l
    using ins [of "length F" "AtLine l"] that by (auto simp: new_segment_def)
  have "set (new_body F es) \<subseteq> set F \<union> he_text ` {e \<in> set es. \<not> is_delete e}"
  proof
    fix x
    assume "x \<in> set (new_body F es)"
    then obtain l where l: "1 \<le> l" "l \<le> length F" "x \<in> set (new_segment F es l)"
      by (auto simp: new_body_def simp del: upt_Suc)
    then show "x \<in> set F \<union> he_text ` {e \<in> set es. \<not> is_delete e}" using seg [OF l(1,2)] by blast
  qed
  moreover have "set (new_file F es) \<subseteq> set (new_body F es) \<union> set (inserts_at (length F) es AtBof) \<union> set (inserts_at (length F) es AtEof)"
    unfolding new_file_def by (rule order_trans [OF set_insertAtEnd Un_mono [OF set_insertAtStart subset_refl]])
  ultimately show ?thesis using ins [of "length F" AtBof] ins [of "length F" AtEof] by auto
qed

text \<open>Payload lines of a patch have no newline: the parser cuts the patch at newlines.\<close>

definition one_line_texts :: "hl_edit list \<Rightarrow> bool" where
  "one_line_texts es \<longleftrightarrow> (\<forall>e\<in>set es. \<not> is_delete e \<longrightarrow> 10 \<notin> set (he_text e))"

text \<open>The lines of a result.\<close>

lemma result_lines:
  assumes "applyHashlineEdits xx t edits generic = Inr r" "edits \<noteq> []" "one_line_texts edits"
  obtains absorbed where "traced edits (split_lines t) (collectAnchorTargetLines edits) absorbed"
    "split_lines (ap_lines r) = (if new_file (split_lines t) absorbed = [] then [[]] else new_file (split_lines t) absorbed)"
    "snd (apply_normalized (split_lines t) (map (normalizeAfterAnchor xx (split_lines t)) absorbed)) = ap_firstChangedLine r"
    "ap_lines r = join_lines (new_file (split_lines t) absorbed)"
    "list_all (edit_placed (split_lines t)) (map (normalizeAfterAnchor xx (split_lines t)) absorbed)"
proof -
  let ?F = "split_lines t"
  obtain absorbed ls where r: "anchors_valid xx edits ?F"
      "absorbReplacementBoundaryDuplicates xx edits ?F generic = (absorbed, ap_warnings r)"
      "apply_normalized ?F (map (normalizeAfterAnchor xx ?F) absorbed) = (ls, ap_firstChangedLine r)" "ap_lines r = join_lines ls"
    using assms(2) by (cases rule: apply_Inr_cases [OF assms(1)]) auto
  have tr: "traced edits ?F (collectAnchorTargetLines edits) absorbed" by (rule absorbed_traced [OF r(1,2)])
  then have placed: "list_all (edit_placed ?F) (map (normalizeAfterAnchor xx ?F) absorbed)"
    using normalize_placed by (auto simp: traced_def list_all_iff)
  have ls: "ls = new_file ?F absorbed" using apply_normalized_eq(1) [OF placed] r(3) by simp
  have "10 \<notin> set l" if "l \<in> set ls" for l
  proof -
    have "l \<in> set ?F \<or> l \<in> he_text ` {e \<in> set absorbed. \<not> is_delete e}" using that set_new_file unfolding ls by blast
    then show ?thesis using split_lines_no_newline tr assms(3) by (auto simp: traced_def one_line_texts_def) metis
  qed
  then have "split_lines (join_lines ls) = (if ls = [] then [[]] else ls)" by (auto simp: split_join_lines)
  then show thesis using that [OF tr _ _ _ placed] r(3,4) ls by simp
qed

text \<open>
  The editor loses no line that the batch did not delete. Whatever lines it absorbs around a
  replacement or drops from an insert, the content of every non-empty line that no edit of the batch
  deletes is still a line of the new file.
\<close>

theorem unedited_lines_survive:
  assumes "applyHashlineEdits xx t edits generic = Inr r" "one_line_texts edits"
    and "1 \<le> l" "l \<le> length (split_lines t)" "split_lines t ! (l - 1) \<noteq> []" "\<not> deletes_line edits l"
  shows "split_lines t ! (l - 1) \<in> set (split_lines (ap_lines r))"
proof (cases "edits = []")
  case True
  then show ?thesis using assms by (auto simp: applyHashlineEdits_def)
next
  case False
  let ?F = "split_lines t"
  obtain absorbed where a: "traced edits ?F (collectAnchorTargetLines edits) absorbed"
      "split_lines (ap_lines r) = (if new_file ?F absorbed = [] then [[]] else new_file ?F absorbed)"
    using result_lines [OF assms(1) False assms(2)] by metis
  have "?F ! (l - 1) \<in> set (new_file ?F absorbed)"
  proof (cases "deletes_line absorbed l")
    case True
    then obtain e where "e \<in> set absorbed" "is_delete e" "an_line (he_anchor e) = l" by (auto simp: deletes_line_def)
    then obtain e' where e': "e' \<in> set absorbed" "\<not> is_delete e'" "he_text e' = ?F ! (l - 1)" "edit_exists ?F e'"
      using a(1) assms(6) by (auto simp: traced_def)
    then show ?thesis using insert_in_new_file [OF e'(1,2,4)] assms(5) by simp
  next
    case False
    then have "?F ! (l - 1) \<in> set (new_segment ?F absorbed l)" by (simp add: new_segment_def)
    then show ?thesis using assms(3-5) in_new_body by (intro in_new_file) auto
  qed
  then show ?thesis by (auto simp: a(2))
qed

lemma new_body_untouched: "list_all (edit_placed F) es \<Longrightarrow> touched es = {} \<Longrightarrow> new_body F es = F"
  using new_body_partial [of F es] by (simp add: partial_body_empty)

lemma take_new_body:
  assumes "list_all (edit_placed F) es" "touched es \<noteq> {}" "k \<le> Min (touched es) - 1"
  shows "take k (new_body F es) = take k F" "Min (touched es) - 1 \<le> length (new_body F es)"
proof -
  let ?m = "Min (touched es)"
  have fin: "finite (touched es)" by (simp add: touched_def)
  have m: "?m \<in> touched es" "1 \<le> ?m" "?m \<le> length F"
    using Min_in [OF fin assms(2)] touched_range [OF assms(1)] by auto
  have "\<forall>p\<in>touched es - {?m}. ?m < p" using fin by (auto simp: order.not_eq_order_implies_strict)
  from partial_body_split [OF m(2,3) this, of "new_segment F es"] obtain tail where
    t: "length (take (?m - 1) F) = ?m - 1" "partial_body F (new_segment F es) (insert ?m (touched es - {?m})) = take (?m - 1) F @ new_segment F es ?m @ tail"
    by blast
  have "insert ?m (touched es - {?m}) = touched es" using m(1) by blast
  then have b: "new_body F es = take (?m - 1) F @ new_segment F es ?m @ tail" using t(2) new_body_partial [OF assms(1)] by simp
  then show "take k (new_body F es) = take k F" using assms(3) t(1) by (simp add: min_def)
  show "?m - 1 \<le> length (new_body F es)" using b t(1) by simp
qed

lemma insertAtEnd_cases:
  obtains "ls = []" | "ls \<noteq> []" "b = [[]]"
  | i where "ls \<noteq> []" "b \<noteq> [[]]" "i \<le> length b" "insertAtEnd b ls = (take i b @ ls @ drop i b, Some (i + 1))"
proof -
  let ?i = "if b \<noteq> [] \<and> last b = [] then length b - 1 else length b"
  have "?i \<le> length b" by simp
  moreover have "insertAtEnd b ls = (take ?i b @ ls @ drop ?i b, Some (?i + 1))" if "ls \<noteq> []" "b \<noteq> [[]]"
    using that by (simp only: insertAtEnd_def Let_def if_False)
  ultimately show thesis using that by blast
qed

lemma first_change_normalized:
  assumes "list_all (edit_placed F) es" "F \<noteq> []"
  shows "case snd (apply_normalized F es) of None \<Rightarrow> new_file F es = F
    | Some f \<Rightarrow> 1 \<le> f \<and> take (f - 1) (new_file F es) = take (f - 1) F"
proof -
  let ?b = "new_body F es" and ?e = "inserts_at (length F) es AtEof"
  have first: "case first_touched es of None \<Rightarrow> ?b = F
      | Some m \<Rightarrow> 1 \<le> m \<and> m - 1 \<le> length ?b \<and> (\<forall>k\<le>m - 1. take k ?b = take k F)"
    using new_body_untouched [OF assms(1)] take_new_body [OF assms(1)] touched_range [OF assms(1) Min_in]
    by (auto simp: first_touched_def touched_def)
  show ?thesis
  proof (cases "inserts_at (length F) es AtBof = []")
    case True
    then have f: "snd (apply_normalized F es) = (case snd (insertAtEnd ?b ?e) of None \<Rightarrow> first_touched es
        | Some l \<Rightarrow> trackFirstChanged l (first_touched es))" "new_file F es = fst (insertAtEnd ?b ?e)"
      by (simp_all add: apply_normalized_eq(2) [OF assms(1)] insertAtStart_def new_file_def Let_def)
    consider "?e = []" | "?e \<noteq> []" "?b = [[]]" | i where "?e \<noteq> []" "?b \<noteq> [[]]" "i \<le> length ?b"
        "insertAtEnd ?b ?e = (take i ?b @ ?e @ drop i ?b, Some (i + 1))"
      by (rule insertAtEnd_cases)
    then show ?thesis
    proof cases
      case 1
      then show ?thesis using first by (auto simp: f insertAtEnd_def split: option.splits)
    next
      case 2
      then show ?thesis using first by (auto simp: f insertAtEnd_def trackFirstChanged_def split: option.splits)
    next
      case (3 i)
      have pre: "take k (take i ?b @ ?e @ drop i ?b) = take k ?b" if "k \<le> i" for k
        using that 3(3) by (simp add: min_def)
      show ?thesis
        using first pre 3(3) by (auto simp: f 3(4) trackFirstChanged_def split: option.splits)
    qed
  next
    case False
    then have "snd (apply_normalized F es) = Some 1"
      using first
      by (auto simp: apply_normalized_eq(2) [OF assms(1)] trackFirstChanged_def Let_def insertAtEnd_def split: option.splits if_splits)
    then show ?thesis by simp
  qed
qed

text \<open>
  The reported first changed line is right: the lines before it are the lines of the old file,
  and when none is reported the file is unchanged.
\<close>

theorem first_changed_line_bounds_change:
  assumes "applyHashlineEdits xx t edits generic = Inr r" "one_line_texts edits"
  shows "case ap_firstChangedLine r of None \<Rightarrow> ap_lines r = t
    | Some f \<Rightarrow> 1 \<le> f \<and> take (f - 1) (split_lines (ap_lines r)) = take (f - 1) (split_lines t)"
proof (cases "edits = []")
  case True
  then show ?thesis using assms(1) by (auto simp: applyHashlineEdits_def)
next
  case False
  let ?F = "split_lines t"
  obtain absorbed where a: "split_lines (ap_lines r) = (if new_file ?F absorbed = [] then [[]] else new_file ?F absorbed)"
    "snd (apply_normalized ?F (map (normalizeAfterAnchor xx ?F) absorbed)) = ap_firstChangedLine r"
    "ap_lines r = join_lines (new_file ?F absorbed)" "list_all (edit_placed ?F) (map (normalizeAfterAnchor xx ?F) absorbed)"
    using result_lines [OF assms(1) False assms(2)] by metis
  show ?thesis
    using first_change_normalized [OF a(4)] a(1,3) unfolding a(2)
    by (auto split: option.splits if_splits)
qed

section \<open>Instances\<close>

lemmas apply_eval = applyHashlineEdits_def validateHashlineAnchors_def validate_anchor_def line_at_def demo_hash trimEnd_def
  RANGE_INTERIOR_HASH_def absorbReplacementBoundaryDuplicates_def absorb_round_def absorb_replacement_def absorb_insert_def
  safe_counts_def countMatchingPrefixBlock_def countMatchingSuffixBlock_def greatest_count_def hasExternalTargets_def
  contiguousRange_def collectAnchorTargetLines_def List.map_filter_simps cursorMatches_def push_edits_out_def synthetic_deletes_def
  deleteEditForAutoAbsorbedLine_def absorb_warn_def computeDelimiterBalance_def count_delimiter_def ZERO_DELIMITER_BALANCE_def
  countMatchingSingleStructuralPrefixBoundary_def countMatchingSingleStructuralSuffixBoundary_def isStructuralClosingBoundaryLine_def
  tryAbsorbPureInsertGroup_def absorbedLeading_def absorbedTrailing_def shouldDropSingleStructuralBoundary_def pushInserts_def
  apply_normalized_def bucketAnchorEditsByLine_def apply_bucket_def splice1_def trackFirstChanged_def insertAtStart_def insertAtEnd_def
  is_delete_def is_space_def

lemma demo_apply:
  "applyHashlineEdits length (join_lines (map utf16 [''a'', ''be'', ''bcd'', ''f''])) demo_edits False =
    Inr \<lparr>ap_lines = join_lines (map utf16 [''a'', ''new'', ''be'', ''f'']), ap_firstChangedLine = Some 2, ap_warnings = []\<rparr>"
  unfolding demo_edits_def by (simp add: apply_eval)

definition bracket_edits :: "hl_edit list" where
  "bracket_edits = [HInsert (BeforeAnchor \<lparr>an_line = 3, an_hash = utf16 ''ab''\<rparr>) (utf16 ''x'') 1 0,
     HInsert (BeforeAnchor \<lparr>an_line = 3, an_hash = utf16 ''ab''\<rparr>) (utf16 ''y'') 1 1, HDelete \<lparr>an_line = 3, an_hash = utf16 ''ab''\<rparr> 1 2]"

text \<open>
  Where absorption goes too far. A replacement whose payload repeats the lines above and the lines
  below it is widened on both sides, although the payload holds one copy only: here five lines
  become two. And a closing line is dropped from an insert as a repetition of the line above it although
  the same batch deletes that line, so that the closing line is gone from the file.
\<close>

theorem absorption_gaps:
  "applyHashlineEdits length (join_lines (map utf16 [''x'', ''y'', ''z'', ''x'', ''y''])) bracket_edits False =
     Inr \<lparr>ap_lines = join_lines (map utf16 [''x'', ''y'']), ap_firstChangedLine = Some 1,
       ap_warnings = [(Prefix, 2, 1, 1, 2), (Suffix, 2, 1, 4, 5)]\<rparr> \<and>
   applyHashlineEdits length (join_lines (map utf16 [''a'', ''}'', ''b'']))
     [HDelete \<lparr>an_line = 2, an_hash = utf16 ''ab''\<rparr> 1 0, HInsert (AfterAnchor \<lparr>an_line = 2, an_hash = utf16 ''ab''\<rparr>) (utf16 ''}'') 2 1] False =
     Inr \<lparr>ap_lines = join_lines (map utf16 [''a'', ''b'']), ap_firstChangedLine = Some 2, ap_warnings = [(PureLeading, 1, 2, 2, 2)]\<rparr>"
proof
  show "applyHashlineEdits length (join_lines (map utf16 [''x'', ''y'', ''z'', ''x'', ''y''])) bracket_edits False =
     Inr \<lparr>ap_lines = join_lines (map utf16 [''x'', ''y'']), ap_firstChangedLine = Some 1,
       ap_warnings = [(Prefix, 2, 1, 1, 2), (Suffix, 2, 1, 4, 5)]\<rparr>"
    unfolding bracket_edits_def by (simp add: apply_eval)
  show "applyHashlineEdits length (join_lines (map utf16 [''a'', ''}'', ''b'']))
     [HDelete \<lparr>an_line = 2, an_hash = utf16 ''ab''\<rparr> 1 0, HInsert (AfterAnchor \<lparr>an_line = 2, an_hash = utf16 ''ab''\<rparr>) (utf16 ''}'') 2 1] False =
     Inr \<lparr>ap_lines = join_lines (map utf16 [''a'', ''b'']), ap_firstChangedLine = Some 2, ap_warnings = [(PureLeading, 1, 2, 2, 2)]\<rparr>"
    by (simp add: apply_eval)
qed

theorem edits_apply_simultaneously_witness:
  "join_lines (map utf16 [''a'', ''new'', ''be'', ''f'']) = join_lines (new_file (map utf16 [''a'', ''be'', ''bcd'', ''f'']) demo_edits)"
  using edits_apply_simultaneously [OF demo_apply] by (simp add: demo_edits_def)

theorem unedited_lines_survive_witness:
  "utf16 ''be'' \<in> set (split_lines (join_lines (map utf16 [''a'', ''new'', ''be'', ''f''])))"
proof -
  have "one_line_texts demo_edits" "\<not> deletes_line demo_edits 2"
    by (simp_all add: demo_edits_def one_line_texts_def deletes_line_def)
  then show ?thesis using unedited_lines_survive [OF demo_apply, of 2] by simp
qed

theorem first_changed_line_bounds_change_witness:
  "take 1 (split_lines (join_lines (map utf16 [''a'', ''new'', ''be'', ''f'']))) = [utf16 ''a'']"
proof -
  have "one_line_texts demo_edits" by (simp add: demo_edits_def one_line_texts_def)
  then show ?thesis using first_changed_line_bounds_change [OF demo_apply] by simp
qed

end
