(* ===== verification/Hashline_Input.thy ===== *)
theory Hashline_Input
  imports Hashline_Splice
begin

text \<open>
  From the input of the edit tool to the sections it applies (\<open>hashline/input.ts\<close>, and
  \<open>mergeSamePathSections\<close> of \<open>hashline/execute.ts\<close>): file headers, envelope markers, the
  fallback path, and the merge of sections of one file. Paths are POSIX paths; the working directory
  of the process, which \<open>path.resolve\<close> falls back to, is the parameter \<open>pcwd\<close>.
\<close>

section \<open>Paths\<close>

definition slash :: nat where "slash = 47"

definition isAbsolute :: "ustr \<Rightarrow> bool" where
  "isAbsolute p \<longleftrightarrow> p \<noteq> [] \<and> hd p = slash"

fun split_slash :: "ustr \<Rightarrow> ustr list" where
  "split_slash [] = [[]]"
| "split_slash (c # s) =
     (if c = slash then [] # split_slash s
      else (case split_slash s of [] \<Rightarrow> [[c]] | l # ls \<Rightarrow> (c # l) # ls))"

text \<open>The segments of \<open>path.resolve(p)\<close>.\<close>

definition resolve_segments :: "ustr \<Rightarrow> ustr \<Rightarrow> ustr list" where
  "resolve_segments pcwd p =
     foldl (\<lambda>acc s. if s = [] \<or> s = utf16 ''.'' then acc else if s = utf16 ''..'' then butlast acc else acc @ [s]) []
       ((if isAbsolute p then [] else split_slash pcwd) @ split_slash p)"

fun join_slash :: "ustr list \<Rightarrow> ustr" where
  "join_slash [] = []"
| "join_slash [s] = s"
| "join_slash (s # t # ss) = s @ slash # join_slash (t # ss)"

text \<open>\<open>path.relative\<close> on resolved paths.\<close>

fun relative_segments :: "ustr list \<Rightarrow> ustr list \<Rightarrow> ustr list" where
  "relative_segments (a # as) (b # bs) =
     (if a = b then relative_segments as bs else replicate (length (a # as)) (utf16 ''..'') @ b # bs)"
| "relative_segments as bs = replicate (length as) (utf16 ''..'') @ bs"

definition unquoteHashlinePath :: "ustr \<Rightarrow> ustr" where
  "unquoteHashlinePath p =
     (if length p < 2 then p
      else if (hd p = 34 \<or> hd p = 39) \<and> hd p = last p then butlast (tl p) else p)"

definition normalizeHashlinePath :: "ustr \<Rightarrow> ustr \<Rightarrow> ustr option \<Rightarrow> ustr" where
  "normalizeHashlinePath pcwd rawPath cwd =
     (let unquoted = unquoteHashlinePath (utrim rawPath)
      in case cwd of None \<Rightarrow> unquoted
         | Some c \<Rightarrow>
             (if c = [] \<or> \<not> isAbsolute unquoted then unquoted
              else let relative = join_slash (relative_segments (resolve_segments pcwd c) (resolve_segments pcwd unquoted));
                       inside = relative = [] \<or> (take 2 relative \<noteq> utf16 ''..'' \<and> \<not> isAbsolute relative)
                   in if inside then (if relative = [] then utf16 ''.'' else relative) else unquoted))"

section \<open>Sections\<close>

record split_options =
  so_cwd :: "ustr option"
  so_path :: "ustr option"

record input_section =
  is_path :: ustr
  is_diff :: ustr

datatype input_error = EmptyHeader | NoHeader ustr

text \<open>A header line gives its path, any other line \<open>null\<close>.\<close>

definition parseHashlineHeaderLine :: "ustr \<Rightarrow> ustr \<Rightarrow> ustr option \<Rightarrow> input_error + ustr option" where
  "parseHashlineHeaderLine pcwd line cwd =
     (let trimmed = trimEnd line
      in if trimmed = [] \<or> hd trimmed \<noteq> HL_FILE_PREFIX then Inr None
         else (let rest = dropWhile (\<lambda>c. c = HL_FILE_PREFIX) trimmed
               in if blank rest then Inl EmptyHeader
                  else (let p = normalizeHashlinePath pcwd rest cwd in if p = [] then Inl EmptyHeader else Inr (Some p))))"

definition isPatchEnvelopeMarker :: "ustr \<Rightarrow> bool" where
  "isPatchEnvelopeMarker line \<longleftrightarrow> trimEnd line = BEGIN_PATCH_MARKER \<or> trimEnd line = END_PATCH_MARKER"

definition drop_bom :: "ustr \<Rightarrow> ustr" where
  "drop_bom s = (case s of c # t \<Rightarrow> if c = 0xFEFF then t else s | [] \<Rightarrow> s)"

definition stripLeadingBlankLines :: "ustr \<Rightarrow> ustr" where
  "stripLeadingBlankLines input =
     join_lines (dropWhile (\<lambda>l. blank (drop_cr l) \<or> trimEnd (drop_cr l) = BEGIN_PATCH_MARKER) (split_lines (drop_bom input)))"

definition containsRecognizableHashlineOperations :: "ustr \<Rightarrow> bool" where
  "containsRecognizableHashlineOperations input \<longleftrightarrow> list_ex (\<lambda>l. l \<noteq> [] \<and> hd l \<in> set HL_OP_CHARS) (split_crlf input)"

text \<open>\<open>some\<close> stops at the first header, and throws at a malformed header before it.\<close>

fun has_header :: "ustr \<Rightarrow> ustr option \<Rightarrow> ustr list \<Rightarrow> input_error + bool" where
  "has_header pcwd cwd [] = Inr False"
| "has_header pcwd cwd (l # ls) =
     andThen (parseHashlineHeaderLine pcwd l cwd) (\<lambda>h. if h \<noteq> None then Inr True else has_header pcwd cwd ls)"

definition normalizeFallbackInput :: "ustr \<Rightarrow> ustr \<Rightarrow> split_options \<Rightarrow> input_error + ustr" where
  "normalizeFallbackInput pcwd input opts =
     andThen (has_header pcwd (so_cwd opts) (split_crlf (drop_bom input))) (\<lambda>explicit.
       if explicit then Inr input
       else (case so_path opts of None \<Rightarrow> Inr input
         | Some p \<Rightarrow>
             (if p = [] \<or> \<not> containsRecognizableHashlineOperations input then Inr input
              else (let fallback = normalizeHashlinePath pcwd p (so_cwd opts)
                    in if fallback = [] then Inr input else Inr (HL_FILE_PREFIX # fallback @ 10 # input)))))"

text \<open>The sections so far, the current path and its lines.\<close>

record split_state =
  ss_sections :: "input_section list"
  ss_path :: ustr
  ss_lines :: "ustr list"

definition flush_section :: "split_state \<Rightarrow> split_state" where
  "flush_section st =
     (if ss_path st = [] then st
      else st\<lparr>ss_sections := ss_sections st @
                (if list_ex (\<lambda>l. \<not> blank l) (ss_lines st) then [\<lparr>is_path = ss_path st, is_diff = join_lines (ss_lines st)\<rparr>] else []),
              ss_lines := []\<rparr>)"

fun split_loop :: "ustr \<Rightarrow> ustr option \<Rightarrow> ustr list \<Rightarrow> split_state \<Rightarrow> input_error + split_state" where
  "split_loop pcwd cwd [] st = Inr st"
| "split_loop pcwd cwd (l # ls) st =
     (if trimEnd l = END_PATCH_MARKER \<or> trimEnd l = ABORT_MARKER then Inr st
      else if isPatchEnvelopeMarker l then split_loop pcwd cwd ls st
      else andThen (parseHashlineHeaderLine pcwd l cwd) (\<lambda>h.
        case h of Some p \<Rightarrow> split_loop pcwd cwd ls ((flush_section st)\<lparr>ss_path := p, ss_lines := []\<rparr>)
        | None \<Rightarrow> split_loop pcwd cwd ls (st\<lparr>ss_lines := ss_lines st @ [l]\<rparr>)))"

definition splitHashlineInputs :: "ustr \<Rightarrow> ustr \<Rightarrow> split_options \<Rightarrow> input_error + input_section list" where
  "splitHashlineInputs pcwd input opts =
     andThen (normalizeFallbackInput pcwd input opts) (\<lambda>txt0.
       let ls = split_crlf (stripLeadingBlankLines txt0) in
       andThen (parseHashlineHeaderLine pcwd (hd ls) (so_cwd opts)) (\<lambda>h.
         if h = None then Inl (NoHeader (hd ls))
         else andThen (split_loop pcwd (so_cwd opts) ls \<lparr>ss_sections = [], ss_path = [], ss_lines = []\<rparr>) (\<lambda>st.
           Inr (ss_sections (flush_section st)))))"

definition mergeSamePathSections :: "input_section list \<Rightarrow> input_section list" where
  "mergeSamePathSections sections =
     map (\<lambda>(p, diffs). \<lparr>is_path = p, is_diff = join_lines diffs\<rparr>)
       (foldl (\<lambda>m s. map_set (is_path s) ((case map_get m (is_path s) of None \<Rightarrow> [] | Some ds \<Rightarrow> ds) @ [is_diff s]) m) [] sections)"

section \<open>Merged sections\<close>

text \<open>Grouping values under their keys in a map, as the editor does for buckets and for sections.\<close>

definition group_by :: "('a \<Rightarrow> 'k) \<Rightarrow> ('a \<Rightarrow> 'v) \<Rightarrow> 'a list \<Rightarrow> ('k, 'v list) js_map" where
  "group_by key val xs = foldl (\<lambda>m x. map_set (key x) ((case map_get m (key x) of None \<Rightarrow> [] | Some vs \<Rightarrow> vs) @ [val x]) m) [] xs"

lemma group_by_snoc: "group_by key val (xs @ [x]) =
    map_set (key x) ((case map_get (group_by key val xs) (key x) of None \<Rightarrow> [] | Some vs \<Rightarrow> vs) @ [val x]) (group_by key val xs)"
  by (simp add: group_by_def)

lemma group_by_get:
  "map_get (group_by key val xs) k = (case map val (filter (\<lambda>x. key x = k) xs) of [] \<Rightarrow> None | vs \<Rightarrow> Some vs)"
  by (induction xs rule: rev_induct) (auto simp: group_by_def [of _ _ "[]"] group_by_snoc split: list.splits)

lemma map_set_key_list: "map fst (map_set k v m) = (if k \<in> set (map fst m) then map fst m else map fst m @ [k])"
  by (induction m) auto

lemma group_by_keys: "map fst (group_by key val xs) = rev (remdups (rev (map key xs)))"
proof (induction xs rule: rev_induct)
  case (snoc x xs)
  show ?case unfolding group_by_snoc map_set_key_list snoc.IH by simp
qed (simp add: group_by_def)

lemma merge_group: "mergeSamePathSections ss = map (\<lambda>(p, ds). \<lparr>is_path = p, is_diff = join_lines ds\<rparr>) (group_by is_path is_diff ss)"
  by (simp add: mergeSamePathSections_def group_by_def)

lemma merge_paths: "map is_path (mergeSamePathSections ss) = rev (remdups (rev (map is_path ss)))"
proof -
  have "map is_path (mergeSamePathSections ss) = map fst (group_by is_path is_diff ss)"
    by (simp add: merge_group case_prod_unfold comp_def)
  then show ?thesis by (simp only: group_by_keys)
qed

lemma merge_diff:
  assumes "s \<in> set (mergeSamePathSections ss)"
  shows "is_diff s = join_lines (map is_diff (filter (\<lambda>x. is_path x = is_path s) ss))"
proof -
  have "distinct (map fst (group_by is_path is_diff ss))" by (simp add: group_by_keys)
  moreover obtain p ds where d: "(p, ds) \<in> set (group_by is_path is_diff ss)" "s = \<lparr>is_path = p, is_diff = join_lines ds\<rparr>"
    using assms by (auto simp: merge_group)
  ultimately have "map_get (group_by is_path is_diff ss) p = Some ds" by simp
  then show ?thesis by (auto simp: group_by_get d(2) split: list.splits)
qed

section \<open>The abort marker\<close>

lemma split_lines_glue: "split_lines (s @ 10 # t) = split_lines s @ split_lines t"
proof (induction s)
  case (Cons c s)
  then show ?case by (cases "split_lines s") auto
qed simp

lemma split_join_concat: "ds \<noteq> [] \<Longrightarrow> split_lines (join_lines ds) = concat (map split_lines ds)"
  by (induction ds rule: join_lines.induct) (simp_all add: split_lines_glue)

lemma trimEnd_drop_cr: "trimEnd (drop_cr l) = trimEnd l"
  by (cases l rule: rev_cases) (auto simp: drop_cr_def trimEnd_snoc is_space_def)

lemma split_crlf_lines: "l \<in> set (split_crlf s) \<Longrightarrow> \<exists>m\<in>set (split_lines s). l = m \<or> l = drop_cr m"
proof -
  assume "l \<in> set (split_crlf s)"
  then have "l = last (split_lines s) \<or> (\<exists>m\<in>set (butlast (split_lines s)). l = drop_cr m)"
    by (auto simp: split_crlf_def Let_def)
  then show ?thesis using last_in_set [OF split_lines_ne] by (auto dest: in_set_butlastD)
qed

lemma split_crlf_no_newline: "l \<in> set (split_crlf s) \<Longrightarrow> 10 \<notin> set l"
  using split_crlf_lines [of l s] split_lines_no_newline [of _ s]
  by (auto simp: drop_cr_def dest: in_set_butlastD split: if_splits)

definition no_abort :: "ustr \<Rightarrow> bool" where
  "no_abort s \<longleftrightarrow> (\<forall>l\<in>set (split_lines s). trimEnd l \<noteq> ABORT_MARKER)"

lemma parse_loop_warning: "parse_loop xx n k ls = Inr (es, ws) \<Longrightarrow> ABORT_MARKER \<notin> set ls \<Longrightarrow> ws = []"
proof (induction xx n k ls arbitrary: es ws rule: parse_loop.induct)
  case (2 xx n k line ls)
  consider "parse_loop xx (Suc n) k ls = Inr (es, ws)" "blank line"
    | "parse_loop xx (Suc n) k ls = Inr (es, ws)" "\<not> blank line" "line = BEGIN_PATCH_MARKER" "line \<noteq> END_PATCH_MARKER" "line \<noteq> ABORT_MARKER"
    | "ws = []"
    | op e1 payload rest es' where "\<not> blank line" "line \<noteq> END_PATCH_MARKER" "line \<noteq> ABORT_MARKER" "line \<noteq> BEGIN_PATCH_MARKER"
        "match_op line = Some op" "op_edits xx n k op ls = Inr (e1, payload, rest)"
        "parse_loop xx (n + 1 + length payload) (k + length e1) rest = Inr (es', ws)"
    using "2.prems" by (auto split: if_splits option.splits)
  then show ?case
  proof cases
    case 4
    have "ABORT_MARKER \<notin> set rest" using "2.prems"(2) op_edits_shape [OF 4(6)] by simp
    then show ?thesis using "2.IH"(3) [OF 4(1-5) 4(6) _ _ 4(7)] by simp
  qed (use "2.IH"(1,2) "2.prems"(2) in auto)
qed simp

lemma no_abort_parse:
  assumes "no_abort d" "parseHashlineWithWarnings xx d = Inr (es, ws)"
  shows "ws = []"
proof -
  have "ABORT_MARKER \<notin> set (diff_lines d)"
  proof
    assume "ABORT_MARKER \<in> set (diff_lines d)"
    then have "ABORT_MARKER \<in> set (split_crlf d)"
      by (auto simp: diff_lines_def Let_def split: if_splits dest: in_set_butlastD)
    then obtain m where "m \<in> set (split_lines d)" "trimEnd m = trimEnd ABORT_MARKER"
      using split_crlf_lines trimEnd_drop_cr by metis
    moreover have "trimEnd ABORT_MARKER = ABORT_MARKER" by (rule trimEnd_id) (simp add: ABORT_MARKER_def is_space_def)
    ultimately show False using assms(1) by (auto simp: no_abort_def)
  qed
  then show ?thesis using parse_loop_warning assms(2) unfolding parseHashlineWithWarnings_def by blast
qed

text \<open>Lines that a section can hold.\<close>

definition section_line :: "ustr \<Rightarrow> bool" where
  "section_line l \<longleftrightarrow> 10 \<notin> set l \<and> trimEnd l \<noteq> ABORT_MARKER"

lemma join_section_lines:
  assumes "\<forall>l\<in>set ls. section_line l" "ls \<noteq> []"
  shows "no_abort (join_lines ls)"
  using assms by (simp add: no_abort_def split_join_lines section_line_def)

definition split_inv :: "split_state \<Rightarrow> bool" where
  "split_inv st \<longleftrightarrow> (\<forall>s\<in>set (ss_sections st). no_abort (is_diff s)) \<and> (\<forall>l\<in>set (ss_lines st). section_line l)"

lemma flush_section_inv: "split_inv st \<Longrightarrow> split_inv (flush_section st)"
  by (auto simp: split_inv_def flush_section_def list_ex_iff intro!: join_section_lines)

lemma split_loop_inv:
  "split_loop pcwd cwd ls st = Inr st' \<Longrightarrow> split_inv st \<Longrightarrow> \<forall>l\<in>set ls. 10 \<notin> set l \<Longrightarrow> split_inv st'"
proof (induction pcwd cwd ls st rule: split_loop.induct)
  case (2 pcwd cwd l ls st)
  show ?case
  proof (cases "trimEnd l = END_PATCH_MARKER \<or> trimEnd l = ABORT_MARKER")
    case True
    then show ?thesis using "2.prems"(1,2) by auto
  next
    case no_end: False
    show ?thesis
    proof (cases "isPatchEnvelopeMarker l")
      case True
      then show ?thesis using "2.IH"(1) [OF no_end True] "2.prems" no_end by simp
    next
      case no_mark: False
      obtain h where h: "parseHashlineHeaderLine pcwd l cwd = Inr h"
        using "2.prems"(1) no_end no_mark by (cases "parseHashlineHeaderLine pcwd l cwd") auto
      show ?thesis
      proof (cases h)
        case None
        have "split_inv (st\<lparr>ss_lines := ss_lines st @ [l]\<rparr>)" using "2.prems"(2,3) no_end by (simp add: split_inv_def section_line_def)
        then show ?thesis using "2.IH"(2) [OF no_end no_mark h None] "2.prems"(1,3) no_end no_mark h None by simp
      next
        case (Some p)
        have "split_inv ((flush_section st)\<lparr>ss_path := p, ss_lines := []\<rparr>)" using flush_section_inv [OF "2.prems"(2)] by (simp add: split_inv_def)
        then show ?thesis using "2.IH"(3) [OF no_end no_mark h Some] "2.prems"(1,3) no_end no_mark h Some by simp
      qed
    qed
  qed
qed simp

lemma sections_no_abort:
  assumes "splitHashlineInputs pcwd input opts = Inr ss" "s \<in> set ss"
  shows "no_abort (is_diff s)"
proof -
  obtain t st where st: "split_loop pcwd (so_cwd opts) (split_crlf t) \<lparr>ss_sections = [], ss_path = [], ss_lines = []\<rparr> = Inr st"
      "ss = ss_sections (flush_section st)"
    using assms(1) by (auto simp: splitHashlineInputs_def Let_def split: if_splits)
  have "split_inv st"
    using split_crlf_no_newline by (intro split_loop_inv [OF st(1)]) (simp_all add: split_inv_def)
  then have "split_inv (flush_section st)" by (rule flush_section_inv)
  then show ?thesis using assms(2) by (simp add: split_inv_def st(2))
qed

lemma merged_no_abort:
  assumes "\<forall>s\<in>set ss. no_abort (is_diff s)" "s \<in> set (mergeSamePathSections ss)"
  shows "no_abort (is_diff s)"
proof -
  let ?ds = "map is_diff (filter (\<lambda>x. is_path x = is_path s) ss)"
  have "is_path s \<in> set (map is_path (mergeSamePathSections ss))" using assms(2) by simp
  then have "is_path s \<in> set (map is_path ss)" by (simp only: merge_paths) simp
  then have "?ds \<noteq> []" by (auto simp: filter_empty_conv)
  then have "split_lines (is_diff s) = concat (map split_lines ?ds)"
    unfolding merge_diff [OF assms(2)] by (rule split_join_concat)
  then show ?thesis using assms(1) by (auto simp: no_abort_def)
qed

text \<open>
  The warning about a truncated tool call never reaches the tool result. The splitter ends at the
  abort marker and keeps the marker out of every section, so the parser, which alone turns the marker
  into the warning, never sees one: the sections that the tool executes parse without warnings whatever
  the input was.
\<close>

theorem abort_warning_never_surfaces:
  assumes "splitHashlineInputs pcwd input opts = Inr ss" "s \<in> set (mergeSamePathSections ss)"
    and "parseHashlineWithWarnings xx (is_diff s) = Inr (es, ws)"
  shows "ws = []"
  using no_abort_parse [OF merged_no_abort [OF _ assms(2)] assms(3)] sections_no_abort [OF assms(1)] by blast

section \<open>Sections that are written out\<close>

definition section_lines :: "input_section \<Rightarrow> ustr list" where
  "section_lines s = (HL_FILE_PREFIX # is_path s) # split_lines (is_diff s)"

definition render_sections :: "input_section list \<Rightarrow> ustr" where
  "render_sections ss = join_lines (concat (map section_lines ss))"

definition plain_line :: "ustr \<Rightarrow> bool" where
  "plain_line l \<longleftrightarrow> (l = [] \<or> hd l \<noteq> HL_FILE_PREFIX \<and> last l \<noteq> 13) \<and> \<not> isEnvelopeOrAbortMarkerLine l"

definition section_ok :: "input_section \<Rightarrow> bool" where
  "section_ok s \<longleftrightarrow> is_path s \<noteq> [] \<and> 10 \<notin> set (is_path s) \<and> utrim (is_path s) = is_path s \<and> hd (is_path s) \<noteq> HL_FILE_PREFIX \<and>
     unquoteHashlinePath (is_path s) = is_path s \<and> (\<forall>l\<in>set (split_lines (is_diff s)). plain_line l) \<and>
     (\<exists>l\<in>set (split_lines (is_diff s)). \<not> blank l)"

lemma trimEnd_last: "trimEnd s \<noteq> [] \<Longrightarrow> \<not> is_space (last (trimEnd s))"
  using hd_dropWhile [of is_space "rev s"] by (auto simp: trimEnd_def last_rev)

lemma trimEnd_hd: "trimEnd s \<noteq> [] \<Longrightarrow> s \<noteq> [] \<and> hd (trimEnd s) = hd s"
  using trimEnd_split [of s] by (metis append_is_Nil_conv hd_append2)

lemma path_last: "section_ok s \<Longrightarrow> \<not> is_space (last (is_path s))"
  using trimEnd_last [of "dropWhile is_space (is_path s)"] by (auto simp: section_ok_def utrim_def)

lemma header_line_trim: "section_ok s \<Longrightarrow> trimEnd (HL_FILE_PREFIX # is_path s) = HL_FILE_PREFIX # is_path s"
  using path_last [of s] by (intro trimEnd_id) (auto simp: section_ok_def)

lemma parse_header:
  assumes "section_ok s"
  shows "parseHashlineHeaderLine pcwd (HL_FILE_PREFIX # is_path s) None = Inr (Some (is_path s))"
proof -
  have p: "is_path s \<noteq> []" "hd (is_path s) \<noteq> HL_FILE_PREFIX" "utrim (is_path s) = is_path s"
      "unquoteHashlinePath (is_path s) = is_path s"
    using assms by (simp_all add: section_ok_def)
  have d: "dropWhile (\<lambda>c. c = HL_FILE_PREFIX) (is_path s) = is_path s" using p(1,2) by (cases "is_path s") auto
  have "\<not> blank (is_path s)" using path_last [OF assms] p(1) by (auto simp: blank_def list_all_iff)
  then show ?thesis
    using p by (simp add: parseHashlineHeaderLine_def header_line_trim [OF assms] d normalizeHashlinePath_def Let_def)
qed

lemma parse_plain: "plain_line l \<Longrightarrow> parseHashlineHeaderLine pcwd l cwd = Inr None"
  using trimEnd_hd [of l] by (auto simp: plain_line_def parseHashlineHeaderLine_def Let_def)

lemma plain_marks:
  assumes "plain_line l"
  shows "\<not> (trimEnd l = END_PATCH_MARKER \<or> trimEnd l = ABORT_MARKER)" "\<not> isPatchEnvelopeMarker l"
  using assms by (auto simp: plain_line_def isEnvelopeOrAbortMarkerLine_def isPatchEnvelopeMarker_def)

lemma header_marks:
  assumes "section_ok s"
  shows "\<not> (trimEnd (HL_FILE_PREFIX # is_path s) = END_PATCH_MARKER \<or> trimEnd (HL_FILE_PREFIX # is_path s) = ABORT_MARKER)"
    "\<not> isPatchEnvelopeMarker (HL_FILE_PREFIX # is_path s)"
  unfolding isPatchEnvelopeMarker_def header_line_trim [OF assms] by (simp_all add: marker_defs sigil_defs)

lemma split_loop_plain:
  "\<forall>l\<in>set ls. plain_line l \<Longrightarrow> split_loop pcwd cwd (ls @ rest) st = split_loop pcwd cwd rest (st\<lparr>ss_lines := ss_lines st @ ls\<rparr>)"
proof (induction ls arbitrary: st)
  case (Cons l ls)
  then have l: "plain_line l" by simp
  show ?case using Cons.IH Cons.prems by (simp add: plain_marks [OF l] parse_plain [OF l])
qed simp

lemma split_loop_sections:
  assumes "\<forall>s\<in>set ss. section_ok s"
  shows "\<exists>st'. split_loop pcwd None (concat (map section_lines ss)) st = Inr st' \<and>
    ss_sections (flush_section st') = ss_sections (flush_section st) @ ss"
  using assms
proof (induction ss arbitrary: st)
  case (Cons s ss)
  then have ok: "section_ok s" by simp
  let ?st = "(flush_section st)\<lparr>ss_path := is_path s, ss_lines := split_lines (is_diff s)\<rparr>"
  have plain: "\<forall>l\<in>set (split_lines (is_diff s)). plain_line l" using ok by (simp add: section_ok_def)
  have "split_loop pcwd None (concat (map section_lines (s # ss))) st = split_loop pcwd None (concat (map section_lines ss)) ?st"
    by (simp add: section_lines_def header_marks [OF ok] parse_header [OF ok] split_loop_plain [OF plain])
  moreover have "ss_sections (flush_section ?st) = ss_sections (flush_section st) @ [s]"
    using ok by (auto simp: flush_section_def [of ?st] list_ex_iff section_ok_def)
  ultimately show ?case using Cons.IH [of ?st] Cons.prems by auto
qed simp

lemma section_lines_text:
  assumes "section_ok s" "l \<in> set (section_lines s)"
  shows "10 \<notin> set l \<and> (l = [] \<or> last l \<noteq> 13)"
proof (cases "l = HL_FILE_PREFIX # is_path s")
  case True
  then show ?thesis using assms(1) path_last [OF assms(1)] by (auto simp: section_ok_def sigil_defs is_space_def)
next
  case False
  then have "l \<in> set (split_lines (is_diff s))" using assms(2) by (simp add: section_lines_def)
  then show ?thesis using assms(1) split_lines_no_newline by (auto simp: section_ok_def plain_line_def)
qed

text \<open>
  Sections survive the input format: for sections whose paths are trimmed, unquoted and not
  themselves headers, and whose diffs hold no header and no envelope marker, the text that writes them
  one after the other is split back into exactly these sections, in order and with their text unchanged.
\<close>

theorem sections_roundtrip:
  assumes "\<forall>s\<in>set ss. section_ok s" "ss \<noteq> []"
  shows "splitHashlineInputs pcwd (render_sections ss) \<lparr>so_cwd = None, so_path = p\<rparr> = Inr ss"
proof -
  let ?ls = "concat (map section_lines ss)"
  obtain s ss' where ss: "ss = s # ss'" using assms(2) by (cases ss) auto
  have ok: "section_ok s" using assms(1) ss by simp
  have hd: "?ls = (HL_FILE_PREFIX # is_path s) # (split_lines (is_diff s) @ concat (map section_lines ss'))"
    by (simp add: ss section_lines_def)
  have lines: "\<forall>l\<in>set ?ls. 10 \<notin> set l \<and> (l = [] \<or> last l \<noteq> 13)" using assms(1) section_lines_text by auto
  have ne: "?ls \<noteq> []" by (simp add: hd)
  have sp: "split_lines (render_sections ss) = ?ls" unfolding render_sections_def using lines ne by (intro split_join_lines) auto
  have cr: "split_crlf (render_sections ss) = ?ls"
    unfolding render_sections_def using lines ne in_set_butlastD [of _ ?ls] by (intro split_crlf_join) blast+
  have "\<exists>x. render_sections ss = HL_FILE_PREFIX # x"
    unfolding render_sections_def hd by (cases "split_lines (is_diff s) @ concat (map section_lines ss')") auto
  then have bom: "drop_bom (render_sections ss) = render_sections ss" by (auto simp: drop_bom_def HL_FILE_PREFIX_def)
  have explicit: "normalizeFallbackInput pcwd (render_sections ss) \<lparr>so_cwd = None, so_path = p\<rparr> = Inr (render_sections ss)"
    unfolding normalizeFallbackInput_def bom cr hd by (simp add: parse_header [OF ok])
  have "\<not> blank (drop_cr (HL_FILE_PREFIX # is_path s)) \<and> trimEnd (drop_cr (HL_FILE_PREFIX # is_path s)) \<noteq> BEGIN_PATCH_MARKER"
    unfolding trimEnd_blank [symmetric] trimEnd_drop_cr header_line_trim [OF ok]
    by (simp add: BEGIN_PATCH_MARKER_def HL_FILE_PREFIX_def)
  then have strip: "stripLeadingBlankLines (render_sections ss) = render_sections ss"
    unfolding stripLeadingBlankLines_def bom sp using hd by (simp add: render_sections_def)
  obtain st' where st': "split_loop pcwd None ?ls \<lparr>ss_sections = [], ss_path = [], ss_lines = []\<rparr> = Inr st'"
      "ss_sections (flush_section st') = ss"
    using split_loop_sections [OF assms(1), of pcwd "\<lparr>ss_sections = [], ss_path = [], ss_lines = []\<rparr>"] by (auto simp: flush_section_def)
  have h: "parseHashlineHeaderLine pcwd (hd ?ls) None = Inr (Some (is_path s))" by (simp add: hd parse_header [OF ok])
  show ?thesis
    unfolding splitHashlineInputs_def explicit andThen.simps Let_def strip cr by (simp add: h st' del: set_concat)
qed

section \<open>Payload lines\<close>

lemma payload_no_newline:
  assumes "op_edits xx n k op ls = Inr (es, payload, rest)" "\<forall>l\<in>set ls. 10 \<notin> set l" "match_op line = Some op"
  shows "one_line_texts es"
proof (cases op)
  case (OpInsert b tok body)
  have units: "10 \<notin> set (takeWhile (\<lambda>x. \<not> is_terminator x) s)" for s
    by (auto simp: is_terminator_def dest: set_takeWhileD)
  have body: "10 \<notin> set t" if "body = Some t" for t
    using assms(3) that units unfolding OpInsert
    by (auto simp: match_op_def INSERT_OP_RE_def Let_def split: list.splits if_splits)
  obtain c where c: "es = pushInserts c n k ((case resolveInlineInsertBody xx c body of None \<Rightarrow> [] | Some t \<Rightarrow> [t]) @ payload)"
    using assms(1) by (auto simp: op_edits_def OpInsert Let_def)
  have "10 \<notin> set t" if "resolveInlineInsertBody xx c body = Some t" for t
    using that body by (auto simp: resolveInlineInsertBody_def split: option.splits hl_cursor.splits if_splits)
  then show ?thesis using op_edits_shape [OF assms(1)] assms(2)
    by (auto simp: one_line_texts_def c split: option.splits dest!: push_edits(1))
next
  case (OpReplace tok)
  then show ?thesis using op_edits_shape [OF assms(1)] assms(1,2)
    by (auto simp: one_line_texts_def op_edits_def dest!: push_edits)
qed

lemma parse_loop_one_line: "parse_loop xx n k ls = Inr (es, ws) \<Longrightarrow> \<forall>l\<in>set ls. 10 \<notin> set l \<Longrightarrow> one_line_texts es"
proof (induction xx n k ls arbitrary: es ws rule: parse_loop.induct)
  case (2 xx n k line ls)
  show ?case
  proof (cases "blank line \<or> line \<in> {END_PATCH_MARKER, ABORT_MARKER, BEGIN_PATCH_MARKER}")
    case True
    then show ?thesis using "2.prems" "2.IH"(1,2) by (auto simp: one_line_texts_def split: if_splits)
  next
    case False
    then obtain op e1 payload rest es' where p: "match_op line = Some op" "op_edits xx n k op ls = Inr (e1, payload, rest)"
        "parse_loop xx (n + 1 + length payload) (k + length e1) rest = Inr (es', ws)" "es = e1 @ es'"
      using "2.prems"(1) by (auto split: option.splits if_splits)
    have "\<forall>l\<in>set ls. 10 \<notin> set l" "\<forall>l\<in>set rest. 10 \<notin> set l" using "2.prems"(2) op_edits_shape [OF p(2)] by auto
    then have "one_line_texts e1" "one_line_texts es'"
      using payload_no_newline [OF p(2) _ p(1)] "2.IH"(3) [OF _ _ _ _ p(1,2) _ _ p(3)] False by auto
    then show ?thesis by (auto simp: one_line_texts_def p(4))
  qed
qed (simp add: one_line_texts_def)

lemma parse_one_line: "parseHashline xx d = Inr es \<Longrightarrow> one_line_texts es"
proof -
  assume "parseHashline xx d = Inr es"
  then obtain ws where "parse_loop xx 1 0 (diff_lines d) = Inr (es, ws)"
    by (auto simp: parseHashline_def parseHashlineWithWarnings_def)
  then show ?thesis
    using split_crlf_no_newline [of _ d]
    by (elim parse_loop_one_line) (auto simp: diff_lines_def Let_def split: if_splits dest: in_set_butlastD)
qed

section \<open>Instances\<close>

definition demo_sections :: "input_section list" where
  "demo_sections = [\<lparr>is_path = utf16 ''a.ts'', is_diff = HL_OP_INSERT_AFTER # utf16 ''EOF'' @ 10 # utf16 ''x''\<rparr>,
     \<lparr>is_path = utf16 ''b.ts'', is_diff = HL_OP_INSERT_BEFORE # utf16 ''BOF'' @ 10 # utf16 ''y''\<rparr>]"

lemma demo_sections_ok: "\<forall>s\<in>set demo_sections. section_ok s"
  by (simp add: demo_sections_def section_ok_def utrim_def trimEnd_def is_space_def sigil_defs unquoteHashlinePath_def plain_line_def
      isEnvelopeOrAbortMarkerLine_def marker_defs)

theorem sections_roundtrip_witness:
  "splitHashlineInputs [47] (render_sections demo_sections) \<lparr>so_cwd = None, so_path = None\<rparr> = Inr demo_sections"
  using sections_roundtrip [OF demo_sections_ok] by (simp add: demo_sections_def)

text \<open>A truncated call: one section, the marker, and what followed it.\<close>

definition aborted_input :: ustr where
  "aborted_input = join_lines [HL_FILE_PREFIX # utf16 ''a.ts'', HL_OP_INSERT_AFTER # utf16 ''EOF'', utf16 ''x'', ABORT_MARKER, utf16 ''junk'']"

lemma aborted_split:
  "splitHashlineInputs [47] aborted_input \<lparr>so_cwd = None, so_path = None\<rparr> =
     Inr [\<lparr>is_path = utf16 ''a.ts'', is_diff = HL_OP_INSERT_AFTER # utf16 ''EOF'' @ 10 # utf16 ''x''\<rparr>]"
  by (simp add: aborted_input_def splitHashlineInputs_def normalizeFallbackInput_def drop_bom_def split_crlf_def drop_cr_def
      parseHashlineHeaderLine_def trimEnd_def is_space_def sigil_defs normalizeHashlinePath_def unquoteHashlinePath_def utrim_def
      stripLeadingBlankLines_def marker_defs isPatchEnvelopeMarker_def flush_section_def Let_def)

lemma aborted_parse:
  "parseHashlineWithWarnings length (HL_OP_INSERT_AFTER # utf16 ''EOF'' @ 10 # utf16 ''x'') = Inr ([HInsert Eof (utf16 ''x'') 1 0], [])"
  by (simp add: parseHashlineWithWarnings_def diff_lines_def split_crlf_def drop_cr_def sigil_defs match_op_def INSERT_OP_RE_def
      op_edits_def parseInsertTarget_def resolveInlineInsertBody_def collectPayload_def isPayloadTerminatorLine_def
      isEnvelopeOrAbortMarkerLine_def marker_defs trimEnd_def is_space_def pushInserts_def Let_def)

theorem abort_warning_never_surfaces_witness:
  "\<exists>s es ws. s \<in> set (mergeSamePathSections [\<lparr>is_path = utf16 ''a.ts'', is_diff = HL_OP_INSERT_AFTER # utf16 ''EOF'' @ 10 # utf16 ''x''\<rparr>]) \<and>
     parseHashlineWithWarnings length (is_diff s) = Inr (es, ws) \<and> es \<noteq> [] \<and> ws = []"
proof -
  let ?s = "\<lparr>is_path = utf16 ''a.ts'', is_diff = HL_OP_INSERT_AFTER # utf16 ''EOF'' @ 10 # utf16 ''x''\<rparr>"
  have s: "?s \<in> set (mergeSamePathSections [?s])" by (simp add: mergeSamePathSections_def)
  have p: "parseHashlineWithWarnings length (is_diff ?s) = Inr ([HInsert Eof (utf16 ''x'') 1 0], [])" using aborted_parse by simp
  show ?thesis using abort_warning_never_surfaces [OF aborted_split s p] s p by blast
qed

end
