(* ===== verification/Hashline_Diff.thy ===== *)
theory Hashline_Diff
  imports Hashline_Input
begin

text \<open>
  What the model sees of a file: the numbered diff of an edit (\<open>generateDiffString\<close> in
  \<open>edit/diff.ts\<close>), the preview with fresh anchors that is made of it
  (\<open>hashline/diff-preview.ts\<close>) and the chunks of a streamed file (\<open>hashline/stream.ts\<close>). The
  line diff itself, a native routine with a package as its fallback, is the parameter
  \<open>diffLines\<close>; the decoder of a stream is left out, its input here is the decoded text of each
  piece.
\<close>

section \<open>The numbered diff\<close>

record diff_part =
  dp_added :: bool
  dp_removed :: bool
  dp_value :: ustr

definition is_change :: "diff_part \<Rightarrow> bool" where
  "is_change p \<longleftrightarrow> dp_added p \<or> dp_removed p"

definition formatNumberedDiffLine :: "nat \<Rightarrow> nat \<Rightarrow> ustr \<Rightarrow> ustr" where
  "formatNumberedDiffLine kind lineNum content = kind # dec lineNum @ 124 # content"

definition part_lines :: "ustr \<Rightarrow> ustr list" where
  "part_lines v = (let raw = split_lines v in if last raw = [] then butlast raw else raw)"

definition ELLIPSIS :: ustr where "ELLIPSIS = [46, 46, 46]"

text \<open>A run of lines with consecutive numbers.\<close>

definition diff_run :: "nat \<Rightarrow> nat \<Rightarrow> ustr list \<Rightarrow> ustr list" where
  "diff_run kind n ls = map (\<lambda>(i, l). formatNumberedDiffLine kind i l) (enumerate n ls)"

text \<open>What is shown of an unchanged part, between two changes, before a change, after one, or far from any.\<close>

definition context_output :: "nat \<Rightarrow> bool \<Rightarrow> bool \<Rightarrow> nat \<Rightarrow> ustr list \<Rightarrow> ustr list" where
  "context_output limit lastWasChange nextPartIsChange n raw =
     (if lastWasChange \<and> nextPartIsChange then
        (if 2 * limit < length raw
         then diff_run 32 n (take limit raw) @ [formatNumberedDiffLine 32 (n + limit) ELLIPSIS] @
              diff_run 32 (n + (length raw - limit)) (drop (length raw - limit) raw)
         else diff_run 32 n raw)
      else if nextPartIsChange then
        (let leadingSkip = length raw - limit
         in (if 0 < leadingSkip then [formatNumberedDiffLine 32 n ELLIPSIS] else []) @
            diff_run 32 (n + leadingSkip) (drop leadingSkip raw))
      else if lastWasChange then
        diff_run 32 n (take limit raw) @
        (if 0 < length raw - limit then [formatNumberedDiffLine 32 (n + limit) ELLIPSIS] else [])
      else [])"

fun diff_output :: "nat \<Rightarrow> bool \<Rightarrow> nat \<Rightarrow> nat \<Rightarrow> diff_part list \<Rightarrow> ustr list" where
  "diff_output limit lastWasChange m n [] = []"
| "diff_output limit lastWasChange m n (p # ps) =
     (let raw = part_lines (dp_value p)
      in if is_change p then
           (if dp_added p then diff_run 43 n raw @ diff_output limit True m (n + length raw) ps
            else diff_run 45 m raw @ diff_output limit True (m + length raw) n ps)
         else context_output limit lastWasChange (ps \<noteq> [] \<and> is_change (hd ps)) m raw @
              diff_output limit False (m + length raw) (n + length raw) ps)"

fun diff_firstChanged :: "nat \<Rightarrow> diff_part list \<Rightarrow> nat option" where
  "diff_firstChanged n [] = None"
| "diff_firstChanged n (p # ps) =
     (if is_change p then Some n else diff_firstChanged (n + length (part_lines (dp_value p))) ps)"

record diff_result =
  dr_diff :: ustr
  dr_firstChangedLine :: "nat option"

definition generateDiffString :: "(ustr \<Rightarrow> ustr \<Rightarrow> diff_part list) \<Rightarrow> nat \<Rightarrow> ustr \<Rightarrow> ustr \<Rightarrow> diff_result" where
  "generateDiffString diffLines contextLines old new =
     \<lparr>dr_diff = join_lines (diff_output contextLines False 1 1 (diffLines old new)),
      dr_firstChangedLine = diff_firstChanged 1 (diffLines old new)\<rparr>"

section \<open>The preview with fresh anchors\<close>

text \<open>\<open>Number.parseInt(s, 10)\<close>, where \<open>None\<close> is \<open>NaN\<close>, and a number in a template.\<close>

definition parseInt :: "ustr \<Rightarrow> int option" where
  "parseInt s =
     (let t = dropWhile is_space s; neg = (t \<noteq> [] \<and> hd t = 45);
          u = (if t \<noteq> [] \<and> hd t \<in> {43, 45} then tl t else t); ds = takeWhile is_dec u
      in if ds = [] then None else Some (if neg then - int (parse_dec ds) else int (parse_dec ds)))"

definition show_number :: "int option \<Rightarrow> ustr" where
  "show_number n = (case n of None \<Rightarrow> utf16 ''NaN'' | Some i \<Rightarrow> if i < 0 then 45 # dec (nat (- i)) else dec (nat i))"

text \<open>The hash of a line ignores its number, so the number that is passed along does not matter.\<close>

definition preview_line :: "(ustr \<Rightarrow> nat) \<Rightarrow> ustr \<Rightarrow> nat \<Rightarrow> nat \<Rightarrow> ustr \<times> nat \<times> nat" where
  "preview_line xx line added removed =
     (if line = [] \<or> hd line \<notin> {43, 45, 32} \<or> 124 \<notin> set (tl line) then (line, added, removed)
      else (let body = tl line; lineNumber = parseInt (takeWhile (\<lambda>c. c \<noteq> 124) body);
                content = tl (dropWhile (\<lambda>c. c \<noteq> 124) body)
            in if hd line = 43 then
                 (43 # show_number lineNumber @ computeLineHash xx (nat (the lineNumber)) content @ [HL_BODY_SEP] @ content, Suc added, removed)
               else if hd line = 45 then (45 # show_number lineNumber @ [45, 45, HL_BODY_SEP] @ content, added, Suc removed)
               else (let newLineNumber = map_option (\<lambda>i. i + int added - int removed) lineNumber
                     in (32 # show_number newLineNumber @ computeLineHash xx (nat (the newLineNumber)) content @ [HL_BODY_SEP] @ content,
                         added, removed))))"

fun preview_loop :: "(ustr \<Rightarrow> nat) \<Rightarrow> ustr list \<Rightarrow> nat \<Rightarrow> nat \<Rightarrow> ustr list \<times> nat \<times> nat" where
  "preview_loop xx [] added removed = ([], added, removed)"
| "preview_loop xx (l # ls) added removed =
     (case preview_line xx l added removed of (l', a, r) \<Rightarrow>
        (case preview_loop xx ls a r of (ls', a', r') \<Rightarrow> (l' # ls', a', r')))"

record diff_preview =
  pv_preview :: ustr
  pv_addedLines :: nat
  pv_removedLines :: nat

definition buildCompactHashlineDiffPreview :: "(ustr \<Rightarrow> nat) \<Rightarrow> ustr \<Rightarrow> diff_preview" where
  "buildCompactHashlineDiffPreview xx diff =
     (case preview_loop xx (if diff = [] then [] else split_lines diff) 0 0 of (ls, a, r) \<Rightarrow>
        \<lparr>pv_preview = join_lines ls, pv_addedLines = a, pv_removedLines = r\<rparr>)"

section \<open>The anchors of a preview\<close>

text \<open>
  What a line diff promises: the parts without the added ones make up the old text, the parts without the
  removed ones the new text, no part is both, and every part but the last of either text ends its line.
\<close>

definition ends_line :: "ustr \<Rightarrow> bool" where
  "ends_line v \<longleftrightarrow> v \<noteq> [] \<and> last v = 10"

definition line_diff :: "ustr \<Rightarrow> ustr \<Rightarrow> diff_part list \<Rightarrow> bool" where
  "line_diff old new parts \<longleftrightarrow>
     (let olds = map dp_value (filter (\<lambda>p. \<not> dp_added p) parts); news = map dp_value (filter (\<lambda>p. \<not> dp_removed p) parts)
      in concat olds = old \<and> concat news = new \<and> list_all (\<lambda>p. \<not> (dp_added p \<and> dp_removed p)) parts \<and>
         list_all ends_line (butlast olds) \<and> list_all ends_line (butlast news))"

lemma preview_loop_append:
  "preview_loop xx (ls @ ms) a r =
     (case preview_loop xx ls a r of (ls', a', r') \<Rightarrow> case preview_loop xx ms a' r' of (ms', a'', r'') \<Rightarrow> (ls' @ ms', a'', r''))"
  by (induction ls arbitrary: a r) (auto split: prod.splits)

lemma dec_prefix:
  "takeWhile (\<lambda>c. c \<noteq> 124) (dec n @ 124 # s) = dec n" "dropWhile (\<lambda>c. c \<noteq> 124) (dec n @ 124 # s) = 124 # s"
proof -
  have "\<forall>c\<in>set (dec n). c \<noteq> 124" using dec_digits [of _ n] by (force simp: is_dec_def)
  then show "takeWhile (\<lambda>c. c \<noteq> 124) (dec n @ 124 # s) = dec n" "dropWhile (\<lambda>c. c \<noteq> 124) (dec n @ 124 # s) = 124 # s"
    by (simp_all add: takeWhile_append2 dropWhile_append2)
qed

lemma parseInt_dec: "parseInt (dec n) = Some (int n)"
proof -
  obtain d ds where d: "dec n = d # ds" by (cases "dec n") auto
  have all: "\<forall>c\<in>set (dec n). is_dec c" using dec_digits by blast
  then have "is_dec d" by (simp add: d)
  then have "\<not> is_space d" "d \<noteq> 43" "d \<noteq> 45" using is_dec_not_space by (auto simp: is_dec_def)
  moreover have "takeWhile is_dec (dec n) = dec n" using all by (simp add: takeWhile_eq_all_conv)
  ultimately show ?thesis using parse_dec [of n] by (simp add: parseInt_def d)
qed

lemma show_int: "show_number (Some (int n)) = dec n"
  by (simp add: show_number_def)

text \<open>The three kinds of line that the diff has.\<close>

lemma preview_fmt:
  "preview_line xx (formatNumberedDiffLine 43 n c) a r = (43 # formatHashLine xx n c, Suc a, r)"
  "preview_line xx (formatNumberedDiffLine 45 n c) a r = (45 # dec n @ [45, 45, HL_BODY_SEP] @ c, a, Suc r)"
  "m + r = n + a \<Longrightarrow> preview_line xx (formatNumberedDiffLine 32 n c) a r = (32 # formatHashLine xx m c, a, r)"
proof -
  show "preview_line xx (formatNumberedDiffLine 43 n c) a r = (43 # formatHashLine xx n c, Suc a, r)"
    "preview_line xx (formatNumberedDiffLine 45 n c) a r = (45 # dec n @ [45, 45, HL_BODY_SEP] @ c, a, Suc r)"
    by (simp_all add: preview_line_def formatNumberedDiffLine_def dec_prefix parseInt_dec show_int formatHashLine_def)
  assume "m + r = n + a"
  then have "int n + int a - int r = int m" by simp
  then show "preview_line xx (formatNumberedDiffLine 32 n c) a r = (32 # formatHashLine xx m c, a, r)"
    by (simp add: preview_line_def formatNumberedDiffLine_def dec_prefix parseInt_dec show_int formatHashLine_def)
qed

lemma diff_run_simps [simp]:
  "diff_run k n [] = []" "diff_run k n (l # ls) = formatNumberedDiffLine k n l # diff_run k (Suc n) ls"
  by (simp_all add: diff_run_def)

text \<open>The preview line of the new line at position \<open>i\<close> counted from \<open>n\<close>, of a removed line, or of an elision.\<close>

definition fresh_line :: "(ustr \<Rightarrow> nat) \<Rightarrow> nat \<Rightarrow> ustr list \<Rightarrow> ustr \<Rightarrow> bool" where
  "fresh_line xx n news l \<longleftrightarrow>
     (\<exists>i<length news. \<exists>k\<in>{43, 32}. l = k # formatHashLine xx (n + i) (news ! i)) \<or>
     (\<exists>m c. l = 45 # dec m @ [45, 45, HL_BODY_SEP] @ c) \<or> (\<exists>m. l = 32 # formatHashLine xx m ELLIPSIS)"

lemma fresh_line_here: "k \<in> {43, 32} \<Longrightarrow> news = l # rest \<Longrightarrow> fresh_line xx n news (k # formatHashLine xx n l)"
  unfolding fresh_line_def by (intro disjI1 exI [of _ 0]) auto

lemma fresh_line_shift:
  assumes "fresh_line xx m (drop k news) l" "m = n + k"
  shows "fresh_line xx n news l"
  using assms(1) unfolding fresh_line_def
proof (elim disjE)
  assume "\<exists>i<length (drop k news). \<exists>c\<in>{43, 32}. l = c # formatHashLine xx (m + i) (drop k news ! i)"
  then obtain i c where i: "i < length (drop k news)" "c \<in> {43, 32}" "l = c # formatHashLine xx (m + i) (drop k news ! i)" by blast
  then have "k + i < length news" "l = c # formatHashLine xx (n + (k + i)) (news ! (k + i))"
    using assms(2) by (auto simp: add.assoc)
  then show "(\<exists>i<length news. \<exists>c\<in>{43, 32}. l = c # formatHashLine xx (n + i) (news ! i)) \<or>
    (\<exists>m c. l = 45 # dec m @ [45, 45, HL_BODY_SEP] @ c) \<or> (\<exists>m. l = 32 # formatHashLine xx m ELLIPSIS)" using i(2) by blast
qed blast+

lemma fresh_line_removed: "fresh_line xx n news (45 # dec m @ 45 # 45 # HL_BODY_SEP # c)"
  unfolding fresh_line_def by auto

lemma fresh_line_elision: "fresh_line xx n news (32 # formatHashLine xx m ELLIPSIS)"
  unfolding fresh_line_def by blast

definition starts :: "nat \<Rightarrow> ustr \<Rightarrow> bool" where
  "starts c l \<longleftrightarrow> l \<noteq> [] \<and> hd l = c"

lemma starts_simps [simp]: "\<not> starts c []" "starts c (d # l) \<longleftrightarrow> d = c"
  by (auto simp: starts_def)

definition previews :: "(ustr \<Rightarrow> nat) \<Rightarrow> nat \<Rightarrow> ustr list \<Rightarrow> ustr list \<Rightarrow> nat \<Rightarrow> nat \<Rightarrow> nat \<Rightarrow> nat \<Rightarrow> bool" where
  "previews xx n news ls a r a' r' \<longleftrightarrow>
     (\<exists>ls'. preview_loop xx ls a r = (ls', a', r') \<and> list_all (fresh_line xx n news) ls' \<and>
        a + length (filter (starts 43) ls') = a' \<and> r + length (filter (starts 45) ls') = r')"

lemma previews_Nil: "previews xx n news [] a r a r"
  by (simp add: previews_def)

lemma previews_append:
  "previews xx n news ls a r a' r' \<Longrightarrow> previews xx n news ms a' r' a'' r'' \<Longrightarrow> previews xx n news (ls @ ms) a r a'' r''"
  unfolding previews_def by (auto simp: preview_loop_append)

lemma previews_shift:
  assumes "previews xx m (drop k news) ls a r a' r'" "m = n + k"
  shows "previews xx n news ls a r a' r'"
  using assms(1) unfolding previews_def list_all_iff by (metis fresh_line_shift [OF _ assms(2)])

lemma previews_later: "previews xx (n + length raw) news ls a r a' r' \<Longrightarrow> previews xx n (raw @ news) ls a r a' r'"
  using previews_shift [of xx "n + length raw" "length raw" "raw @ news"] by simp

lemma previews_line:
  assumes "preview_line xx l a r = (l', a', r')" "fresh_line xx n news l'"
    and "a' = (if starts 43 l' then Suc a else a)" "r' = (if starts 45 l' then Suc r else r)"
  shows "previews xx n news [l] a r a' r'"
  using assms by (auto simp: previews_def)

lemma previews_added: "previews xx n (ls @ rest) (diff_run 43 n ls) a r (a + length ls) r"
proof (induction ls arbitrary: n a)
  case (Cons l ls)
  have here: "previews xx n (l # ls @ rest) [formatNumberedDiffLine 43 n l] a r (Suc a) r"
    by (rule previews_line [OF preview_fmt(1) fresh_line_here]) auto
  have "previews xx n (l # ls @ rest) (diff_run 43 (Suc n) ls) (Suc a) r (Suc a + length ls) r"
    using previews_later [where raw = "[l]"] Cons.IH [of "Suc n" "Suc a"] by simp
  from previews_append [OF here this] show ?case by simp
qed (simp add: previews_Nil)

lemma previews_removed: "previews xx n news (diff_run 45 m ls) a r a (r + length ls)"
proof (induction ls arbitrary: m r)
  case (Cons l ls)
  have "previews xx n news [formatNumberedDiffLine 45 m l] a r a (Suc r)"
    by (rule previews_line [OF preview_fmt(2)]) (simp_all add: fresh_line_removed)
  from previews_append [OF this Cons.IH [of "Suc m" "Suc r"]] show ?case by simp
qed (simp add: previews_Nil)

lemma previews_context: "n + r = m + a \<Longrightarrow> previews xx n (ls @ rest) (diff_run 32 m ls) a r a r"
proof (induction ls arbitrary: n m)
  case (Cons l ls)
  have here: "previews xx n (l # ls @ rest) [formatNumberedDiffLine 32 m l] a r a r"
    by (rule previews_line [OF preview_fmt(3) [OF Cons.prems] fresh_line_here]) auto
  have "previews xx n (l # ls @ rest) (diff_run 32 (Suc m) ls) a r a r"
    using previews_later [where raw = "[l]"] Cons.IH [of "Suc n" "Suc m"] Cons.prems by simp
  from previews_append [OF here this] show ?case by simp
qed (simp add: previews_Nil)

lemma previews_elision:
  assumes "n' + r = m + a"
  shows "previews xx n news [formatNumberedDiffLine 32 m ELLIPSIS] a r a r"
  by (rule previews_line [OF preview_fmt(3) [OF assms] fresh_line_elision]) simp_all

text \<open>A block of context inside an unchanged part, that starts \<open>k\<close> lines into it.\<close>

lemma previews_block:
  assumes "n + r = m + a" "take j (drop k raw) = ls" "k \<le> length raw"
  shows "previews xx n (raw @ rest) (diff_run 32 (m + k) ls) a r a r"
proof -
  have "drop k (raw @ rest) = ls @ drop j (drop k raw) @ rest"
    using assms(2,3) by (metis append.assoc append_take_drop_id drop_append diff_is_0_eq drop0)
  then have "previews xx (n + k) (drop k (raw @ rest)) (diff_run 32 (m + k) ls) a r a r"
    using previews_context [of "n + k" r "m + k" a xx ls "drop j (drop k raw) @ rest"] assms(1) by simp
  then show ?thesis by (rule previews_shift) simp
qed

lemma previews_context_output:
  assumes "n + r = m + a"
  shows "previews xx n (raw @ rest) (context_output limit lst nxt m raw) a r a r"
proof -
  note block = previews_block [OF assms]
  have el: "previews xx n (raw @ rest) [formatNumberedDiffLine 32 (m + k) ELLIPSIS] a r a r" for k
    using previews_elision [of "n + k" r "m + k" a] assms by simp
  have first: "previews xx n (raw @ rest) (diff_run 32 m (take limit raw)) a r a r"
    using block [where k = 0 and j = limit and ls = "take limit raw"] by simp
  have all: "previews xx n (raw @ rest) (diff_run 32 m raw) a r a r"
    using block [where k = 0 and j = "length raw" and ls = raw] by simp
  have tail: "previews xx n (raw @ rest) (diff_run 32 (m + (length raw - limit)) (drop (length raw - limit) raw)) a r a r"
    using block [where k = "length raw - limit" and j = "length raw"] by simp
  show ?thesis
    using previews_append [OF first previews_append [OF el tail]] previews_append [OF el [of 0] tail] previews_append [OF first el]
      first all tail by (auto simp: context_output_def Let_def previews_Nil)
qed

text \<open>The lines of the parts of one kind.\<close>

definition lines_of :: "(diff_part \<Rightarrow> bool) \<Rightarrow> diff_part list \<Rightarrow> ustr list" where
  "lines_of P ps = concat (map (\<lambda>p. part_lines (dp_value p)) (filter P ps))"

lemma lines_of_simps [simp]:
  "lines_of P [] = []" "lines_of P (p # ps) = (if P p then part_lines (dp_value p) else []) @ lines_of P ps"
  by (simp_all add: lines_of_def)

lemma previews_output:
  assumes "n + r = m + a" "list_all (\<lambda>p. \<not> (dp_added p \<and> dp_removed p)) ps"
  shows "previews xx n (lines_of (\<lambda>p. \<not> dp_removed p) ps) (diff_output limit lst m n ps) a r
           (a + length (lines_of dp_added ps)) (r + length (lines_of dp_removed ps))"
  using assms
proof (induction ps arbitrary: n m a r lst)
  case (Cons p ps)
  let ?raw = "part_lines (dp_value p)"
  consider (add) "dp_added p" "\<not> dp_removed p" | (rem) "dp_removed p" "\<not> dp_added p" | (same) "\<not> dp_removed p" "\<not> dp_added p"
    using Cons.prems(2) by auto
  note cases' = this
  have ps: "list_all (\<lambda>p. \<not> (dp_added p \<and> dp_removed p)) ps" using Cons.prems(2) by simp
  from cases' show ?case
  proof cases
    case add
    have "previews xx (n + length ?raw) (lines_of (\<lambda>p. \<not> dp_removed p) ps) (diff_output limit True m (n + length ?raw) ps) (a + length ?raw) r
        (a + length ?raw + length (lines_of dp_added ps)) (r + length (lines_of dp_removed ps))"
      using Cons.prems(1) ps by (intro Cons.IH) simp_all
    from previews_append [OF previews_added previews_later [OF this]] show ?thesis using add by (simp add: is_change_def Let_def add.assoc)
  next
    case rem
    have "previews xx n (lines_of (\<lambda>p. \<not> dp_removed p) ps) (diff_output limit True (m + length ?raw) n ps) a (r + length ?raw)
        (a + length (lines_of dp_added ps)) (r + length ?raw + length (lines_of dp_removed ps))"
      using Cons.prems(1) ps by (intro Cons.IH) simp_all
    from previews_append [OF previews_removed this] show ?thesis using rem by (simp add: is_change_def Let_def add.assoc)
  next
    case same
    have "previews xx (n + length ?raw) (lines_of (\<lambda>p. \<not> dp_removed p) ps)
        (diff_output limit False (m + length ?raw) (n + length ?raw) ps) a r
        (a + length (lines_of dp_added ps)) (r + length (lines_of dp_removed ps))"
      using Cons.prems(1) ps by (intro Cons.IH) simp_all
    from previews_append [OF previews_context_output [OF Cons.prems(1)] previews_later [OF this]]
    show ?thesis using same by (simp add: is_change_def Let_def)
  qed
qed (simp add: previews_Nil)

text \<open>The lines of the parts are the lines of the text.\<close>

lemma split_lines_concat:
  "split_lines (v @ w) = butlast (split_lines v) @ (last (split_lines v) @ hd (split_lines w)) # tl (split_lines w)"
proof (induction v)
  case (Cons c v)
  obtain l ls where "split_lines v = l # ls" by (cases "split_lines v") auto
  then show ?case using Cons.IH by (cases ls) auto
qed simp

lemma last_split_ends: "ends_line v \<Longrightarrow> last (split_lines v) = []"
proof -
  assume "ends_line v"
  then obtain u where "v = u @ [10]" by (metis append_butlast_last_id ends_line_def)
  then show ?thesis by (simp add: split_lines_concat)
qed

lemma part_lines_split:
  assumes "list_all ends_line (butlast vs)"
  shows "\<exists>rest. split_lines (concat vs) = concat (map part_lines vs) @ rest"
  using assms
proof (induction vs)
  case (Cons v vs)
  show ?case
  proof (cases "vs = []")
    case True
    have "split_lines v = part_lines v @ (if last (split_lines v) = [] then [[]] else [])"
      using append_butlast_last_id [OF split_lines_ne, of v] by (cases "last (split_lines v) = []") (simp_all add: part_lines_def Let_def)
    then show ?thesis using True by auto
  next
    case False
    then have "last (split_lines v) = []" "\<exists>rest. split_lines (concat vs) = concat (map part_lines vs) @ rest"
      using Cons by (auto intro: last_split_ends)
    then show ?thesis by (auto simp: split_lines_concat part_lines_def [of v] Let_def)
  qed
qed simp

lemma new_lines_split:
  assumes "line_diff old new parts"
  shows "\<exists>rest. split_lines new = lines_of (\<lambda>p. \<not> dp_removed p) parts @ rest"
  using part_lines_split [of "map dp_value (filter (\<lambda>p. \<not> dp_removed p) parts)"] assms
  by (auto simp: line_diff_def lines_of_def Let_def comp_def)

lemma part_lines_no_newline: "l \<in> set (part_lines v) \<Longrightarrow> 10 \<notin> set l"
  using split_lines_no_newline in_set_butlastD by (fastforce simp: part_lines_def Let_def split: if_splits)

lemma dec_no_newline: "10 \<notin> set (dec n)"
  using dec_digits [of 10 n] by (auto simp: is_dec_def)

lemma diff_run_no_newline: "list_all (\<lambda>l. 10 \<notin> set l) ls \<Longrightarrow> k \<noteq> 10 \<Longrightarrow> list_all (\<lambda>l. 10 \<notin> set l) (diff_run k n ls)"
  by (induction ls arbitrary: n) (auto simp: formatNumberedDiffLine_def dec_no_newline)

lemma diff_output_no_newline: "list_all (\<lambda>l. 10 \<notin> set l) (diff_output limit lst m n ps)"
proof (induction limit lst m n ps rule: diff_output.induct)
  case (2 limit lst m n p ps)
  have raw: "list_all (\<lambda>l. 10 \<notin> set l) (part_lines (dp_value p))" using part_lines_no_newline by (auto simp: list_all_iff)
  then have sub: "list_all (\<lambda>l. 10 \<notin> set l) (take i (part_lines (dp_value p)))" "list_all (\<lambda>l. 10 \<notin> set l) (drop i (part_lines (dp_value p)))" for i
    by (auto simp: list_all_iff dest: in_set_takeD in_set_dropD)
  have "10 \<notin> set (formatNumberedDiffLine 32 i ELLIPSIS)" for i by (simp add: formatNumberedDiffLine_def dec_no_newline ELLIPSIS_def)
  then have "list_all (\<lambda>l. 10 \<notin> set l) (context_output limit lst b m (part_lines (dp_value p)))" for b
    using raw sub by (simp add: context_output_def Let_def diff_run_no_newline)
  then show ?case using 2 raw by (auto simp: Let_def diff_run_no_newline)
qed simp

lemma split_join_diff:
  assumes "list_all (\<lambda>l. 10 \<notin> set l) ls" "\<forall>l\<in>set ls. l \<noteq> []"
  shows "(if join_lines ls = [] then [] else split_lines (join_lines ls)) = ls"
proof (cases ls)
  case (Cons l ls')
  have "join_lines ls \<noteq> []" using assms(2) Cons by (cases ls') auto
  moreover have "split_lines (join_lines ls) = ls" using assms(1) Cons by (intro split_join_lines) (auto simp: list_all_iff)
  ultimately show ?thesis by simp
qed simp

lemma diff_output_ne: "l \<in> set (diff_output limit lst m n ps) \<Longrightarrow> l \<noteq> []"
proof (induction limit lst m n ps rule: diff_output.induct)
  case (2 limit lst m n p ps)
  have run: "[] \<notin> set (diff_run k i ls)" for k i ls by (induction ls arbitrary: i) (auto simp: formatNumberedDiffLine_def)
  then have "[] \<notin> set (context_output limit lst b m raw)" for b raw by (auto simp: context_output_def Let_def formatNumberedDiffLine_def)
  then show ?case using 2 run by (auto simp: Let_def split: if_splits)
qed simp

lemma formatHashLine_no_newline: "10 \<notin> set c \<Longrightarrow> 10 \<notin> set (formatHashLine xx n c)"
  using computeLineHash_is_hash [of xx n c] dec_no_newline [of n]
  by (auto simp: formatHashLine_def is_hash_def list_all_iff is_lower_def HL_BODY_SEP_def)

text \<open>
  C15. The anchors of an edit's preview are fresh. The preview of a change has as many added and
  removed lines as the line diff; each of its lines is an added or unchanged line with its anchor in the
  file as it is after the edit, number and hash, or a removed line without an anchor, or an elision.
  A follow-up edit can use the anchors as they are.
\<close>

theorem preview_anchors_are_fresh:
  assumes "line_diff old new (diffLines old new)"
  shows "\<exists>ls. pv_preview (buildCompactHashlineDiffPreview xx (dr_diff (generateDiffString diffLines limit old new))) = join_lines ls \<and>
    (\<forall>l\<in>set ls. (\<exists>n k. k \<in> {43, 32} \<and> 1 \<le> n \<and> n \<le> length (split_lines new) \<and> l = k # formatHashLine xx n (line_at (split_lines new) n)) \<or>
       (\<exists>m c. l = 45 # dec m @ [45, 45, HL_BODY_SEP] @ c) \<or> (\<exists>m. l = 32 # formatHashLine xx m ELLIPSIS)) \<and>
    length (filter (starts 43) ls) = length (lines_of dp_added (diffLines old new)) \<and>
    length (filter (starts 45) ls) = length (lines_of dp_removed (diffLines old new))"
proof -
  let ?ps = "diffLines old new" and ?news = "lines_of (\<lambda>p. \<not> dp_removed p) (diffLines old new)"
  let ?out = "diff_output limit False 1 1 ?ps"
  have "list_all (\<lambda>p. \<not> (dp_added p \<and> dp_removed p)) ?ps" using assms by (simp add: line_diff_def Let_def)
  then have "previews xx 1 ?news ?out 0 0 (0 + length (lines_of dp_added ?ps)) (0 + length (lines_of dp_removed ?ps))"
    by (intro previews_output) simp
  then obtain ls where ls: "preview_loop xx ?out 0 0 = (ls, length (filter (starts 43) ls), length (filter (starts 45) ls))"
      "list_all (fresh_line xx 1 ?news) ls" "length (filter (starts 43) ls) = length (lines_of dp_added ?ps)"
      "length (filter (starts 45) ls) = length (lines_of dp_removed ?ps)"
    by (auto simp: previews_def)
  have "\<forall>l\<in>set ?out. l \<noteq> []" using diff_output_ne by blast
  from split_join_diff [OF diff_output_no_newline this]
  have "(if dr_diff (generateDiffString diffLines limit old new) = [] then [] else split_lines (dr_diff (generateDiffString diffLines limit old new))) = ?out"
    by (simp only: generateDiffString_def diff_result.simps)
  then have "pv_preview (buildCompactHashlineDiffPreview xx (dr_diff (generateDiffString diffLines limit old new))) = join_lines ls"
    using ls(1) by (simp add: buildCompactHashlineDiffPreview_def)
  moreover have "(\<exists>n k. k \<in> {43, 32} \<and> 1 \<le> n \<and> n \<le> length (split_lines new) \<and> l = k # formatHashLine xx n (line_at (split_lines new) n)) \<or>
       (\<exists>m c. l = 45 # dec m @ [45, 45, HL_BODY_SEP] @ c) \<or> (\<exists>m. l = 32 # formatHashLine xx m ELLIPSIS)" if l: "l \<in> set ls" for l
  proof -
    obtain rest where rest: "split_lines new = ?news @ rest" using new_lines_split [OF assms] by blast
    consider (new) i k where "i < length ?news" "k \<in> {43, 32}" "l = k # formatHashLine xx (1 + i) (?news ! i)"
      | (other) "(\<exists>m c. l = 45 # dec m @ [45, 45, HL_BODY_SEP] @ c) \<or> (\<exists>m. l = 32 # formatHashLine xx m ELLIPSIS)"
      using l ls(2) unfolding list_all_iff fresh_line_def by blast
    then show ?thesis
    proof cases
      case new
      then have "k \<in> {43, 32} \<and> 1 \<le> 1 + i \<and> 1 + i \<le> length (split_lines new) \<and> l = k # formatHashLine xx (1 + i) (line_at (split_lines new) (1 + i))"
        by (simp add: rest line_at_def nth_append)
      then show ?thesis by blast
    qed blast
  qed
  ultimately show ?thesis using ls(3,4) by blast
qed

definition demo_parts :: "diff_part list" where
  "demo_parts = [\<lparr>dp_added = False, dp_removed = False, dp_value = utf16 ''a'' @ [10]\<rparr>,
     \<lparr>dp_added = False, dp_removed = True, dp_value = utf16 ''b'' @ [10]\<rparr>,
     \<lparr>dp_added = True, dp_removed = False, dp_value = utf16 ''bc'' @ [10]\<rparr>]"

theorem preview_anchors_are_fresh_witness:
  "pv_preview (buildCompactHashlineDiffPreview length
       (dr_diff (generateDiffString (\<lambda>old new. demo_parts) 4 (join_lines (map utf16 [''a'', ''b'', []])) (join_lines (map utf16 [''a'', ''bc'', []]))))) =
     join_lines (map utf16 ['' 1ab|a'', ''-2--|b'', ''+2ac|bc'']) \<and>
   (\<exists>ls. pv_preview (buildCompactHashlineDiffPreview length
       (dr_diff (generateDiffString (\<lambda>old new. demo_parts) 4 (join_lines (map utf16 [''a'', ''b'', []])) (join_lines (map utf16 [''a'', ''bc'', []]))))) =
       join_lines ls \<and> length (filter (starts 43) ls) = 1 \<and> length (filter (starts 45) ls) = 1)"
proof -
  let ?old = "join_lines (map utf16 [''a'', ''b'', []])" and ?new = "join_lines (map utf16 [''a'', ''bc'', []])"
  have "line_diff ?old ?new demo_parts" by (simp add: line_diff_def demo_parts_def ends_line_def)
  from preview_anchors_are_fresh [OF this, of length 4]
  have "\<exists>ls. pv_preview (buildCompactHashlineDiffPreview length (dr_diff (generateDiffString (\<lambda>old new. demo_parts) 4 ?old ?new))) =
       join_lines ls \<and> length (filter (starts 43) ls) = 1 \<and> length (filter (starts 45) ls) = 1"
    by (elim ex_forward) (simp add: demo_parts_def part_lines_def)
  moreover have "pv_preview (buildCompactHashlineDiffPreview length (dr_diff (generateDiffString (\<lambda>old new. demo_parts) 4 ?old ?new))) =
     join_lines (map utf16 ['' 1ab|a'', ''-2--|b'', ''+2ac|bc''])"
    by (simp add: generateDiffString_def buildCompactHashlineDiffPreview_def demo_parts_def part_lines_def is_change_def context_output_def
        formatNumberedDiffLine_def dec_rec preview_line_def parseInt_def is_space_def is_dec_def parse_dec_def show_number_def HL_BODY_SEP_def
        demo_hash trimEnd_def Let_def)
  ultimately show ?thesis by blast
qed

section \<open>The chunks of a streamed file\<close>

text \<open>\<open>Buffer.byteLength(s, "utf-8")\<close>: a surrogate pair is one character of four bytes.\<close>

fun utf8_length :: "ustr \<Rightarrow> nat" where
  "utf8_length [] = 0"
| "utf8_length [c] = (if c < 0x80 then 1 else if c < 0x800 then 2 else 3)"
| "utf8_length (c # d # s) =
     (if 0xD800 \<le> c \<and> c < 0xDC00 \<and> 0xDC00 \<le> d \<and> d < 0xE000 then 4 + utf8_length s
      else (if c < 0x80 then 1 else if c < 0x800 then 2 else 3) + utf8_length (d # s))"

record stream_options =
  so_startLine :: nat
  so_maxChunkLines :: nat
  so_maxChunkBytes :: nat

definition resolveHashlineStreamOptions :: "nat option \<Rightarrow> nat option \<Rightarrow> nat option \<Rightarrow> stream_options" where
  "resolveHashlineStreamOptions startLine maxChunkLines maxChunkBytes =
     \<lparr>so_startLine = (case startLine of None \<Rightarrow> 1 | Some n \<Rightarrow> n),
      so_maxChunkLines = (case maxChunkLines of None \<Rightarrow> 200 | Some n \<Rightarrow> n),
      so_maxChunkBytes = (case maxChunkBytes of None \<Rightarrow> 64 * 1024 | Some n \<Rightarrow> n)\<rparr>"

record chunk_emitter =
  ce_lineNumber :: nat
  ce_outLines :: "ustr list"
  ce_outBytes :: nat

definition flush :: "chunk_emitter \<Rightarrow> ustr list \<times> chunk_emitter" where
  "flush e =
     (if ce_outLines e = [] then ([], e)
      else let chunk = join_lines (ce_outLines e)
           in ((if chunk = [] then [] else [chunk]), e\<lparr>ce_outLines := [], ce_outBytes := 0\<rparr>))"

definition pushLine :: "(ustr \<Rightarrow> nat) \<Rightarrow> stream_options \<Rightarrow> ustr \<Rightarrow> chunk_emitter \<Rightarrow> ustr list \<times> chunk_emitter" where
  "pushLine xx opt line e =
     (let formatted = formatHashLine xx (ce_lineNumber e) line;
          e = e\<lparr>ce_lineNumber := Suc (ce_lineNumber e)\<rparr>;
          sepBytes = (if ce_outLines e = [] then 0 else 1);
          lineBytes = utf8_length formatted;
          wouldOverflow = (so_maxChunkLines opt \<le> length (ce_outLines e) \<or> so_maxChunkBytes opt < ce_outBytes e + sepBytes + lineBytes);
          (before, e) = (if ce_outLines e \<noteq> [] \<and> wouldOverflow then flush e else ([], e));
          outLines = ce_outLines e @ [formatted];
          outBytes = ce_outBytes e + ((if length outLines = 1 then 0 else 1) + lineBytes);
          e = e\<lparr>ce_outLines := outLines, ce_outBytes := outBytes\<rparr>;
          (after, e) = (if so_maxChunkLines opt \<le> length outLines \<or> so_maxChunkBytes opt \<le> outBytes then flush e else ([], e))
      in (before @ after, e))"

fun push_lines :: "(ustr \<Rightarrow> nat) \<Rightarrow> stream_options \<Rightarrow> ustr list \<Rightarrow> chunk_emitter \<Rightarrow> ustr list \<times> chunk_emitter" where
  "push_lines xx opt [] e = ([], e)"
| "push_lines xx opt (l # ls) e =
     (case pushLine xx opt l e of (out, e') \<Rightarrow> case push_lines xx opt ls e' of (outs, e'') \<Rightarrow> (out @ outs, e''))"

text \<open>
  A piece of the input: the complete lines of what is pending with the piece are pushed, the rest stays
  pending. The third component of the state says whether a line was seen.
\<close>

fun stream_loop ::
  "(ustr \<Rightarrow> nat) \<Rightarrow> stream_options \<Rightarrow> ustr list \<Rightarrow> ustr \<Rightarrow> bool \<Rightarrow> chunk_emitter \<Rightarrow> ustr list \<times> ustr \<times> bool \<times> chunk_emitter" where
  "stream_loop xx opt [] pending saw e = ([], pending, saw, e)"
| "stream_loop xx opt (c # cs) pending saw e =
     (let ls = split_lines (pending @ c)
      in case push_lines xx opt (map drop_cr (butlast ls)) e of (out, e') \<Rightarrow>
           (case stream_loop xx opt cs (last ls) (saw \<or> butlast ls \<noteq> []) e' of (outs, r) \<Rightarrow> (out @ outs, r)))"

definition streamHashLinesFromUtf8 :: "(ustr \<Rightarrow> nat) \<Rightarrow> stream_options \<Rightarrow> ustr list \<Rightarrow> ustr list" where
  "streamHashLinesFromUtf8 xx opt chunks =
     (case stream_loop xx opt chunks [] False \<lparr>ce_lineNumber = so_startLine opt, ce_outLines = [], ce_outBytes = 0\<rparr> of
        (outs, pending, saw, e) \<Rightarrow>
          (let (tail, e) = (if pending \<noteq> [] then pushLine xx opt (drop_cr pending) e else ([], e));
               saw = (saw \<or> pending \<noteq> []);
               (only, e) = (if saw then ([], e) else pushLine xx opt [] e)
           in outs @ tail @ only @ fst (flush e)))"

text \<open>The lines of a decoded text: a final newline ends the last line, and an empty text has one empty line.\<close>

definition stream_lines :: "ustr \<Rightarrow> ustr list" where
  "stream_lines s =
     (let ls = split_lines s; complete = map drop_cr (butlast ls)
      in if last ls \<noteq> [] then complete @ [drop_cr (last ls)] else if complete = [] then [[]] else complete)"

definition hash_lines :: "(ustr \<Rightarrow> nat) \<Rightarrow> nat \<Rightarrow> ustr list \<Rightarrow> ustr list" where
  "hash_lines xx n ls = map (\<lambda>(i, l). formatHashLine xx i l) (enumerate n ls)"

lemma hash_lines_simps [simp]:
  "hash_lines xx n [] = []" "hash_lines xx n (l # ls) = formatHashLine xx n l # hash_lines xx (Suc n) ls"
  "hash_lines xx n (ls @ ms) = hash_lines xx n ls @ hash_lines xx (n + length ls) ms"
  by (simp_all add: hash_lines_def enumerate_append_eq)

lemma utf8_length_newline: "utf8_length (s @ 10 # t) = utf8_length s + 1 + utf8_length t"
proof (induction s rule: utf8_length.induct)
  case 1
  then show ?case by (cases t) simp_all
next
  case (2 c)
  then show ?case by (cases t) simp_all
qed auto

lemma utf8_length_snoc:
  "ls \<noteq> [] \<Longrightarrow> utf8_length (join_lines (ls @ [l])) = utf8_length (join_lines ls) + 1 + utf8_length l"
proof (induction ls rule: join_lines.induct)
  case (3 l m ls)
  then show ?case by (cases ls) (simp_all add: utf8_length_newline)
qed (simp_all add: utf8_length_newline)

text \<open>A chunk as a group of lines, within the limits unless a single line is longer than a chunk.\<close>

definition group_ok :: "stream_options \<Rightarrow> ustr list \<Rightarrow> bool" where
  "group_ok opt g \<longleftrightarrow> g \<noteq> [] \<and> (length g = 1 \<or> length g \<le> so_maxChunkLines opt \<and> utf8_length (join_lines g) \<le> so_maxChunkBytes opt)"

definition emitter_ok :: "stream_options \<Rightarrow> chunk_emitter \<Rightarrow> bool" where
  "emitter_ok opt e \<longleftrightarrow> ce_outBytes e = utf8_length (join_lines (ce_outLines e)) \<and>
     (ce_outLines e = [] \<or> length (ce_outLines e) < so_maxChunkLines opt \<and> ce_outBytes e < so_maxChunkBytes opt) \<and>
     [] \<notin> set (ce_outLines e)"

definition emits :: "stream_options \<Rightarrow> chunk_emitter \<Rightarrow> ustr list \<times> chunk_emitter \<Rightarrow> ustr list \<Rightarrow> bool" where
  "emits opt e r new \<longleftrightarrow> (\<exists>groups. fst r = map join_lines groups \<and> list_all (group_ok opt) groups \<and>
     concat groups @ ce_outLines (snd r) = ce_outLines e @ new) \<and> emitter_ok opt (snd r) \<and>
     ce_lineNumber (snd r) = ce_lineNumber e + length new"

lemma emits_none: "emitter_ok opt e \<Longrightarrow> emits opt e ([], e) []"
  by (simp add: emits_def)

lemma emits_trans:
  assumes "emits opt e (out, e') new" "emits opt e' (out', e'') new'"
  shows "emits opt e (out @ out', e'') (new @ new')"
proof -
  obtain g where g: "out = map join_lines g" "list_all (group_ok opt) g" "concat g @ ce_outLines e' = ce_outLines e @ new"
    using assms(1) by (auto simp: emits_def)
  obtain g' where g': "out' = map join_lines g'" "list_all (group_ok opt) g'" "concat g' @ ce_outLines e'' = ce_outLines e' @ new'"
    using assms(2) by (auto simp: emits_def)
  have "concat (g @ g') @ ce_outLines e'' = ce_outLines e @ new @ new'"
    using g(3) g'(3) by (metis append.assoc concat_append)
  then show ?thesis using g g' assms by (auto simp: emits_def intro!: exI [of _ "g @ g'"])
qed

lemma formatHashLine_ne [simp]: "formatHashLine xx n l \<noteq> []" "[] \<noteq> formatHashLine xx n l"
  by (simp_all add: formatHashLine_def)

lemma join_lines_ne: "ls \<noteq> [] \<Longrightarrow> [] \<notin> set ls \<Longrightarrow> join_lines ls \<noteq> []"
  by (cases ls rule: join_lines.cases) auto

lemma emitter_group: "emitter_ok opt e \<Longrightarrow> ce_outLines e \<noteq> [] \<Longrightarrow> group_ok opt (ce_outLines e)"
  by (auto simp: emitter_ok_def group_ok_def)

lemma flush_simp:
  "ce_outLines e \<noteq> [] \<Longrightarrow> [] \<notin> set (ce_outLines e) \<Longrightarrow> flush e = ([join_lines (ce_outLines e)], e\<lparr>ce_outLines := [], ce_outBytes := 0\<rparr>)"
  by (simp add: flush_def join_lines_ne)

text \<open>The second half of a push: the line is added to what is pending, which is sent off when it is full.\<close>

definition push_rest :: "stream_options \<Rightarrow> ustr \<Rightarrow> chunk_emitter \<Rightarrow> ustr list \<times> chunk_emitter" where
  "push_rest opt formatted e =
     (let outLines = ce_outLines e @ [formatted];
          outBytes = ce_outBytes e + ((if length outLines = 1 then 0 else 1) + utf8_length formatted);
          e = e\<lparr>ce_outLines := outLines, ce_outBytes := outBytes\<rparr>
      in if so_maxChunkLines opt \<le> length outLines \<or> so_maxChunkBytes opt \<le> outBytes then flush e else ([], e))"

lemma push_rest_emits:
  assumes "emitter_ok opt e" "formatted \<noteq> []"
    and "ce_outLines e = [] \<or> Suc (length (ce_outLines e)) \<le> so_maxChunkLines opt \<and>
           ce_outBytes e + 1 + utf8_length formatted \<le> so_maxChunkBytes opt"
  shows "emits opt e (case push_rest opt formatted e of (out, e') \<Rightarrow> (out, e'\<lparr>ce_lineNumber := Suc (ce_lineNumber e)\<rparr>)) [formatted]"
proof -
  let ?ls = "ce_outLines e @ [formatted]"
  let ?b = "ce_outBytes e + ((if length ?ls = 1 then 0 else 1) + utf8_length formatted)"
  have b: "?b = utf8_length (join_lines ?ls)"
    using assms(1) utf8_length_snoc [of "ce_outLines e" formatted] by (cases "ce_outLines e = []") (auto simp: emitter_ok_def)
  have ok: "group_ok opt ?ls"
    using assms(1,3) b by (auto simp: group_ok_def split: if_splits)
  have ne: "[] \<notin> set ?ls" using assms(1,2) by (simp add: emitter_ok_def)
  show ?thesis
  proof (cases "so_maxChunkLines opt \<le> length ?ls \<or> so_maxChunkBytes opt \<le> ?b")
    case True
    then have "push_rest opt formatted e = ([join_lines ?ls], e\<lparr>ce_outLines := [], ce_outBytes := 0\<rparr>)"
      using ne unfolding push_rest_def Let_def by (subst if_P) (auto simp: flush_simp)
    then show ?thesis using ok by (auto simp: emits_def emitter_ok_def intro!: exI [of _ "[?ls]"])
  next
    case False
    then have "push_rest opt formatted e = ([], e\<lparr>ce_outLines := ?ls, ce_outBytes := ?b\<rparr>)"
      unfolding push_rest_def Let_def by (subst if_not_P) auto
    then show ?thesis using b ne False by (auto simp: emits_def emitter_ok_def)
  qed
qed

lemma pushLine_rest:
  "pushLine xx opt line e =
     (let formatted = formatHashLine xx (ce_lineNumber e) line;
          full = (ce_outLines e \<noteq> [] \<and> (so_maxChunkLines opt \<le> length (ce_outLines e) \<or>
             so_maxChunkBytes opt < ce_outBytes e + 1 + utf8_length formatted));
          (before, e') = (if full then flush e else ([], e))
      in case push_rest opt formatted e' of (after, e'') \<Rightarrow> (before @ after, e''\<lparr>ce_lineNumber := Suc (ce_lineNumber e)\<rparr>))"
  by (simp add: pushLine_def push_rest_def flush_def Let_def)

lemma pushLine_emits:
  assumes "emitter_ok opt e"
  shows "emits opt e (pushLine xx opt line e) [formatHashLine xx (ce_lineNumber e) line]"
proof -
  let ?f = "formatHashLine xx (ce_lineNumber e) line"
  let ?full = "ce_outLines e \<noteq> [] \<and> (so_maxChunkLines opt \<le> length (ce_outLines e) \<or>
     so_maxChunkBytes opt < ce_outBytes e + 1 + utf8_length ?f)"
  show ?thesis
  proof (cases ?full)
    case True
    let ?e = "e\<lparr>ce_outLines := [], ce_outBytes := 0\<rparr>"
    obtain after e'' where r: "push_rest opt ?f ?e = (after, e'')" by fastforce
    have fl: "flush e = ([join_lines (ce_outLines e)], ?e)" using True assms by (simp add: flush_simp emitter_ok_def)
    have "emits opt e ([join_lines (ce_outLines e)], ?e) []"
      using True assms emitter_group by (auto simp: emits_def emitter_ok_def intro!: exI [of _ "[ce_outLines e]"])
    moreover have "emits opt ?e (after, e''\<lparr>ce_lineNumber := Suc (ce_lineNumber e)\<rparr>) [?f]"
      using push_rest_emits [of opt ?e ?f] by (simp add: r emitter_ok_def)
    ultimately have "emits opt e ([join_lines (ce_outLines e)] @ after, e''\<lparr>ce_lineNumber := Suc (ce_lineNumber e)\<rparr>) ([] @ [?f])"
      by (rule emits_trans)
    then show ?thesis using True by (simp add: pushLine_rest fl r)
  next
    case False
    then have "pushLine xx opt line e = (case push_rest opt ?f e of (out, e') \<Rightarrow> (out, e'\<lparr>ce_lineNumber := Suc (ce_lineNumber e)\<rparr>))"
      unfolding pushLine_rest Let_def by (simp only: if_False) simp
    moreover have "ce_outLines e = [] \<or> Suc (length (ce_outLines e)) \<le> so_maxChunkLines opt \<and>
        ce_outBytes e + 1 + utf8_length ?f \<le> so_maxChunkBytes opt" using False assms by (auto simp: emitter_ok_def)
    ultimately show ?thesis using push_rest_emits [OF assms] by simp
  qed
qed

lemma push_lines_emits:
  "emitter_ok opt e \<Longrightarrow> emits opt e (push_lines xx opt ls e) (hash_lines xx (ce_lineNumber e) ls)"
proof (induction ls arbitrary: e)
  case (Cons l ls)
  obtain out e' where r: "pushLine xx opt l e = (out, e')" by fastforce
  obtain outs e'' where r': "push_lines xx opt ls e' = (outs, e'')" by fastforce
  have one: "emits opt e (out, e') [formatHashLine xx (ce_lineNumber e) l]" using pushLine_emits [OF Cons.prems, of xx l] r by simp
  then have "emitter_ok opt e'" "ce_lineNumber e' = Suc (ce_lineNumber e)" by (auto simp: emits_def)
  then have "emits opt e' (outs, e'') (hash_lines xx (Suc (ce_lineNumber e)) ls)" using Cons.IH [of e'] r' by simp
  from emits_trans [OF one this] show ?case by (simp add: r r')
qed (simp add: emits_none)

lemma split_pending: "split_lines (last (split_lines s) @ t) = (last (split_lines s) @ hd (split_lines t)) # tl (split_lines t)"
proof -
  have "10 \<notin> set (last (split_lines s))" by (rule split_lines_no_newline [OF last_in_set]) simp
  then show ?thesis by (simp add: split_lines_concat [of "last (split_lines s)"] split_lines_line)
qed

lemma split_further:
  "split_lines (s @ t) = butlast (split_lines s) @ split_lines (last (split_lines s) @ t)"
  by (simp only: split_pending split_lines_concat [of s t])

lemma stream_loop_emits:
  assumes "emitter_ok opt e" "10 \<notin> set pending"
  shows "\<exists>out e'. stream_loop xx opt cs pending saw e =
      (out, last (split_lines (pending @ concat cs)), saw \<or> butlast (split_lines (pending @ concat cs)) \<noteq> [], e') \<and>
    emits opt e (out, e') (hash_lines xx (ce_lineNumber e) (map drop_cr (butlast (split_lines (pending @ concat cs)))))"
  using assms
proof (induction cs arbitrary: pending saw e)
  case Nil
  then show ?case by (simp add: split_lines_line emits_none)
next
  case (Cons c cs)
  let ?ls = "split_lines (pending @ c)"
  obtain out e' where r: "push_lines xx opt (map drop_cr (butlast ?ls)) e = (out, e')" by fastforce
  have one: "emits opt e (out, e') (hash_lines xx (ce_lineNumber e) (map drop_cr (butlast ?ls)))"
    using push_lines_emits [OF Cons.prems(1), of xx "map drop_cr (butlast ?ls)"] r by simp
  then have e': "emitter_ok opt e'" "ce_lineNumber e' = ce_lineNumber e + length (butlast ?ls)"
    by (auto simp: emits_def hash_lines_def)
  have "10 \<notin> set (last ?ls)" by (rule split_lines_no_newline [OF last_in_set]) simp
  from Cons.IH [OF e'(1) this, of "saw \<or> butlast ?ls \<noteq> []"] obtain outs e'' where
    r': "stream_loop xx opt cs (last ?ls) (saw \<or> butlast ?ls \<noteq> []) e' =
      (outs, last (split_lines (last ?ls @ concat cs)), (saw \<or> butlast ?ls \<noteq> []) \<or> butlast (split_lines (last ?ls @ concat cs)) \<noteq> [], e'')"
    and two: "emits opt e' (outs, e'') (hash_lines xx (ce_lineNumber e') (map drop_cr (butlast (split_lines (last ?ls @ concat cs)))))"
    by blast
  have all: "split_lines (pending @ c @ concat cs) = butlast ?ls @ split_lines (last ?ls @ concat cs)"
    using split_further [of "pending @ c" "concat cs"] by simp
  have "emits opt e (out @ outs, e'') (hash_lines xx (ce_lineNumber e) (map drop_cr (butlast (split_lines (pending @ c @ concat cs)))))"
    using emits_trans [OF one two] by (simp add: all butlast_append e'(2))
  moreover have "stream_loop xx opt (c # cs) pending saw e =
      (out @ outs, last (split_lines (pending @ c @ concat cs)), saw \<or> butlast (split_lines (pending @ c @ concat cs)) \<noteq> [], e'')"
    by (simp add: Let_def r r' all butlast_append disj_assoc)
  ultimately show ?case by simp
qed

lemma join_lines_groups:
  "\<forall>g\<in>set groups. g \<noteq> [] \<Longrightarrow> join_lines (map join_lines groups) = join_lines (concat groups)"
proof (induction groups rule: induct_list012)
  case (3 g h groups)
  have app: "join_lines (xs @ ys) = join_lines xs @ 10 # join_lines ys" if "xs \<noteq> []" "ys \<noteq> []" for xs ys
    using that by (induction xs rule: join_lines.induct) (auto simp: neq_Nil_conv)
  have "join_lines (concat (g # h # groups)) = join_lines g @ 10 # join_lines (concat (h # groups))"
    using 3(3) app [of g "concat (h # groups)"] by simp
  then show ?case using 3 by simp
qed auto

lemma stream_groups:
  "\<exists>groups. streamHashLinesFromUtf8 xx opt chunks = map join_lines groups \<and> list_all (group_ok opt) groups \<and>
     concat groups = hash_lines xx (so_startLine opt) (stream_lines (concat chunks))"
proof -
  let ?e0 = "\<lparr>ce_lineNumber = so_startLine opt, ce_outLines = [], ce_outBytes = 0\<rparr>"
  let ?ls = "split_lines (concat chunks)"
  have "emitter_ok opt ?e0" by (simp add: emitter_ok_def)
  from stream_loop_emits [OF this, of "[]" xx chunks False] obtain out e1 where
    r1: "stream_loop xx opt chunks [] False ?e0 = (out, last ?ls, butlast ?ls \<noteq> [], e1)"
    and m1: "emits opt ?e0 (out, e1) (hash_lines xx (so_startLine opt) (map drop_cr (butlast ?ls)))" by auto
  have e1: "emitter_ok opt e1" "ce_lineNumber e1 = so_startLine opt + length (butlast ?ls)" using m1 by (auto simp: emits_def hash_lines_def)
  obtain tail e2 where r2: "(if last ?ls \<noteq> [] then pushLine xx opt (drop_cr (last ?ls)) e1 else ([], e1)) = (tail, e2)" by fastforce
  have m2: "emits opt e1 (tail, e2) (if last ?ls \<noteq> [] then [formatHashLine xx (ce_lineNumber e1) (drop_cr (last ?ls))] else [])"
    using pushLine_emits [OF e1(1), of xx "drop_cr (last ?ls)"] emits_none [OF e1(1)] r2 by (auto split: if_splits)
  have e2: "emitter_ok opt e2" using m2 by (auto simp: emits_def)
  let ?saw = "butlast ?ls \<noteq> [] \<or> last ?ls \<noteq> []"
  obtain lone e3 where r3: "(if ?saw then ([], e2) else pushLine xx opt [] e2) = (lone, e3)" by fastforce
  have m3: "emits opt e2 (lone, e3) (if ?saw then [] else [formatHashLine xx (ce_lineNumber e2) []])"
    using pushLine_emits [OF e2, of xx "[]"] emits_none [OF e2] r3 by (auto split: if_splits)
  have n2: "?saw \<or> ce_lineNumber e2 = so_startLine opt" using m2 e1(2) by (auto simp: emits_def simp del: length_butlast)
  have res: "streamHashLinesFromUtf8 xx opt chunks = out @ tail @ lone @ fst (flush e3)"
    using r1 r2 r3 by (simp add: streamHashLinesFromUtf8_def Let_def)
  have "(if last ?ls \<noteq> [] then [formatHashLine xx (ce_lineNumber e1) (drop_cr (last ?ls))] else []) @
      (if ?saw then [] else [formatHashLine xx (ce_lineNumber e2) []]) =
      hash_lines xx (so_startLine opt + length (butlast ?ls)) (drop (length (butlast ?ls)) (stream_lines (concat chunks)))"
    using e1(2) n2 by (auto simp: stream_lines_def Let_def simp del: length_butlast)
  moreover have "stream_lines (concat chunks) = map drop_cr (butlast ?ls) @ drop (length (butlast ?ls)) (stream_lines (concat chunks))"
    by (auto simp: stream_lines_def Let_def simp del: length_butlast)
  ultimately have new: "hash_lines xx (so_startLine opt) (map drop_cr (butlast ?ls)) @
      (if last ?ls \<noteq> [] then [formatHashLine xx (ce_lineNumber e1) (drop_cr (last ?ls))] else []) @
      (if ?saw then [] else [formatHashLine xx (ce_lineNumber e2) []]) = hash_lines xx (so_startLine opt) (stream_lines (concat chunks))"
    by (metis hash_lines_simps(3) length_map)
  have "emits opt ?e0 (out @ tail @ lone, e3) (hash_lines xx (so_startLine opt) (stream_lines (concat chunks)))"
    using emits_trans [OF m1 emits_trans [OF m2 m3]] unfolding new by simp
  then obtain groups where g: "out @ tail @ lone = map join_lines groups" "list_all (group_ok opt) groups"
      "concat groups @ ce_outLines e3 = hash_lines xx (so_startLine opt) (stream_lines (concat chunks))" and e3: "emitter_ok opt e3"
    by (auto simp: emits_def)
  show ?thesis
  proof (cases "ce_outLines e3 = []")
    case True
    then show ?thesis using g res by (intro exI [of _ groups]) (simp add: flush_def)
  next
    case False
    then have "fst (flush e3) = [join_lines (ce_outLines e3)]" "group_ok opt (ce_outLines e3)"
      using e3 emitter_group by (auto simp: flush_simp emitter_ok_def)
    then show ?thesis using g res by (intro exI [of _ "groups @ [ce_outLines e3]"]) simp
  qed
qed

lemma hash_lines_no_newline: "l \<in> set (hash_lines xx n (stream_lines s)) \<Longrightarrow> 10 \<notin> set l"
proof -
  have "10 \<notin> set (drop_cr l)" if "l \<in> set (split_lines s)" for l
    using split_lines_no_newline [OF that] by (auto simp: drop_cr_def dest: in_set_butlastD)
  then have "\<forall>l\<in>set (stream_lines s). 10 \<notin> set l"
    by (auto simp: stream_lines_def Let_def dest: in_set_butlastD)
  then show "l \<in> set (hash_lines xx n (stream_lines s)) \<Longrightarrow> 10 \<notin> set l"
    using formatHashLine_no_newline by (force simp: hash_lines_def in_set_enumerate_eq)
qed

text \<open>
  Streaming a file shows every line once, with its number and anchor, however the bytes were cut
  into pieces: the chunks put together are the anchored lines of the decoded text. Every chunk keeps to
  the limits of lines and bytes, unless it is a single line.
\<close>

theorem stream_shows_anchored_lines:
  "join_lines (streamHashLinesFromUtf8 xx opt chunks) = join_lines (hash_lines xx (so_startLine opt) (stream_lines (concat chunks))) \<and>
   list_all (\<lambda>c. length (split_lines c) = 1 \<or> length (split_lines c) \<le> so_maxChunkLines opt \<and> utf8_length c \<le> so_maxChunkBytes opt)
     (streamHashLinesFromUtf8 xx opt chunks)"
proof -
  obtain groups where g: "streamHashLinesFromUtf8 xx opt chunks = map join_lines groups" "list_all (group_ok opt) groups"
      "concat groups = hash_lines xx (so_startLine opt) (stream_lines (concat chunks))" using stream_groups by blast
  have "split_lines (join_lines g') = g'" if "g' \<in> set groups" for g'
  proof -
    have "l \<in> set (concat groups)" if "l \<in> set g'" for l using that \<open>g' \<in> set groups\<close> by auto
    then have "\<forall>l\<in>set g'. 10 \<notin> set l" using hash_lines_no_newline unfolding g(3) by blast
    moreover have "g' \<noteq> []" using g(2) that by (auto simp: list_all_iff group_ok_def)
    ultimately show ?thesis by (intro split_join_lines)
  qed
  moreover have "join_lines (map join_lines groups) = join_lines (concat groups)"
    using g(2) by (intro join_lines_groups) (auto simp: list_all_iff group_ok_def)
  ultimately show ?thesis using g by (auto simp: list_all_iff group_ok_def)
qed

end
