(* ===== verification/Hashline_Recovery.thy ===== *)
theory Hashline_Recovery
  imports Hashline_Diff Hashline_Splice
begin

text \<open>
  Around the line editor: line endings (\<open>edit/normalize.ts\<close>), the cache of file contents that the
  model has seen (\<open>edit/file-read-cache.ts\<close>) and recovery from stale anchors
  (\<open>hashline/recovery.ts\<close>). Parameters are the routines of the diff package (\<open>diff_library\<close>) and
  what the LRU container of the cache evicts.
\<close>

section \<open>Line endings\<close>

datatype line_ending = CRLF | LF

fun find_crlf :: "ustr \<Rightarrow> nat option" where
  "find_crlf (c # d # s) = (if c = 13 \<and> d = 10 then Some 0 else map_option Suc (find_crlf (d # s)))"
| "find_crlf _ = None"

fun find_lf :: "ustr \<Rightarrow> nat option" where
  "find_lf [] = None"
| "find_lf (c # s) = (if c = 10 then Some 0 else map_option Suc (find_lf s))"

definition detectLineEnding :: "ustr \<Rightarrow> line_ending" where
  "detectLineEnding content =
     (case (find_lf content, find_crlf content) of (Some l, Some c) \<Rightarrow> if c < l then CRLF else LF | _ \<Rightarrow> LF)"

fun normalizeToLF :: "ustr \<Rightarrow> ustr" where
  "normalizeToLF [] = []"
| "normalizeToLF [c] = (if c = 13 then [10] else [c])"
| "normalizeToLF (c # d # s) =
     (if c = 13 then 10 # (if d = 10 then normalizeToLF s else normalizeToLF (d # s)) else c # normalizeToLF (d # s))"

definition restoreLineEndings :: "ustr \<Rightarrow> line_ending \<Rightarrow> ustr" where
  "restoreLineEndings s e = (case e of CRLF \<Rightarrow> concat (map (\<lambda>c. if c = 10 then [13, 10] else [c]) s) | LF \<Rightarrow> s)"

definition stripBom :: "ustr \<Rightarrow> ustr \<times> ustr" where
  "stripBom s = (if s \<noteq> [] \<and> hd s = 0xFEFF then ([0xFEFF], tl s) else ([], s))"

lemma restore_crlf_Cons: "restoreLineEndings (c # s) CRLF = (if c = 10 then [13, 10] else [c]) @ restoreLineEndings s CRLF"
  by (simp add: restoreLineEndings_def)

lemma normalize_Cons: "c \<noteq> 13 \<Longrightarrow> normalizeToLF (c # s) = c # normalizeToLF s"
  by (cases s) auto

lemma normalize_restore:
  assumes "13 \<notin> set u"
  shows "normalizeToLF (restoreLineEndings u e) = u"
proof (cases e)
  case CRLF
  have "normalizeToLF (restoreLineEndings u CRLF) = u"
    using assms by (induction u) (auto simp: restore_crlf_Cons normalize_Cons restoreLineEndings_def [of "[]"])
  then show ?thesis by (simp add: CRLF)
next
  case LF
  have "normalizeToLF u = u" using assms by (induction u) (auto simp: normalize_Cons)
  then show ?thesis by (simp add: LF restoreLineEndings_def)
qed

lemma find_lf_none: "10 \<notin> set u \<Longrightarrow> find_lf u = None"
  by (induction u) auto

lemma find_crlf_none: "13 \<notin> set u \<Longrightarrow> find_crlf u = None"
  by (induction u rule: find_crlf.induct) auto

lemma find_crlf_restore:
  assumes "13 \<notin> set u" "10 \<in> set u"
  shows "\<exists>n. find_crlf (restoreLineEndings u CRLF) = Some n \<and> find_lf (restoreLineEndings u CRLF) = Some (Suc n)"
  using assms
proof (induction u)
  case (Cons c u)
  show ?case
  proof (cases "c = 10")
    case False
    then obtain n where n: "find_crlf (restoreLineEndings u CRLF) = Some n" "find_lf (restoreLineEndings u CRLF) = Some (Suc n)"
      using Cons by auto
    then obtain d s where "restoreLineEndings u CRLF = d # s" by (cases "restoreLineEndings u CRLF") auto
    then show ?thesis using n False Cons.prems by (simp add: restore_crlf_Cons)
  qed (simp add: restore_crlf_Cons)
qed simp

text \<open>
  Line endings survive an edit: of a text whose lines all end the same way, the ending is detected
  whenever it has a line break, the editor works on the text with plain newlines, and putting
  the ending back gives the original text.
\<close>

theorem line_endings_roundtrip:
  assumes "13 \<notin> set u"
  shows "normalizeToLF (restoreLineEndings u e) = u \<and>
    restoreLineEndings (normalizeToLF (restoreLineEndings u e)) (detectLineEnding (restoreLineEndings u e)) = restoreLineEndings u e \<and>
    (10 \<in> set u \<longrightarrow> detectLineEnding (restoreLineEndings u e) = e)"
proof (cases "e = CRLF \<and> 10 \<in> set u")
  case True
  then show ?thesis using find_crlf_restore [OF assms] by (auto simp: normalize_restore [OF assms] detectLineEnding_def)
next
  case False
  have "restoreLineEndings u CRLF = u" if "10 \<notin> set u"
    using that by (induction u) (auto simp: restoreLineEndings_def)
  then have r: "restoreLineEndings u e = u" using False by (cases e) (auto simp: restoreLineEndings_def)
  have n: "normalizeToLF u = u" using normalize_restore [OF assms, of e] by (simp only: r)
  have d: "detectLineEnding u = LF" by (simp add: detectLineEnding_def find_crlf_none [OF assms] split: option.splits)
  have "10 \<in> set u \<Longrightarrow> e = LF" using False by (cases e) auto
  then show ?thesis by (simp add: r n d restoreLineEndings_def [of u LF])
qed

theorem line_endings_roundtrip_witness:
  "detectLineEnding (restoreLineEndings (utf16 ''a'' @ 10 # utf16 ''b'') CRLF) = CRLF"
  using line_endings_roundtrip [of "utf16 ''a'' @ 10 # utf16 ''b''" CRLF] by simp

section \<open>The cache of seen lines\<close>

record file_snapshot =
  fs_lines :: "(nat, ustr) js_map"
  fs_lineCount :: "nat option"

definition hasConflict :: "file_snapshot \<Rightarrow> (nat \<times> ustr) list \<Rightarrow> nat option \<Rightarrow> bool" where
  "hasConflict existing incoming incomingLineCount \<longleftrightarrow>
     (\<exists>(n, c)\<in>set incoming. (\<exists>prior. map_get (fs_lines existing) n = Some prior \<and> prior \<noteq> c) \<or>
        (\<exists>m. fs_lineCount existing = Some m \<and> m < n)) \<or>
     (\<exists>k. incomingLineCount = Some k \<and>
        ((\<exists>m. fs_lineCount existing = Some m \<and> m \<noteq> k) \<or> (\<exists>n\<in>set (map fst (fs_lines existing)). k < n)))"

definition map_of_entries :: "(nat \<times> ustr) list \<Rightarrow> (nat, ustr) js_map \<Rightarrow> (nat, ustr) js_map" where
  "map_of_entries entries m = foldl (\<lambda>m (n, c). map_set n c m) m entries"

definition record_snapshot :: "file_snapshot option \<Rightarrow> (nat \<times> ustr) list \<Rightarrow> nat option \<Rightarrow> file_snapshot" where
  "record_snapshot existing entries lineCount =
     (case existing of
        Some s \<Rightarrow>
          (if hasConflict s entries lineCount then \<lparr>fs_lines = map_of_entries entries [], fs_lineCount = lineCount\<rparr>
           else s\<lparr>fs_lines := map_of_entries entries (fs_lines s),
                  fs_lineCount := (if lineCount \<noteq> None then lineCount else fs_lineCount s)\<rparr>)
      | None \<Rightarrow> \<lparr>fs_lines = map_of_entries entries [], fs_lineCount = lineCount\<rparr>)"

type_synonym read_cache = "(ustr, file_snapshot) js_map"

text \<open>The container keeps what \<open>evict\<close> leaves of the map after an insertion.\<close>

definition cache_record ::
  "(read_cache \<Rightarrow> read_cache) \<Rightarrow> ustr \<Rightarrow> (nat \<times> ustr) list \<Rightarrow> nat option \<Rightarrow> read_cache \<Rightarrow> read_cache" where
  "cache_record evict p entries lineCount c = evict (map_set p (record_snapshot (map_get c p) entries lineCount) c)"

definition numbered :: "nat \<Rightarrow> ustr list \<Rightarrow> (nat \<times> ustr) list" where
  "numbered start ls = enumerate start ls"

definition recordContiguous :: "(read_cache \<Rightarrow> read_cache) \<Rightarrow> ustr \<Rightarrow> nat \<Rightarrow> ustr list \<Rightarrow> read_cache \<Rightarrow> read_cache" where
  "recordContiguous evict p startLine ls c = (if ls = [] then c else cache_record evict p (numbered startLine ls) None c)"

definition recordFull :: "(read_cache \<Rightarrow> read_cache) \<Rightarrow> ustr \<Rightarrow> ustr list \<Rightarrow> read_cache \<Rightarrow> read_cache" where
  "recordFull evict p ls c = cache_record evict p (numbered 1 ls) (Some (length ls)) c"

definition recordSparse :: "(read_cache \<Rightarrow> read_cache) \<Rightarrow> ustr \<Rightarrow> (nat \<times> ustr) list \<Rightarrow> read_cache \<Rightarrow> read_cache" where
  "recordSparse evict p entries c = (if entries = [] then c else cache_record evict p entries None c)"

definition invalidate :: "ustr \<Rightarrow> read_cache \<Rightarrow> read_cache" where
  "invalidate p c = map_delete p c"

text \<open>A snapshot with a line count covers the lines up to it and no others.\<close>

definition snapshot_ok :: "file_snapshot \<Rightarrow> bool" where
  "snapshot_ok s \<longleftrightarrow> 0 \<notin> set (map fst (fs_lines s)) \<and> (\<forall>n. fs_lineCount s = Some n \<longrightarrow> set (map fst (fs_lines s)) = {1..n})"

lemma map_of_entries_keys: "set (map fst (map_of_entries es m)) = set (map fst es) \<union> set (map fst m)"
  by (induction es arbitrary: m) (simp_all add: map_of_entries_def map_set_keys split_beta)

lemma numbered_keys: "set (map fst (numbered (Suc 0) ls)) = {Suc 0..length ls}"
  by (auto simp: numbered_def)

lemma record_ok:
  assumes "\<forall>s. old = Some s \<longrightarrow> snapshot_ok s" "lc = None \<or> (\<exists>ls. entries = numbered 1 ls \<and> lc = Some (length ls))"
    and "\<forall>(n, c)\<in>set entries. 1 \<le> n"
  shows "snapshot_ok (record_snapshot old entries lc)"
proof -
  have pos: "0 \<notin> set (map fst entries)" using assms(3) by auto
  have fresh: "snapshot_ok \<lparr>fs_lines = map_of_entries entries [], fs_lineCount = lc\<rparr>"
    using assms(2) pos by (auto simp: snapshot_ok_def map_of_entries_keys numbered_keys simp del: set_map)
  show ?thesis
  proof (cases old)
    case (Some s)
    show ?thesis
    proof (cases "hasConflict s entries lc")
      case False
      have s: "snapshot_ok s" using assms(1) Some by simp
      have "set (map fst (map_of_entries entries (fs_lines s))) = {1..n}"
        if n: "(if lc \<noteq> None then lc else fs_lineCount s) = Some n" for n
      proof (cases lc)
        case None
        then have c: "fs_lineCount s = Some n" using n by simp
        then have "set (map fst entries) \<subseteq> {1..n}"
          using False assms(3) by (fastforce simp: hasConflict_def)
        then show ?thesis using s c by (auto simp: map_of_entries_keys snapshot_ok_def simp del: set_map)
      next
        case (Some k)
        then have k: "k = n" "set (map fst entries) = {1..n}" using n assms(2) numbered_keys by (auto simp del: set_map)
        have "set (map fst (fs_lines s)) \<subseteq> {..n}" using False Some k(1) by (auto simp: hasConflict_def)
        moreover have "0 \<notin> set (map fst (fs_lines s))" using s by (simp add: snapshot_ok_def)
        ultimately have "set (map fst (fs_lines s)) \<subseteq> {1..n}"
          using not_less_eq_eq by (fastforce simp del: set_map)
        then show ?thesis by (auto simp: map_of_entries_keys k(2) simp del: set_map)
      qed
      then show ?thesis using False Some s pos by (simp add: record_snapshot_def snapshot_ok_def map_of_entries_keys del: set_map)
    qed (use Some fresh in \<open>simp add: record_snapshot_def\<close>)
  qed (use fresh in \<open>simp add: record_snapshot_def\<close>)
qed

text \<open>An eviction only drops entries.\<close>

definition only_drops :: "(read_cache \<Rightarrow> read_cache) \<Rightarrow> bool" where
  "only_drops evict \<longleftrightarrow> (\<forall>m p s. map_get (evict m) p = Some s \<longrightarrow> map_get m p = Some s)"

inductive cache_step :: "(read_cache \<Rightarrow> read_cache) \<Rightarrow> read_cache \<Rightarrow> read_cache \<Rightarrow> bool" for evict where
  seen_run: "1 \<le> start \<Longrightarrow> cache_step evict c (recordContiguous evict p start ls c)"
| seen_full: "cache_step evict c (recordFull evict p ls c)"
| seen_some: "\<forall>(n, t)\<in>set entries. 1 \<le> n \<Longrightarrow> cache_step evict c (recordSparse evict p entries c)"
| dropped: "cache_step evict c (invalidate p c)"
| cleared: "cache_step evict c []"

definition cache_ok :: "read_cache \<Rightarrow> bool" where
  "cache_ok c \<longleftrightarrow> (\<forall>p s. map_get c p = Some s \<longrightarrow> snapshot_ok s)"

lemma cache_record_ok:
  assumes "cache_ok c" "only_drops evict"
    and "lc = None \<or> (\<exists>ls. entries = numbered 1 ls \<and> lc = Some (length ls))" "\<forall>(n, c)\<in>set entries. 1 \<le> n"
  shows "cache_ok (cache_record evict p entries lc c)"
proof -
  have "snapshot_ok (record_snapshot (map_get c p) entries lc)"
    using assms(1) unfolding cache_ok_def by (intro record_ok [OF _ assms(3,4)]) blast
  then have set: "cache_ok (map_set p (record_snapshot (map_get c p) entries lc) c)"
    using assms(1) unfolding cache_ok_def map_get_set by (metis option.inject)
  have "map_get (evict m) q = Some s \<Longrightarrow> map_get m q = Some s" for m q s using assms(2) unfolding only_drops_def by blast
  then show ?thesis using set unfolding cache_ok_def cache_record_def by blast
qed

text \<open>
  What the cache knows of a file stays coherent: in every sequence of reads, searches, edits,
  invalidations and evictions, lines count from one, and a snapshot that claims to know the length of its
  file holds exactly the lines up to that length.
\<close>

theorem read_cache_coherent:
  assumes "(cache_step evict)\<^sup>*\<^sup>* [] c" "only_drops evict"
    and "map_get c p = Some s"
  shows "0 \<notin> set (map fst (fs_lines s)) \<and> (\<forall>n. fs_lineCount s = Some n \<longrightarrow> set (map fst (fs_lines s)) = {1..n})"
proof -
  have "cache_ok c"
    using assms(1)
  proof (induction rule: rtranclp_induct)
    case (step c d)
    from step.hyps(2) show ?case
    proof cases
      case (seen_run start p ls)
      have "cache_ok (cache_record evict p (numbered start ls) None c)"
        using seen_run(2) by (intro cache_record_ok [OF step.IH assms(2)]) (auto simp: numbered_def in_set_enumerate_eq)
      then show ?thesis using step.IH by (simp add: seen_run(1) recordContiguous_def)
    next
      case (seen_full p ls)
      have "cache_ok (cache_record evict p (numbered 1 ls) (Some (length ls)) c)"
        by (intro cache_record_ok [OF step.IH assms(2)]) (auto simp: numbered_def in_set_enumerate_eq)
      then show ?thesis by (simp add: seen_full recordFull_def)
    next
      case (seen_some entries p)
      have "cache_ok (cache_record evict p entries None c)"
        using seen_some(2) by (intro cache_record_ok [OF step.IH assms(2)]) auto
      then show ?thesis using step.IH by (simp add: seen_some(1) recordSparse_def)
    qed (use step.IH in \<open>auto simp: cache_ok_def invalidate_def split: if_splits\<close>)
  qed (simp add: cache_ok_def)
  then show ?thesis using assms(3) by (auto simp: cache_ok_def snapshot_ok_def)
qed

theorem read_cache_coherent_witness:
  "set (map fst (fs_lines (record_snapshot None (numbered 1 [utf16 ''a'', utf16 ''b'']) (Some 2)))) = {1..2}"
proof -
  let ?s = "record_snapshot None (numbered 1 [utf16 ''a'', utf16 ''b'']) (Some 2)"
  let ?c = "recordFull id (utf16 ''f'') [utf16 ''a'', utf16 ''b''] []"
  have step: "(cache_step id)\<^sup>*\<^sup>* [] ?c" by (rule r_into_rtranclp) (rule cache_step.seen_full)
  have get: "map_get ?c (utf16 ''f'') = Some ?s" by (simp add: recordFull_def cache_record_def numeral_2_eq_2)
  have "only_drops id" by (simp add: only_drops_def)
  from read_cache_coherent [OF step this get] show ?thesis by (simp add: record_snapshot_def)
qed

section \<open>Recovery from stale anchors\<close>

text \<open>A hunk of the diff library: its lines carry a space, a minus or a plus in front.\<close>

record hunk =
  hk_oldStart :: nat
  hk_oldLines :: nat
  hk_newStart :: nat
  hk_newLines :: nat
  hk_lines :: "ustr list"

definition starts_any :: "nat list \<Rightarrow> ustr \<Rightarrow> bool" where
  "starts_any cs l \<longleftrightarrow> l \<noteq> [] \<and> hd l \<in> set cs"

abbreviation is_context :: "ustr \<Rightarrow> bool" where "is_context \<equiv> starts_any [32]"
abbreviation is_old :: "ustr \<Rightarrow> bool" where "is_old \<equiv> starts_any [32, 45]"
abbreviation is_new :: "ustr \<Rightarrow> bool" where "is_new \<equiv> starts_any [32, 43]"

text \<open>Every line of a hunk with its number in the old file.\<close>

fun old_numbers :: "nat \<Rightarrow> ustr list \<Rightarrow> (ustr \<times> nat option) list" where
  "old_numbers n [] = []"
| "old_numbers n (l # ls) = (if is_old l then (l, Some n) # old_numbers (Suc n) ls else (l, None) # old_numbers n ls)"

definition covered :: "file_snapshot \<Rightarrow> ustr \<times> nat option \<Rightarrow> bool" where
  "covered snapshot x = (case snd x of None \<Rightarrow> False | Some n \<Rightarrow> map_get (fs_lines snapshot) n \<noteq> None)"

definition trimHunkToSnapshot :: "hunk \<Rightarrow> file_snapshot \<Rightarrow> hunk option" where
  "trimHunkToSnapshot h snapshot =
     (let loose = \<lambda>x. is_context (fst x) \<and> \<not> covered snapshot x;
          all = old_numbers (hk_oldStart h) (hk_lines h);
          start = length (takeWhile loose all);
          kept = rev (dropWhile loose (rev (dropWhile loose all)));
          ls = map fst kept
      in if list_ex (\<lambda>x. snd x \<noteq> None \<and> \<not> covered snapshot x) kept then None
         else Some \<lparr>hk_oldStart = hk_oldStart h + start, hk_oldLines = length (filter is_old ls),
                    hk_newStart = hk_newStart h + start, hk_newLines = length (filter is_new ls), hk_lines = ls\<rparr>)"

definition old_side :: "hunk \<Rightarrow> ustr list" where
  "old_side h = map tl (filter is_old (hk_lines h))"

definition occurrences :: "ustr list \<Rightarrow> ustr list \<Rightarrow> nat list" where
  "occurrences part ls = filter (\<lambda>i. take (length part) (drop i ls) = part) [0..<Suc (length ls) - length part]"

definition everyHunkLandsUniquely :: "hunk list \<Rightarrow> ustr list \<Rightarrow> bool" where
  "everyHunkLandsUniquely hs ls \<longleftrightarrow> list_all (\<lambda>h. old_side h \<noteq> [] \<and> length (occurrences (old_side h) ls) = 1) hs"

definition collectEditAnchors :: "hl_edit list \<Rightarrow> anchor list" where
  "collectEditAnchors edits = concat (map getHashlineEditAnchors edits)"

text \<open>The text the anchors were written against: the live file overlaid with the lines that were seen.\<close>

definition overlay :: "ustr list \<Rightarrow> file_snapshot \<Rightarrow> ustr list" where
  "overlay current snapshot =
     (let maxCached = foldl max 0 (map fst (fs_lines snapshot));
          padded = current @ replicate (maxCached - length current) [];
          overlaid = foldl (\<lambda>xs (n, c). xs[n - 1 := c]) padded (fs_lines snapshot)
      in case fs_lineCount snapshot of None \<Rightarrow> overlaid
         | Some k \<Rightarrow> take k overlaid @ replicate (k - length overlaid) [])"

record diff_library =
  dl_structuredPatch :: "ustr \<Rightarrow> ustr \<Rightarrow> hunk list"
  dl_applyPatch :: "ustr \<Rightarrow> hunk list \<Rightarrow> ustr option"
  dl_diffLines :: "ustr \<Rightarrow> ustr \<Rightarrow> diff_part list"

record recovery_result =
  rr_lines :: ustr
  rr_firstChangedLine :: "nat option"
  rr_recovered :: bool
  rr_warnings :: "absorb_warning list"

definition vouched :: "(ustr \<Rightarrow> nat) \<Rightarrow> file_snapshot \<Rightarrow> anchor \<Rightarrow> bool" where
  "vouched xx snapshot a =
     (case map_get (fs_lines snapshot) (an_line a) of None \<Rightarrow> False
      | Some c \<Rightarrow> an_hash a = RANGE_INTERIOR_HASH \<or> computeLineHash xx (an_line a) c = an_hash a)"

text \<open>The hunks of the replayed patch, or nothing when one of them reaches beyond the snapshot.\<close>

fun trim_all :: "hunk list \<Rightarrow> file_snapshot \<Rightarrow> hunk list option" where
  "trim_all [] snapshot = Some []"
| "trim_all (h # hs) snapshot =
     (case trimHunkToSnapshot h snapshot of None \<Rightarrow> None
      | Some h' \<Rightarrow> map_option (\<lambda>hs'. h' # hs') (trim_all hs snapshot))"

text \<open>
  \<open>Inr None\<close> is \<open>null\<close>: no recovery. An error of the replay that is no mismatch is thrown on. The
  flag says whether the warning of the recovery is given.
\<close>

definition tryRecoverHashlineWithCache ::
  "(ustr \<Rightarrow> nat) \<Rightarrow> diff_library \<Rightarrow> file_snapshot option \<Rightarrow> ustr \<Rightarrow> hl_edit list \<Rightarrow> bool \<Rightarrow> apply_error + recovery_result option" where
  "tryRecoverHashlineWithCache xx dl cached currentText edits generic =
     (case cached of None \<Rightarrow> Inr None
      | Some snapshot \<Rightarrow>
          (if fs_lines snapshot = [] \<or> \<not> list_all (vouched xx snapshot) (collectEditAnchors edits) then Inr None
           else let previousText = join_lines (overlay (split_lines currentText) snapshot)
                in if previousText = currentText then Inr None
                   else (case applyHashlineEdits xx previousText edits generic of
                       Inl (HashlineMismatchError ms ls) \<Rightarrow> Inr None
                     | Inl e \<Rightarrow> Inl e
                     | Inr applied \<Rightarrow>
                         (if ap_lines applied = previousText then Inr None
                          else (case trim_all (dl_structuredPatch dl previousText (ap_lines applied)) snapshot of None \<Rightarrow> Inr None
                            | Some hs \<Rightarrow>
                                (if \<not> everyHunkLandsUniquely hs (split_lines previousText) then Inr None
                                 else if \<not> everyHunkLandsUniquely hs (split_lines currentText) then Inr None
                                 else (case dl_applyPatch dl currentText hs of None \<Rightarrow> Inr None
                                   | Some merged \<Rightarrow>
                                       (if merged = currentText then Inr None
                                        else let f = dr_firstChangedLine (generateDiffString (dl_diffLines dl) 4 currentText merged)
                                             in Inr (Some \<lparr>rr_lines = merged,
                                                  rr_firstChangedLine = (if f = None then ap_firstChangedLine applied else f),
                                                  rr_recovered = (f \<noteq> None), rr_warnings = ap_warnings applied\<rparr>)))))))))"

lemma trim_all_covered:
  "trim_all hs snapshot = Some hs' \<Longrightarrow> h \<in> set hs' \<Longrightarrow>
   \<exists>h0\<in>set hs. trimHunkToSnapshot h0 snapshot = Some h"
  by (induction hs arbitrary: hs') (auto split: option.splits)

lemma map_fst_old_numbers [simp]: "map fst (old_numbers n ls) = ls"
  by (induction n ls rule: old_numbers.induct) auto

lemma old_numbers_take: "take k (old_numbers n ls) = old_numbers n (take k ls)"
proof (induction k arbitrary: n ls)
  case (Suc k)
  then show ?case by (cases ls) auto
qed simp

lemma old_numbers_drop:
  "\<forall>l\<in>set (take k ls). is_old l \<Longrightarrow> k \<le> length ls \<Longrightarrow> drop k (old_numbers n ls) = old_numbers (n + k) (drop k ls)"
proof (induction k arbitrary: n ls)
  case (Suc k)
  then obtain l ls' where "ls = l # ls'" by (cases ls) auto
  then show ?case using Suc by simp
qed simp

text \<open>The hunk that is left has the numbers of the lines that were kept, and the snapshot covers all its old lines.\<close>

lemma dropWhile_rev: "rev (dropWhile P (rev xs)) = take (length xs - length (takeWhile P (rev xs))) xs"
  by (simp add: dropWhile_eq_drop rev_drop)

lemma trim_covered:
  assumes "trimHunkToSnapshot h snapshot = Some h'" "(l, Some n) \<in> set (old_numbers (hk_oldStart h') (hk_lines h'))"
  shows "map_get (fs_lines snapshot) n \<noteq> None"
proof -
  let ?loose = "\<lambda>x. is_context (fst x) \<and> \<not> covered snapshot x"
  let ?all = "old_numbers (hk_oldStart h) (hk_lines h)"
  let ?start = "length (takeWhile ?loose ?all)"
  let ?kept = "rev (dropWhile ?loose (rev (dropWhile ?loose ?all)))"
  have h': "hk_oldStart h' = hk_oldStart h + ?start" "hk_lines h' = map fst ?kept"
    and cov: "\<forall>x\<in>set ?kept. snd x = None \<or> covered snapshot x"
    using assms(1) by (auto simp: trimHunkToSnapshot_def Let_def list_ex_iff split: if_splits)
  have "take ?start (hk_lines h) = map fst (take ?start ?all)" by (simp only: take_map [symmetric] map_fst_old_numbers)
  also have "take ?start ?all = takeWhile ?loose ?all" by (rule takeWhile_eq_take [symmetric])
  finally have "take ?start (hk_lines h) = map fst (takeWhile ?loose ?all)" .
  moreover have "is_old (fst x)" if "x \<in> set (takeWhile ?loose ?all)" for x
    using set_takeWhileD [OF that] by (auto simp: starts_any_def)
  ultimately have "\<forall>l\<in>set (take ?start (hk_lines h)). is_old l" by auto
  moreover have "?start \<le> length (hk_lines h)" by (metis length_map length_takeWhile_le map_fst_old_numbers)
  ultimately have "drop ?start ?all = old_numbers (hk_oldStart h + ?start) (drop ?start (hk_lines h))"
    by (rule old_numbers_drop)
  then have mid: "dropWhile ?loose ?all = old_numbers (hk_oldStart h + ?start) (drop ?start (hk_lines h))"
    unfolding dropWhile_eq_drop [symmetric] .
  obtain j where "?kept = take j (dropWhile ?loose ?all)" using dropWhile_rev by blast
  then have "?kept = old_numbers (hk_oldStart h') (take j (drop ?start (hk_lines h)))"
    unfolding mid h'(1) old_numbers_take .
  then have "?kept = old_numbers (hk_oldStart h') (hk_lines h')" unfolding h'(2) by simp
  then have "(l, Some n) \<in> set ?kept" using assms(2) by simp
  then show ?thesis using cov by (auto simp: covered_def)
qed

lemma occurs_once:
  assumes "length (occurrences part ls) = 1"
  shows "\<exists>!i. i + length part \<le> length ls \<and> take (length part) (drop i ls) = part"
proof -
  obtain i where i: "occurrences part ls = [i]" using assms by (metis One_nat_def length_0_conv length_Suc_conv)
  have "j + length part \<le> length ls \<and> take (length part) (drop j ls) = part \<longleftrightarrow> j \<in> set (occurrences part ls)" for j
    by (auto simp: occurrences_def)
  then show ?thesis by (auto simp: i)
qed

text \<open>
  C13. Recovery never guesses. When stale edits are merged into a changed file, every anchor was
  vouched for by what the model had seen of the file, content and hash; every hunk of the replayed change
  touches only lines that were seen; the lines it replaces occur exactly once in the live file; and the
  result is that patch applied to the live file.
\<close>

theorem recovery_is_vouched_for:
  assumes "tryRecoverHashlineWithCache xx dl cached currentText edits generic = Inr (Some r)"
  shows "\<exists>snapshot hs. cached = Some snapshot \<and>
    (\<forall>a\<in>set (collectEditAnchors edits). \<exists>c. map_get (fs_lines snapshot) (an_line a) = Some c \<and>
       (an_hash a \<noteq> RANGE_INTERIOR_HASH \<longrightarrow> computeLineHash xx (an_line a) c = an_hash a)) \<and>
    (\<forall>h\<in>set hs. (\<forall>l n. (l, Some n) \<in> set (old_numbers (hk_oldStart h) (hk_lines h)) \<longrightarrow> map_get (fs_lines snapshot) n \<noteq> None) \<and>
       (\<exists>!i. i + length (old_side h) \<le> length (split_lines currentText) \<and>
          take (length (old_side h)) (drop i (split_lines currentText)) = old_side h)) \<and>
    dl_applyPatch dl currentText hs = Some (rr_lines r) \<and> rr_lines r \<noteq> currentText"
proof -
  obtain snapshot where snap: "cached = Some snapshot" using assms by (auto simp: tryRecoverHashlineWithCache_def split: option.splits)
  let ?prev = "join_lines (overlay (split_lines currentText) snapshot)"
  have v: "list_all (vouched xx snapshot) (collectEditAnchors edits)" "fs_lines snapshot \<noteq> []" "?prev \<noteq> currentText"
    using assms by (auto simp: tryRecoverHashlineWithCache_def snap Let_def split: if_splits)
  then obtain applied where ap: "applyHashlineEdits xx ?prev edits generic = Inr applied" "ap_lines applied \<noteq> ?prev"
    using assms by (auto simp: tryRecoverHashlineWithCache_def snap Let_def split: sum.splits apply_error.splits if_splits)
  then obtain hs where hs: "trim_all (dl_structuredPatch dl ?prev (ap_lines applied)) snapshot = Some hs"
      "everyHunkLandsUniquely hs (split_lines currentText)" "dl_applyPatch dl currentText hs = Some (rr_lines r)" "rr_lines r \<noteq> currentText"
    using assms v by (auto simp: tryRecoverHashlineWithCache_def snap Let_def split: if_splits option.splits)
  have hunks: "(\<forall>l n. (l, Some n) \<in> set (old_numbers (hk_oldStart h) (hk_lines h)) \<longrightarrow> map_get (fs_lines snapshot) n \<noteq> None) \<and>
       (\<exists>!i. i + length (old_side h) \<le> length (split_lines currentText) \<and>
          take (length (old_side h)) (drop i (split_lines currentText)) = old_side h)" if h: "h \<in> set hs" for h
  proof -
    obtain h0 where h0: "trimHunkToSnapshot h0 snapshot = Some h" using trim_all_covered [OF hs(1) h] by blast
    have "length (occurrences (old_side h) (split_lines currentText)) = 1"
      using hs(2) h by (auto simp: everyHunkLandsUniquely_def list_all_iff)
    then show ?thesis using trim_covered [OF h0] occurs_once by blast
  qed
  have "\<exists>c. map_get (fs_lines snapshot) (an_line a) = Some c \<and>
       (an_hash a \<noteq> RANGE_INTERIOR_HASH \<longrightarrow> computeLineHash xx (an_line a) c = an_hash a)" if "a \<in> set (collectEditAnchors edits)" for a
    using that v(1) by (auto simp: list_all_iff vouched_def split: option.splits)
  then show ?thesis using snap hunks hs(3,4) by blast
qed

text \<open>An instance: a line was put in front of the file since it was read, and the edit still deletes the line it means.\<close>

definition demo_diff :: diff_library where
  "demo_diff =
     \<lparr>dl_structuredPatch = (\<lambda>old new. [\<lparr>hk_oldStart = 1, hk_oldLines = 2, hk_newStart = 1, hk_newLines = 1,
         hk_lines = map utf16 ['' a'', ''-bb'']\<rparr>]),
      dl_applyPatch = (\<lambda>t hs. Some (join_lines (map utf16 [''new'', ''a'']))),
      dl_diffLines = (\<lambda>old new. [\<lparr>dp_added = False, dp_removed = False, dp_value = utf16 ''new'' @ [10]\<rparr>,
         \<lparr>dp_added = False, dp_removed = True, dp_value = join_lines (map utf16 [''a'', ''bb''])\<rparr>,
         \<lparr>dp_added = True, dp_removed = False, dp_value = utf16 ''a''\<rparr>])\<rparr>"

definition demo_snapshot :: file_snapshot where
  "demo_snapshot = record_snapshot None (numbered 1 (map utf16 [''a'', ''bb''])) (Some 2)"

lemma demo_recovery:
  "tryRecoverHashlineWithCache length demo_diff (Some demo_snapshot) (join_lines (map utf16 [''new'', ''a'', ''bb'']))
     [HDelete \<lparr>an_line = 2, an_hash = utf16 ''ac''\<rparr> 1 0] False =
   Inr (Some \<lparr>rr_lines = join_lines (map utf16 [''new'', ''a'']), rr_firstChangedLine = Some 2, rr_recovered = True, rr_warnings = []\<rparr>)"
proof -
  have snap: "demo_snapshot = \<lparr>fs_lines = [(1, utf16 ''a''), (2, utf16 ''bb'')], fs_lineCount = Some 2\<rparr>"
    by (simp add: demo_snapshot_def record_snapshot_def numbered_def map_of_entries_def)
  have ap: "applyHashlineEdits length (join_lines (map utf16 [''a'', ''bb''])) [HDelete \<lparr>an_line = 2, an_hash = utf16 ''ac''\<rparr> 1 0] False =
      Inr \<lparr>ap_lines = utf16 ''a'', ap_firstChangedLine = Some 2, ap_warnings = []\<rparr>"
    by (simp add: apply_eval)
  have ov: "overlay (split_lines (join_lines (map utf16 [''new'', ''a'', ''bb'']))) demo_snapshot = map utf16 [''a'', ''bb'']"
    by (simp add: overlay_def snap)
  have vo: "list_all (vouched length demo_snapshot) (collectEditAnchors [HDelete \<lparr>an_line = 2, an_hash = utf16 ''ac''\<rparr> 1 0])"
    by (simp add: snap collectEditAnchors_def vouched_def demo_hash trimEnd_def is_space_def)
  have tr: "trim_all (dl_structuredPatch demo_diff p q) demo_snapshot =
      Some [\<lparr>hk_oldStart = 1, hk_oldLines = 2, hk_newStart = 1, hk_newLines = 1, hk_lines = map utf16 ['' a'', ''-bb'']\<rparr>]" for p q
    by (simp add: demo_diff_def snap trimHunkToSnapshot_def starts_any_def covered_def)
  have un: "everyHunkLandsUniquely [\<lparr>hk_oldStart = 1, hk_oldLines = 2, hk_newStart = 1, hk_newLines = 1, hk_lines = map utf16 ['' a'', ''-bb'']\<rparr>]
      (split_lines (join_lines (map utf16 ls)))" if "ls \<in> {[''a'', ''bb''], [''new'', ''a'', ''bb'']}" for ls
    using that by (auto simp: everyHunkLandsUniquely_def old_side_def starts_any_def occurrences_def)
  have "dr_firstChangedLine (generateDiffString (dl_diffLines demo_diff) 4 p q) = Some 2" for p q
    by (simp add: demo_diff_def generateDiffString_def is_change_def part_lines_def)
  then show ?thesis
    using vo un [of "[''a'', ''bb'']"] un [of "[''new'', ''a'', ''bb'']"]
    unfolding tryRecoverHashlineWithCache_def ov option.case Let_def ap sum.case apply_result.simps tr
    by (simp add: snap demo_diff_def)
qed

theorem recovery_is_vouched_for_witness:
  "\<exists>hs. (\<forall>h\<in>set hs. \<exists>!i. i + length (old_side h) \<le> 3 \<and>
       take (length (old_side h)) (drop i (map utf16 [''new'', ''a'', ''bb''])) = old_side h) \<and>
     dl_applyPatch demo_diff (join_lines (map utf16 [''new'', ''a'', ''bb''])) hs = Some (join_lines (map utf16 [''new'', ''a'']))"
proof -
  obtain hs where hs: "\<forall>h\<in>set hs. (\<forall>l n. (l, Some n) \<in> set (old_numbers (hk_oldStart h) (hk_lines h)) \<longrightarrow> map_get (fs_lines demo_snapshot) n \<noteq> None) \<and>
       (\<exists>!i. i + length (old_side h) \<le> length (split_lines (join_lines (map utf16 [''new'', ''a'', ''bb'']))) \<and>
          take (length (old_side h)) (drop i (split_lines (join_lines (map utf16 [''new'', ''a'', ''bb''])))) = old_side h)"
    "dl_applyPatch demo_diff (join_lines (map utf16 [''new'', ''a'', ''bb''])) hs = Some (join_lines (map utf16 [''new'', ''a'']))"
    using recovery_is_vouched_for [OF demo_recovery] by auto
  have "split_lines (join_lines (map utf16 [''new'', ''a'', ''bb''])) = map utf16 [''new'', ''a'', ''bb'']" by simp
  then have "\<forall>h\<in>set hs. \<exists>!i. i + length (old_side h) \<le> 3 \<and>
       take (length (old_side h)) (drop i (map utf16 [''new'', ''a'', ''bb''])) = old_side h" using hs(1) by (simp add: numeral_3_eq_3)
  then show ?thesis using hs(2) by blast
qed

end
