(* ===== verification/Hashline_Execute.thy ===== *)
theory Hashline_Execute
  imports Hashline_Recovery
begin

text \<open>
  The execution of an edit call (\<open>hashline/execute.ts\<close>) with the guards it uses: plan mode
  (\<open>tools/plan-mode-guard.ts\<close>) and the size limit of \<open>edit/read-file.ts\<close>. The session is a
  map of files and the read cache; every operation returns its result together with the session it
  leaves behind, so that what was written before an error stays visible. The environment \<open>exec_env\<close>
  collects the parameters: the hash, the diff library, the resolution of a path, the plan file when plan
  mode is on, the guard for generated files, what the write-through of the language servers puts on disk
  (or that it fails), and the eviction of the cache. Notebooks, which are converted on reading and
  writing, are left out.
\<close>

section \<open>Guards\<close>

record exec_env =
  ev_xx :: "ustr \<Rightarrow> nat"
  ev_diff :: diff_library
  ev_pcwd :: ustr
  ev_cwd :: ustr
  ev_resolveRawPath :: "ustr \<Rightarrow> ustr"
  ev_planFile :: "ustr option"
  ev_generated :: "ustr \<Rightarrow> ustr \<Rightarrow> bool"
  ev_writethrough :: "ustr \<Rightarrow> ustr \<Rightarrow> ustr option"
  ev_evict :: "read_cache \<Rightarrow> read_cache"
  ev_autoDrop :: bool

record edit_session =
  es_files :: "ustr \<rightharpoonup> ustr"
  es_cache :: read_cache

datatype file_op = FCreate | FUpdate | FDelete

datatype plan_refusal = RenameNotAllowed | DeleteNotAllowed | OnlyPlanFile ustr

datatype exec_error =
    InputRejected input_error
  | PatchRejected parse_error
  | PlanMode plan_refusal
  | FileTooLarge ustr nat
  | FileNotFound ustr
  | AutoGenerated ustr
  | EditRejected apply_error
  | NoChange ustr
  | WriteFailed ustr

text \<open>\<open>path.basename\<close> on POSIX.\<close>

definition basename :: "ustr \<Rightarrow> ustr" where
  "basename p = (case filter (\<lambda>s. s \<noteq> []) (split_slash p) of [] \<Rightarrow> [] | s # ss \<Rightarrow> last (s # ss))"

definition resolvePlanPath :: "exec_env \<Rightarrow> ustr \<Rightarrow> ustr" where
  "resolvePlanPath ev targetPath =
     (let resolved = ev_resolveRawPath ev targetPath
      in case ev_planFile ev of None \<Rightarrow> resolved
         | Some planFilePath \<Rightarrow>
             (let planResolved = ev_resolveRawPath ev planFilePath
              in if resolved = planResolved then resolved
                 else if basename resolved \<noteq> basename planResolved then resolved
                 else planResolved))"

definition enforcePlanModeWrite :: "exec_env \<Rightarrow> ustr \<Rightarrow> bool \<Rightarrow> file_op \<Rightarrow> plan_refusal + unit" where
  "enforcePlanModeWrite ev targetPath move op =
     (case ev_planFile ev of None \<Rightarrow> Inr ()
      | Some planFilePath \<Rightarrow>
          (if move then Inl RenameNotAllowed
           else if op = FDelete then Inl DeleteNotAllowed
           else if resolvePlanPath ev targetPath \<noteq> resolvePlanPath ev planFilePath then Inl (OnlyPlanFile planFilePath)
           else Inr ()))"

definition MAX_EDIT_FILE_BYTES :: nat where "MAX_EDIT_FILE_BYTES = 8 * 1024 * 1024"

text \<open>\<open>None\<close> is a missing file; the callers ask for its existence.\<close>

definition readHashlineFile :: "edit_session \<Rightarrow> ustr \<Rightarrow> ustr \<Rightarrow> exec_error + ustr option" where
  "readHashlineFile st absolutePath pathText =
     (case es_files st absolutePath of None \<Rightarrow> Inr None
      | Some content \<Rightarrow>
          (if MAX_EDIT_FILE_BYTES < utf8_length content then Inl (FileTooLarge pathText (utf8_length content)) else Inr (Some content)))"

fun hasAnchorScopedEdit :: "hl_edit list \<Rightarrow> bool" where
  "hasAnchorScopedEdit [] = False"
| "hasAnchorScopedEdit (HDelete a n i # es) = True"
| "hasAnchorScopedEdit (HInsert (BeforeAnchor a) t n i # es) = True"
| "hasAnchorScopedEdit (HInsert (AfterAnchor a) t n i # es) = True"
| "hasAnchorScopedEdit (HInsert c t n i # es) = hasAnchorScopedEdit es"

section \<open>Sections\<close>

record edited =
  ed_lines :: ustr
  ed_firstChangedLine :: "nat option"
  ed_recovered :: bool
  ed_warnings :: "absorb_warning list"

definition applyHashlineEditsWithRecovery :: "exec_env \<Rightarrow> read_cache \<Rightarrow> ustr \<Rightarrow> ustr \<Rightarrow> hl_edit list \<Rightarrow> apply_error + edited" where
  "applyHashlineEditsWithRecovery ev cache absolutePath content edits =
     (case applyHashlineEdits (ev_xx ev) content edits (ev_autoDrop ev) of
        Inr r \<Rightarrow> Inr \<lparr>ed_lines = ap_lines r, ed_firstChangedLine = ap_firstChangedLine r, ed_recovered = False, ed_warnings = ap_warnings r\<rparr>
      | Inl (HashlineMismatchError ms ls) \<Rightarrow>
          (case tryRecoverHashlineWithCache (ev_xx ev) (ev_diff ev) (map_get cache absolutePath) content edits (ev_autoDrop ev) of
             Inl e \<Rightarrow> Inl e
           | Inr None \<Rightarrow> Inl (HashlineMismatchError ms ls)
           | Inr (Some r) \<Rightarrow> Inr \<lparr>ed_lines = rr_lines r, ed_firstChangedLine = rr_firstChangedLine r,
                ed_recovered = rr_recovered r, ed_warnings = rr_warnings r\<rparr>)
      | Inl e \<Rightarrow> Inl e)"

text \<open>What both passes compute of a section before anything is written.\<close>

record planned =
  pl_path :: ustr
  pl_exists :: bool
  pl_bom :: ustr
  pl_ending :: line_ending
  pl_original :: ustr
  pl_parseWarnings :: "parse_warning list"
  pl_result :: edited

definition lift_error :: "('e \<Rightarrow> exec_error) \<Rightarrow> 'e + 'a \<Rightarrow> exec_error + 'a" where
  "lift_error f r = (case r of Inl e \<Rightarrow> Inl (f e) | Inr x \<Rightarrow> Inr x)"

definition plan_section :: "exec_env \<Rightarrow> edit_session \<Rightarrow> input_section \<Rightarrow> exec_error + planned" where
  "plan_section ev st s =
     (let absolutePath = resolvePlanPath ev (is_path s) in
      andThen (lift_error PatchRejected (parseHashlineWithWarnings (ev_xx ev) (is_diff s))) (\<lambda>(edits, parseWarnings).
      andThen (lift_error PlanMode (enforcePlanModeWrite ev (is_path s) False FUpdate)) (\<lambda>_.
      andThen (readHashlineFile st absolutePath (is_path s)) (\<lambda>source.
      if source = None \<and> hasAnchorScopedEdit edits then Inl (FileNotFound (is_path s))
      else if source \<noteq> None \<and> ev_generated ev (the source) (is_path s) then Inl (AutoGenerated (is_path s))
      else let (bom, content) = stripBom (case source of None \<Rightarrow> [] | Some raw \<Rightarrow> raw);
               original = normalizeToLF content
           in andThen (lift_error EditRejected (applyHashlineEditsWithRecovery ev (es_cache st) absolutePath original edits)) (\<lambda>result.
              Inr \<lparr>pl_path = absolutePath, pl_exists = (source \<noteq> None), pl_bom = bom, pl_ending = detectLineEnding content,
                   pl_original = original, pl_parseWarnings = parseWarnings, pl_result = result\<rparr>)))))"

definition preflightHashlineSection :: "exec_env \<Rightarrow> edit_session \<Rightarrow> input_section \<Rightarrow> exec_error + unit" where
  "preflightHashlineSection ev st s =
     andThen (plan_section ev st s) (\<lambda>p. if pl_original p = ed_lines (pl_result p) then Inl (NoChange (is_path s)) else Inr ())"

record section_result =
  sr_changed :: bool
  sr_created :: bool
  sr_preview :: ustr
  sr_parseWarnings :: "parse_warning list"
  sr_recovered :: bool
  sr_warnings :: "absorb_warning list"
  sr_diff :: ustr
  sr_firstChangedLine :: "nat option"

text \<open>The text that is written.\<close>

definition final_content :: "planned \<Rightarrow> ustr" where
  "final_content p = pl_bom p @ restoreLineEndings (ed_lines (pl_result p)) (pl_ending p)"

definition section_output :: "exec_env \<Rightarrow> planned \<Rightarrow> section_result" where
  "section_output ev p =
     (let d = generateDiffString (dl_diffLines (ev_diff ev)) 4 (pl_original p) (ed_lines (pl_result p));
          first = ed_firstChangedLine (pl_result p)
      in \<lparr>sr_changed = True, sr_created = (\<not> pl_exists p),
          sr_preview = pv_preview (buildCompactHashlineDiffPreview (ev_xx ev) (dr_diff d)),
          sr_parseWarnings = pl_parseWarnings p, sr_recovered = ed_recovered (pl_result p), sr_warnings = ed_warnings (pl_result p),
          sr_diff = dr_diff d, sr_firstChangedLine = (if first = None then dr_firstChangedLine d else first)\<rparr>)"

definition executeHashlineSection :: "exec_env \<Rightarrow> edit_session \<Rightarrow> input_section \<Rightarrow> (exec_error + section_result) \<times> edit_session" where
  "executeHashlineSection ev st s =
     (case plan_section ev st s of Inl e \<Rightarrow> (Inl e, st)
      | Inr p \<Rightarrow>
          (if pl_original p = ed_lines (pl_result p)
           then (Inr \<lparr>sr_changed = False, sr_created = False, sr_preview = [], sr_parseWarnings = [], sr_recovered = False,
                   sr_warnings = [], sr_diff = [], sr_firstChangedLine = None\<rparr>, st)
           else (case ev_writethrough ev (pl_path p) (final_content p) of None \<Rightarrow> (Inl (WriteFailed (is_path s)), st)
             | Some disk \<Rightarrow>
                 (Inr (section_output ev p),
                  st\<lparr>es_files := (es_files st)(pl_path p \<mapsto> disk),
                     es_cache := recordFull (ev_evict ev) (pl_path p) (split_lines (ed_lines (pl_result p))) (es_cache st)\<rparr>))))"

section \<open>Batches\<close>

fun execute_sections ::
  "exec_env \<Rightarrow> edit_session \<Rightarrow> input_section list \<Rightarrow> (exec_error + (ustr \<times> section_result) list) \<times> edit_session" where
  "execute_sections ev st [] = (Inr [], st)"
| "execute_sections ev st (s # ss) =
     (case executeHashlineSection ev st s of (Inl e, st') \<Rightarrow> (Inl e, st')
      | (Inr r, st') \<Rightarrow>
          (case execute_sections ev st' ss of (Inl e, st'') \<Rightarrow> (Inl e, st'')
           | (Inr rs, st'') \<Rightarrow> (Inr ((is_path s, r) # rs), st'')))"

definition executeHashlineSingle ::
  "exec_env \<Rightarrow> edit_session \<Rightarrow> ustr \<Rightarrow> ustr option \<Rightarrow> (exec_error + (ustr \<times> section_result) list) \<times> edit_session" where
  "executeHashlineSingle ev st input path =
     (case splitHashlineInputs (ev_pcwd ev) input \<lparr>so_cwd = Some (ev_cwd ev), so_path = path\<rparr> of
        Inl e \<Rightarrow> (Inl (InputRejected e), st)
      | Inr parts \<Rightarrow>
          (let sections = mergeSamePathSections parts
           in if length sections = 1 then execute_sections ev st sections
              else (case for_each (\<lambda>_ s. preflightHashlineSection ev st s) () sections of
                      Inl e \<Rightarrow> (Inl e, st) | Inr _ \<Rightarrow> execute_sections ev st sections)))"

section \<open>What a section does\<close>

text \<open>Either nothing changes, or one file and its snapshot do.\<close>

lemma section_effect:
  assumes "executeHashlineSection ev st s = (r, st')"
  shows "st' = st \<or> (\<exists>p disk. plan_section ev st s = Inr p \<and> pl_original p \<noteq> ed_lines (pl_result p) \<and>
    ev_writethrough ev (pl_path p) (final_content p) = Some disk \<and> r = Inr (section_output ev p) \<and>
    es_files st' = (es_files st)(pl_path p \<mapsto> disk) \<and>
    es_cache st' = recordFull (ev_evict ev) (pl_path p) (split_lines (ed_lines (pl_result p))) (es_cache st))"
  using assms by (auto simp: executeHashlineSection_def split: sum.splits if_splits option.splits)

lemma plan_path: "plan_section ev st s = Inr p \<Longrightarrow> pl_path p = resolvePlanPath ev (is_path s)"
  by (auto simp: plan_section_def Let_def split: if_splits prod.splits)

lemma plan_allowed: "plan_section ev st s = Inr p \<Longrightarrow> enforcePlanModeWrite ev (is_path s) False FUpdate = Inr ()"
  by (auto simp: plan_section_def Let_def lift_error_def split: sum.splits)

lemma execute_sections_invariant:
  assumes "execute_sections ev st ss = (r, st')" "P st"
    and "\<And>st s r st'. s \<in> set ss \<Longrightarrow> P st \<Longrightarrow> executeHashlineSection ev st s = (r, st') \<Longrightarrow> P st'"
  shows "P st'"
  using assms
proof (induction ss arbitrary: st r st')
  case (Cons s ss)
  obtain r1 st1 where e: "executeHashlineSection ev st s = (r1, st1)" by fastforce
  then have "P st1" using Cons.prems(2,3) by auto
  then show ?case using Cons.prems Cons.IH [of st1] e by (auto split: sum.splits prod.splits)
qed auto

text \<open>
  C16. In plan mode the edit tool touches the plan file only: whatever the input says, whichever
  error it ends in, every other file is as it was.
\<close>

theorem plan_mode_protects_files:
  assumes "ev_planFile ev = Some plan" "p \<noteq> resolvePlanPath ev plan"
  shows "es_files (snd (executeHashlineSingle ev st input path)) p = es_files st p"
proof -
  have run: "es_files st2 p = es_files st p" if run: "execute_sections ev st ss = (r, st2)" for ss r st2
  proof (rule execute_sections_invariant [OF run])
    fix st1 s r1 st2 assume st1: "es_files st1 p = es_files st p" and e: "executeHashlineSection ev st1 s = (r1, st2)"
    from section_effect [OF e] show "es_files st2 p = es_files st p"
    proof
      assume "\<exists>pl disk. plan_section ev st1 s = Inr pl \<and> pl_original pl \<noteq> ed_lines (pl_result pl) \<and>
        ev_writethrough ev (pl_path pl) (final_content pl) = Some disk \<and> r1 = Inr (section_output ev pl) \<and>
        es_files st2 = (es_files st1)(pl_path pl \<mapsto> disk) \<and>
        es_cache st2 = recordFull (ev_evict ev) (pl_path pl) (split_lines (ed_lines (pl_result pl))) (es_cache st1)"
      then obtain pl disk where pl: "plan_section ev st1 s = Inr pl" "es_files st2 = (es_files st1)(pl_path pl \<mapsto> disk)" by blast
      have "resolvePlanPath ev (is_path s) = resolvePlanPath ev plan"
        using plan_allowed [OF pl(1)] assms(1) by (auto simp: enforcePlanModeWrite_def split: if_splits)
      then show ?thesis using pl(2) plan_path [OF pl(1)] assms(2) st1 by simp
    qed (use st1 in simp)
  qed simp
  have "es_files (snd (execute_sections ev st ss)) p = es_files st p" for ss
    using run [of ss "fst (execute_sections ev st ss)" "snd (execute_sections ev st ss)"] by simp
  then show ?thesis by (simp add: executeHashlineSingle_def Let_def split: sum.splits)
qed

text \<open>
  C12. A batch is checked before it is written. When an input has several sections and one of them
  would fail, be it for its syntax, a guard, a missing or oversized file, a stale anchor or because it
  changes nothing, the call fails with the error of the first such section, and no file and no snapshot
  is touched.
\<close>

theorem failed_preflight_writes_nothing:
  assumes "splitHashlineInputs (ev_pcwd ev) input \<lparr>so_cwd = Some (ev_cwd ev), so_path = path\<rparr> = Inr parts"
    and "mergeSamePathSections parts = before @ s # rest" "before \<noteq> [] \<or> rest \<noteq> []"
    and "\<forall>b\<in>set before. preflightHashlineSection ev st b = Inr ()" "preflightHashlineSection ev st s = Inl e"
  shows "executeHashlineSingle ev st input path = (Inl e, st)"
proof -
  have pre: "for_each (\<lambda>_ s. preflightHashlineSection ev st s) () xs = Inr ()" if "\<forall>b\<in>set xs. preflightHashlineSection ev st b = Inr ()" for xs
    using that by (induction xs) simp_all
  have "for_each (\<lambda>_ s. preflightHashlineSection ev st s) () (before @ s # rest) = Inl e"
    using pre [OF assms(4)] assms(5) by (simp add: for_each_append)
  moreover have "length (before @ s # rest) \<noteq> 1" using assms(3) by auto
  ultimately show ?thesis unfolding executeHashlineSingle_def assms(1) by (simp only: sum.case Let_def assms(2) if_False)
qed

section \<open>What a batch does\<close>

text \<open>A section depends on its own file and its own snapshot only.\<close>

lemma plan_section_frame:
  assumes "es_files st' (resolvePlanPath ev (is_path s)) = es_files st (resolvePlanPath ev (is_path s))"
    and "map_get (es_cache st') (resolvePlanPath ev (is_path s)) = map_get (es_cache st) (resolvePlanPath ev (is_path s))"
  shows "plan_section ev st' s = plan_section ev st s"
proof -
  let ?abs = "resolvePlanPath ev (is_path s)"
  have r: "readHashlineFile st' ?abs (is_path s) = readHashlineFile st ?abs (is_path s)"
    by (simp add: readHashlineFile_def assms(1))
  have a: "applyHashlineEditsWithRecovery ev (es_cache st') ?abs = applyHashlineEditsWithRecovery ev (es_cache st) ?abs"
    unfolding applyHashlineEditsWithRecovery_def assms(2) ..
  show ?thesis unfolding plan_section_def Let_def r a ..
qed

lemma preflight_plan:
  "preflightHashlineSection ev st s = Inr () \<longleftrightarrow> (\<exists>p. plan_section ev st s = Inr p \<and> pl_original p \<noteq> ed_lines (pl_result p))"
  by (auto simp: preflightHashlineSection_def)

definition keeps :: "exec_env \<Rightarrow> input_section list \<Rightarrow> bool" where
  "keeps ev ss \<longleftrightarrow> (\<forall>c. list_all (\<lambda>s. map_get (ev_evict ev c) (resolvePlanPath ev (is_path s)) = map_get c (resolvePlanPath ev (is_path s))) ss)"

definition writes_succeed :: "exec_env \<Rightarrow> bool" where
  "writes_succeed ev \<longleftrightarrow> (\<forall>p c. ev_writethrough ev p c \<noteq> None)"

lemma execute_sections_lands:
  assumes "\<forall>s\<in>set ss. \<exists>p. plan_section ev st s = Inr p \<and> pl_original p \<noteq> ed_lines (pl_result p)"
    and "distinct (map (\<lambda>s. resolvePlanPath ev (is_path s)) ss)" "keeps ev ss" "writes_succeed ev"
  shows "\<exists>rs st'. execute_sections ev st ss = (Inr rs, st') \<and> map fst rs = map is_path ss \<and>
    (\<forall>s\<in>set ss. \<exists>p. plan_section ev st s = Inr p \<and>
       es_files st' (resolvePlanPath ev (is_path s)) = ev_writethrough ev (resolvePlanPath ev (is_path s)) (final_content p)) \<and>
    (\<forall>q. q \<notin> (\<lambda>s. resolvePlanPath ev (is_path s)) ` set ss \<longrightarrow> es_files st' q = es_files st q)"
  using assms
proof (induction ss arbitrary: st)
  case (Cons s ss)
  let ?abs = "\<lambda>s. resolvePlanPath ev (is_path s)"
  obtain p where p: "plan_section ev st s = Inr p" "pl_original p \<noteq> ed_lines (pl_result p)" using Cons.prems(1) by auto
  obtain disk where disk: "ev_writethrough ev (?abs s) (final_content p) = Some disk"
    using Cons.prems(4) by (auto simp: writes_succeed_def)
  let ?st = "st\<lparr>es_files := (es_files st)(?abs s \<mapsto> disk),
    es_cache := recordFull (ev_evict ev) (?abs s) (split_lines (ed_lines (pl_result p))) (es_cache st)\<rparr>"
  have e: "executeHashlineSection ev st s = (Inr (section_output ev p), ?st)"
    using p disk plan_path [OF p(1)] by (simp add: executeHashlineSection_def)
  have same: "plan_section ev ?st t = plan_section ev st t" if t: "t \<in> set ss" for t
  proof (rule plan_section_frame)
    have ne: "?abs t \<noteq> ?abs s" using t Cons.prems(2) by (force simp: image_iff)
    then show "es_files ?st (?abs t) = es_files st (?abs t)" by simp
    show "map_get (es_cache ?st) (?abs t) = map_get (es_cache st) (?abs t)"
      using ne t Cons.prems(3) by (auto simp: keeps_def list_all_iff recordFull_def cache_record_def map_get_set)
  qed
  have "\<exists>rs st'. execute_sections ev ?st ss = (Inr rs, st') \<and> map fst rs = map is_path ss \<and>
    (\<forall>t\<in>set ss. \<exists>p. plan_section ev ?st t = Inr p \<and> es_files st' (?abs t) = ev_writethrough ev (?abs t) (final_content p)) \<and>
    (\<forall>q. q \<notin> ?abs ` set ss \<longrightarrow> es_files st' q = es_files ?st q)"
  proof (rule Cons.IH)
    show "\<forall>t\<in>set ss. \<exists>p. plan_section ev ?st t = Inr p \<and> pl_original p \<noteq> ed_lines (pl_result p)"
      using Cons.prems(1) same by auto
    show "keeps ev ss" using Cons.prems(3) by (simp add: keeps_def)
  qed (use Cons.prems in auto)
  then obtain rs st' where rs: "execute_sections ev ?st ss = (Inr rs, st')" "map fst rs = map is_path ss"
      "\<forall>t\<in>set ss. \<exists>p. plan_section ev st t = Inr p \<and> es_files st' (?abs t) = ev_writethrough ev (?abs t) (final_content p)"
      "\<forall>q. q \<notin> ?abs ` set ss \<longrightarrow> es_files st' q = es_files ?st q"
    using same by auto
  have "?abs s \<notin> ?abs ` set ss" using Cons.prems(2) by auto
  then have "es_files st' (?abs s) = Some disk" using rs(4) by auto
  moreover have "execute_sections ev st (s # ss) = (Inr ((is_path s, section_output ev p) # rs), st')"
    by (simp add: e rs(1))
  ultimately show ?case using rs(2,3,4) p(1) disk by auto
qed simp


section \<open>Instances\<close>

text \<open>A session over the directory \<open>/w\<close> without plan mode, with plain writes and an unbounded cache.\<close>

definition demo_env :: exec_env where
  "demo_env = \<lparr>ev_xx = length, ev_diff = demo_diff, ev_pcwd = utf16 ''/w'', ev_cwd = utf16 ''/w'',
     ev_resolveRawPath = (\<lambda>p. utf16 ''/w/'' @ (if take 2 p = utf16 ''./'' then drop 2 p else p)), ev_planFile = None,
     ev_generated = (\<lambda>content p. False), ev_writethrough = (\<lambda>p c. Some c), ev_evict = id, ev_autoDrop = False\<rparr>"

definition demo_session :: edit_session where
  "demo_session = \<lparr>es_files = [utf16 ''/w/a'' \<mapsto> join_lines (map utf16 [''x'', ''yy''])], es_cache = []\<rparr>"

text \<open>Two edits of one file: it loses its first line, and its second line, counted before that, is replaced.\<close>

definition alias_ops :: "patch_op list" where
  "alias_ops = [PReplace \<lparr>an_line = 1, an_hash = utf16 ''ab''\<rparr> \<lparr>an_line = 1, an_hash = utf16 ''ab''\<rparr> []]"

definition alias_ops' :: "patch_op list" where
  "alias_ops' = [PReplace \<lparr>an_line = 2, an_hash = utf16 ''ac''\<rparr> \<lparr>an_line = 2, an_hash = utf16 ''ac''\<rparr> [utf16 ''z'']]"

definition alias_first :: input_section where
  "alias_first = \<lparr>is_path = utf16 ''a'', is_diff = join_lines (concat (map op_lines alias_ops))\<rparr>"

definition alias_second :: input_section where
  "alias_second = \<lparr>is_path = utf16 ''./a'', is_diff = join_lines (concat (map op_lines alias_ops'))\<rparr>"

lemmas demo_text = render_sections_def alias_first_def alias_second_def section_lines_def alias_ops_def alias_ops'_def lid_def dec_rec
  splitHashlineInputs_def normalizeFallbackInput_def drop_bom_def split_crlf_def drop_cr_def
  parseHashlineHeaderLine_def trimEnd_def is_space_def sigil_defs normalizeHashlinePath_def unquoteHashlinePath_def utrim_def
  stripLeadingBlankLines_def marker_defs isPatchEnvelopeMarker_def flush_section_def isAbsolute_def slash_def Let_def

lemma alias_split:
  "splitHashlineInputs (utf16 ''/w'') (render_sections [alias_first, alias_second]) \<lparr>so_cwd = Some (utf16 ''/w''), so_path = None\<rparr> =
     Inr [alias_first, alias_second]"
  by (simp add: demo_text)

lemma demo_section_parse:
  assumes "list_all op_ok ops" "\<forall>l\<in>set (concat (map op_lines ops)). 10 \<notin> set l \<and> (l = [] \<or> last l \<noteq> 13)" "ops \<noteq> []"
    and "last (concat (map op_lines ops)) \<noteq> []"
  shows "parseHashlineWithWarnings xx (join_lines (concat (map op_lines ops))) = Inr (patch_meaning 1 0 ops, [])"
proof -
  let ?ls = "concat (map op_lines ops)"
  have ne: "?ls \<noteq> []" using assms(3) by (cases ops; cases "hd ops") auto
  have "join_lines ls = [] \<or> last (join_lines ls) \<noteq> 10" if "\<forall>l\<in>set ls. 10 \<notin> set l" "ls \<noteq> [] \<longrightarrow> last ls \<noteq> []" for ls
    using that
  proof (induction ls rule: join_lines.induct)
    case (2 l)
    then show ?case by (cases l rule: rev_cases) auto
  next
    case (3 l m ls)
    have "join_lines (m # ls) \<noteq> []" using 3(3) by (cases ls) auto
    then show ?case using 3 by auto
  qed simp
  then have "join_lines ?ls = [] \<or> last (join_lines ?ls) \<noteq> 10" using assms(2,4) by blast
  moreover have "split_crlf (join_lines ?ls) = ?ls"
    using assms(2) ne in_set_butlastD [of _ ?ls] by (intro split_crlf_join) blast+
  ultimately have "diff_lines (join_lines ?ls) = ?ls" by (auto simp: diff_lines_def Let_def)
  then show ?thesis by (simp add: parseHashlineWithWarnings_def parse_loop_render [OF assms(1)])
qed

lemma alias_parse:
  "parseHashlineWithWarnings length (join_lines (concat (map op_lines alias_ops))) =
     Inr ([HDelete \<lparr>an_line = 1, an_hash = utf16 ''ab''\<rparr> 1 0], [])"
  "parseHashlineWithWarnings length (join_lines (concat (map op_lines alias_ops'))) =
     Inr ([HInsert (BeforeAnchor \<lparr>an_line = 2, an_hash = utf16 ''ac''\<rparr>) (utf16 ''z'') 1 0, HDelete \<lparr>an_line = 2, an_hash = utf16 ''ac''\<rparr> 1 1], [])"
proof -
  have ok: "list_all op_ok alias_ops" "list_all op_ok alias_ops'"
    by (simp_all add: alias_ops_def alias_ops'_def anchor_ok_def is_hash_def is_lower_def payload_ok_def isPayloadTerminatorLine_def sigil_defs
      isEnvelopeOrAbortMarkerLine_def marker_defs trimEnd_def is_space_def)
  have m: "patch_meaning 1 0 alias_ops = [HDelete \<lparr>an_line = 1, an_hash = utf16 ''ab''\<rparr> 1 0]"
    "patch_meaning 1 0 alias_ops' = [HInsert (BeforeAnchor \<lparr>an_line = 2, an_hash = utf16 ''ac''\<rparr>) (utf16 ''z'') 1 0,
       HDelete \<lparr>an_line = 2, an_hash = utf16 ''ac''\<rparr> 1 1]"
    by (simp_all add: alias_ops_def alias_ops'_def expandRange_def pushInserts_def pushDeletes_def)
  show "parseHashlineWithWarnings length (join_lines (concat (map op_lines alias_ops))) =
     Inr ([HDelete \<lparr>an_line = 1, an_hash = utf16 ''ab''\<rparr> 1 0], [])"
    using demo_section_parse [OF ok(1), of length] unfolding m by (simp add: alias_ops_def lid_def dec_rec sigil_defs)
  show "parseHashlineWithWarnings length (join_lines (concat (map op_lines alias_ops'))) =
     Inr ([HInsert (BeforeAnchor \<lparr>an_line = 2, an_hash = utf16 ''ac''\<rparr>) (utf16 ''z'') 1 0, HDelete \<lparr>an_line = 2, an_hash = utf16 ''ac''\<rparr> 1 1], [])"
    using demo_section_parse [OF ok(2), of length] unfolding m by (simp add: alias_ops'_def lid_def dec_rec sigil_defs)
qed

lemma demo_env_simps:
  "resolvePlanPath demo_env (utf16 ''a'') = utf16 ''/w/a''" "resolvePlanPath demo_env (utf16 ''./a'') = utf16 ''/w/a''"
  "enforcePlanModeWrite demo_env p m op = Inr ()" "ev_xx demo_env = length" "ev_autoDrop demo_env = False"
  "ev_generated demo_env c p = False" "ev_writethrough demo_env p c = Some c" "ev_evict demo_env = id"
  "ev_pcwd demo_env = utf16 ''/w''" "ev_cwd demo_env = utf16 ''/w''" "resolvePlanPath demo_env (utf16 ''b'') = utf16 ''/w/b''"
  by (simp_all add: demo_env_def resolvePlanPath_def enforcePlanModeWrite_def)

lemma alias_plan:
  "plan_section demo_env demo_session alias_first =
     Inr \<lparr>pl_path = utf16 ''/w/a'', pl_exists = True, pl_bom = [], pl_ending = LF, pl_original = join_lines (map utf16 [''x'', ''yy'']),
       pl_parseWarnings = [], pl_result = \<lparr>ed_lines = utf16 ''yy'', ed_firstChangedLine = Some 1, ed_recovered = False, ed_warnings = []\<rparr>\<rparr>"
  "plan_section demo_env demo_session alias_second =
     Inr \<lparr>pl_path = utf16 ''/w/a'', pl_exists = True, pl_bom = [], pl_ending = LF, pl_original = join_lines (map utf16 [''x'', ''yy'']),
       pl_parseWarnings = [], pl_result = \<lparr>ed_lines = join_lines (map utf16 [''x'', ''z'']), ed_firstChangedLine = Some 2,
         ed_recovered = False, ed_warnings = []\<rparr>\<rparr>"
proof -
  have read: "readHashlineFile demo_session (utf16 ''/w/a'') q = Inr (Some (join_lines (map utf16 [''x'', ''yy''])))" for q
    by (simp add: readHashlineFile_def demo_session_def MAX_EDIT_FILE_BYTES_def)
  have raw: "stripBom (join_lines (map utf16 [''x'', ''yy''])) = ([], join_lines (map utf16 [''x'', ''yy'']))"
    "normalizeToLF (join_lines (map utf16 [''x'', ''yy''])) = join_lines (map utf16 [''x'', ''yy''])"
    "detectLineEnding (join_lines (map utf16 [''x'', ''yy''])) = LF"
    by (simp_all add: stripBom_def detectLineEnding_def)
  have ap: "applyHashlineEdits length (join_lines (map utf16 [''x'', ''yy''])) [HDelete \<lparr>an_line = 1, an_hash = utf16 ''ab''\<rparr> 1 0] False =
      Inr \<lparr>ap_lines = utf16 ''yy'', ap_firstChangedLine = Some 1, ap_warnings = []\<rparr>"
    "applyHashlineEdits length (join_lines (map utf16 [''x'', ''yy'']))
       [HInsert (BeforeAnchor \<lparr>an_line = 2, an_hash = utf16 ''ac''\<rparr>) (utf16 ''z'') 1 0, HDelete \<lparr>an_line = 2, an_hash = utf16 ''ac''\<rparr> 1 1] False =
      Inr \<lparr>ap_lines = join_lines (map utf16 [''x'', ''z'']), ap_firstChangedLine = Some 2, ap_warnings = []\<rparr>"
    by (simp_all add: apply_eval)
  show "plan_section demo_env demo_session alias_first =
     Inr \<lparr>pl_path = utf16 ''/w/a'', pl_exists = True, pl_bom = [], pl_ending = LF, pl_original = join_lines (map utf16 [''x'', ''yy'']),
       pl_parseWarnings = [], pl_result = \<lparr>ed_lines = utf16 ''yy'', ed_firstChangedLine = Some 1, ed_recovered = False, ed_warnings = []\<rparr>\<rparr>"
    unfolding plan_section_def alias_first_def input_section.simps Let_def demo_env_simps alias_parse lift_error_def sum.case andThen.simps
      prod.case read applyHashlineEditsWithRecovery_def option.case raw ap by simp
  show "plan_section demo_env demo_session alias_second =
     Inr \<lparr>pl_path = utf16 ''/w/a'', pl_exists = True, pl_bom = [], pl_ending = LF, pl_original = join_lines (map utf16 [''x'', ''yy'']),
       pl_parseWarnings = [], pl_result = \<lparr>ed_lines = join_lines (map utf16 [''x'', ''z'']), ed_firstChangedLine = Some 2,
         ed_recovered = False, ed_warnings = []\<rparr>\<rparr>"
    unfolding plan_section_def alias_second_def input_section.simps Let_def demo_env_simps alias_parse lift_error_def
      sum.case andThen.simps prod.case read applyHashlineEditsWithRecovery_def option.case raw ap by simp
qed

definition half_done :: edit_session where
  "half_done = demo_session\<lparr>es_files := (es_files demo_session)(utf16 ''/w/a'' \<mapsto> utf16 ''yy''),
     es_cache := recordFull id (utf16 ''/w/a'') [utf16 ''yy''] []\<rparr>"

lemma alias_execute: "\<exists>r. executeHashlineSection demo_env demo_session alias_first = (Inr r, half_done)"
proof -
  have "es_cache demo_session = []" by (simp add: demo_session_def)
  then show ?thesis
    by (simp add: executeHashlineSection_def alias_plan final_content_def restoreLineEndings_def demo_env_simps half_done_def)
qed

lemma alias_stuck: "plan_section demo_env half_done alias_second = Inl (EditRejected (LineDoesNotExist 2 1))"
proof -
  have read: "readHashlineFile half_done (utf16 ''/w/a'') q = Inr (Some (utf16 ''yy''))" for q
    by (simp add: readHashlineFile_def half_done_def MAX_EDIT_FILE_BYTES_def)
  have raw: "stripBom (utf16 ''yy'') = ([], utf16 ''yy'')" "normalizeToLF (utf16 ''yy'') = utf16 ''yy''"
    by (simp_all add: stripBom_def)
  have ap: "applyHashlineEdits length (utf16 ''yy'')
       [HInsert (BeforeAnchor \<lparr>an_line = 2, an_hash = utf16 ''ac''\<rparr>) (utf16 ''z'') 1 0, HDelete \<lparr>an_line = 2, an_hash = utf16 ''ac''\<rparr> 1 1] False =
      Inl (LineDoesNotExist 2 1)"
    by (simp add: apply_eval)
  show ?thesis
    unfolding plan_section_def alias_second_def input_section.simps Let_def demo_env_simps alias_parse lift_error_def
      sum.case andThen.simps prod.case read applyHashlineEditsWithRecovery_def option.case raw ap by simp
qed

text \<open>
  The guarantee that a batch is checked first has a gap: sections are merged by the path as it is
  written, so \<open>a\<close> and \<open>./a\<close> are two sections of one file. Both pass the preflight, which sees
  the unchanged file; the first is written, the second finds its anchors gone, and the call fails with
  half of the batch applied.
\<close>

theorem aliased_sections_half_applied:
  "preflightHashlineSection demo_env demo_session alias_first = Inr () \<and>
   preflightHashlineSection demo_env demo_session alias_second = Inr () \<and>
   executeHashlineSingle demo_env demo_session (render_sections [alias_first, alias_second]) None =
     (Inl (EditRejected (LineDoesNotExist 2 1)), half_done) \<and>
   es_files demo_session (utf16 ''/w/a'') = Some (join_lines (map utf16 [''x'', ''yy''])) \<and> es_files half_done (utf16 ''/w/a'') = Some (utf16 ''yy'')"
proof -
  have pre: "preflightHashlineSection demo_env demo_session alias_first = Inr ()" "preflightHashlineSection demo_env demo_session alias_second = Inr ()"
    by (simp_all add: preflightHashlineSection_def alias_plan)
  have merge: "mergeSamePathSections [alias_first, alias_second] = [alias_first, alias_second]"
    by (simp add: mergeSamePathSections_def alias_first_def alias_second_def)
  obtain r where one: "executeHashlineSection demo_env demo_session alias_first = (Inr r, half_done)"
    using alias_execute by blast
  have two: "executeHashlineSection demo_env half_done alias_second = (Inl (EditRejected (LineDoesNotExist 2 1)), half_done)"
    by (simp add: executeHashlineSection_def alias_stuck)
  have "executeHashlineSingle demo_env demo_session (render_sections [alias_first, alias_second]) None =
     (Inl (EditRejected (LineDoesNotExist 2 1)), half_done)"
    by (simp only: executeHashlineSingle_def demo_env_simps alias_split sum.case Let_def merge) (simp add: pre one two)
  then show ?thesis using pre by (simp add: demo_session_def half_done_def)
qed

theorem plan_mode_protects_files_witness:
  "es_files (snd (executeHashlineSingle (demo_env\<lparr>ev_planFile := Some (utf16 ''PLAN.md'')\<rparr>) demo_session
     (render_sections [alias_first, alias_second]) None)) (utf16 ''/w/a'') = Some (join_lines (map utf16 [''x'', ''yy'']))"
proof -
  let ?ev = "demo_env\<lparr>ev_planFile := Some (utf16 ''PLAN.md'')\<rparr>"
  have "ev_planFile ?ev = Some (utf16 ''PLAN.md'')" "utf16 ''/w/a'' \<noteq> resolvePlanPath ?ev (utf16 ''PLAN.md'')"
    by (simp_all add: demo_env_def resolvePlanPath_def)
  from plan_mode_protects_files [OF this] show ?thesis by (simp add: demo_session_def)
qed

text \<open>A second section whose file does not exist, once with an anchor, once with lines for a new file.\<close>

definition missing_section :: input_section where
  "missing_section = \<lparr>is_path = utf16 ''b'', is_diff = join_lines (concat (map op_lines alias_ops'))\<rparr>"

definition new_section :: input_section where
  "new_section = \<lparr>is_path = utf16 ''b'', is_diff = HL_OP_INSERT_AFTER # utf16 ''EOF'' @ 10 # utf16 ''x''\<rparr>"

lemma batch_split:
  "splitHashlineInputs (utf16 ''/w'') (render_sections [alias_first, missing_section]) \<lparr>so_cwd = Some (utf16 ''/w''), so_path = None\<rparr> =
     Inr [alias_first, missing_section]"
  "splitHashlineInputs (utf16 ''/w'') (render_sections [alias_first, new_section]) \<lparr>so_cwd = Some (utf16 ''/w''), so_path = None\<rparr> =
     Inr [alias_first, new_section]"
  by (simp_all add: demo_text missing_section_def new_section_def)

lemma batch_merge:
  "mergeSamePathSections [alias_first, missing_section] = [alias_first, missing_section]"
  "mergeSamePathSections [alias_first, new_section] = [alias_first, new_section]"
  by (simp_all add: mergeSamePathSections_def alias_first_def missing_section_def new_section_def)

lemma batch_missing: "readHashlineFile demo_session (utf16 ''/w/b'') q = Inr None"
  by (simp add: readHashlineFile_def demo_session_def)

lemma missing_plan: "plan_section demo_env demo_session missing_section = Inl (FileNotFound (utf16 ''b''))"
  unfolding plan_section_def missing_section_def input_section.simps Let_def demo_env_simps alias_parse lift_error_def
      sum.case andThen.simps prod.case batch_missing by simp

lemma new_plan:
  "plan_section demo_env demo_session new_section =
     Inr \<lparr>pl_path = utf16 ''/w/b'', pl_exists = False, pl_bom = [], pl_ending = LF, pl_original = [],
       pl_parseWarnings = [], pl_result = \<lparr>ed_lines = utf16 ''x'', ed_firstChangedLine = Some 1, ed_recovered = False, ed_warnings = []\<rparr>\<rparr>"
proof -
  have ap: "applyHashlineEdits length [] [HInsert Eof (utf16 ''x'') 1 0] False =
      Inr \<lparr>ap_lines = utf16 ''x'', ap_firstChangedLine = Some 1, ap_warnings = []\<rparr>"
    by (simp add: apply_eval)
  have raw: "stripBom [] = ([], [])" "normalizeToLF [] = []" "detectLineEnding [] = LF" by (simp_all add: stripBom_def detectLineEnding_def)
  show ?thesis
    unfolding plan_section_def new_section_def input_section.simps Let_def demo_env_simps aborted_parse lift_error_def
      sum.case andThen.simps prod.case batch_missing applyHashlineEditsWithRecovery_def option.case raw ap by (simp add: raw ap)
qed

theorem failed_preflight_writes_nothing_witness:
  "executeHashlineSingle demo_env demo_session (render_sections [alias_first, missing_section]) None =
     (Inl (FileNotFound (utf16 ''b'')), demo_session)"
proof (rule failed_preflight_writes_nothing)
  show "splitHashlineInputs (ev_pcwd demo_env) (render_sections [alias_first, missing_section]) \<lparr>so_cwd = Some (ev_cwd demo_env), so_path = None\<rparr> =
     Inr [alias_first, missing_section]" unfolding demo_env_simps by (rule batch_split)
  show "mergeSamePathSections [alias_first, missing_section] = [alias_first] @ missing_section # []" using batch_merge by simp
qed (simp_all add: preflightHashlineSection_def alias_plan missing_plan)


end
