(* ===== verification/Worker_Pool.thy ===== *)
theory Worker_Pool
  imports JS_Prelude
begin

text \<open>
  Bounded parallelism for subagents (\<open>task/parallel.ts\<close>): the worker pool
  \<open>mapWithConcurrencyLimit\<close> and the semaphore. A worker runs without interruption from one await to the
  next, so a step of the pool is what one worker does in between: it takes the next item, or the call for
  its item has ended with a value or an error, or the outer signal is aborted. The order of steps is free.
  The calls themselves are a parameter: \<open>F i r\<close> says that the call for item \<open>i\<close> can return
  \<open>r\<close>.
\<close>

section \<open>The worker pool\<close>

datatype worker = Ready | Running nat | Finished | Broken

record ('b, 'e) pool =
  wp_next :: nat
  wp_workers :: "worker list"
  wp_results :: "'b option list"
  wp_signal :: bool
  wp_controller :: bool
  wp_firstError :: "'e option"

definition pool_limit :: "js_number \<Rightarrow> nat \<Rightarrow> nat" where
  "pool_limit concurrency n =
     (let normalizedConcurrency = (case concurrency of Fin r \<Rightarrow> floor r | _ \<Rightarrow> int n);
          effectiveConcurrency = (if 0 < normalizedConcurrency then normalizedConcurrency else int n)
      in nat (max 1 (min effectiveConcurrency (int n))))"

definition new_pool :: "js_number \<Rightarrow> nat \<Rightarrow> bool \<Rightarrow> ('b, 'e) pool" where
  "new_pool concurrency n signal =
     \<lparr>wp_next = 0, wp_workers = replicate (pool_limit concurrency n) Ready, wp_results = replicate n None,
      wp_signal = signal, wp_controller = False, wp_firstError = None\<rparr>"

definition workerAborted :: "('b, 'e) pool \<Rightarrow> bool" where
  "workerAborted p \<longleftrightarrow> wp_signal p \<or> wp_controller p"

definition set_worker :: "nat \<Rightarrow> worker \<Rightarrow> ('b, 'e) pool \<Rightarrow> ('b, 'e) pool" where
  "set_worker w x p = p\<lparr>wp_workers := (wp_workers p)[w := x]\<rparr>"

text \<open>The head of the loop, a returned call and a thrown error.\<close>

definition worker_pick :: "nat \<Rightarrow> nat \<Rightarrow> ('b, 'e) pool \<Rightarrow> ('b, 'e) pool" where
  "worker_pick n w p =
     (if workerAborted p then set_worker w Finished p
      else let index = wp_next p; p' = p\<lparr>wp_next := index + 1\<rparr>
           in if n \<le> index then set_worker w Finished p' else set_worker w (Running index) p')"

definition worker_return :: "nat \<Rightarrow> nat \<Rightarrow> 'b \<Rightarrow> ('b, 'e) pool \<Rightarrow> ('b, 'e) pool" where
  "worker_return w index r p = set_worker w Ready (p\<lparr>wp_results := (wp_results p)[index := Some r]\<rparr>)"

definition worker_throw :: "nat \<Rightarrow> 'e \<Rightarrow> ('b, 'e) pool \<Rightarrow> ('b, 'e) pool" where
  "worker_throw w e p =
     (if workerAborted p then set_worker w Ready p
      else set_worker w Broken (p\<lparr>wp_controller := True,
             wp_firstError := (case wp_firstError p of None \<Rightarrow> Some e | Some e0 \<Rightarrow> Some e0)\<rparr>))"

datatype ('b, 'e) pool_event = Pick nat | Return nat 'b | Throw nat 'e | Abort

inductive pool_step :: "(nat \<Rightarrow> 'b \<Rightarrow> bool) \<Rightarrow> nat \<Rightarrow> ('b, 'e) pool \<Rightarrow> ('b, 'e) pool_event \<Rightarrow> ('b, 'e) pool \<Rightarrow> bool"
  for F n where
  pick: "w < length (wp_workers p) \<Longrightarrow> wp_workers p ! w = Ready \<Longrightarrow> pool_step F n p (Pick w) (worker_pick n w p)"
| returned: "w < length (wp_workers p) \<Longrightarrow> wp_workers p ! w = Running i \<Longrightarrow> F i r \<Longrightarrow>
    pool_step F n p (Return w r) (worker_return w i r p)"
| thrown: "w < length (wp_workers p) \<Longrightarrow> wp_workers p ! w = Running i \<Longrightarrow> pool_step F n p (Throw w e) (worker_throw w e p)"
| aborted: "\<not> wp_signal p \<Longrightarrow> pool_step F n p Abort (p\<lparr>wp_signal := True\<rparr>)"

inductive pool_run :: "(nat \<Rightarrow> 'b \<Rightarrow> bool) \<Rightarrow> nat \<Rightarrow> ('b, 'e) pool \<Rightarrow> ('b, 'e) pool_event list \<Rightarrow> ('b, 'e) pool \<Rightarrow> bool" for F n where
  stay: "pool_run F n p [] p"
| go: "pool_step F n p ev q \<Longrightarrow> pool_run F n q evs p' \<Longrightarrow> pool_run F n p (ev # evs) p'"

inductive_simps pool_step_simps:
  "pool_step F n p (Pick w) q"
  "pool_step F n p (Return w r) q"
  "pool_step F n p (Throw w e) q"
  "pool_step F n p Abort q"

inductive_simps pool_run_simps:
  "pool_run F n p [] q"
  "pool_run F n p (ev # evs) q"

text \<open>
  What the caller gets, as soon as it gets something: the results with the flag \<open>aborted\<close>, or the
  first error.
\<close>

definition pool_outcome :: "('b, 'e) pool \<Rightarrow> ('e + 'b option list \<times> bool) option" where
  "pool_outcome p =
     (case wp_firstError p of
        Some e \<Rightarrow> Some (if wp_signal p then Inr (wp_results p, True) else Inl e)
      | None \<Rightarrow> if list_all (\<lambda>x. x = Finished) (wp_workers p) then Some (Inr (wp_results p, wp_signal p)) else None)"

section \<open>Its invariant\<close>

definition pool_ok :: "(nat \<Rightarrow> 'b \<Rightarrow> bool) \<Rightarrow> nat \<Rightarrow> nat \<Rightarrow> ('b, 'e) pool \<Rightarrow> bool" where
  "pool_ok F n limit p \<longleftrightarrow>
     length (wp_workers p) = limit \<and> length (wp_results p) = n \<and>
     (\<forall>w<limit. \<forall>i. wp_workers p ! w = Running i \<longrightarrow> i < n \<and> i < wp_next p \<and> wp_results p ! i = None) \<and>
     (\<forall>w<limit. \<forall>v<limit. \<forall>i. wp_workers p ! w = Running i \<longrightarrow> wp_workers p ! v = Running i \<longrightarrow> w = v) \<and>
     (\<forall>i<n. \<forall>r. wp_results p ! i = Some r \<longrightarrow> i < wp_next p \<and> F i r) \<and>
     (\<not> workerAborted p \<longrightarrow> (\<forall>i<n. i < wp_next p \<longrightarrow> wp_results p ! i \<noteq> None \<or> (\<exists>w<limit. wp_workers p ! w = Running i)) \<and>
        (\<forall>w<limit. wp_workers p ! w = Finished \<longrightarrow> n \<le> wp_next p)) \<and>
     (wp_controller p \<longleftrightarrow> wp_firstError p \<noteq> None) \<and>
     (\<forall>w<limit. wp_workers p ! w = Broken \<longrightarrow> wp_controller p)"

definition pool_init :: "js_number \<Rightarrow> nat \<Rightarrow> ('b, 'e) pool \<Rightarrow> bool" where
  "pool_init concurrency n p \<longleftrightarrow> (\<exists>signal. p = new_pool concurrency n signal)"

lemma pool_init_ok: "pool_init concurrency n p \<Longrightarrow> pool_ok F n (pool_limit concurrency n) p"
  by (auto simp: pool_init_def new_pool_def pool_ok_def)

lemma set_worker_sel [simp]:
  "wp_next (set_worker w x p) = wp_next p" "wp_results (set_worker w x p) = wp_results p" "wp_signal (set_worker w x p) = wp_signal p"
  "wp_controller (set_worker w x p) = wp_controller p" "wp_firstError (set_worker w x p) = wp_firstError p"
  "wp_workers (set_worker w x p) = (wp_workers p)[w := x]"
  by (simp_all add: set_worker_def)

text \<open>The invariant as introduction and elimination rules over its seven parts.\<close>

lemma pool_okI:
  assumes "length (wp_workers p) = limit" "length (wp_results p) = n"
    and "\<And>w i. w < limit \<Longrightarrow> wp_workers p ! w = Running i \<Longrightarrow> i < n \<and> i < wp_next p \<and> wp_results p ! i = None"
    and "\<And>w v i. w < limit \<Longrightarrow> v < limit \<Longrightarrow> wp_workers p ! w = Running i \<Longrightarrow> wp_workers p ! v = Running i \<Longrightarrow> w = v"
    and "\<And>i r. i < n \<Longrightarrow> wp_results p ! i = Some r \<Longrightarrow> i < wp_next p \<and> F i r"
    and "\<And>i. \<not> workerAborted p \<Longrightarrow> i < n \<Longrightarrow> i < wp_next p \<Longrightarrow> wp_results p ! i = None \<Longrightarrow>
           \<exists>w<limit. wp_workers p ! w = Running i"
    and "\<And>w. \<not> workerAborted p \<Longrightarrow> w < limit \<Longrightarrow> wp_workers p ! w = Finished \<Longrightarrow> n \<le> wp_next p"
    and "wp_controller p \<longleftrightarrow> wp_firstError p \<noteq> None"
    and "\<And>w. w < limit \<Longrightarrow> wp_workers p ! w = Broken \<Longrightarrow> wp_controller p"
  shows "pool_ok F n limit p"
  unfolding pool_ok_def using assms by blast

lemma pool_okD:
  assumes "pool_ok F n limit p"
  shows "length (wp_workers p) = limit" "length (wp_results p) = n"
    and "w < limit \<Longrightarrow> wp_workers p ! w = Running i \<Longrightarrow> i < n \<and> i < wp_next p \<and> wp_results p ! i = None"
    and "w < limit \<Longrightarrow> v < limit \<Longrightarrow> wp_workers p ! w = Running i \<Longrightarrow> wp_workers p ! v = Running i \<Longrightarrow> w = v"
    and "i < n \<Longrightarrow> wp_results p ! i = Some r \<Longrightarrow> i < wp_next p \<and> F i r"
    and "\<not> workerAborted p \<Longrightarrow> i < n \<Longrightarrow> i < wp_next p \<Longrightarrow> wp_results p ! i = None \<Longrightarrow>
           \<exists>w<limit. wp_workers p ! w = Running i"
    and "\<not> workerAborted p \<Longrightarrow> w < limit \<Longrightarrow> wp_workers p ! w = Finished \<Longrightarrow> n \<le> wp_next p"
    and "wp_controller p \<longleftrightarrow> wp_firstError p \<noteq> None"
    and "w < limit \<Longrightarrow> wp_workers p ! w = Broken \<Longrightarrow> wp_controller p"
  using assms unfolding pool_ok_def by blast+

lemma pick_ok:
  assumes ok: "pool_ok F n limit p" and w: "w < length (wp_workers p)" "wp_workers p ! w = Ready"
  shows "pool_ok F n limit (worker_pick n w p)"
proof -
  note d = pool_okD [OF ok]
  consider (stop) "workerAborted p" | (none) "\<not> workerAborted p" "n \<le> wp_next p" | (item) "\<not> workerAborted p" "wp_next p < n" by linarith
  then show ?thesis
  proof cases
    case stop
    then show ?thesis using assms by (auto simp: worker_pick_def pool_ok_def workerAborted_def nth_list_update)
  next
    case none
    then have "worker_pick n w p = set_worker w Finished (p\<lparr>wp_next := wp_next p + 1\<rparr>)" by (simp add: worker_pick_def Let_def)
    moreover have "i < n \<Longrightarrow> i < wp_next p" for i using none(2) by simp
    ultimately show ?thesis using assms none by (auto simp: pool_ok_def workerAborted_def nth_list_update) (metis worker.distinct(1))
  next
    case item
    let ?q = "set_worker w (Running (wp_next p)) (p\<lparr>wp_next := wp_next p + 1\<rparr>)"
    have "pool_ok F n limit ?q"
    proof (rule pool_okI)
      show "length (wp_workers ?q) = limit" "length (wp_results ?q) = n" using d(1,2) by simp_all
      show "i < n \<and> i < wp_next ?q \<and> wp_results ?q ! i = None" if "v < limit" "wp_workers ?q ! v = Running i" for v i
        using that w item d(1,3,5) by (cases "v = w"; cases "wp_results p ! wp_next p") fastforce+
      show "v = u" if "v < limit" "u < limit" "wp_workers ?q ! v = Running i" "wp_workers ?q ! u = Running i" for v u i
        using that w d(1,4) d(3) [of v] d(3) [of u] by (cases "v = w"; cases "u = w") fastforce+
      show "i < wp_next ?q \<and> F i r" if "i < n" "wp_results ?q ! i = Some r" for i r
        using that d(5) by fastforce
      show "\<exists>v<limit. wp_workers ?q ! v = Running i" if i: "i < n" "i < wp_next ?q" "wp_results ?q ! i = None" for i
      proof (cases "i = wp_next p")
        case True
        then show ?thesis using w d(1) by (intro exI [of _ w]) simp
      next
        case False
        then obtain v where "v < limit" "wp_workers p ! v = Running i" using d(6) [OF item(1), of i] i by auto
        moreover have "v \<noteq> w" using calculation w(2) by auto
        ultimately show ?thesis by auto
      qed
      show "n \<le> wp_next ?q" if "v < limit" "wp_workers ?q ! v = Finished" for v
        using that w d(1) d(7) [OF item(1), of v] item by (cases "v = w") auto
      show "wp_controller ?q \<longleftrightarrow> wp_firstError ?q \<noteq> None" using d(8) by simp
      show "wp_controller ?q" if "v < limit" "wp_workers ?q ! v = Broken" for v
        using that w d(1) d(9) [of v] by (cases "v = w") auto
    qed
    then show ?thesis using item by (simp add: worker_pick_def Let_def)
  qed
qed

lemma return_ok:
  assumes ok: "pool_ok F n limit p" and w: "w < length (wp_workers p)" "wp_workers p ! w = Running i" and r: "F i r"
  shows "pool_ok F n limit (worker_return w i r p)"
proof -
  note d = pool_okD [OF ok]
  have i: "i < n" "i < wp_next p" using d(3) [of w i] w d(1) by simp_all
  let ?q = "worker_return w i r p"
  have sel: "wp_workers ?q = (wp_workers p)[w := Ready]" "wp_results ?q = (wp_results p)[i := Some r]" "wp_next ?q = wp_next p"
    "workerAborted ?q = workerAborted p" "wp_controller ?q = wp_controller p" "wp_firstError ?q = wp_firstError p"
    by (simp_all add: worker_return_def workerAborted_def)
  have old: "wp_workers p ! v = x" "v \<noteq> w" if "wp_workers ?q ! v = x" "x \<noteq> Ready" "v < limit" for v x
    using that w d(1) by (auto simp: sel nth_list_update split: if_splits)
  show ?thesis
  proof (rule pool_okI)
    show "length (wp_workers ?q) = limit" "length (wp_results ?q) = n" using d(1,2) by (simp_all add: sel)
    show "j < n \<and> j < wp_next ?q \<and> wp_results ?q ! j = None" if "v < limit" "wp_workers ?q ! v = Running j" for v j
    proof -
      have "wp_workers p ! v = Running j" "v \<noteq> w" using old [OF that(2) _ that(1)] by simp_all
      moreover have "j \<noteq> i" using d(4) [of v w i] calculation w that(1) d(1) by auto
      ultimately show ?thesis using d(3) [of v j] that(1) by (simp add: sel)
    qed
    show "v = u" if "v < limit" "u < limit" "wp_workers ?q ! v = Running j" "wp_workers ?q ! u = Running j" for v u j
      using d(4) [of v u j] old(1) [OF that(3) _ that(1)] old(1) [OF that(4) _ that(2)] that(1,2) by simp
    show "j < wp_next ?q \<and> F j x" if "j < n" "wp_results ?q ! j = Some x" for j x
      using that i r d(2) d(5) [of j x] unfolding sel by (cases "j = i") auto
    show "\<exists>v<limit. wp_workers ?q ! v = Running j"
      if "\<not> workerAborted ?q" "j < n" "j < wp_next ?q" "wp_results ?q ! j = None" for j
    proof -
      have "j \<noteq> i" using that i d(2) by (auto simp: sel)
      then have "\<exists>v<limit. wp_workers p ! v = Running j" using d(6) [of j] that by (simp add: sel)
      then obtain v where v: "v < limit" "wp_workers p ! v = Running j" by blast
      then have "v \<noteq> w" using w \<open>j \<noteq> i\<close> by auto
      then show ?thesis using v by (auto simp: sel)
    qed
    show "n \<le> wp_next ?q" if "\<not> workerAborted ?q" "v < limit" "wp_workers ?q ! v = Finished" for v
      using d(7) [of v] old(1) [OF that(3) _ that(2)] that by (simp add: sel)
    show "wp_controller ?q \<longleftrightarrow> wp_firstError ?q \<noteq> None" using d(8) by (simp add: sel)
    show "wp_controller ?q" if "v < limit" "wp_workers ?q ! v = Broken" for v
      using d(9) [of v] old(1) [OF that(2) _ that(1)] that by (simp add: sel)
  qed
qed

lemma throw_ok:
  assumes ok: "pool_ok F n limit p" and w: "w < length (wp_workers p)" "wp_workers p ! w = Running i"
  shows "pool_ok F n limit (worker_throw w e p)"
proof -
  note d = pool_okD [OF ok]
  let ?q = "worker_throw w e p" and ?x = "if workerAborted p then Ready else Broken"
  have sel: "wp_workers ?q = (wp_workers p)[w := ?x]" "wp_results ?q = wp_results p" "wp_next ?q = wp_next p" "workerAborted ?q"
    "\<not> workerAborted p \<Longrightarrow> wp_controller ?q" "wp_controller p \<Longrightarrow> wp_controller ?q" "wp_controller ?q \<longleftrightarrow> wp_firstError ?q \<noteq> None"
    using d(8) by (auto simp: worker_throw_def workerAborted_def split: option.splits)
  have old: "wp_workers p ! v = y" if "wp_workers ?q ! v = y" "y \<noteq> ?x" "v < limit" for v y
    using that w d(1) by (auto simp: sel nth_list_update split: if_splits)
  show ?thesis
  proof (rule pool_okI)
    show "length (wp_workers ?q) = limit" "length (wp_results ?q) = n" using d(1,2) by (simp_all add: sel)
    show "j < n \<and> j < wp_next ?q \<and> wp_results ?q ! j = None" if "v < limit" "wp_workers ?q ! v = Running j" for v j
      using d(3) [of v j] old [OF that(2) _ that(1)] that(1) by (simp add: sel)
    show "v = u" if "v < limit" "u < limit" "wp_workers ?q ! v = Running j" "wp_workers ?q ! u = Running j" for v u j
      using d(4) [of v u j] old [OF that(3) _ that(1)] old [OF that(4) _ that(2)] that(1,2) by simp
    show "j < wp_next ?q \<and> F j x" if "j < n" "wp_results ?q ! j = Some x" for j x using that d(5) [of j x] by (simp add: sel)
    show "wp_controller ?q \<longleftrightarrow> wp_firstError ?q \<noteq> None" by (rule sel)
    show "wp_controller ?q" if "v < limit" "wp_workers ?q ! v = Broken" for v
      using d(9) [of v] old [OF that(2) _ that(1)] that(1) sel(5,6) by (cases "workerAborted p") simp_all
  qed (use sel(4) in auto)
qed

lemma abort_ok: "pool_ok F n limit p \<Longrightarrow> pool_ok F n limit (p\<lparr>wp_signal := True\<rparr>)"
  by (rule pool_okI) (auto simp: workerAborted_def dest: pool_okD)

lemma pool_step_ok: "pool_ok F n limit p \<Longrightarrow> pool_step F n p ev q \<Longrightarrow> pool_ok F n limit q"
  by (auto elim!: pool_step.cases intro: pick_ok return_ok throw_ok abort_ok)

interpretation pool: machine_invariant "pool_init concurrency n" "pool_step F n" "pool_ok F n (pool_limit concurrency n)"
  for concurrency n F
  by unfold_locales (blast intro: pool_init_ok pool_step_ok)+

lemma pool_run_reach: "pool_run F n p evs q \<Longrightarrow> reach init (pool_step F n) p \<Longrightarrow> reach init (pool_step F n) q"
  by (induction rule: pool_run.induct) (auto intro: reach_step)

lemma pool_run_ok:
  assumes "pool_run F n (new_pool concurrency n signal) evs p"
  shows "pool_ok F n (pool_limit concurrency n) p"
proof -
  have "reach (pool_init concurrency n) (pool_step F n) p"
    by (rule pool_run_reach [OF assms]) (rule reach_init, auto simp: pool_init_def)
  then show ?thesis by (rule pool.reachable_inv)
qed

lemma pool_limit_pos: "1 \<le> pool_limit concurrency n"
  by (simp add: pool_limit_def Let_def)

text \<open>
  The limit the workers respect: a positive concurrency rounded down, and the number of items where it is
  larger, not positive or not finite; with a fraction below one this is no limit at all.
\<close>

lemma pool_limit_bound: "0 < n \<Longrightarrow> pool_limit concurrency n \<le> n"
  by (simp add: pool_limit_def Let_def nat_le_iff)

lemma pool_limit_fin: "1 \<le> r \<Longrightarrow> int (pool_limit (Fin r) n) \<le> floor r"
  by (simp add: pool_limit_def Let_def)

section \<open>What the caller gets\<close>

text \<open>C22.
  A pool that reports that it was not aborted has the result of every item, each at its own index and one
  that the call for that item returned.
\<close>
theorem pool_results_complete:
  assumes "pool_run F n (new_pool concurrency n signal) evs p" "pool_outcome p = Some (Inr (results, False))"
  shows "length results = n \<and> (\<forall>i<n. \<exists>r. results ! i = Some r \<and> F i r)"
proof -
  note d = pool_okD [OF pool_run_ok [OF assms(1)]]
  have out: "wp_firstError p = None" "\<not> wp_signal p" "results = wp_results p" and fin: "list_all (\<lambda>x. x = Finished) (wp_workers p)"
    using assms(2) by (auto simp: pool_outcome_def split: option.splits if_splits)
  have idle: "\<not> workerAborted p" using out d(8) by (simp add: workerAborted_def)
  have f: "v < pool_limit concurrency n \<Longrightarrow> wp_workers p ! v = Finished" for v using fin d(1) by (auto simp: list_all_length)
  have "n \<le> wp_next p" using d(7) [OF idle, of 0] f [of 0] pool_limit_pos [of concurrency n] by simp
  then have "wp_results p ! i \<noteq> None" if "i < n" for i using d(6) [OF idle that] that f by fastforce
  then show ?thesis using d(2,5) out(3) by fastforce
qed

text \<open>Which items are under way, and how many workers run one.\<close>

definition running_workers :: "('b, 'e) pool \<Rightarrow> nat set" where
  "running_workers p = {w. w < length (wp_workers p) \<and> (\<exists>i. wp_workers p ! w = Running i)}"

definition running_items :: "('b, 'e) pool \<Rightarrow> nat set" where
  "running_items p = {i. \<exists>w<length (wp_workers p). wp_workers p ! w = Running i}"

lemma running_items_image: "running_items p = (\<lambda>w. THE i. wp_workers p ! w = Running i) ` running_workers p"
  by (force simp: running_items_def running_workers_def)

lemma card_running_items: "card (running_items p) \<le> length (wp_workers p)"
proof -
  have sub: "running_workers p \<subseteq> {..<length (wp_workers p)}" by (auto simp: running_workers_def)
  have "card (running_items p) \<le> card (running_workers p)"
    unfolding running_items_image by (rule card_image_le) (use sub finite_subset in blast)
  also have "\<dots> \<le> length (wp_workers p)" using card_mono [OF _ sub] by simp
  finally show ?thesis .
qed

text \<open>After an abort or a failure no worker takes an item any more: what runs was already running.\<close>

lemma running_items_step:
  assumes "pool_step F n p ev q" "workerAborted p"
  shows "running_items q \<subseteq> running_items p" "wp_next q = wp_next p" "workerAborted q"
  using assms
  by (auto elim!: pool_step.cases simp: running_items_def worker_pick_def worker_return_def worker_throw_def workerAborted_def
      nth_list_update split: if_splits)

text \<open>C38.
  At most the limit of items is under way at any time, and with a finite concurrency of at least one the
  limit is at most that; once the outer signal is aborted or an item has failed, no step starts another
  item.
\<close>
theorem pool_bounds_parallelism:
  assumes "pool_run F n (new_pool concurrency n signal) evs p"
  shows "card (running_items p) \<le> pool_limit concurrency n \<and>
         (\<forall>r\<ge>1. concurrency = Fin r \<longrightarrow> int (card (running_items p)) \<le> floor r) \<and>
         (\<forall>ev q. pool_step F n p ev q \<longrightarrow> workerAborted p \<longrightarrow> running_items q \<subseteq> running_items p \<and> workerAborted q)"
proof (intro conjI allI impI)
  show b: "card (running_items p) \<le> pool_limit concurrency n"
    using card_running_items [of p] pool_okD(1) [OF pool_run_ok [OF assms]] by simp
  show "int (card (running_items p)) \<le> floor r" if "1 \<le> r" "concurrency = Fin r" for r
    using b pool_limit_fin [OF that(1), of n] that(2) by simp
qed (use running_items_step in blast)+

section \<open>It always ends\<close>

fun worker_work :: "worker \<Rightarrow> nat" where
  "worker_work Ready = 1"
| "worker_work (Running _) = 2"
| "worker_work _ = 0"

definition pool_work :: "nat \<Rightarrow> ('b, 'e) pool \<Rightarrow> nat" where
  "pool_work n p = 2 * (n - wp_next p) + sum_list (map worker_work (wp_workers p)) + (if wp_signal p then 0 else 1)"

lemma sum_list_update_nat:
  "k < length xs \<Longrightarrow> f x + c \<le> f (xs ! k) + d \<Longrightarrow> sum_list (map f (xs[k := x])) + c \<le> sum_list (map f xs) + (d::nat)"
proof (induction xs arbitrary: k)
  case (Cons y ys)
  show ?case
  proof (cases k)
    case (Suc j)
    then show ?thesis using Cons.IH [of j] Cons.prems by simp
  qed (use Cons.prems in simp)
qed simp

lemma pool_step_work: "pool_step F n p ev q \<Longrightarrow> pool_work n q < pool_work n p"
proof (induction rule: pool_step.induct)
  case (pick w p)
  then show ?case
    using sum_list_update_nat [of w "wp_workers p" worker_work Finished 1 0] sum_list_update_nat [of w "wp_workers p" worker_work "Running (wp_next p)" 0 1]
    by (auto simp: pool_work_def worker_pick_def Let_def)
next
  case (returned w p i r)
  then show ?case using sum_list_update_nat [of w "wp_workers p" worker_work Ready 1 0] by (simp add: pool_work_def worker_return_def)
next
  case (thrown w p i e)
  then show ?case
    using sum_list_update_nat [of w "wp_workers p" worker_work Ready 1 0] sum_list_update_nat [of w "wp_workers p" worker_work Broken 1 0]
    by (auto simp: pool_work_def worker_throw_def)
qed (simp add: pool_work_def)

lemma pool_run_work: "pool_run F n p evs q \<Longrightarrow> length evs + pool_work n q \<le> pool_work n p"
  by (induction rule: pool_run.induct) (auto dest: pool_step_work)

lemma pool_progress:
  assumes "pool_ok F n limit p" "pool_outcome p = None"
  shows "\<exists>w<limit. wp_workers p ! w = Ready \<or> (\<exists>i<n. wp_workers p ! w = Running i)"
proof -
  note d = pool_okD [OF assms(1)]
  have e: "wp_firstError p = None" "\<not> list_all (\<lambda>x. x = Finished) (wp_workers p)"
    using assms(2) by (auto simp: pool_outcome_def split: option.splits if_splits)
  then obtain w where w: "w < limit" "wp_workers p ! w \<noteq> Finished" using d(1) by (auto simp: list_all_length)
  moreover have "wp_workers p ! w \<noteq> Broken" using d(8,9) w(1) e(1) by auto
  ultimately show ?thesis using d(3) by (cases "wp_workers p ! w") auto
qed

text \<open>C23.
  The pool always ends: a run takes at most two steps for each item, one for each worker and one for the
  signal, and as long as the caller has no outcome, some worker is at the head of its loop or waits for the
  call of an item, so that it takes a step as soon as that call ends.
\<close>
theorem pool_always_ends:
  assumes "pool_run F n (new_pool concurrency n signal) evs p"
  shows "length evs \<le> 2 * n + pool_limit concurrency n + 1 \<and>
         (pool_outcome p = None \<longrightarrow>
            (\<exists>w. (\<exists>q. pool_step F n p (Pick w) q) \<or>
                 (\<exists>i<n. (\<forall>e. \<exists>q. pool_step F n p (Throw w e) q) \<and>
                         (\<forall>r. F i r \<longrightarrow> (\<exists>q. pool_step F n p (Return w r) q)))))"
proof (intro conjI impI)
  show "length evs \<le> 2 * n + pool_limit concurrency n + 1"
    using pool_run_work [OF assms] by (simp add: pool_work_def new_pool_def sum_list_replicate split: if_splits)
  assume "pool_outcome p = None"
  from pool_progress [OF pool_run_ok [OF assms] this] pool_okD(1) [OF pool_run_ok [OF assms]]
  show "\<exists>w. (\<exists>q. pool_step F n p (Pick w) q) \<or>
            (\<exists>i<n. (\<forall>e. \<exists>q. pool_step F n p (Throw w e) q) \<and> (\<forall>r. F i r \<longrightarrow> (\<exists>q. pool_step F n p (Return w r) q)))"
    by (fastforce simp: pool_step_simps)
qed

text \<open>A run of one worker on one item whose call returns seven.\<close>

definition demo_pool :: "nat \<Rightarrow> worker \<Rightarrow> nat option \<Rightarrow> (nat, string) pool" where
  "demo_pool nxt w r = \<lparr>wp_next = nxt, wp_workers = [w], wp_results = [r], wp_signal = False, wp_controller = False,
     wp_firstError = None\<rparr>"

lemma demo_run: "pool_run (\<lambda>_ r. r = 7) 1 (new_pool (Fin 3) 1 False) [Pick 0, Return 0 7, Pick 0] (demo_pool 2 Finished (Some 7))"
  by (simp add: pool_run_simps pool_step_simps demo_pool_def new_pool_def pool_limit_def worker_pick_def worker_return_def
      workerAborted_def set_worker_def)

lemma demo_run_prefix: "pool_run (\<lambda>_ r. r = 7) 1 (new_pool (Fin 3) 1 False) [Pick 0] (demo_pool 1 (Running 0) None)"
  by (simp add: pool_run_simps pool_step_simps demo_pool_def new_pool_def pool_limit_def worker_pick_def worker_return_def
      workerAborted_def set_worker_def)

theorem pool_results_complete_witness:
  "pool_outcome (demo_pool 2 Finished (Some 7)) = Some (Inr ([Some 7], False)) \<and> length [Some (7::nat)] = 1"
proof -
  have o: "pool_outcome (demo_pool 2 Finished (Some 7)) = Some (Inr ([Some 7], False))" by (simp add: pool_outcome_def demo_pool_def)
  then show ?thesis using pool_results_complete [OF demo_run o] by simp
qed

theorem pool_bounds_parallelism_witness: "running_items (demo_pool 1 (Running 0) None) = {0} \<and> card (running_items (demo_pool 1 (Running 0) None)) \<le> 1"
proof -
  have "running_items (demo_pool 1 (Running 0) None) = {0}" by (auto simp: running_items_def demo_pool_def)
  then show ?thesis using pool_bounds_parallelism [OF demo_run_prefix] by (simp add: pool_limit_def)
qed

theorem pool_always_ends_witness:
  "pool_outcome (demo_pool 1 (Running 0) None) = None \<and>
   (\<exists>w q. pool_step (\<lambda>_ r. r = 7) 1 (demo_pool 1 (Running 0) None) (Pick w) q \<or>
          pool_step (\<lambda>_ r. r = 7) 1 (demo_pool 1 (Running 0) None) (Return w 7) q)"
proof -
  have "pool_outcome (demo_pool 1 (Running 0) None) = None" by (simp add: pool_outcome_def demo_pool_def)
  then show ?thesis using pool_always_ends [OF demo_run_prefix] by blast
qed

section \<open>The semaphore\<close>

text \<open>
  \<open>acquire\<close> answers at once or leaves a resolver in the queue, here named by the caller; \<open>release\<close>
  hands the permit to the first resolver of the queue or gives it back. \<open>Math.max (1, max)\<close> is NaN for
  NaN.
\<close>

record semaphore =
  sm_max :: js_number
  sm_current :: int
  sm_queue :: "nat list"

fun max_1 :: "js_number \<Rightarrow> js_number" where
  "max_1 (Fin r) = Fin (max 1 r)"
| "max_1 PosInf = PosInf"
| "max_1 NegInf = Fin 1"
| "max_1 NaN = NaN"

definition new_semaphore :: "js_number \<Rightarrow> semaphore" where
  "new_semaphore m = \<lparr>sm_max = max_1 m, sm_current = 0, sm_queue = []\<rparr>"

definition acquire :: "nat \<Rightarrow> semaphore \<Rightarrow> bool \<times> semaphore" where
  "acquire k s =
     (if num_lt (Fin (of_int (sm_current s))) (sm_max s) then (True, s\<lparr>sm_current := sm_current s + 1\<rparr>)
      else (False, s\<lparr>sm_queue := sm_queue s @ [k]\<rparr>))"

definition release :: "semaphore \<Rightarrow> nat option \<times> semaphore" where
  "release s =
     (case sm_queue s of
        k # ks \<Rightarrow> (Some k, s\<lparr>sm_queue := ks\<rparr>)
      | [] \<Rightarrow> (None, s\<lparr>sm_current := sm_current s - 1\<rparr>))"

text \<open>
  The callers as the task tool has them: each acquires once and releases what it holds. A permit state is
  the semaphore with the callers that hold a permit, in the order in which they got it, and those that have
  asked, in the order in which they did.
\<close>

record permits =
  pm_sem :: semaphore
  pm_holders :: "nat list"
  pm_granted :: "nat list"
  pm_asked :: "nat list"

datatype permit_event = Acquire nat | Release nat

inductive permit_step :: "permits \<Rightarrow> permit_event \<Rightarrow> permits \<Rightarrow> bool" where
  at_once: "k \<notin> set (pm_asked p) \<Longrightarrow> acquire k (pm_sem p) = (True, s) \<Longrightarrow>
    permit_step p (Acquire k)
      (p\<lparr>pm_sem := s, pm_holders := pm_holders p @ [k], pm_granted := pm_granted p @ [k], pm_asked := pm_asked p @ [k]\<rparr>)"
| queued: "k \<notin> set (pm_asked p) \<Longrightarrow> acquire k (pm_sem p) = (False, s) \<Longrightarrow>
    permit_step p (Acquire k) (p\<lparr>pm_sem := s, pm_asked := pm_asked p @ [k]\<rparr>)"
| handed_on: "k \<in> set (pm_holders p) \<Longrightarrow> release (pm_sem p) = (Some j, s) \<Longrightarrow>
    permit_step p (Release k) (p\<lparr>pm_sem := s, pm_holders := remove1 k (pm_holders p) @ [j], pm_granted := pm_granted p @ [j]\<rparr>)"
| given_back: "k \<in> set (pm_holders p) \<Longrightarrow> release (pm_sem p) = (None, s) \<Longrightarrow>
    permit_step p (Release k) (p\<lparr>pm_sem := s, pm_holders := remove1 k (pm_holders p)\<rparr>)"

inductive_simps permit_step_simps:
  "permit_step p (Acquire k) q"
  "permit_step p (Release k) q"

definition permit_init :: "js_number \<Rightarrow> permits \<Rightarrow> bool" where
  "permit_init m p \<longleftrightarrow> p = \<lparr>pm_sem = new_semaphore m, pm_holders = [], pm_granted = [], pm_asked = []\<rparr>"

definition permits_ok :: "js_number \<Rightarrow> permits \<Rightarrow> bool" where
  "permits_ok m p \<longleftrightarrow>
     sm_max (pm_sem p) = max_1 m \<and>
     sm_current (pm_sem p) = int (length (pm_holders p)) \<and>
     pm_asked p = pm_granted p @ sm_queue (pm_sem p) \<and>
     set (pm_holders p) \<subseteq> set (pm_granted p) \<and> distinct (pm_asked p) \<and> distinct (pm_holders p) \<and>
     (pm_holders p \<noteq> [] \<longrightarrow> num_lt (Fin (of_nat (length (pm_holders p) - 1))) (max_1 m)) \<and>
     (sm_queue (pm_sem p) \<noteq> [] \<longrightarrow> \<not> num_lt (Fin (of_nat (length (pm_holders p)))) (max_1 m))"

lemma num_lt_below: "num_lt (Fin a) x \<Longrightarrow> b \<le> a \<Longrightarrow> num_lt (Fin b) x"
  by (cases x) auto

lemma remove1_length: "k \<in> set xs \<Longrightarrow> length xs = Suc (length (remove1 k xs))"
  by (induction xs) auto

lemma permit_release_ok:
  assumes ok: "permits_ok m p" and k: "k \<in> set (pm_holders p)"
  shows "release (pm_sem p) = (Some j, s) \<Longrightarrow>
           permits_ok m (p\<lparr>pm_sem := s, pm_holders := remove1 k (pm_holders p) @ [j], pm_granted := pm_granted p @ [j]\<rparr>)"
    and "release (pm_sem p) = (None, s) \<Longrightarrow> permits_ok m (p\<lparr>pm_sem := s, pm_holders := remove1 k (pm_holders p)\<rparr>)"
proof -
  have len: "length (pm_holders p) = Suc (length (remove1 k (pm_holders p)))" by (rule remove1_length [OF k])
  have ne: "pm_holders p \<noteq> []" using k by auto
  have sub: "set (remove1 k (pm_holders p)) \<subseteq> set (pm_holders p)" by (rule set_remove1_subset)
  have low: "num_lt (Fin (of_nat (length (remove1 k (pm_holders p))))) (max_1 m)" using ok ne len by (simp add: permits_ok_def)
  then have lower: "num_lt (Fin (of_nat (length (remove1 k (pm_holders p)) - 1))) (max_1 m)" by (rule num_lt_below) simp
  show "permits_ok m (p\<lparr>pm_sem := s, pm_holders := remove1 k (pm_holders p) @ [j], pm_granted := pm_granted p @ [j]\<rparr>)"
    if "release (pm_sem p) = (Some j, s)"
    using ok that len low sub by (auto simp: permits_ok_def release_def split: list.splits)
  show "permits_ok m (p\<lparr>pm_sem := s, pm_holders := remove1 k (pm_holders p)\<rparr>)" if "release (pm_sem p) = (None, s)"
    using ok that len lower sub by (auto simp: permits_ok_def release_def split: list.splits)
qed

lemma permit_acquire_ok:
  assumes ok: "permits_ok m p" and k: "k \<notin> set (pm_asked p)"
  shows "acquire k (pm_sem p) = (True, s) \<Longrightarrow>
           permits_ok m (p\<lparr>pm_sem := s, pm_holders := pm_holders p @ [k], pm_granted := pm_granted p @ [k], pm_asked := pm_asked p @ [k]\<rparr>)"
    and "acquire k (pm_sem p) = (False, s) \<Longrightarrow> permits_ok m (p\<lparr>pm_sem := s, pm_asked := pm_asked p @ [k]\<rparr>)"
  using assms by (auto simp: permits_ok_def acquire_def split: if_splits)

lemma permit_step_ok: "permits_ok m p \<Longrightarrow> permit_step p ev q \<Longrightarrow> permits_ok m q"
  by (erule permit_step.cases) (auto intro: permit_acquire_ok permit_release_ok)

lemma permit_init_ok: "permit_init m p \<Longrightarrow> permits_ok m p"
  by (simp add: permit_init_def permits_ok_def new_semaphore_def)

interpretation sem: machine_invariant "permit_init m" permit_step "permits_ok m" for m
  by unfold_locales (rule permit_init_ok permit_step_ok; assumption)+

text \<open>
  The semaphore gives out whole permits: its count is the number of callers inside, never more than the
  maximum rounded up, a caller waits only while no permit is free, and permits are granted in the order in
  which they were asked for.
\<close>
theorem semaphore_bounds_and_orders:
  assumes "reach (permit_init m) permit_step p"
  shows "sm_current (pm_sem p) = int (card (set (pm_holders p))) \<and>
         (\<forall>r. m = Fin r \<longrightarrow> sm_current (pm_sem p) \<le> ceiling (max 1 r)) \<and>
         (sm_queue (pm_sem p) \<noteq> [] \<longrightarrow> \<not> num_lt (Fin (of_int (sm_current (pm_sem p)))) (max_1 m)) \<and>
         pm_granted p @ sm_queue (pm_sem p) = pm_asked p"
proof -
  have ok: "permits_ok m p" using assms by (rule sem.reachable_inv)
  have "int (length (pm_holders p)) \<le> ceiling (max 1 r)" if "m = Fin r" for r
  proof (cases "pm_holders p")
    case (Cons h hs)
    then have "of_nat (length hs) < max 1 r" using ok that by (simp add: permits_ok_def)
    then have "int (length hs) < ceiling (max 1 r)" by (simp only: less_ceiling_iff of_int_of_nat_eq)
    then show ?thesis using Cons by simp
  qed (simp add: le_ceiling_iff)
  then show ?thesis using ok by (auto simp: permits_ok_def distinct_card)
qed

text \<open>The same setting means two things: with a maximum of zero, which the settings call unlimited, the worker
  pool starts a worker for every item, and the semaphore lets one caller in at a time.
\<close>
theorem unlimited_is_one_at_a_time:
  assumes "reach (permit_init (Fin 0)) permit_step p"
  shows "pool_limit (Fin 0) n = max 1 n \<and> card (set (pm_holders p)) \<le> 1"
proof -
  have "length (pm_holders p) \<le> 1"
    using sem.reachable_inv [OF assms] by (cases "pm_holders p") (auto simp: permits_ok_def)
  then show ?thesis using card_length [of "pm_holders p"] by (simp add: pool_limit_def max_def)
qed

text \<open>Two callers on a semaphore of one permit: the second waits until the first releases.\<close>

definition demo_permits :: "js_number \<Rightarrow> permits" where
  "demo_permits m = \<lparr>pm_sem = \<lparr>sm_max = max_1 m, sm_current = 1, sm_queue = [5]\<rparr>, pm_holders = [4], pm_granted = [4], pm_asked = [4, 5]\<rparr>"

lemma demo_permits_reach: "max_1 m = Fin 1 \<Longrightarrow> reach (permit_init m) permit_step (demo_permits m)"
  by (rule reach_step [where e = "Acquire 5"], rule reach_step [where e = "Acquire 4"], rule reach_init)
    (auto simp: permit_init_def permit_step_simps acquire_def demo_permits_def new_semaphore_def)

theorem semaphore_bounds_and_orders_witness:
  "sm_current (pm_sem (demo_permits (Fin 1))) = int (card (set (pm_holders (demo_permits (Fin 1))))) \<and>
   sm_queue (pm_sem (demo_permits (Fin 1))) = [5]"
  using semaphore_bounds_and_orders [OF demo_permits_reach [of "Fin 1"]] by (simp add: demo_permits_def)

theorem unlimited_is_one_at_a_time_witness:
  "pool_limit (Fin 0) 8 = 8 \<and> card (set (pm_holders (demo_permits (Fin 0)))) \<le> 1 \<and> sm_queue (pm_sem (demo_permits (Fin 0))) = [5]"
  using unlimited_is_one_at_a_time [OF demo_permits_reach [of "Fin 0"], of 8] by (simp add: demo_permits_def)

end
