(* ===== verification/Task_Ids.thy ===== *)
theory Task_Ids
  imports JS_Prelude
begin

text \<open>
  Names of subagent outputs (\<open>task/id.ts\<close>, \<open>task/output-manager.ts\<close>): the identifiers a task may
  have, and the manager that numbers them so that no output of the session overwrites another, also after a
  resume and when calls race for the scan of the directory. File names and ids are char lists; the dot of a
  regular expression excludes the line terminators among them.
\<close>

section \<open>Identifiers\<close>

definition id_start :: "char \<Rightarrow> bool" where
  "id_start c \<longleftrightarrow> is_digit c \<or> (CHR ''a'' \<le> c \<and> c \<le> CHR ''z'') \<or> (CHR ''A'' \<le> c \<and> c \<le> CHR ''Z'')"

definition id_rest :: "char \<Rightarrow> bool" where
  "id_rest c \<longleftrightarrow> id_start c \<or> c = CHR ''_'' \<or> c = CHR ''-''"

fun isValidTaskId :: "string \<Rightarrow> bool" where
  "isValidTaskId [] = False"
| "isValidTaskId (c # cs) = (id_start c \<and> list_all id_rest cs \<and> length cs \<le> 47)"

text \<open>\<open>\\d+-\<close> followed by an identifier.\<close>

definition numbered_id :: "string \<Rightarrow> bool" where
  "numbered_id s \<longleftrightarrow>
     takeWhile is_digit s \<noteq> [] \<and>
     (case dropWhile is_digit s of c # cs \<Rightarrow> c = CHR ''-'' \<and> isValidTaskId cs | [] \<Rightarrow> False)"

definition isValidAllocatedTaskId :: "string \<Rightarrow> bool" where
  "isValidAllocatedTaskId s \<longleftrightarrow> list_all numbered_id (split_on CHR ''.'' s)"

datatype task_id_error = InvalidTaskId string | InvalidAllocatedTaskId string

definition validateTaskId :: "string \<Rightarrow> task_id_error + string" where
  "validateTaskId s = (if isValidTaskId s then Inr s else Inl (InvalidTaskId s))"

definition validateAllocatedTaskId :: "string \<Rightarrow> task_id_error + string" where
  "validateAllocatedTaskId s = (if isValidAllocatedTaskId s then Inr s else Inl (InvalidAllocatedTaskId s))"

section \<open>The output manager\<close>

definition RESERVED_OUTPUT_EXTENSIONS :: "string list" where
  "RESERVED_OUTPUT_EXTENSIONS = [''md'', ''jsonl'', ''patch'']"

definition line_terminator :: "char \<Rightarrow> bool" where
  "line_terminator c \<longleftrightarrow> c = CHR 0x0A \<or> c = CHR 0x0D"

text \<open>The number that the pattern of the scan captures in a file name, if it matches.\<close>

definition ends_with :: "string \<Rightarrow> string \<Rightarrow> bool" where
  "ends_with s e \<longleftrightarrow> starts_with (rev s) (rev e)"

definition scan_tail :: "string \<Rightarrow> nat option" where
  "scan_tail s =
     (case dropWhile is_digit s of
        c # cs \<Rightarrow>
          if takeWhile is_digit s \<noteq> [] \<and> c = CHR ''-'' \<and>
             list_ex (\<lambda>e. ends_with cs (CHR ''.'' # e)) RESERVED_OUTPUT_EXTENSIONS \<and> \<not> list_ex line_terminator cs
          then Some (dec_val (takeWhile is_digit s) 0) else None
      | [] \<Rightarrow> None)"

definition scan_index :: "string \<Rightarrow> string \<Rightarrow> nat option" where
  "scan_index parentPrefix file =
     (if parentPrefix = [] then scan_tail file
      else if starts_with file (parentPrefix @ ''.'') then scan_tail (drop (length parentPrefix + 1) file)
      else None)"

text \<open>The loop over the files with \<open>maxId\<close>, which starts at minus one.\<close>

fun scan_max :: "string \<Rightarrow> int \<Rightarrow> string list \<Rightarrow> int" where
  "scan_max pre maxId [] = maxId"
| "scan_max pre maxId (f # fs) =
     scan_max pre (case scan_index pre f of Some i \<Rightarrow> if maxId < int i then int i else maxId | None \<Rightarrow> maxId) fs"

text \<open>
  The directory as the scan finds it: none configured or not readable is \<open>None\<close>, and leaves the
  counter as it is.
\<close>

definition scanExistingOutputs :: "string \<Rightarrow> string list option \<Rightarrow> nat \<Rightarrow> nat" where
  "scanExistingOutputs pre dir nextId = (case dir of None \<Rightarrow> nextId | Some files \<Rightarrow> nat (scan_max pre (-1) files + 1))"

definition render_id :: "string \<Rightarrow> nat \<Rightarrow> string \<Rightarrow> string" where
  "render_id pre k s = (if pre = [] then [] else pre @ ''.'') @ nat_str k @ ''-'' @ s"

text \<open>The counter moves before the id is validated, so a refused id leaves a gap.\<close>

fun allocate_ids :: "string \<Rightarrow> nat \<Rightarrow> string list \<Rightarrow> (task_id_error + string list) \<times> nat" where
  "allocate_ids pre k [] = (Inr [], k)"
| "allocate_ids pre k (s # ss) =
     (case validateTaskId s of
        Inl e \<Rightarrow> (Inl e, k + 1)
      | Inr v \<Rightarrow> (case allocate_ids pre (k + 1) ss of
          (Inl e, k') \<Rightarrow> (Inl e, k')
        | (Inr xs, k') \<Rightarrow> (Inr (render_id pre k v # xs), k')))"

definition allocateBatch :: "string \<Rightarrow> nat \<Rightarrow> string list \<Rightarrow> (task_id_error + string list) \<times> nat" where
  "allocateBatch pre k ids =
     (if pre = [] then allocate_ids pre k ids
      else case validateAllocatedTaskId pre of Inl e \<Rightarrow> (Inl e, k) | Inr _ \<Rightarrow> allocate_ids pre k ids)"

definition allocate :: "string \<Rightarrow> nat \<Rightarrow> string \<Rightarrow> (task_id_error + string) \<times> nat" where
  "allocate pre k s = (case allocateBatch pre k [s] of (Inl e, k') \<Rightarrow> (Inl e, k') | (Inr xs, k') \<Rightarrow> (Inr (hd xs), k'))"

text \<open>
  The manager with its calls: each waits for the one promise of the scan and runs on, without a further
  await, once the scan is done. \<open>om_given\<close> collects the ids that calls returned and
  \<open>om_files\<close> what the scan found.
\<close>

datatype init_promise = Unset | Scanning | Scanned

record output_manager =
  om_nextId :: nat
  om_init :: init_promise
  om_waiting :: "string list list"
  om_given :: "string list"
  om_files :: "string list option"

definition new_output_manager :: output_manager where
  "new_output_manager = \<lparr>om_nextId = 0, om_init = Unset, om_waiting = [], om_given = [], om_files = None\<rparr>"

definition ensureInitialized :: "output_manager \<Rightarrow> output_manager" where
  "ensureInitialized m = (if om_init m = Unset then m\<lparr>om_init := Scanning\<rparr> else m)"

definition call_begins :: "string list \<Rightarrow> output_manager \<Rightarrow> output_manager" where
  "call_begins ids m = (let m' = ensureInitialized m in m'\<lparr>om_waiting := om_waiting m' @ [ids]\<rparr>)"

definition scan_ends :: "string \<Rightarrow> string list option \<Rightarrow> output_manager \<Rightarrow> output_manager" where
  "scan_ends pre dir m = m\<lparr>om_nextId := scanExistingOutputs pre dir (om_nextId m), om_init := Scanned, om_files := dir\<rparr>"

definition call_resumes :: "string \<Rightarrow> nat \<Rightarrow> output_manager \<Rightarrow> output_manager" where
  "call_resumes pre w m =
     (let (res, k) = allocateBatch pre (om_nextId m) (om_waiting m ! w);
          rest = take w (om_waiting m) @ drop (Suc w) (om_waiting m)
      in m\<lparr>om_nextId := k, om_waiting := rest,
            om_given := om_given m @ (case res of Inl _ \<Rightarrow> [] | Inr xs \<Rightarrow> xs)\<rparr>)"

datatype om_event = CallBegins "string list" | ScanEnds "string list option" | CallResumes nat

inductive om_step :: "string \<Rightarrow> output_manager \<Rightarrow> om_event \<Rightarrow> output_manager \<Rightarrow> bool" for pre where
  begins: "om_step pre m (CallBegins ids) (call_begins ids m)"
| scanned: "om_init m = Scanning \<Longrightarrow> om_step pre m (ScanEnds dir) (scan_ends pre dir m)"
| resumes: "om_init m = Scanned \<Longrightarrow> w < length (om_waiting m) \<Longrightarrow> om_step pre m (CallResumes w) (call_resumes pre w m)"

inductive_simps om_step_simps:
  "om_step pre m (CallBegins ids) q"
  "om_step pre m (ScanEnds dir) q"
  "om_step pre m (CallResumes w) q"

definition reset :: "output_manager \<Rightarrow> output_manager" where
  "reset m = m\<lparr>om_nextId := 0, om_init := Unset\<rparr>"

section \<open>Reading an id back\<close>

lemma id_rest_facts:
  "id_start c \<Longrightarrow> id_rest c" "id_rest c \<Longrightarrow> c \<noteq> CHR ''.'' \<and> \<not> line_terminator c" "is_digit c \<Longrightarrow> id_start c" "\<not> is_digit CHR ''-''"
  by (auto simp: id_rest_def id_start_def is_digit_of_char line_terminator_def less_eq_char_def)

lemma valid_id_chars: "isValidTaskId s \<Longrightarrow> list_all id_rest s"
  by (cases s) (auto simp: id_rest_facts)

lemma digits_then_dash:
  "takeWhile is_digit (nat_str k @ CHR ''-'' # s) = nat_str k" "dropWhile is_digit (nat_str k @ CHR ''-'' # s) = CHR ''-'' # s"
  using nat_str_digits [of k] by (simp_all add: takeWhile_append2 dropWhile_append2 list_all_iff id_rest_facts(4))

lemma numbered_id_render: "numbered_id (nat_str k @ CHR ''-'' # s) \<longleftrightarrow> isValidTaskId s"
  by (simp add: numbered_id_def digits_then_dash)

lemma nat_str_dash_inj: "nat_str k @ CHR ''-'' # s = nat_str j @ CHR ''-'' # t \<Longrightarrow> k = j \<and> s = t"
  by (metis dec_val_nat_str digits_then_dash list.inject)

lemma numbered_no_dot: "isValidTaskId s \<Longrightarrow> CHR ''.'' \<notin> set (nat_str k @ CHR ''-'' # s)"
  using nat_str_digits [of k] valid_id_chars [of s] by (auto simp: list_all_iff dest: id_rest_facts(1-3))

lemma split_on_no: "d \<notin> set s \<Longrightarrow> split_on d s = [s]"
  by (induction s) auto

lemma split_on_nonempty [simp]: "split_on d s \<noteq> []"
  by (induction s) (auto split: list.splits)

lemma split_on_append: "split_on d (s @ d # t) = split_on d s @ split_on d t"
proof (induction s)
  case (Cons c s)
  obtain x xs where x: "split_on d s = x # xs" using split_on_nonempty by (metis list.exhaust)
  show ?case using Cons.IH by (simp add: x)
qed simp

lemma split_render:
  assumes "isValidTaskId s"
  shows "split_on CHR ''.'' (render_id pre k s) =
    (if pre = [] then [] else split_on CHR ''.'' pre) @ [nat_str k @ CHR ''-'' # s]"
  using split_on_no [OF numbered_no_dot [OF assms, of k]] by (simp add: render_id_def split_on_append)

lemma render_valid: "isValidTaskId s \<Longrightarrow> pre = [] \<or> isValidAllocatedTaskId pre \<Longrightarrow> isValidAllocatedTaskId (render_id pre k s)"
  by (auto simp: isValidAllocatedTaskId_def split_render numbered_id_render)

lemma join_split_on: "join [d] (split_on d s) = s"
proof (induction s)
  case (Cons c s)
  obtain x xs where x: "split_on d s = x # xs" using split_on_nonempty by (metis list.exhaust)
  then show ?case using Cons.IH by (cases xs) auto
qed simp

lemma render_inj:
  assumes "isValidTaskId s" "isValidTaskId t" "render_id pre k s = render_id pre' j t"
  shows "pre = pre' \<and> k = j \<and> s = t"
proof -
  let ?parts = "\<lambda>p. if p = [] then [] else split_on CHR ''.'' p"
  have "?parts pre @ [nat_str k @ CHR ''-'' # s] = ?parts pre' @ [nat_str j @ CHR ''-'' # t]"
    using split_render [OF assms(1), of pre k] split_render [OF assms(2), of pre' j] assms(3) by simp
  then have parts: "?parts pre = ?parts pre'" and last: "nat_str k @ CHR ''-'' # s = nat_str j @ CHR ''-'' # t" by simp_all
  have whole: "join ''.'' (?parts p) = p" for p by (simp add: join_split_on)
  have "pre = pre'" using arg_cong [OF parts, of "join ''.''"] unfolding whole .
  then show ?thesis using nat_str_dash_inj [OF last] by simp
qed

text \<open>
  A valid id names its parent, its index and its task: the ids of two managers with different prefixes, or
  of two indices or tasks of one, are never the same.
\<close>

lemma scan_index_render:
  assumes "isValidTaskId s" "e \<in> set RESERVED_OUTPUT_EXTENSIONS"
  shows "scan_index pre (render_id pre k s @ ''.'' @ e) = Some k"
proof -
  have tail: "scan_tail (nat_str k @ CHR ''-'' # s @ CHR ''.'' # e) = Some k"
  proof -
    have "\<not> list_ex line_terminator s" using valid_id_chars [OF assms(1)] by (auto simp: list_ex_iff list_all_iff dest: id_rest_facts(2))
    moreover have "\<not> list_ex line_terminator e" using assms(2) by (auto simp: RESERVED_OUTPUT_EXTENSIONS_def line_terminator_def)
    moreover have "ends_with (s @ CHR ''.'' # e) (CHR ''.'' # e)" by (simp add: ends_with_def starts_with_def)
    ultimately show ?thesis
      using assms(2) unfolding scan_tail_def digits_then_dash
      by (auto simp: dec_val_nat_str list_ex_iff line_terminator_def)
  qed
  show ?thesis
  proof (cases "pre = []")
    case False
    have "render_id pre k s @ ''.'' @ e = (pre @ ''.'') @ nat_str k @ CHR ''-'' # s @ CHR ''.'' # e" using False by (simp add: render_id_def)
    then show ?thesis using False tail by (simp add: scan_index_def starts_with_def)
  qed (simp add: scan_index_def render_id_def tail)
qed

lemma scan_max_mono: "x \<le> scan_max pre x fs"
proof (induction fs arbitrary: x)
  case (Cons f fs)
  show ?case using Cons.IH [of "case scan_index pre f of Some i \<Rightarrow> if x < int i then int i else x | None \<Rightarrow> x"]
    by (auto split: option.splits if_splits)
qed simp

lemma scan_max_bound: "f \<in> set fs \<Longrightarrow> scan_index pre f = Some i \<Longrightarrow> int i \<le> scan_max pre x fs"
proof (induction fs arbitrary: x)
  case (Cons g fs)
  then show ?case
    using scan_max_mono [of "if x < int i then int i else x" pre fs] by (auto split: option.splits if_splits)
qed simp

text \<open>A number at or past the scanned one names no file of the directory.\<close>

lemma scanned_is_fresh:
  assumes "isValidTaskId s" "e \<in> set RESERVED_OUTPUT_EXTENSIONS" "scanExistingOutputs pre (Some files) n0 \<le> k"
  shows "render_id pre k s @ ''.'' @ e \<notin> set files"
  using scan_max_bound [OF _ scan_index_render [OF assms(1,2)], of pre k files "-1"] assms(3) by (fastforce simp: scanExistingOutputs_def)

section \<open>Racing calls\<close>

lemma allocate_ids_spec:
  "allocate_ids pre k ss = (res, k') \<Longrightarrow>
     k \<le> k' \<and> (\<forall>xs. res = Inr xs \<longrightarrow> k' = k + length ss \<and> list_all isValidTaskId ss \<and> xs = map2 (render_id pre) [k..<k'] ss)"
proof (induction ss arbitrary: k res k')
  case (Cons s ss)
  show ?case
  proof (cases "isValidTaskId s")
    case True
    obtain r j where r: "allocate_ids pre (k + 1) ss = (r, j)" by fastforce
    then show ?thesis using True Cons.IH [OF r] Cons.prems by (auto simp: validateTaskId_def upt_conv_Cons split: sum.splits)
  next
    case False
    then show ?thesis using Cons.prems by (auto simp: validateTaskId_def)
  qed
qed simp

lemma allocateBatch_spec:
  assumes "allocateBatch pre k ss = (res, k')"
  shows "k \<le> k'" "res = Inr xs \<Longrightarrow> k' = k + length ss \<and> list_all isValidTaskId ss \<and> xs = map2 (render_id pre) [k..<k'] ss"
    "res = Inr xs \<Longrightarrow> pre = [] \<or> isValidAllocatedTaskId pre"
  using assms allocate_ids_spec [of pre k ss res k'] by (auto simp: allocateBatch_def validateAllocatedTaskId_def split: if_splits)

definition given_ok :: "string \<Rightarrow> nat \<Rightarrow> nat \<Rightarrow> string list \<Rightarrow> bool" where
  "given_ok pre low high xs \<longleftrightarrow>
     low \<le> high \<and> (xs \<noteq> [] \<longrightarrow> pre = [] \<or> isValidAllocatedTaskId pre) \<and> distinct xs \<and>
     (\<forall>x\<in>set xs. \<exists>k s. x = render_id pre k s \<and> low \<le> k \<and> k < high \<and> isValidTaskId s)"

lemma batch_given_ok:
  assumes "allocateBatch pre k ss = (Inr xs, k')"
  shows "given_ok pre k k' xs"
proof -
  note sp = allocateBatch_spec(1) [OF assms] allocateBatch_spec(2,3) [OF assms refl]
  have xs: "xs = map2 (render_id pre) [k..<k'] ss" "k' = k + length ss" "list_all isValidTaskId ss" using sp(2) by simp_all
  have nth: "i < length ss \<Longrightarrow> xs ! i = render_id pre (k + i) (ss ! i)" for i using xs by simp
  have len: "length xs = length ss" using xs by simp
  have v: "i < length ss \<Longrightarrow> isValidTaskId (ss ! i)" for i using xs(3) by (simp add: list_all_length)
  have "distinct xs" unfolding distinct_conv_nth len
  proof (intro allI impI)
    show "xs ! i \<noteq> xs ! j" if "i < length ss" "j < length ss" "i \<noteq> j" for i j
      using render_inj [OF v [OF that(1)] v [OF that(2)], of pre "k + i" pre "k + j"] nth that by auto
  qed
  moreover have "\<exists>j s. x = render_id pre j s \<and> k \<le> j \<and> j < k' \<and> isValidTaskId s" if x: "x \<in> set xs" for x
  proof -
    obtain i where "i < length ss" "x = xs ! i" using x by (auto simp: in_set_conv_nth len)
    then have "x = render_id pre (k + i) (ss ! i)" "k + i < k'" "isValidTaskId (ss ! i)" using nth v xs(2) by simp_all
    then show ?thesis using le_add1 by blast
  qed
  ultimately show ?thesis using sp by (simp add: given_ok_def)
qed

lemma given_ok_append:
  assumes "given_ok pre low k xs" "given_ok pre k high ys"
  shows "given_ok pre low high (xs @ ys)"
proof -
  have "x \<notin> set ys" if "x \<in> set xs" for x
  proof
    assume "x \<in> set ys"
    then obtain j t where y: "x = render_id pre j t" "k \<le> j" "isValidTaskId t" using assms(2) by (auto simp: given_ok_def)
    obtain i s where x: "x = render_id pre i s" "i < k" "isValidTaskId s" using assms(1) \<open>x \<in> set xs\<close> by (auto simp: given_ok_def)
    show False using render_inj [of s t pre i pre j] x y by simp
  qed
  then show ?thesis using assms by (auto simp: given_ok_def) (meson le_trans less_le_trans)+
qed

lemma given_ok_widen: "given_ok pre low k xs \<Longrightarrow> k \<le> high \<Longrightarrow> given_ok pre low high xs"
  unfolding given_ok_def by (meson le_trans less_le_trans)

definition om_ok :: "string \<Rightarrow> output_manager \<Rightarrow> bool" where
  "om_ok pre m \<longleftrightarrow>
     (om_init m \<noteq> Scanned \<longrightarrow> om_given m = [] \<and> om_nextId m = 0 \<and> om_files m = None) \<and>
     given_ok pre (scanExistingOutputs pre (om_files m) 0) (om_nextId m) (om_given m)"

lemma call_resume_ok:
  assumes "om_ok pre m" "om_init m = Scanned"
  shows "om_ok pre (call_resumes pre w m)"
proof -
  obtain res k where r: "allocateBatch pre (om_nextId m) (om_waiting m ! w) = (res, k)" by fastforce
  have g: "given_ok pre (scanExistingOutputs pre (om_files m) 0) (om_nextId m) (om_given m)" using assms by (simp add: om_ok_def)
  show ?thesis
  proof (cases res)
    case (Inl e)
    then show ?thesis using given_ok_widen [OF g allocateBatch_spec(1) [OF r]] assms(2) by (simp add: call_resumes_def om_ok_def r)
  next
    case (Inr xs)
    then show ?thesis using given_ok_append [OF g batch_given_ok] r assms(2) by (simp add: call_resumes_def om_ok_def)
  qed
qed

lemma om_step_ok: "om_ok pre m \<Longrightarrow> om_step pre m ev q \<Longrightarrow> om_ok pre q"
  by (erule om_step.cases)
    (auto simp: call_resume_ok, auto simp: om_ok_def call_begins_def ensureInitialized_def scan_ends_def Let_def given_ok_def)

lemma new_output_manager_ok: "m = new_output_manager \<Longrightarrow> om_ok pre m"
  by (simp add: new_output_manager_def om_ok_def given_ok_def scanExistingOutputs_def)

interpretation om: machine_invariant "\<lambda>m. m = new_output_manager" "om_step pre" "om_ok pre" for pre
  by unfold_locales (rule new_output_manager_ok om_step_ok; assumption)+

text \<open>C24.
  Whatever the order in which calls begin, the scan ends and calls go on, the ids that an output manager
  gives out are valid and pairwise different, and none of their output files is in the directory that the
  scan found: a resumed session overwrites no earlier output.
\<close>
theorem output_ids_never_clash:
  assumes "reach (\<lambda>m. m = new_output_manager) (om_step pre) m"
  shows "distinct (om_given m) \<and>
         (\<forall>x\<in>set (om_given m). isValidAllocatedTaskId x \<and>
            (\<forall>files. om_files m = Some files \<longrightarrow> (\<forall>e\<in>set RESERVED_OUTPUT_EXTENSIONS. x @ ''.'' @ e \<notin> set files)))"
proof -
  have g: "given_ok pre (scanExistingOutputs pre (om_files m) 0) (om_nextId m) (om_given m)"
    using om.reachable_inv [OF assms] by (simp add: om_ok_def)
  have "isValidAllocatedTaskId x \<and>
      (\<forall>files. om_files m = Some files \<longrightarrow> (\<forall>e\<in>set RESERVED_OUTPUT_EXTENSIONS. x @ ''.'' @ e \<notin> set files))"
    if x: "x \<in> set (om_given m)" for x
  proof -
    obtain k s where s: "x = render_id pre k s" "scanExistingOutputs pre (om_files m) 0 \<le> k" "isValidTaskId s"
      using g x by (auto simp: given_ok_def)
    have "pre = [] \<or> isValidAllocatedTaskId pre" using g x by (auto simp: given_ok_def)
    then show ?thesis using s render_valid scanned_is_fresh [OF s(3)] by auto
  qed
  then show ?thesis using g by (auto simp: given_ok_def)
qed

text \<open>
  An allocated id determines the id of its parent, its number and the task it was asked for, so the outputs
  of a task and of the tasks it starts never share a name.
\<close>
theorem allocated_id_is_unambiguous:
  assumes "allocate pre k s = (Inr x, k')" "allocate pre' j t = (Inr x, j')"
  shows "pre = pre' \<and> k = j \<and> s = t"
proof -
  have "x = render_id p i u \<and> isValidTaskId u" if "allocate p i u = (Inr x, i')" for p i u i'
    using that allocateBatch_spec(2) [of p i "[u]"] by (auto simp: allocate_def split: prod.splits sum.splits)
  then show ?thesis using assms render_inj by metis
qed

text \<open>Two calls that begin before the scan has ended, in a directory with an earlier output.\<close>

definition demo_scanned :: output_manager where
  "demo_scanned = scan_ends [] (Some [''0-A.md'', ''notes'']) (call_begins [''B''] (call_begins [''A''] new_output_manager))"

definition demo_manager :: output_manager where
  "demo_manager = call_resumes [] 0 (call_resumes [] 1 demo_scanned)"

lemma demo_values:
  "om_init (call_begins [''B''] (call_begins [''A''] new_output_manager)) = Scanning"
  "om_init demo_scanned = Scanned" "1 < length (om_waiting demo_scanned)"
  "om_init (call_resumes [] 1 demo_scanned) = Scanned" "0 < length (om_waiting (call_resumes [] 1 demo_scanned))"
  "om_given demo_manager = [''1-B'', ''2-A'']" "om_files demo_manager = Some [''0-A.md'', ''notes'']"
  by code_simp+

lemma demo_manager_reach: "reach (\<lambda>m. m = new_output_manager) (om_step []) demo_manager"
proof -
  have "reach (\<lambda>m. m = new_output_manager) (om_step []) (call_begins [''B''] (call_begins [''A''] new_output_manager))"
    by (rule reach_step, rule reach_step, rule reach_init, rule refl) (rule om_step.begins)+
  then have "reach (\<lambda>m. m = new_output_manager) (om_step []) demo_scanned"
    unfolding demo_scanned_def by (rule reach_step) (rule om_step.scanned, rule demo_values)
  then have "reach (\<lambda>m. m = new_output_manager) (om_step []) (call_resumes [] 1 demo_scanned)"
    by (rule reach_step) (rule om_step.resumes; rule demo_values)
  then show ?thesis unfolding demo_manager_def by (rule reach_step) (rule om_step.resumes; rule demo_values)
qed

theorem output_ids_never_clash_witness:
  "om_given demo_manager = [''1-B'', ''2-A''] \<and> isValidAllocatedTaskId ''1-B'' \<and> ''1-B.md'' \<notin> {''0-A.md'', ''notes''}"
  using output_ids_never_clash [OF demo_manager_reach] by (simp add: demo_values RESERVED_OUTPUT_EXTENSIONS_def)

theorem allocated_id_is_unambiguous_witness:
  "allocate ''0-A'' 1 ''B'' = (Inr ''0-A.1-B'', 2) \<and> (''0-A'', 1::nat, ''B'') = (''0-A'', 1, ''B'')"
proof -
  have a: "allocate ''0-A'' 1 ''B'' = (Inr ''0-A.1-B'', 2)" by code_simp
  show ?thesis using a allocated_id_is_unambiguous [OF a a] by simp
qed

end
