(* ===== verification/Fallback_Chain.thy ===== *)
theory Fallback_Chain
  imports JS_Prelude
begin

text \<open>
  The model fallback chain of a session (\<open>session/fallback-chain-controller.ts\<close>): an ordered list of
  model selectors, a budget of attempts for each and one for the whole chain, and the answer to a failed
  attempt: retry, advance to the next model, stop or give up. Counters are natural numbers, whose
  subtraction stops at zero as \<open>Math.max (0, x - 1)\<close> does. \<open>failed_attempt\<close> is what the session
  does around a managed request (\<open>agent-session.ts\<close>, the lines on
  \<open>restorePreviousEntryForRetry\<close>): start, fail, and one restored attempt after a credential was rotated.
\<close>

section \<open>State\<close>

datatype trigger_class = RateLimit | Quota | Auth | Server | Unknown | Other

datatype failure_result = Retry | Advance | Stop | Exhausted

record fallback_controller =
  fc_entries :: "string list"
  fc_maxAttempts :: nat
  fc_activeIndex :: nat
  fc_attemptsUsed :: nat
  fc_tried :: "(string \<times> trigger_class \<times> string) list"
  fc_attemptStarted :: bool
  fc_totalAttemptsUsed :: nat
  fc_restored :: "nat list"
  fc_skips :: "(string \<times> string) list"
  fc_exhausted :: bool
  fc_sessionBudget :: bool

definition new_fallback_controller :: "string list \<Rightarrow> js_number \<Rightarrow> string + fallback_controller" where
  "new_fallback_controller entries maxAttempts =
     (if \<not> is_integer maxAttempts \<or> num_lt maxAttempts (Fin 1) then Inl ''fallback.maxAttempts must be a positive integer''
      else Inr \<lparr>fc_entries = entries, fc_maxAttempts = (case maxAttempts of Fin r \<Rightarrow> nat (floor r) | _ \<Rightarrow> 0), fc_activeIndex = 0,
        fc_attemptsUsed = 0, fc_tried = [], fc_attemptStarted = False, fc_totalAttemptsUsed = 0, fc_restored = [], fc_skips = [],
        fc_exhausted = (entries = []), fc_sessionBudget = False\<rparr>)"

definition maxTotalAttempts :: "fallback_controller \<Rightarrow> nat" where
  "maxTotalAttempts c = fc_maxAttempts c * length (fc_entries c) + length (fc_restored c)"

text \<open>The selector at the cursor; an empty one is as absent.\<close>

definition currentSelector :: "fallback_controller \<Rightarrow> string option" where
  "currentSelector c =
     (if fc_activeIndex c < length (fc_entries c) \<and> fc_entries c ! fc_activeIndex c \<noteq> []
      then Some (fc_entries c ! fc_activeIndex c) else None)"

section \<open>Operations\<close>

definition give_up :: "fallback_controller \<Rightarrow> fallback_controller" where
  "give_up c = c\<lparr>fc_activeIndex := length (fc_entries c), fc_exhausted := True\<rparr>"

definition advance :: "fallback_controller \<Rightarrow> bool \<times> fallback_controller" where
  "advance c =
     (if fc_exhausted c then (False, c)
      else let c' = c\<lparr>fc_activeIndex := fc_activeIndex c + 1, fc_attemptsUsed := 0, fc_attemptStarted := False\<rparr>
           in if length (fc_entries c) \<le> fc_activeIndex c' then (False, c'\<lparr>fc_exhausted := True\<rparr>) else (True, c'))"

definition onResolutionSkip :: "string \<Rightarrow> fallback_controller \<Rightarrow> bool \<times> fallback_controller" where
  "onResolutionSkip reason c =
     advance (case currentSelector c of None \<Rightarrow> c | Some s \<Rightarrow> c\<lparr>fc_skips := fc_skips c @ [(s, reason)]\<rparr>)"

definition onAttemptStarted :: "fallback_controller \<Rightarrow> fallback_controller" where
  "onAttemptStarted c =
     (if currentSelector c = None \<or> fc_exhausted c then c
      else if maxTotalAttempts c \<le> fc_totalAttemptsUsed c then give_up c
      else c\<lparr>fc_attemptsUsed := fc_attemptsUsed c + 1, fc_totalAttemptsUsed := fc_totalAttemptsUsed c + 1,
             fc_attemptStarted := True\<rparr>)"

definition discardStartedAttempt :: "fallback_controller \<Rightarrow> fallback_controller" where
  "discardStartedAttempt c =
     (if \<not> fc_attemptStarted c then c
      else c\<lparr>fc_attemptsUsed := fc_attemptsUsed c - 1, fc_totalAttemptsUsed := fc_totalAttemptsUsed c - 1,
             fc_attemptStarted := False\<rparr>)"

definition resetAttemptBudget :: "fallback_controller \<Rightarrow> fallback_controller" where
  "resetAttemptBudget c =
     c\<lparr>fc_attemptsUsed := 0, fc_totalAttemptsUsed := 0, fc_tried := [], fc_restored := [], fc_attemptStarted := False\<rparr>"

definition seedResolution :: "int \<Rightarrow> (string \<times> string) list \<Rightarrow> fallback_controller \<Rightarrow> fallback_controller" where
  "seedResolution activeIndex skips c =
     (let i = nat (min (max 0 activeIndex) (int (length (fc_entries c))))
      in c\<lparr>fc_activeIndex := i, fc_skips := skips, fc_attemptsUsed := 0, fc_totalAttemptsUsed := 0, fc_restored := [],
           fc_attemptStarted := False, fc_exhausted := (length (fc_entries c) \<le> i)\<rparr>)"

definition advance_result :: "fallback_controller \<Rightarrow> failure_result \<times> fallback_controller" where
  "advance_result c = (let (ok, c') = advance c in (if ok then Advance else Exhausted, c'))"

text \<open>The failed attempt as it is recorded: charged unless it was when it started.\<close>

definition charge_failure :: "string \<Rightarrow> trigger_class \<Rightarrow> string \<Rightarrow> fallback_controller \<Rightarrow> fallback_controller" where
  "charge_failure selector cls reason c =
     (let k = (if fc_attemptStarted c then 0 else 1)
      in c\<lparr>fc_attemptsUsed := fc_attemptsUsed c + k, fc_totalAttemptsUsed := fc_totalAttemptsUsed c + k,
           fc_attemptStarted := False, fc_tried := fc_tried c @ [(selector, cls, reason)]\<rparr>)"

definition onAttemptFailure ::
  "trigger_class \<Rightarrow> string \<Rightarrow> bool \<Rightarrow> fallback_controller \<Rightarrow> failure_result \<times> fallback_controller" where
  "onAttemptFailure cls reason credentialRotated c0 =
     (case currentSelector c0 of
        None \<Rightarrow> (Exhausted, c0)
      | Some selector \<Rightarrow>
          if fc_exhausted c0 then (Exhausted, c0)
          else let c = charge_failure selector cls reason c0
               in if fc_sessionBudget c \<and> (cls = Server \<or> cls = RateLimit)
                  then (Retry, c\<lparr>fc_attemptsUsed := fc_attemptsUsed c - 1, fc_totalAttemptsUsed := fc_totalAttemptsUsed c - 1\<rparr>)
                  else if maxTotalAttempts c \<le> fc_totalAttemptsUsed c then (Exhausted, give_up c)
                  else if cls = Quota
                  then (if credentialRotated \<and> fc_attemptsUsed c < fc_maxAttempts c then (Retry, c) else advance_result c)
                  else if fc_attemptsUsed c < fc_maxAttempts c then (Retry, c)
                  else if cls = Auth then advance_result c
                  else (Stop, resetAttemptBudget c))"

definition restorePreviousEntryForRetry :: "fallback_controller \<Rightarrow> bool \<times> fallback_controller" where
  "restorePreviousEntryForRetry c =
     (let previousIndex = int (fc_activeIndex c) - 1
      in if previousIndex < 0 \<or> fc_exhausted c \<or> nat previousIndex \<in> set (fc_restored c) \<or>
            maxTotalAttempts c \<le> fc_totalAttemptsUsed c
         then (False, c)
         else (True, c\<lparr>fc_restored := fc_restored c @ [nat previousIndex], fc_activeIndex := nat previousIndex,
                       fc_attemptsUsed := fc_maxAttempts c - 1, fc_exhausted := False, fc_attemptStarted := False\<rparr>))"

definition resetSticky :: "fallback_controller \<Rightarrow> fallback_controller" where
  "resetSticky c =
     c\<lparr>fc_activeIndex := 0, fc_attemptsUsed := 0, fc_totalAttemptsUsed := 0, fc_tried := [], fc_restored := [], fc_skips := [],
       fc_exhausted := (fc_entries c = []), fc_attemptStarted := False\<rparr>"

text \<open>One managed request that fails, as the session plays it.\<close>

definition failed_attempt :: "trigger_class \<Rightarrow> string \<Rightarrow> bool \<Rightarrow> fallback_controller \<Rightarrow> failure_result \<times> fallback_controller" where
  "failed_attempt cls reason credentialRotated c =
     (let (res, c1) = onAttemptFailure cls reason credentialRotated (onAttemptStarted c)
      in if credentialRotated \<and> res = Advance
         then let (ok, c2) = restorePreviousEntryForRetry c1 in (if ok then Retry else Advance, c2)
         else (res, c1))"

section \<open>Delays\<close>

text \<open>
  In milliseconds, as exact numbers; \<open>random\<close> is the number that the generator returns. The overflow
  of a power to infinity is not modelled.
\<close>

definition cappedExponentialWithFullJitter :: "rat \<Rightarrow> rat \<Rightarrow> int \<Rightarrow> rat \<Rightarrow> int" where
  "cappedExponentialWithFullJitter baseDelayMs maxDelayMs attemptK random =
     (let exponential = baseDelayMs * 2 ^ nat (max 0 (attemptK - 1));
          cap = (if 0 < maxDelayMs then min exponential maxDelayMs else exponential)
      in floor (max 0 cap * max 0 (min 1 random)))"

definition compactionRetryDelay :: "rat \<Rightarrow> rat \<Rightarrow> int \<Rightarrow> js_number option \<Rightarrow> rat" where
  "compactionRetryDelay baseDelayMs maxDelayMs attempt retryAfterMs =
     (let exponential = baseDelayMs * 2 ^ nat (max 0 attempt);
          hint = (case retryAfterMs of Some (Fin r) \<Rightarrow> max 0 r | _ \<Rightarrow> 0);
          hinted = max exponential hint;
          bounded = (if 0 < maxDelayMs then min hinted maxDelayMs else hinted)
      in max 0 bounded)"

definition effectiveFallbackDelay :: "rat \<Rightarrow> rat \<Rightarrow> int \<Rightarrow> rat option \<Rightarrow> rat \<Rightarrow> rat" where
  "effectiveFallbackDelay baseDelayMs maxDelayMs attemptK retryAfterMs random =
     max (of_int (cappedExponentialWithFullJitter baseDelayMs maxDelayMs attemptK random))
         (case retryAfterMs of None \<Rightarrow> 0 | Some r \<Rightarrow> r)"

section \<open>The reserve of the entries that follow\<close>

text \<open>
  Between two requests, what was used of the total is covered by the entries passed, the attempts of the
  current one and the restored attempts: the rest of the chain has its full budget.
\<close>

definition chain_ok :: "fallback_controller \<Rightarrow> bool" where
  "chain_ok c \<longleftrightarrow>
     1 \<le> fc_maxAttempts c \<and> fc_activeIndex c \<le> length (fc_entries c) \<and>
     (fc_exhausted c \<longleftrightarrow> fc_activeIndex c = length (fc_entries c)) \<and>
     distinct (fc_restored c) \<and> set (fc_restored c) \<subseteq> {..<length (fc_entries c) - 1} \<and>
     (\<not> fc_exhausted c \<longrightarrow>
        \<not> fc_attemptStarted c \<and> fc_attemptsUsed c < fc_maxAttempts c \<and>
        fc_totalAttemptsUsed c \<le> fc_maxAttempts c * fc_activeIndex c + fc_attemptsUsed c + length (fc_restored c))"

lemma reserve_step: "a < (n::nat) \<Longrightarrow> m * a + m \<le> m * n"
  by (metis Suc_leI mult_Suc_right mult_le_mono2 add.commute)

lemma maxTotal_reserve:
  assumes "chain_ok c" "\<not> fc_exhausted c"
  shows "fc_totalAttemptsUsed c < maxTotalAttempts c"
proof -
  have "fc_activeIndex c < length (fc_entries c)" using assms by (auto simp: chain_ok_def)
  from reserve_step [OF this, of "fc_maxAttempts c"] show ?thesis using assms by (simp add: chain_ok_def maxTotalAttempts_def)
qed

lemma advance_ok:
  assumes "1 \<le> fc_maxAttempts c" "\<not> fc_exhausted c" "fc_activeIndex c < length (fc_entries c)"
    and "distinct (fc_restored c)" "set (fc_restored c) \<subseteq> {..<length (fc_entries c) - 1}" "fc_attemptsUsed c \<le> fc_maxAttempts c"
    and "fc_totalAttemptsUsed c \<le> fc_maxAttempts c * fc_activeIndex c + fc_attemptsUsed c + length (fc_restored c)"
  shows "chain_ok (snd (advance c))"
  using assms by (auto simp: advance_def chain_ok_def Let_def)

lemma snd_advance_result: "snd (advance_result c) = snd (advance c)"
  by (simp add: advance_result_def split: prod.splits)

text \<open>A started request, as it is when its failure comes in.\<close>

definition started :: "fallback_controller \<Rightarrow> fallback_controller" where
  "started c = c\<lparr>fc_attemptsUsed := fc_attemptsUsed c + 1, fc_totalAttemptsUsed := fc_totalAttemptsUsed c + 1, fc_attemptStarted := True\<rparr>"

lemma onAttemptStarted_ok:
  "chain_ok c \<Longrightarrow> \<not> fc_exhausted c \<Longrightarrow> onAttemptStarted c = (if currentSelector c = None then c else started c)"
  using maxTotal_reserve [of c] by (simp add: onAttemptStarted_def started_def)

lemma currentSelector_started [simp]: "currentSelector (started c) = currentSelector c"
  by (simp add: started_def currentSelector_def)

definition recorded :: "string \<Rightarrow> trigger_class \<Rightarrow> string \<Rightarrow> fallback_controller \<Rightarrow> fallback_controller" where
  "recorded selector cls reason c =
     c\<lparr>fc_attemptsUsed := fc_attemptsUsed c + 1, fc_totalAttemptsUsed := fc_totalAttemptsUsed c + 1,
       fc_tried := fc_tried c @ [(selector, cls, reason)], fc_attemptStarted := False\<rparr>"

lemma charge_started: "charge_failure selector cls reason (started c) = recorded selector cls reason c"
  by (simp add: charge_failure_def started_def recorded_def)

lemma recorded_sel:
  "fc_attemptsUsed (recorded s cls reason c) = fc_attemptsUsed c + 1"
  "fc_totalAttemptsUsed (recorded s cls reason c) = fc_totalAttemptsUsed c + 1"
  "fc_maxAttempts (recorded s cls reason c) = fc_maxAttempts c"
  "fc_sessionBudget (recorded s cls reason c) = fc_sessionBudget c"
  "maxTotalAttempts (recorded s cls reason c) = maxTotalAttempts c"
  by (simp_all add: recorded_def maxTotalAttempts_def)

lemmas fc_defs = chain_ok_def maxTotalAttempts_def advance_def advance_result_def give_up_def resetAttemptBudget_def recorded_def Let_def

lemma failure_ok:
  assumes ok: "chain_ok c" "\<not> fc_exhausted c" "currentSelector c = Some s"
    and f: "onAttemptFailure cls reason rot (started c) = (res, c')"
  shows "chain_ok c'" "res = Exhausted \<Longrightarrow> fc_activeIndex c = length (fc_entries c) - 1 \<and> (cls = Quota \<or> fc_attemptsUsed c + 1 = fc_maxAttempts c)"
    "res = Advance \<Longrightarrow> fc_activeIndex c' = fc_activeIndex c + 1 \<and> fc_attemptsUsed c' = 0 \<and> \<not> fc_exhausted c'"
    "res \<noteq> Stop \<Longrightarrow> \<not> (fc_sessionBudget c \<and> (cls = Server \<or> cls = RateLimit)) \<Longrightarrow>
       fc_totalAttemptsUsed c' = fc_totalAttemptsUsed c + 1"
    "fc_entries c' = fc_entries c" "fc_maxAttempts c' = fc_maxAttempts c" "fc_sessionBudget c' = fc_sessionBudget c"
    "res \<noteq> Exhausted \<Longrightarrow> \<not> fc_exhausted c'"
proof -
  let ?r = "recorded s cls reason c"
  have a: "fc_activeIndex c < length (fc_entries c)" using ok by (auto simp: chain_ok_def)
  note reserve = reserve_step [OF a, of "fc_maxAttempts c"]
  have e: "\<not> fc_exhausted (started c)" "fc_sessionBudget (started c) = fc_sessionBudget c" using ok(2) by (simp_all add: started_def)
  have f': "(res, c') =
      (if fc_sessionBudget c \<and> (cls = Server \<or> cls = RateLimit)
       then (Retry, ?r\<lparr>fc_attemptsUsed := fc_attemptsUsed c, fc_totalAttemptsUsed := fc_totalAttemptsUsed c\<rparr>)
       else if maxTotalAttempts c \<le> fc_totalAttemptsUsed c + 1 then (Exhausted, give_up ?r)
       else if cls = Quota then (if rot \<and> fc_attemptsUsed c + 1 < fc_maxAttempts c then (Retry, ?r) else advance_result ?r)
       else if fc_attemptsUsed c + 1 < fc_maxAttempts c then (Retry, ?r)
       else if cls = Auth then advance_result ?r else (Stop, resetAttemptBudget ?r))"
    unfolding f [symmetric] onAttemptFailure_def currentSelector_started ok(3) option.case charge_started Let_def recorded_sel
    using e by auto
  show "fc_entries c' = fc_entries c" "fc_maxAttempts c' = fc_maxAttempts c" "fc_sessionBudget c' = fc_sessionBudget c"
    using f' by (auto simp: fc_defs split: if_splits)
  show "res = Advance \<Longrightarrow> fc_activeIndex c' = fc_activeIndex c + 1 \<and> fc_attemptsUsed c' = 0 \<and> \<not> fc_exhausted c'"
    using f' ok(2) by (auto simp: fc_defs split: if_splits)
  show "res \<noteq> Stop \<Longrightarrow> \<not> (fc_sessionBudget c \<and> (cls = Server \<or> cls = RateLimit)) \<Longrightarrow>
      fc_totalAttemptsUsed c' = fc_totalAttemptsUsed c + 1"
    using f' ok(2) by (auto simp: fc_defs split: if_splits)
  show "res \<noteq> Exhausted \<Longrightarrow> \<not> fc_exhausted c'" using f' ok(2) by (auto simp: fc_defs split: if_splits)
  have adv: "chain_ok (snd (advance_result ?r))"
    unfolding snd_advance_result by (rule advance_ok) (use ok a in \<open>auto simp: chain_ok_def recorded_def\<close>)
  show "chain_ok c'" using f' ok adv a by (auto simp: fc_defs split: if_splits)
  have spent: "fc_activeIndex c = length (fc_entries c) - 1 \<and> fc_attemptsUsed c + 1 = fc_maxAttempts c"
    if "maxTotalAttempts c \<le> fc_totalAttemptsUsed c + 1"
  proof -
    have used: "fc_maxAttempts c * length (fc_entries c) \<le> fc_maxAttempts c * fc_activeIndex c + fc_attemptsUsed c + 1" "fc_attemptsUsed c + 1 \<le> fc_maxAttempts c"
      using that ok by (simp_all add: chain_ok_def maxTotalAttempts_def)
    then have "fc_maxAttempts c * length (fc_entries c) \<le> fc_maxAttempts c * Suc (fc_activeIndex c)" by simp
    moreover have "0 < fc_maxAttempts c" using ok(1) by (simp add: chain_ok_def)
    ultimately have "length (fc_entries c) \<le> Suc (fc_activeIndex c)" by (simp only: nat_mult_le_cancel1)
    then show ?thesis using used a reserve by simp
  qed
  show "fc_activeIndex c = length (fc_entries c) - 1 \<and> (cls = Quota \<or> fc_attemptsUsed c + 1 = fc_maxAttempts c)" if "res = Exhausted"
    using f' that spent ok a by (auto simp: fc_defs split: if_splits)
qed

lemma restore_ok:
  assumes ok: "chain_ok c" "\<not> fc_exhausted c" "fc_attemptsUsed c = 0" and r: "restorePreviousEntryForRetry c = (ok, c')"
  shows "chain_ok c'" "fc_totalAttemptsUsed c' = fc_totalAttemptsUsed c" "ok \<longleftrightarrow> fc_activeIndex c' \<noteq> fc_activeIndex c"
    "fc_entries c' = fc_entries c" "fc_maxAttempts c' = fc_maxAttempts c" "fc_sessionBudget c' = fc_sessionBudget c" "\<not> fc_exhausted c'"
proof -
  consider (no) "ok = False" "c' = c"
    | (yes) i where "ok = True" "fc_activeIndex c = Suc i" "i \<notin> set (fc_restored c)"
        "c' = c\<lparr>fc_restored := fc_restored c @ [i], fc_activeIndex := i, fc_attemptsUsed := fc_maxAttempts c - 1,
                fc_exhausted := False, fc_attemptStarted := False\<rparr>"
  proof (cases "fc_activeIndex c")
    case 0
    then show ?thesis using r by (intro no) (simp_all add: restorePreviousEntryForRetry_def)
  next
    case (Suc i)
    show ?thesis
    proof (cases "i \<in> set (fc_restored c) \<or> maxTotalAttempts c \<le> fc_totalAttemptsUsed c")
      case True
      then show ?thesis using r Suc by (intro no) (auto simp: restorePreviousEntryForRetry_def)
    next
      case False
      then show ?thesis using r Suc ok(2) by (intro yes [of i]) (simp_all add: restorePreviousEntryForRetry_def)
    qed
  qed
  note c = this
  show "chain_ok c'" using c
  proof cases
    case (yes i)
    have b: "Suc i < length (fc_entries c)" "1 \<le> fc_maxAttempts c" "fc_totalAttemptsUsed c \<le> fc_maxAttempts c * Suc i + length (fc_restored c)"
      using ok yes(2) by (auto simp: chain_ok_def)
    then have "fc_totalAttemptsUsed c \<le> fc_maxAttempts c * i + (fc_maxAttempts c - 1) + Suc (length (fc_restored c))" by simp
    then show ?thesis unfolding chain_ok_def yes(4) using ok yes(2,3) b by (simp add: chain_ok_def)
  qed (use ok in simp)
  show "fc_totalAttemptsUsed c' = fc_totalAttemptsUsed c" "ok \<longleftrightarrow> fc_activeIndex c' \<noteq> fc_activeIndex c"
    "fc_entries c' = fc_entries c" "fc_maxAttempts c' = fc_maxAttempts c" "fc_sessionBudget c' = fc_sessionBudget c" "\<not> fc_exhausted c'"
    using c ok(2) by (cases; simp)+
qed

lemma failed_attempt_ok:
  assumes ok: "chain_ok c" "\<not> fc_exhausted c" "currentSelector c = Some s" and f: "failed_attempt cls reason rot c = (res, c')"
  shows "chain_ok c'" "res = Exhausted \<Longrightarrow> fc_activeIndex c = length (fc_entries c) - 1 \<and> (cls = Quota \<or> fc_attemptsUsed c + 1 = fc_maxAttempts c)"
    "res \<noteq> Stop \<Longrightarrow> \<not> (fc_sessionBudget c \<and> (cls = Server \<or> cls = RateLimit)) \<Longrightarrow>
       fc_totalAttemptsUsed c' = fc_totalAttemptsUsed c + 1"
    "fc_entries c' = fc_entries c" "fc_maxAttempts c' = fc_maxAttempts c" "fc_sessionBudget c' = fc_sessionBudget c"
    "res \<noteq> Exhausted \<Longrightarrow> \<not> fc_exhausted c'"
proof -
  have st: "onAttemptStarted c = started c" using onAttemptStarted_ok [OF ok(1,2)] ok(3) by simp
  obtain r1 c1 where f1: "onAttemptFailure cls reason rot (started c) = (r1, c1)" by fastforce
  note a = failure_ok [OF ok f1]
  obtain b c2 where r2: "restorePreviousEntryForRetry c1 = (b, c2)" by fastforce
  have cases: "r1 = Advance \<and> rot \<and> res = (if b then Retry else Advance) \<and> c' = c2 \<or> \<not> (rot \<and> r1 = Advance) \<and> res = r1 \<and> c' = c1"
    using f by (auto simp: failed_attempt_def st f1 r2 split: if_splits)
  have adv: "chain_ok c2 \<and> fc_totalAttemptsUsed c2 = fc_totalAttemptsUsed c1 \<and> fc_entries c2 = fc_entries c1 \<and>
      fc_maxAttempts c2 = fc_maxAttempts c1 \<and> fc_sessionBudget c2 = fc_sessionBudget c1 \<and> \<not> fc_exhausted c2" if "r1 = Advance"
    using restore_ok [OF a(1) _ _ r2] a(3) [OF that] by simp
  show "chain_ok c'" using cases adv a(1) by blast
  show "res = Exhausted \<Longrightarrow> fc_activeIndex c = length (fc_entries c) - 1 \<and> (cls = Quota \<or> fc_attemptsUsed c + 1 = fc_maxAttempts c)"
    using cases a(2) by (auto split: if_splits)
  show "res \<noteq> Stop \<Longrightarrow> \<not> (fc_sessionBudget c \<and> (cls = Server \<or> cls = RateLimit)) \<Longrightarrow>
       fc_totalAttemptsUsed c' = fc_totalAttemptsUsed c + 1"
    using cases a(4) adv by (auto split: if_splits)
  show "fc_entries c' = fc_entries c" "fc_maxAttempts c' = fc_maxAttempts c" "fc_sessionBudget c' = fc_sessionBudget c"
    using cases a(5,6,7) adv by auto
  show "res \<noteq> Exhausted \<Longrightarrow> \<not> fc_exhausted c'" using cases a(8) adv by auto
qed

section \<open>A session on its chain\<close>

datatype chain_event =
    Fail trigger_class string bool failure_result
  | Cancelled
  | Skip string
  | Accepted
  | NewTurn
  | Seed int "(string \<times> string) list"
  | OwnsTransient bool

inductive chain_step :: "fallback_controller \<Rightarrow> chain_event \<Rightarrow> fallback_controller \<Rightarrow> bool" where
  fail: "\<not> fc_exhausted c \<Longrightarrow> currentSelector c \<noteq> None \<Longrightarrow> failed_attempt cls reason rot c = (res, c') \<Longrightarrow>
    chain_step c (Fail cls reason rot res) c'"
| cancelled: "chain_step c Cancelled (discardStartedAttempt (onAttemptStarted c))"
| skip: "chain_step c (Skip reason) (snd (onResolutionSkip reason c))"
| accepted: "chain_step c Accepted (resetAttemptBudget c)"
| new_turn: "chain_step c NewTurn (resetSticky c)"
| seed: "chain_step c (Seed i skips) (seedResolution i skips c)"
| owns: "chain_step c (OwnsTransient b) (c\<lparr>fc_sessionBudget := b\<rparr>)"

definition chain_init :: "fallback_controller \<Rightarrow> bool" where
  "chain_init c \<longleftrightarrow> (\<exists>entries k. new_fallback_controller entries k = Inr c)"

lemma new_fallback_controller_ok: "new_fallback_controller entries k = Inr c \<Longrightarrow> chain_ok c \<and> fc_entries c = entries \<and> fc_totalAttemptsUsed c = 0 \<and> \<not> fc_sessionBudget c"
  by (cases k) (auto simp: new_fallback_controller_def chain_ok_def is_integer_def le_nat_iff le_floor_iff split: if_splits)

lemma skip_ok: "chain_ok c \<Longrightarrow> chain_ok (snd (onResolutionSkip reason c))"
proof (cases "fc_exhausted c")
  case True
  then show "chain_ok c \<Longrightarrow> chain_ok (snd (onResolutionSkip reason c))"
    by (simp add: onResolutionSkip_def advance_def chain_ok_def split: option.splits)
next
  case False
  let ?c = "case currentSelector c of None \<Rightarrow> c | Some s \<Rightarrow> c\<lparr>fc_skips := fc_skips c @ [(s, reason)]\<rparr>"
  assume "chain_ok c"
  then show "chain_ok (snd (onResolutionSkip reason c))"
    unfolding onResolutionSkip_def using False by (intro advance_ok) (auto simp: chain_ok_def split: option.splits)
qed

lemma cancelled_ok: "chain_ok c \<Longrightarrow> chain_ok (discardStartedAttempt (onAttemptStarted c))"
proof (cases "fc_exhausted c")
  case True
  then show "chain_ok c \<Longrightarrow> chain_ok (discardStartedAttempt (onAttemptStarted c))"
    by (simp add: onAttemptStarted_def discardStartedAttempt_def chain_ok_def)
next
  case False
  assume ok: "chain_ok c"
  then show "chain_ok (discardStartedAttempt (onAttemptStarted c))"
    using False by (simp add: onAttemptStarted_ok [OF ok False] started_def discardStartedAttempt_def chain_ok_def)
qed

lemma chain_step_ok:
  assumes "chain_ok c" "chain_step c ev c'"
  shows "chain_ok c'"
  using assms(2,1)
proof (induction rule: chain_step.induct)
  case (fail c cls reason rot res c')
  then show ?case using failed_attempt_ok(1) by blast
qed (auto simp: skip_ok cancelled_ok, auto simp: chain_ok_def resetAttemptBudget_def resetSticky_def seedResolution_def Let_def)

interpretation chain: machine_invariant chain_init chain_step chain_ok
  by unfold_locales (auto simp: chain_init_def new_fallback_controller_ok intro: chain_step_ok)


section \<open>Which failures move the cursor\<close>

text \<open>
  The cursor moves to another model only for a failure the model cannot recover from: an answer to advance
  comes on an exhausted quota, or on a failed authentication after all attempts of the model, and moves by
  one; an answer to retry or to stop leaves the selected model as it is.
\<close>
theorem only_quota_and_auth_switch_models:
  assumes "onAttemptFailure cls reason rot c = (res, c')"
  shows "(res = Advance \<longrightarrow> (cls = Quota \<or> cls = Auth \<and> fc_maxAttempts c \<le> fc_attemptsUsed c + 1) \<and>
                            fc_activeIndex c' = fc_activeIndex c + 1) \<and>
         (res = Retry \<or> res = Stop \<longrightarrow> currentSelector c' = currentSelector c \<and> fc_activeIndex c' = fc_activeIndex c)"
  using assms by (auto simp: onAttemptFailure_def charge_failure_def advance_result_def advance_def give_up_def resetAttemptBudget_def
      currentSelector_def Let_def split: option.splits if_splits)

text \<open>
  The exception the answer to give up makes: two models with one attempt each, the first fails to
  authenticate and the second fails transiently. The cursor leaves the second model, and the session
  starts over with the first.
\<close>

definition sample_chain :: "nat \<Rightarrow> fallback_controller" where
  "sample_chain k = \<lparr>fc_entries = [''a/x'', ''b/y''], fc_maxAttempts = k, fc_activeIndex = 0, fc_attemptsUsed = 0, fc_tried = [],
     fc_attemptStarted = False, fc_totalAttemptsUsed = 0, fc_restored = [], fc_skips = [], fc_exhausted = False, fc_sessionBudget = False\<rparr>"

theorem transient_failure_leaves_model:
  "case failed_attempt Auth ''401'' False (sample_chain 1) of (res1, c1) \<Rightarrow>
   case failed_attempt Server ''503'' False c1 of (res2, c2) \<Rightarrow>
     res1 = Advance \<and> currentSelector c1 = Some ''b/y'' \<and> res2 = Exhausted \<and> currentSelector c2 = None \<and>
     currentSelector (resetSticky c2) = Some ''a/x''"
  by code_simp

section \<open>A turn ends\<close>

fun play :: "(trigger_class \<times> string \<times> bool) list \<Rightarrow> fallback_controller \<Rightarrow> failure_result list \<times> fallback_controller" where
  "play [] c = ([], c)"
| "play ((cls, reason, rot) # fs) c =
     (let (res, c1) = failed_attempt cls reason rot c; (rs, c2) = play fs c1 in (res # rs, c2))"

lemma maxTotal_bound:
  assumes "chain_ok c" "fc_entries c \<noteq> []"
  shows "maxTotalAttempts c < (fc_maxAttempts c + 1) * length (fc_entries c)"
proof -
  have "length (fc_restored c) = card (set (fc_restored c))" using assms by (simp add: chain_ok_def distinct_card)
  also have "\<dots> \<le> card {..<length (fc_entries c) - 1}" using assms by (intro card_mono) (auto simp: chain_ok_def)
  finally have "length (fc_restored c) < length (fc_entries c)" using assms(2) by (cases "fc_entries c") auto
  then show ?thesis by (simp add: maxTotalAttempts_def)
qed

lemma play_total:
  "chain_ok c \<Longrightarrow> \<not> fc_sessionBudget c \<Longrightarrow> [] \<notin> set (fc_entries c) \<Longrightarrow> play fs c = (rs, c') \<Longrightarrow> set rs \<subseteq> {Retry, Advance} \<Longrightarrow>
   \<not> fc_exhausted c \<Longrightarrow>
   chain_ok c' \<and> \<not> fc_exhausted c' \<and> fc_totalAttemptsUsed c' = fc_totalAttemptsUsed c + length fs \<and> fc_entries c' = fc_entries c \<and>
   fc_maxAttempts c' = fc_maxAttempts c"
proof (induction fs arbitrary: c rs c')
  case (Cons f fs)
  obtain cls reason rot where f: "f = (cls, reason, rot)" by (cases f)
  obtain res c1 where r: "failed_attempt cls reason rot c = (res, c1)" by fastforce
  obtain rs1 c2 where p: "play fs c1 = (rs1, c2)" by fastforce
  have rs: "rs = res # rs1" "c' = c2" using Cons.prems(4) by (simp_all add: f r p)
  have a: "fc_activeIndex c < length (fc_entries c)" using Cons.prems(1,6) by (auto simp: chain_ok_def)
  then have "fc_entries c ! fc_activeIndex c \<noteq> []" using Cons.prems(3) by (metis nth_mem)
  then obtain s where s: "currentSelector c = Some s" using a by (simp add: currentSelector_def)
  note o = failed_attempt_ok [OF Cons.prems(1,6) s r]
  have res: "res \<noteq> Stop" "res \<noteq> Exhausted" "set rs1 \<subseteq> {Retry, Advance}" using Cons.prems(5) rs by auto
  have "\<not> fc_exhausted c1" by (rule o(7) [OF res(2)])
  from Cons.IH [OF o(1) _ _ p res(3) this] show ?case using o(3) [OF res(1)] o(4-6) Cons.prems(2,3) rs(2) by simp
qed simp


section \<open>Delays\<close>

text \<open>
  Backoff never exceeds its cap, and a hint from the provider is honoured up to the cap in the legacy path
  and in full in the managed one.
\<close>

theorem delays_are_bounded:
  assumes "0 < maxDelayMs"
  shows "0 \<le> cappedExponentialWithFullJitter baseDelayMs maxDelayMs k random"
    and "of_int (cappedExponentialWithFullJitter baseDelayMs maxDelayMs k random) \<le> maxDelayMs"
    and "0 \<le> compactionRetryDelay baseDelayMs maxDelayMs k hint" "compactionRetryDelay baseDelayMs maxDelayMs k hint \<le> maxDelayMs"
    and "min r maxDelayMs \<le> compactionRetryDelay baseDelayMs maxDelayMs k (Some (Fin r))"
    and "r \<le> effectiveFallbackDelay baseDelayMs maxDelayMs k (Some r) random"
proof -
  let ?cap = "max 0 (min (baseDelayMs * 2 ^ nat (max 0 (k - 1))) maxDelayMs)" and ?u = "max 0 (min 1 random)"
  have j: "cappedExponentialWithFullJitter baseDelayMs maxDelayMs k random = floor (?cap * ?u)"
    using assms by (simp add: cappedExponentialWithFullJitter_def)
  have u: "0 \<le> ?u" "?u \<le> 1" "0 \<le> ?cap" by simp_all
  then show "0 \<le> cappedExponentialWithFullJitter baseDelayMs maxDelayMs k random" unfolding j by (simp only: zero_le_floor zero_le_mult_iff) simp
  have "?cap * ?u \<le> ?cap" using u by (metis mult.right_neutral mult_left_mono)
  also have "\<dots> \<le> maxDelayMs" using assms by simp
  finally show "of_int (cappedExponentialWithFullJitter baseDelayMs maxDelayMs k random) \<le> maxDelayMs"
    unfolding j by (meson of_int_floor_le order_trans)
qed (use assms in \<open>auto simp: compactionRetryDelay_def effectiveFallbackDelay_def Let_def le_max_iff_disj min_le_iff_disj\<close>)

text \<open>Applications.\<close>

lemma sample_chain_new: "new_fallback_controller [''a/x'', ''b/y''] (Fin 1) = Inr (sample_chain 1)" "new_fallback_controller [''a/x'', ''b/y''] (Fin 2) = Inr (sample_chain 2)"
  by code_simp+


theorem only_quota_and_auth_switch_models_witness:
  "case onAttemptFailure Server ''503'' False (sample_chain 2) of (res, c) \<Rightarrow> res = Retry \<and> currentSelector c = Some ''a/x''"
proof -
  obtain res c where f: "onAttemptFailure Server ''503'' False (sample_chain 2) = (res, c)" by fastforce
  have v: "fst (onAttemptFailure Server ''503'' False (sample_chain 2)) = Retry" "currentSelector (sample_chain 2) = Some ''a/x''"
    by code_simp+
  then show ?thesis using only_quota_and_auth_switch_models [OF f] f by simp
qed


end
