(* ===== verification/Tool_Choice.thy ===== *)
theory Tool_Choice
  imports JS_Prelude
begin

text \<open>
  Forced tool choices of a session (\<open>session/tool-choice-queue.ts\<close>): a queue of directives, each an
  iterator over choices with callbacks, and the choice in flight until the turn that served it ends. An
  iterator is the list of the choices it has left, a directive has a number for its identity as an object,
  and the callbacks that only observe are the log. \<open>onRejected\<close> is its answer as a function; the
  callbacks do not call the queue.
\<close>

section \<open>State\<close>

datatype reject_reason = Aborted | Errored | Cleared | Removed

datatype reject_outcome = Requeue | Drop

record 'c directive =
  d_id :: nat
  d_rest :: "'c list"
  d_label :: string
  d_onRejected :: "('c \<Rightarrow> reject_reason \<Rightarrow> reject_outcome) option"
  d_onInvoked :: "nat option"

datatype 'c tq_log = Resolved 'c | Rejected 'c reject_reason

record 'c tool_queue =
  tq_queue :: "'c directive list"
  tq_inFlight :: "('c directive \<times> 'c) option"
  tq_lastResolvedLabel :: "string option"
  tq_fresh :: nat
  tq_log :: "'c tq_log list"

definition new_queue :: "'c tool_queue" where
  "new_queue = \<lparr>tq_queue = [], tq_inFlight = None, tq_lastResolvedLabel = None, tq_fresh = 0, tq_log = []\<rparr>"

section \<open>Operations\<close>

record 'c push_options =
  po_now :: bool
  po_label :: "string option"
  po_onRejected :: "('c \<Rightarrow> reject_reason \<Rightarrow> reject_outcome) option"
  po_onInvoked :: "nat option"

definition enqueue :: "bool \<Rightarrow> 'c directive \<Rightarrow> 'c tool_queue \<Rightarrow> 'c tool_queue" where
  "enqueue now d q =
     q\<lparr>tq_queue := (if now then d # tq_queue q else tq_queue q @ [d]), tq_fresh := tq_fresh q + 1\<rparr>"

definition push :: "'c list \<Rightarrow> 'c push_options \<Rightarrow> 'c tool_queue \<Rightarrow> 'c tool_queue" where
  "push choices opts q =
     enqueue (po_now opts)
       \<lparr>d_id = tq_fresh q, d_rest = choices,
        d_label = (case po_label opts of None \<Rightarrow> ''anonymous'' | Some l \<Rightarrow> l),
        d_onRejected = po_onRejected opts, d_onInvoked = po_onInvoked opts\<rparr> q"

definition pushOnce :: "'c \<Rightarrow> 'c push_options \<Rightarrow> 'c tool_queue \<Rightarrow> 'c tool_queue" where
  "pushOnce choice opts q = push [choice] opts q"

definition pushSequence :: "'c list \<Rightarrow> 'c push_options \<Rightarrow> 'c tool_queue \<Rightarrow> 'c tool_queue" where
  "pushSequence choices opts q = push choices opts q"

text \<open>The loop that drops finished directives and advances the first other one.\<close>

fun next_of :: "'c directive list \<Rightarrow> ('c directive \<times> 'c) option \<times> 'c directive list" where
  "next_of [] = (None, [])"
| "next_of (d # ds) =
     (case d_rest d of
        [] \<Rightarrow> next_of ds
      | c # cs \<Rightarrow> (let d' = d\<lparr>d_rest := cs\<rparr> in (Some (d', c), d' # ds)))"

definition nextToolChoice :: "'c tool_queue \<Rightarrow> 'c option \<times> 'c tool_queue" where
  "nextToolChoice q =
     (case next_of (tq_queue q) of
        (None, ds) \<Rightarrow> (None, q\<lparr>tq_queue := ds\<rparr>)
      | (Some (d, c), ds) \<Rightarrow> (Some c, q\<lparr>tq_queue := ds, tq_inFlight := Some (d, c)\<rparr>))"

definition resolve :: "'c tool_queue \<Rightarrow> 'c tool_queue" where
  "resolve q =
     (case tq_inFlight q of
        None \<Rightarrow> q
      | Some (d, c) \<Rightarrow> q\<lparr>tq_inFlight := None, tq_lastResolvedLabel := Some (d_label d), tq_log := tq_log q @ [Resolved c]\<rparr>)"

definition reject_yield :: "reject_reason \<Rightarrow> 'c tool_queue \<Rightarrow> 'c tool_queue" where
  "reject_yield reason q =
     (case tq_inFlight q of
        None \<Rightarrow> q
      | Some (d, c) \<Rightarrow>
          let q' = q\<lparr>tq_inFlight := None, tq_log := tq_log q @ [Rejected c reason]\<rparr>
          in case d_onRejected d of
               None \<Rightarrow> q'
             | Some f \<Rightarrow>
                 if f c reason = Requeue
                 then enqueue True \<lparr>d_id = tq_fresh q, d_rest = [c], d_label = d_label d @ ''-requeued'',
                                    d_onRejected = d_onRejected d, d_onInvoked = d_onInvoked d\<rparr> q'
                 else q')"

definition degradeInFlight :: "'c tool_queue \<Rightarrow> string option \<times> 'c tool_queue" where
  "degradeInFlight q =
     (case tq_inFlight q of
        None \<Rightarrow> (None, q)
      | Some (d, c) \<Rightarrow>
          let q' = q\<lparr>tq_inFlight := None\<rparr>
          in (Some (d_label d),
              case tq_queue q' of
                h # ds \<Rightarrow> if d_id h = d_id d then q'\<lparr>tq_queue := ds\<rparr> else q'
              | [] \<Rightarrow> q'))"

definition hasInFlight :: "'c tool_queue \<Rightarrow> bool" where
  "hasInFlight q \<longleftrightarrow> tq_inFlight q \<noteq> None"

definition peekInFlightInvoker :: "'c tool_queue \<Rightarrow> nat option" where
  "peekInFlightInvoker q = (case tq_inFlight q of None \<Rightarrow> None | Some (d, _) \<Rightarrow> d_onInvoked d)"

definition removeByLabel :: "string \<Rightarrow> 'c tool_queue \<Rightarrow> 'c tool_queue" where
  "removeByLabel label q =
     (let q' = (case tq_inFlight q of Some (d, _) \<Rightarrow> if d_label d = label then reject_yield Removed q else q | None \<Rightarrow> q)
      in q'\<lparr>tq_queue := filter (\<lambda>d. d_label d \<noteq> label) (tq_queue q')\<rparr>)"

definition clear :: "'c tool_queue \<Rightarrow> 'c tool_queue" where
  "clear q = (reject_yield Cleared q)\<lparr>tq_queue := [], tq_lastResolvedLabel := None\<rparr>"

definition consumeLastServedLabel :: "'c tool_queue \<Rightarrow> string option \<times> 'c tool_queue" where
  "consumeLastServedLabel q = (tq_lastResolvedLabel q, q\<lparr>tq_lastResolvedLabel := None\<rparr>)"

definition inspect :: "'c tool_queue \<Rightarrow> string list" where
  "inspect q = map d_label (tq_queue q)"

section \<open>The queue as a list of choices\<close>

text \<open>
  The abstract queue is the choices that are still to be served and the one in flight. Rejecting asks the
  callback of the directive; here it is the answer.
\<close>

type_synonym 'c choices = "'c list \<times> 'c option"

definition pending_choices :: "'c directive list \<Rightarrow> 'c list" where
  "pending_choices ds = concat (map d_rest ds)"

definition abs_queue :: "'c tool_queue \<Rightarrow> 'c choices" where
  "abs_queue q = (pending_choices (tq_queue q), map_option snd (tq_inFlight q))"

fun spec_push :: "bool \<Rightarrow> 'c list \<Rightarrow> 'c choices \<Rightarrow> 'c choices" where
  "spec_push now cs (pending, cur) = (if now then cs @ pending else pending @ cs, cur)"

fun spec_next :: "'c choices \<Rightarrow> 'c option \<times> 'c choices" where
  "spec_next ([], cur) = (None, [], cur)"
| "spec_next (c # pending, cur) = (Some c, pending, Some c)"

fun spec_settle :: "bool \<Rightarrow> 'c choices \<Rightarrow> 'c choices" where
  "spec_settle again (pending, None) = (pending, None)"
| "spec_settle again (pending, Some c) = (if again then c # pending else pending, None)"

definition wants_requeue :: "reject_reason \<Rightarrow> 'c tool_queue \<Rightarrow> bool" where
  "wants_requeue reason q \<longleftrightarrow>
     (case tq_inFlight q of
        None \<Rightarrow> False
      | Some (d, c) \<Rightarrow> (case d_onRejected d of None \<Rightarrow> False | Some f \<Rightarrow> f c reason = Requeue))"

lemma pending_choices_simps [simp]:
  "pending_choices [] = []" "pending_choices (d # ds) = d_rest d @ pending_choices ds" "pending_choices (ds @ es) = pending_choices ds @ pending_choices es"
  by (simp_all add: pending_choices_def)

lemma next_of_abs:
  "case pending_choices ds of
     [] \<Rightarrow> next_of ds = (None, [])
   | c # cs \<Rightarrow> (\<exists>d ds'. next_of ds = (Some (d, c), ds') \<and> pending_choices ds' = cs)"
  by (induction ds) (auto simp: Let_def split: list.splits)

lemma abs_push: "abs_queue (push cs opts q) = spec_push (po_now opts) cs (abs_queue q)"
  by (simp add: abs_queue_def push_def enqueue_def)

lemma abs_next: "map_prod id abs_queue (nextToolChoice q) = spec_next (abs_queue q)"
  using next_of_abs [of "tq_queue q"]
  by (cases "pending_choices (tq_queue q)") (auto simp: nextToolChoice_def abs_queue_def)

lemma abs_resolve: "abs_queue (resolve q) = spec_settle False (abs_queue q)"
  by (auto simp: resolve_def abs_queue_def split: option.splits)

lemma abs_reject_yield: "abs_queue (reject_yield reason q) = spec_settle (wants_requeue reason q) (abs_queue q)"
  by (auto simp: reject_yield_def wants_requeue_def abs_queue_def enqueue_def Let_def split: option.splits)

text \<open>
  The queue of directives with iterators behaves as a list of choices: choices are served in order, a
  finished directive is never in the way, a rejected choice that is to be replayed is the next one served,
  before the rest of its sequence, and nothing else moves.
\<close>
theorem tool_queue_refines_list:
  "abs_queue (push cs opts q) = spec_push (po_now opts) cs (abs_queue q) \<and>
   map_prod id abs_queue (nextToolChoice q) = spec_next (abs_queue q) \<and>
   abs_queue (resolve q) = spec_settle False (abs_queue q) \<and>
   abs_queue (reject_yield reason q) = spec_settle (wants_requeue reason q) (abs_queue q) \<and>
   abs_queue (clear q) = ([], None)"
  by (simp add: abs_push abs_next abs_resolve abs_reject_yield)
    (auto simp: clear_def abs_queue_def reject_yield_def enqueue_def Let_def split: option.splits)

section \<open>Turns\<close>

text \<open>A turn takes the next choice and ends well or not.\<close>

definition turn :: "bool \<Rightarrow> 'c tool_queue \<Rightarrow> 'c tool_queue" where
  "turn ok q = (let q' = snd (nextToolChoice q) in if ok then resolve q' else reject_yield Aborted q')"

fun resolved_in :: "'c tq_log list \<Rightarrow> 'c list" where
  "resolved_in [] = []"
| "resolved_in (Resolved c # ls) = c # resolved_in ls"
| "resolved_in (Rejected c r # ls) = resolved_in ls"

lemma resolved_in_append [simp]: "resolved_in (ls @ ms) = resolved_in ls @ resolved_in ms"
  by (induction ls rule: resolved_in.induct) auto

text \<open>Directives that ask for a replay of every rejected choice, as the forced tool choices of the session do.\<close>

definition persistent :: "'c tool_queue \<Rightarrow> bool" where
  "persistent q \<longleftrightarrow> tq_inFlight q = None \<and> (\<forall>d\<in>set (tq_queue q). \<exists>f. d_onRejected d = Some f \<and> (\<forall>c r. f c r = Requeue))"

lemma next_of_persistent:
  assumes "\<forall>d\<in>set ds. P (d_onRejected d)" "next_of ds = (res, ds')"
  shows "(\<forall>d\<in>set ds'. P (d_onRejected d)) \<and> (\<forall>d c. res = Some (d, c) \<longrightarrow> P (d_onRejected d))"
  using assms by (induction ds) (auto simp: Let_def split: list.splits)

lemma turn_step:
  assumes p: "persistent q"
  shows "persistent (turn ok q)"
    "pending_choices (tq_queue (turn ok q)) = (if ok then drop 1 else id) (pending_choices (tq_queue q))"
    "resolved_in (tq_log (turn ok q)) = resolved_in (tq_log q) @ (if ok then take 1 (pending_choices (tq_queue q)) else [])"
proof -
  let ?P = "\<lambda>r. \<exists>f. r = Some f \<and> (\<forall>c r. f c r = Requeue)"
  have all: "\<forall>d\<in>set (tq_queue q). ?P (d_onRejected d)" and none: "tq_inFlight q = None" using p by (auto simp: persistent_def)
  obtain res ds where n: "next_of (tq_queue q) = (res, ds)" by fastforce
  note keep = next_of_persistent [of "tq_queue q" ?P, OF all n]
  have "persistent (turn ok q) \<and>
    pending_choices (tq_queue (turn ok q)) = (if ok then drop 1 else id) (pending_choices (tq_queue q)) \<and>
    resolved_in (tq_log (turn ok q)) = resolved_in (tq_log q) @ (if ok then take 1 (pending_choices (tq_queue q)) else [])"
  proof (cases "pending_choices (tq_queue q)")
    case Nil
    then have "res = None" "ds = []" using next_of_abs [of "tq_queue q"] n by simp_all
    then show ?thesis using Nil none n by (simp add: turn_def nextToolChoice_def resolve_def reject_yield_def persistent_def)
  next
    case (Cons c cs)
    then obtain d where d: "res = Some (d, c)" "pending_choices ds = cs" using next_of_abs [of "tq_queue q"] n by auto
    then obtain f where "d_onRejected d = Some f" "\<forall>c r. f c r = Requeue" using keep by blast
    then show ?thesis using Cons n d keep
      by (simp add: turn_def nextToolChoice_def resolve_def reject_yield_def persistent_def enqueue_def Let_def)
  qed
  then show "persistent (turn ok q)"
    "pending_choices (tq_queue (turn ok q)) = (if ok then drop 1 else id) (pending_choices (tq_queue q))"
    "resolved_in (tq_log (turn ok q)) = resolved_in (tq_log q) @ (if ok then take 1 (pending_choices (tq_queue q)) else [])" by blast+
qed

text \<open>C25.
  Forced tool choices survive failed turns: where every directive asks for a replay, after any number of
  turns the choices served successfully are the first ones of the queue, in its order and each once, as many
  as there were successful turns, and exactly the others are still to be served.
\<close>
theorem forced_choices_survive_failed_turns:
  assumes "persistent q"
  shows "resolved_in (tq_log (fold turn oks q)) =
           resolved_in (tq_log q) @ take (length (filter id oks)) (pending_choices (tq_queue q)) \<and>
         pending_choices (tq_queue (fold turn oks q)) = drop (length (filter id oks)) (pending_choices (tq_queue q))"
  using assms
proof (induction oks arbitrary: q)
  case (Cons ok oks)
  note st = turn_step [OF Cons.prems, of ok]
  have "take 1 xs @ take k (drop 1 xs) = take (Suc k) xs" for k and xs :: "'a list" by (cases xs) auto
  then show ?case using Cons.IH [OF st(1)] st(2,3) by (simp add: drop_drop)
qed simp

text \<open>
  Removal by label asks the callback of the choice in flight too, and a callback that always asks for a
  replay keeps the choice in the queue, under another label: it is the next one served.
\<close>

theorem removed_choice_comes_back:
  assumes "tq_inFlight q = Some (d, c)" "d_label d = l" "wants_requeue Removed q"
  shows "fst (nextToolChoice (removeByLabel l q)) = Some c"
  using assms
  by (auto simp: removeByLabel_def reject_yield_def wants_requeue_def enqueue_def nextToolChoice_def Let_def split: option.splits)

theorem forced_choices_survive_failed_turns_witness:
  "resolved_in (tq_log (fold turn [False, True, False, True]
     (push [''write'', ''none''] \<lparr>po_now = False, po_label = None, po_onRejected = Some (\<lambda>_ _. Requeue), po_onInvoked = None\<rparr> new_queue)))
   = [''write'', ''none'']"
proof -
  let ?q = "push [''write'', ''none''] \<lparr>po_now = False, po_label = None, po_onRejected = Some (\<lambda>_ _. Requeue), po_onInvoked = None\<rparr> new_queue"
  have "persistent ?q" by (simp add: persistent_def push_def enqueue_def new_queue_def)
  from forced_choices_survive_failed_turns [OF this, of "[False, True, False, True]"]
  show ?thesis by (simp add: push_def enqueue_def new_queue_def del: fold_simps)
qed

end
