(* ===== verification/Append_Only.thy ===== *)
theory Append_Only
  imports JS_Prelude "HOL-Library.Word"
begin

unbundle bit_operations_syntax

text \<open>
  Append-only context mode (\<open>packages/agent/src/append-only-context.ts\<close>, and the tool normalisation of
  \<open>agent-loop.ts\<close> it calls): the frozen prefix of system prompt and tools with its fingerprint, and
  the message log that is kept equal to the provider-level messages by hashes. Messages and schemas are JSON
  values and are not changed in place. A schema object of the
  schema library comes with the JSON schema that \<open>zodToWireSchema\<close> makes of it with that library and the
  value that \<open>JSON.stringify\<close> sees, both as data.
  \<open>Bun.hash\<close> is a parameter, \<open>None\<close> where there is no such runtime. Of the fields of a tool only
  those of the fingerprint and \<open>intent\<close> are modelled.
\<close>

section \<open>Tools\<close>

datatype tool_intent = IntentUnset | IntentRequire | IntentOptional | IntentOmit | IntentFunction

datatype intent_mode = ModeRequire | ModeOptional | ModeOmit

fun resolveIntentMode :: "tool_intent \<Rightarrow> intent_mode" where
  "resolveIntentMode IntentFunction = ModeOmit"
| "resolveIntentMode IntentOptional = ModeOptional"
| "resolveIntentMode IntentOmit = ModeOmit"
| "resolveIntentMode IntentRequire = ModeRequire"
| "resolveIntentMode IntentUnset = ModeOptional"

datatype tool_parameters = PJson json | PSchema json json

record tool =
  tl_name :: string
  tl_description :: "string option"
  tl_parameters :: tool_parameters
  tl_strict :: "bool option"
  tl_customFormat :: "json option"
  tl_customWireName :: "string option"
  tl_intent :: tool_intent

definition INTENT_FIELD :: string where
  "INTENT_FIELD = ''_i''"

definition schema_properties :: "(string \<times> json) list \<Rightarrow> (string \<times> json) list" where
  "schema_properties rec = (case map_of rec ''properties'' of Some (JObj ps) \<Rightarrow> ps | _ \<Rightarrow> [])"

definition schema_required :: "(string \<times> json) list \<Rightarrow> string list" where
  "schema_required rec =
     (case map_of rec ''required'' of
        Some (JArr xs) \<Rightarrow> concat (map (\<lambda>x. case x of JStr s \<Rightarrow> [s] | _ \<Rightarrow> []) xs)
      | _ \<Rightarrow> [])"

definition set_properties :: "(string \<times> json) list \<Rightarrow> (string \<times> json) list \<Rightarrow> (string \<times> json) list" where
  "set_properties ps rec = map_set ''properties'' (JObj ps) rec"

definition set_required :: "string list \<Rightarrow> (string \<times> json) list \<Rightarrow> (string \<times> json) list" where
  "set_required rs rec = map_set ''required'' (JArr (map JStr rs)) rec"

text \<open>The spread of an object with a key replaced keeps the place of the key.\<close>

fun injectIntentIntoSchema :: "intent_mode \<Rightarrow> json \<Rightarrow> json" where
  "injectIntentIntoSchema mode (JObj rec) =
     (let properties = schema_properties rec; required = schema_required rec
      in case map_of properties INTENT_FIELD of
           Some intentProp \<Rightarrow>
             let needsReorder = (fst (hd properties) \<noteq> INTENT_FIELD);
                 needsRequired = (mode = ModeRequire \<and> INTENT_FIELD \<notin> set required);
                 rec1 = (if needsReorder then set_properties ((INTENT_FIELD, intentProp) # map_delete INTENT_FIELD properties) rec else rec);
                 rec2 = (if needsRequired then set_required (required @ [INTENT_FIELD]) rec1 else rec1)
             in if \<not> needsReorder \<and> \<not> needsRequired then JObj rec else JObj rec2
         | None \<Rightarrow>
             let rec1 = set_properties ((INTENT_FIELD, JObj [(''type'', JStr ''string'')]) # properties) rec;
                 rec2 = (if mode = ModeRequire then set_required (required @ [INTENT_FIELD]) rec1 else rec1)
             in JObj rec2)"
| "injectIntentIntoSchema mode j = j"

definition normalize_parameters :: "bool \<Rightarrow> intent_mode \<Rightarrow> tool_parameters \<Rightarrow> tool_parameters" where
  "normalize_parameters injectIntent mode p =
     (if injectIntent \<and> mode \<noteq> ModeOmit
      then case p of PJson j \<Rightarrow> PJson (injectIntentIntoSchema mode j) | PSchema wire raw \<Rightarrow> PJson (injectIntentIntoSchema mode wire)
      else p)"

text \<open>\<open>noIntent\<close> is the environment's \<open>PI_NO_INTENT\<close>.\<close>

definition normalizeTools :: "bool \<Rightarrow> tool list \<Rightarrow> bool \<Rightarrow> tool list" where
  "normalizeTools noIntent tools injectIntent0 =
     (let injectIntent = (injectIntent0 \<and> \<not> noIntent)
      in map (\<lambda>t. t\<lparr>tl_parameters := normalize_parameters injectIntent (resolveIntentMode (tl_intent t)) (tl_parameters t),
                    tl_description := Some (case tl_description t of None \<Rightarrow> [] | Some d \<Rightarrow> d)\<rparr>) tools)"

section \<open>The fingerprint\<close>

text \<open>\<open>hash = ((hash << 5) - hash + code) | 0\<close> in thirty-two bits.\<close>

definition hash_step :: "char \<Rightarrow> 32 word \<Rightarrow> 32 word" where
  "hash_step c h = push_bit 5 h - h + word_of_nat (of_char c)"

definition hashString32 :: "string \<Rightarrow> 32 word" where
  "hashString32 s = fold hash_step s 0"

definition parameters_json :: "tool_parameters \<Rightarrow> json" where
  "parameters_json p = (case p of PJson j \<Rightarrow> j | PSchema wire raw \<Rightarrow> raw)"

definition opt_entry :: "string \<Rightarrow> json option \<Rightarrow> (string \<times> json) list" where
  "opt_entry k v = (case v of None \<Rightarrow> [] | Some j \<Rightarrow> [(k, j)])"

definition tool_json :: "tool \<Rightarrow> json" where
  "tool_json t =
     JObj ([(''n'', JStr (tl_name t))] @ opt_entry ''d'' (map_option JStr (tl_description t)) @
           [(''p'', parameters_json (tl_parameters t))] @ opt_entry ''s'' (map_option JBool (tl_strict t)) @
           opt_entry ''cf'' (tl_customFormat t) @ opt_entry ''cw'' (map_option JStr (tl_customWireName t)))"

definition fingerprint_payload :: "string list \<Rightarrow> tool list \<Rightarrow> bool \<Rightarrow> string" where
  "fingerprint_payload systemPrompt tools intentTracing =
     stringify (JObj [(''s'', JArr (map JStr systemPrompt)), (''t'', JArr (map tool_json tools)), (''i'', JBool intentTracing)])"

definition base36_char :: "nat \<Rightarrow> char" where
  "base36_char d = (if d < 10 then char_of (48 + d) else char_of (87 + d))"

fun base36 :: "nat \<Rightarrow> string" where
  "base36 n = (if n < 36 then [base36_char n] else base36 (n div 36) @ [base36_char (n mod 36)])"

declare base36.simps [simp del]

definition computeFingerprint :: "string list \<Rightarrow> tool list \<Rightarrow> bool \<Rightarrow> string" where
  "computeFingerprint systemPrompt tools intentTracing =
     base36 (unat (hashString32 (fingerprint_payload systemPrompt tools intentTracing)))"

section \<open>Copies\<close>

text \<open>\<open>cloneJson\<close> is what \<open>JSON.stringify\<close> would write: no functions, and null for a number that is not finite.\<close>

fun cloneJson :: "json \<Rightarrow> json" where
  "cloneJson (JNum x) = (if is_finite x then JNum x else JNull)"
| "cloneJson (JArr xs) = JArr (map cloneJson xs)"
| "cloneJson (JObj kvs) = JObj (map (\<lambda>(k, v). (k, cloneJson v)) kvs)"
| "cloneJson j = j"

definition clone_tool :: "tool \<Rightarrow> tool" where
  "clone_tool t =
     t\<lparr>tl_parameters := PJson (cloneJson (parameters_json (tl_parameters t))), tl_customFormat := map_option cloneJson (tl_customFormat t),
       tl_intent := (if tl_intent t = IntentFunction then IntentUnset else tl_intent t)\<rparr>"

section \<open>The stable prefix\<close>

record snapshot =
  ss_systemPrompt :: "string list"
  ss_tools :: "tool list"
  ss_fingerprint :: string

text \<open>The live context; prompt and tools are objects with an identity.\<close>

record agent_context =
  cx_promptRef :: nat
  cx_systemPrompt :: "string list"
  cx_toolsRef :: nat
  cx_tools :: "tool list"

record stable_prefix =
  sp_snapshot :: "snapshot option"
  sp_version :: nat
  sp_source :: "(nat \<times> nat \<times> bool) option"

definition new_prefix :: stable_prefix where
  "new_prefix = \<lparr>sp_snapshot = None, sp_version = 0, sp_source = None\<rparr>"

definition takeSnapshot :: "bool \<Rightarrow> agent_context \<Rightarrow> bool \<Rightarrow> snapshot" where
  "takeSnapshot noIntent cx intentTracing =
     (let tools = normalizeTools noIntent (cx_tools cx) intentTracing
      in \<lparr>ss_systemPrompt = cx_systemPrompt cx, ss_tools = tools,
          ss_fingerprint = computeFingerprint (cx_systemPrompt cx) tools intentTracing\<rparr>)"

definition exportSnapshot :: "stable_prefix \<Rightarrow> snapshot option" where
  "exportSnapshot p = map_option (\<lambda>s. s\<lparr>ss_tools := map clone_tool (ss_tools s)\<rparr>) (sp_snapshot p)"

definition normalizeImportedTools :: "bool \<Rightarrow> tool list \<Rightarrow> bool \<Rightarrow> tool list" where
  "normalizeImportedTools noIntent tools intentTracing =
     map clone_tool (normalizeTools noIntent (map clone_tool tools) intentTracing)"

datatype prefix_error = FingerprintMismatch string string | NotBuilt

text \<open>A refused import has already forgotten the sources.\<close>

definition importSnapshot :: "bool \<Rightarrow> snapshot \<Rightarrow> bool \<Rightarrow> stable_prefix \<Rightarrow> prefix_error option \<times> stable_prefix" where
  "importSnapshot noIntent s intentTracing p =
     (let tools = normalizeImportedTools noIntent (ss_tools s) intentTracing;
          fingerprint = computeFingerprint (ss_systemPrompt s) tools intentTracing;
          p' = p\<lparr>sp_source := None\<rparr>
      in if fingerprint \<noteq> ss_fingerprint s then (Some (FingerprintMismatch fingerprint (ss_fingerprint s)), p')
         else (None, p'\<lparr>sp_snapshot := Some \<lparr>ss_systemPrompt = ss_systemPrompt s, ss_tools = tools, ss_fingerprint = fingerprint\<rparr>,
                        sp_version := sp_version p + 1\<rparr>))"

definition source_of :: "agent_context \<Rightarrow> bool \<Rightarrow> nat \<times> nat \<times> bool" where
  "source_of cx intentTracing = (cx_promptRef cx, cx_toolsRef cx, intentTracing)"

definition build_prefix :: "bool \<Rightarrow> agent_context \<Rightarrow> bool \<Rightarrow> stable_prefix \<Rightarrow> bool \<times> stable_prefix" where
  "build_prefix noIntent cx intentTracing p =
     (let s = takeSnapshot noIntent cx intentTracing; same = (map_option ss_fingerprint (sp_snapshot p) = Some (ss_fingerprint s))
      in if same \<and> sp_source p = Some (source_of cx intentTracing) then (False, p)
         else if same then (False, p\<lparr>sp_source := Some (source_of cx intentTracing)\<rparr>)
         else (True, \<lparr>sp_snapshot = Some s, sp_version = sp_version p + 1, sp_source = Some (source_of cx intentTracing)\<rparr>))"

definition invalidate_prefix :: "stable_prefix \<Rightarrow> stable_prefix" where
  "invalidate_prefix p = p\<lparr>sp_snapshot := None, sp_source := None\<rparr>"

definition prefix_toContext :: "stable_prefix \<Rightarrow> prefix_error + string list \<times> tool list" where
  "prefix_toContext p =
     (case sp_snapshot p of None \<Rightarrow> Inl NotBuilt | Some s \<Rightarrow> Inr (ss_systemPrompt s, map clone_tool (ss_tools s)))"

section \<open>The context manager\<close>

record context_manager =
  cm_prefix :: stable_prefix
  cm_log :: "json list"
  cm_lastSyncCount :: nat
  cm_syncedHashes :: "nat list"
  cm_seededPrefixCount :: nat
  cm_prefixChanges :: "(string \<times> string \<times> nat) list"

definition new_context_manager :: context_manager where
  "new_context_manager = \<lparr>cm_prefix = new_prefix, cm_log = [], cm_lastSyncCount = 0, cm_syncedHashes = [], cm_seededPrefixCount = 0,
     cm_prefixChanges = []\<rparr>"

definition fingerprint_of :: "stable_prefix \<Rightarrow> string" where
  "fingerprint_of p = (case sp_snapshot p of None \<Rightarrow> ''<unbuilt>'' | Some s \<Rightarrow> ss_fingerprint s)"

definition build_context ::
  "bool \<Rightarrow> agent_context \<Rightarrow> bool \<Rightarrow> context_manager \<Rightarrow> (prefix_error + string list \<times> json list \<times> tool list) \<times> context_manager" where
  "build_context noIntent cx intentTracing m =
     (let (changed, p) = build_prefix noIntent cx intentTracing (cm_prefix m);
          m' = m\<lparr>cm_prefix := p,
                 cm_prefixChanges := cm_prefixChanges m @
                   (if changed then [(fingerprint_of (cm_prefix m), fingerprint_of p, sp_version p)] else [])\<rparr>
      in (andThen (prefix_toContext p) (\<lambda>(systemPrompt, tools). Inr (systemPrompt, cm_log m, tools)), m'))"

definition hashSource :: "(string \<Rightarrow> nat) option \<Rightarrow> string \<Rightarrow> nat" where
  "hashSource bunHash src = (case bunHash of Some h \<Rightarrow> h src | None \<Rightarrow> unat (hashString32 src))"

definition hashMessage :: "(string \<Rightarrow> nat) option \<Rightarrow> json \<Rightarrow> nat" where
  "hashMessage bunHash m = hashSource bunHash (stringify m)"

definition rangeHashesEqual :: "(string \<Rightarrow> nat) option \<Rightarrow> json list \<Rightarrow> json list \<Rightarrow> nat \<Rightarrow> bool" where
  "rangeHashesEqual bunHash a b k = list_all (\<lambda>i. hashMessage bunHash (a ! i) = hashMessage bunHash (b ! i)) [0..<k]"

definition prefixChanged :: "(string \<Rightarrow> nat) option \<Rightarrow> json list \<Rightarrow> nat \<Rightarrow> context_manager \<Rightarrow> bool" where
  "prefixChanged bunHash ms k m =
     (k \<le> length (cm_syncedHashes m) \<and> list_ex (\<lambda>i. hashMessage bunHash (ms ! i) \<noteq> cm_syncedHashes m ! i) [0..<k])"

definition rebaseToBaseline :: "(string \<Rightarrow> nat) option \<Rightarrow> json list \<Rightarrow> nat \<Rightarrow> context_manager \<Rightarrow> context_manager" where
  "rebaseToBaseline bunHash ms seeded m =
     m\<lparr>cm_log := ms, cm_lastSyncCount := length ms, cm_seededPrefixCount := seeded, cm_syncedHashes := map (hashMessage bunHash) ms\<rparr>"

definition forget_log :: "context_manager \<Rightarrow> context_manager" where
  "forget_log m = m\<lparr>cm_log := [], cm_lastSyncCount := 0, cm_syncedHashes := []\<rparr>"

definition messages_to_sync :: "(string \<Rightarrow> nat) option \<Rightarrow> json list \<Rightarrow> context_manager \<Rightarrow> json list" where
  "messages_to_sync bunHash normalized m =
     (let k = cm_seededPrefixCount m;
          includesSeedPrefix = (0 < k \<and> k \<le> length normalized \<and> rangeHashesEqual bunHash normalized (cm_log m) k)
      in if 0 < k \<and> \<not> includesSeedPrefix then take k (cm_log m) @ normalized else normalized)"

definition append_tail :: "(string \<Rightarrow> nat) option \<Rightarrow> json list \<Rightarrow> context_manager \<Rightarrow> context_manager" where
  "append_tail bunHash ms m =
     m\<lparr>cm_log := cm_log m @ drop (cm_lastSyncCount m) ms, cm_lastSyncCount := length ms, cm_syncedHashes := map (hashMessage bunHash) ms\<rparr>"

definition syncMessages :: "(string \<Rightarrow> nat) option \<Rightarrow> json list \<Rightarrow> context_manager \<Rightarrow> context_manager" where
  "syncMessages bunHash normalized m =
     (let k = cm_seededPrefixCount m;
          ms = messages_to_sync bunHash normalized m;
          rewritten = (0 < cm_lastSyncCount m \<and> cm_lastSyncCount m \<le> length ms \<and> prefixChanged bunHash ms (cm_lastSyncCount m) m)
      in if rewritten \<and> 0 < k then rebaseToBaseline bunHash ms k m
         else let m1 = (if rewritten then forget_log m else m)
              in if length ms < cm_lastSyncCount m1
                 then (if 0 < k then rebaseToBaseline bunHash ms k m1 else append_tail bunHash ms (forget_log m1))
                 else append_tail bunHash ms m1)"

definition seedNormalizedMessages :: "(string \<Rightarrow> nat) option \<Rightarrow> json list \<Rightarrow> bool \<Rightarrow> context_manager \<Rightarrow> string + context_manager" where
  "seedNormalizedMessages bunHash messages reset m =
     (if 0 < length (cm_log m) \<and> \<not> reset then Inl ''cannot seed a non-empty log without reset''
      else let cloned = map cloneJson messages
           in Inr (m\<lparr>cm_log := cloned, cm_lastSyncCount := length cloned, cm_syncedHashes := map (hashMessage bunHash) cloned,
                     cm_seededPrefixCount := length cloned\<rparr>))"

definition resetSyncCursor :: "context_manager \<Rightarrow> context_manager" where
  "resetSyncCursor m = (forget_log m)\<lparr>cm_seededPrefixCount := 0\<rparr>"

definition invalidateForModelChange :: "context_manager \<Rightarrow> context_manager" where
  "invalidateForModelChange m = (resetSyncCursor m)\<lparr>cm_prefix := invalidate_prefix (cm_prefix m)\<rparr>"

definition appendMessage :: "json \<Rightarrow> context_manager \<Rightarrow> context_manager" where
  "appendMessage x m = m\<lparr>cm_log := cm_log m @ [x]\<rparr>"

definition replaceTailMessage :: "json \<Rightarrow> context_manager \<Rightarrow> context_manager" where
  "replaceTailMessage x m = (if cm_log m = [] then m else m\<lparr>cm_log := butlast (cm_log m) @ [x]\<rparr>)"

definition reset_context :: "bool \<Rightarrow> agent_context \<Rightarrow> bool \<Rightarrow> context_manager \<Rightarrow> context_manager" where
  "reset_context noIntent cx intentTracing m =
     (let m1 = invalidateForModelChange m in m1\<lparr>cm_prefix := snd (build_prefix noIntent cx intentTracing (cm_prefix m1))\<rparr>)"

text \<open>A fork: a new manager that starts from a snapshot and messages of another.\<close>

definition forkFromSeed ::
  "(string \<Rightarrow> nat) option \<Rightarrow> bool \<Rightarrow> snapshot option \<Rightarrow> json list option \<Rightarrow> bool \<Rightarrow> prefix_error + context_manager" where
  "forkFromSeed bunHash noIntent prefixSnapshot messages intentTracing =
     (let (err, p) = (case prefixSnapshot of None \<Rightarrow> (None, new_prefix) | Some s \<Rightarrow> importSnapshot noIntent s intentTracing new_prefix)
      in case err of
           Some e \<Rightarrow> Inl e
         | None \<Rightarrow>
             let m = new_context_manager\<lparr>cm_prefix := p\<rparr>
             in Inr (case messages of None \<Rightarrow> m | Some ms \<Rightarrow>
                       (case seedNormalizedMessages bunHash ms False m of Inl _ \<Rightarrow> m | Inr m' \<Rightarrow> m')))"

section \<open>The log is the provider's context\<close>

text \<open>What the hash is relied on for: it tells the serialisations of the messages at hand apart.\<close>

definition collision_free :: "(string \<Rightarrow> nat) option \<Rightarrow> json set \<Rightarrow> bool" where
  "collision_free bunHash S \<longleftrightarrow> inj_on (hashSource bunHash) (stringify ` S)"

definition log_ok :: "(string \<Rightarrow> nat) option \<Rightarrow> context_manager \<Rightarrow> bool" where
  "log_ok bunHash m \<longleftrightarrow>
     cm_lastSyncCount m = length (cm_log m) \<and> cm_syncedHashes m = map (hashMessage bunHash) (cm_log m) \<and>
     cm_seededPrefixCount m \<le> length (cm_log m)"

lemma hash_eq: "collision_free H S \<Longrightarrow> x \<in> S \<Longrightarrow> y \<in> S \<Longrightarrow> hashMessage H x = hashMessage H y \<Longrightarrow> stringify x = stringify y"
  by (auto simp: collision_free_def hashMessage_def dest: inj_onD)

lemma sync_result:
  assumes ok: "log_ok H m" and ms: "ms = messages_to_sync H normalized m" and m': "m' = syncMessages H normalized m"
  shows "cm_lastSyncCount m' = length ms" "cm_syncedHashes m' = map (hashMessage H) ms" "cm_seededPrefixCount m' = cm_seededPrefixCount m"
    "cm_log m' = ms \<or>
       length (cm_log m) \<le> length ms \<and> (\<forall>i<length (cm_log m). hashMessage H (ms ! i) = hashMessage H (cm_log m ! i)) \<and>
       cm_log m' = cm_log m @ drop (length (cm_log m)) ms"
    "length (cm_log m) \<le> length ms \<Longrightarrow> (\<forall>i<length (cm_log m). hashMessage H (ms ! i) = hashMessage H (cm_log m ! i)) \<Longrightarrow>
       cm_log m' = cm_log m @ drop (length (cm_log m)) ms"
proof -
  have l: "cm_lastSyncCount m = length (cm_log m)" "cm_syncedHashes m = map (hashMessage H) (cm_log m)" using ok by (simp_all add: log_ok_def)
  have changed: "prefixChanged H ms (length (cm_log m)) m \<longleftrightarrow> (\<exists>i<length (cm_log m). hashMessage H (ms ! i) \<noteq> hashMessage H (cm_log m ! i))"
    by (auto simp: prefixChanged_def list_ex_iff l)
  have sync: "m' = (let rewritten = (cm_log m \<noteq> [] \<and> length (cm_log m) \<le> length ms \<and> prefixChanged H ms (length (cm_log m)) m)
      in if rewritten \<and> 0 < cm_seededPrefixCount m then rebaseToBaseline H ms (cm_seededPrefixCount m) m
         else if rewritten then append_tail H ms (forget_log m)
         else if length ms < length (cm_log m)
              then (if 0 < cm_seededPrefixCount m then rebaseToBaseline H ms (cm_seededPrefixCount m) m else append_tail H ms (forget_log m))
         else append_tail H ms m)"
    by (simp add: m' syncMessages_def ms [symmetric] l Let_def forget_log_def)
  show "cm_lastSyncCount m' = length ms" "cm_syncedHashes m' = map (hashMessage H) ms" "cm_seededPrefixCount m' = cm_seededPrefixCount m"
    by (simp_all add: sync Let_def rebaseToBaseline_def append_tail_def forget_log_def)
  show "cm_log m' = ms \<or>
       length (cm_log m) \<le> length ms \<and> (\<forall>i<length (cm_log m). hashMessage H (ms ! i) = hashMessage H (cm_log m ! i)) \<and>
       cm_log m' = cm_log m @ drop (length (cm_log m)) ms"
    by (auto simp: sync Let_def rebaseToBaseline_def append_tail_def forget_log_def changed l)
  show "cm_log m' = cm_log m @ drop (length (cm_log m)) ms"
    if "length (cm_log m) \<le> length ms" "\<forall>i<length (cm_log m). hashMessage H (ms ! i) = hashMessage H (cm_log m ! i)"
  proof -
    have "\<not> prefixChanged H ms (length (cm_log m)) m" using that(2) by (simp add: changed)
    then show ?thesis using that(1) by (simp add: sync append_tail_def l)
  qed
qed

lemma kept_log_serialises:
  assumes "collision_free H (set ls \<union> set ms)" "length ls \<le> length ms" "\<forall>i<length ls. hashMessage H (ms ! i) = hashMessage H (ls ! i)"
  shows "map stringify (ls @ drop (length ls) ms) = map stringify ms"
proof (rule nth_equalityI)
  show "length (map stringify (ls @ drop (length ls) ms)) = length (map stringify ms)" using assms(2) by simp
  fix i
  assume "i < length (map stringify (ls @ drop (length ls) ms))"
  then have i: "i < length ms" using assms(2) by simp
  show "map stringify (ls @ drop (length ls) ms) ! i = map stringify ms ! i"
  proof (cases "i < length ls")
    case True
    then have "stringify (ms ! i) = stringify (ls ! i)" using hash_eq [OF assms(1)] assms(3) i by simp
    then show ?thesis using True i by (simp add: nth_append)
  next
    case False
    then show ?thesis using i assms(2) by (simp add: nth_append)
  qed
qed

lemma messages_to_sync_set: "set (messages_to_sync H normalized m) \<subseteq> set (cm_log m) \<union> set normalized"
  by (auto simp: messages_to_sync_def Let_def dest: in_set_takeD)

lemma collision_free_mono: "collision_free H S \<Longrightarrow> T \<subseteq> S \<Longrightarrow> collision_free H T"
  unfolding collision_free_def by (meson image_mono inj_on_subset)

lemma sync_serialises:
  assumes "log_ok H m" "collision_free H (set (cm_log m) \<union> set normalized)"
  shows "map stringify (cm_log (syncMessages H normalized m)) = map stringify (messages_to_sync H normalized m)"
proof -
  have "collision_free H (set (cm_log m) \<union> set (messages_to_sync H normalized m))"
    using collision_free_mono [OF assms(2)] messages_to_sync_set [of H normalized m] by blast
  then show ?thesis
    using sync_result(4) [OF assms(1) refl refl, of normalized] kept_log_serialises [of H "cm_log m" "messages_to_sync H normalized m"]
    by (auto simp del: map_append)
qed

lemma messages_to_sync_length: "cm_seededPrefixCount m \<le> length (cm_log m) \<Longrightarrow> cm_seededPrefixCount m \<le> length (messages_to_sync H normalized m)"
  by (auto simp: messages_to_sync_def Let_def)

lemma sync_ok:
  assumes "log_ok H m"
  shows "log_ok H (syncMessages H normalized m)"
proof -
  let ?ms = "messages_to_sync H normalized m"
  note r = sync_result [OF assms refl refl, of normalized]
  have seed: "cm_seededPrefixCount m \<le> length ?ms" using messages_to_sync_length assms by (auto simp: log_ok_def)
  from r(4) have "length (cm_log (syncMessages H normalized m)) = length ?ms \<and>
      map (hashMessage H) (cm_log (syncMessages H normalized m)) = map (hashMessage H) ?ms"
  proof
    assume k: "length (cm_log m) \<le> length ?ms \<and> (\<forall>i<length (cm_log m). hashMessage H (?ms ! i) = hashMessage H (cm_log m ! i)) \<and>
      cm_log (syncMessages H normalized m) = cm_log m @ drop (length (cm_log m)) ?ms"
    then show ?thesis by (auto intro!: nth_equalityI simp: nth_append)
  qed simp
  then show ?thesis using r(1-3) seed by (simp add: log_ok_def)
qed

datatype cm_event = Sync "json list" | SeedWith "json list" bool | Build agent_context bool | ModelChange | CursorReset | PrefixReset

inductive cm_step :: "(string \<Rightarrow> nat) option \<Rightarrow> bool \<Rightarrow> context_manager \<Rightarrow> cm_event \<Rightarrow> context_manager \<Rightarrow> bool" for H noIntent where
  sync: "cm_step H noIntent m (Sync ms) (syncMessages H ms m)"
| seeded: "seedNormalizedMessages H ms reset m = Inr m' \<Longrightarrow> cm_step H noIntent m (SeedWith ms reset) m'"
| built: "cm_step H noIntent m (Build cx i) (snd (build_context noIntent cx i m))"
| model_change: "cm_step H noIntent m ModelChange (invalidateForModelChange m)"
| cursor_reset: "cm_step H noIntent m CursorReset (resetSyncCursor m)"
| prefix_reset: "cm_step H noIntent m PrefixReset (m\<lparr>cm_prefix := invalidate_prefix (cm_prefix m)\<rparr>)"

lemma cm_step_ok:
  assumes "log_ok H m" "cm_step H noIntent m ev m'"
  shows "log_ok H m'"
  using assms(2,1)
  by (cases rule: cm_step.cases)
    (auto simp: sync_ok, auto simp: log_ok_def seedNormalizedMessages_def build_context_def invalidateForModelChange_def resetSyncCursor_def
      forget_log_def Let_def split: if_splits prod.splits)

lemma new_context_manager_ok: "m = new_context_manager \<Longrightarrow> log_ok H m"
  by (simp add: new_context_manager_def log_ok_def)

interpretation cm: machine_invariant "\<lambda>m. m = new_context_manager" "cm_step H noIntent" "log_ok H" for H noIntent
  by unfold_locales (rule new_context_manager_ok cm_step_ok; assumption)+

text \<open>Whether a list of messages starts with the seed of a fork.\<close>

definition starts_with_seed :: "json list \<Rightarrow> context_manager \<Rightarrow> bool" where
  "starts_with_seed ms m \<longleftrightarrow>
     take (cm_seededPrefixCount m) (map stringify ms) = take (cm_seededPrefixCount m) (map stringify (cm_log m))"

lemma take_map_eq_iff:
  assumes "k \<le> length xs" "k \<le> length ys"
  shows "take k (map f xs) = take k (map f ys) \<longleftrightarrow> (\<forall>i<k. f (xs ! i) = f (ys ! i))"
  using assms by (auto simp: list_eq_iff_nth_eq)

lemma messages_to_sync_seed:
  assumes ok: "log_ok H m" and cf: "collision_free H (set (cm_log m) \<union> set normalized)"
  shows "messages_to_sync H normalized m =
    (if starts_with_seed normalized m then normalized else take (cm_seededPrefixCount m) (cm_log m) @ normalized)"
proof (cases "cm_seededPrefixCount m = 0")
  case True
  then show ?thesis by (simp add: messages_to_sync_def starts_with_seed_def)
next
  case False
  let ?k = "cm_seededPrefixCount m"
  have k: "?k \<le> length (cm_log m)" using ok by (simp add: log_ok_def)
  show ?thesis
  proof (cases "?k \<le> length normalized")
    case True
    have "rangeHashesEqual H normalized (cm_log m) ?k \<longleftrightarrow> (\<forall>i<?k. stringify (normalized ! i) = stringify (cm_log m ! i))"
      using hash_eq [OF cf] k True by (auto simp: rangeHashesEqual_def list_all_iff hashMessage_def)
    then have "rangeHashesEqual H normalized (cm_log m) ?k \<longleftrightarrow> starts_with_seed normalized m"
      using take_map_eq_iff [OF True k, of stringify] by (simp add: starts_with_seed_def)
    then show ?thesis using False True by (simp add: messages_to_sync_def)
  next
    case short: False
    have "length (take ?k (map stringify normalized)) \<noteq> length (take ?k (map stringify (cm_log m)))" using short k by simp
    then have "\<not> starts_with_seed normalized m" unfolding starts_with_seed_def by metis
    then show ?thesis using False short by (simp add: messages_to_sync_def)
  qed
qed

text \<open>C17.
  After a sync the log holds, byte for byte, the messages the provider is to see: the messages given, with
  the seed of a fork in front where they do not start with it. Messages that only grew are appended to the
  log as it was, so that earlier turns keep their bytes. This rests on the hash telling the messages at hand
  apart.
\<close>
theorem log_is_provider_context:
  assumes "reach (\<lambda>m. m = new_context_manager) (cm_step H noIntent) m" "collision_free H (set (cm_log m) \<union> set normalized)"
  shows "map stringify (cm_log (syncMessages H normalized m)) =
           map stringify (if starts_with_seed normalized m then normalized else take (cm_seededPrefixCount m) (cm_log m) @ normalized) \<and>
         (take (length (cm_log m)) (map stringify normalized) = map stringify (cm_log m) \<longrightarrow>
            cm_log (syncMessages H normalized m) = cm_log m @ drop (length (cm_log m)) normalized)"
proof -
  have ok: "log_ok H m" using assms(1) by (rule cm.reachable_inv)
  note seed = messages_to_sync_seed [OF ok assms(2)]
  have "cm_log (syncMessages H normalized m) = cm_log m @ drop (length (cm_log m)) normalized"
    if t: "take (length (cm_log m)) (map stringify normalized) = map stringify (cm_log m)"
  proof -
    have len: "length (cm_log m) \<le> length normalized" using arg_cong [OF t, of length] by simp
    have eq: "\<forall>i<length (cm_log m). stringify (normalized ! i) = stringify (cm_log m ! i)"
      using take_map_eq_iff [OF len, of "cm_log m" stringify] t by simp
    have "starts_with_seed normalized m"
      using take_map_eq_iff [of "cm_seededPrefixCount m" normalized "cm_log m" stringify] eq len ok
      by (simp add: starts_with_seed_def log_ok_def)
    then have ms: "messages_to_sync H normalized m = normalized" using seed by simp
    show ?thesis using sync_result(5) [OF ok refl refl, of normalized] len eq by (simp add: ms hashMessage_def)
  qed
  then show ?thesis using sync_serialises [OF ok assms(2)] seed by simp
qed

section \<open>Snapshots of a fork\<close>

abbreviation clone_entries :: "(string \<times> json) list \<Rightarrow> (string \<times> json) list" where
  "clone_entries \<equiv> map (\<lambda>(k, v). (k, cloneJson v))"

lemma stringify_clone [simp]: "stringify (cloneJson j) = stringify j"
proof (induction j rule: cloneJson.induct)
  case (1 x)
  then show ?case by (cases x) auto
next
  case (2 xs)
  then have "map stringify (map cloneJson xs) = map stringify xs" by simp
  then show ?case by (simp only: cloneJson.simps stringify.simps)
next
  case (3 kvs)
  then have "map (\<lambda>(k, v). quote_str k @ '':'' @ stringify v) (clone_entries kvs) = map (\<lambda>(k, v). quote_str k @ '':'' @ stringify v) kvs"
    by (auto simp: comp_def)
  then show ?case by (simp only: cloneJson.simps stringify.simps)
qed simp_all

lemma clone_lookup: "map_of (clone_entries kvs) k = map_option cloneJson (map_of kvs k)"
  by (induction kvs) auto

lemma clone_set: "map_set k (cloneJson v) (clone_entries kvs) = clone_entries (map_set k v kvs)"
  by (induction kvs) auto

lemma clone_delete: "map_delete k (clone_entries kvs) = clone_entries (map_delete k kvs)"
  by (induction kvs) (auto simp: AList.delete_eq)

lemma clone_properties: "schema_properties (clone_entries r) = clone_entries (schema_properties r)"
  by (auto simp: schema_properties_def clone_lookup split: option.splits json.splits)

lemma clone_required: "schema_required (clone_entries r) = schema_required r"
proof -
  have "concat (map (\<lambda>x. case x of JStr s \<Rightarrow> [s] | _ \<Rightarrow> []) (map cloneJson xs)) = concat (map (\<lambda>x. case x of JStr s \<Rightarrow> [s] | _ \<Rightarrow> []) xs)" for xs
    by (induction xs) (auto split: json.splits)
  then show ?thesis by (auto simp: schema_required_def clone_lookup split: option.splits json.splits)
qed

lemma clone_set_properties: "set_properties (clone_entries ps) (clone_entries r) = clone_entries (set_properties ps r)"
  using clone_set [of "''properties''" "JObj ps" r] by (simp add: set_properties_def)

lemma clone_set_required: "set_required rs (clone_entries r) = clone_entries (set_required rs r)"
  using clone_set [of "''required''" "JArr (map JStr rs)" r] by (simp add: set_required_def comp_def)

lemma inject_clone: "injectIntentIntoSchema mode (cloneJson j) = cloneJson (injectIntentIntoSchema mode j)"
proof (cases j)
  case (JObj r)
  let ?ps = "schema_properties r"
  have hd: "map_of ?ps k \<noteq> None \<Longrightarrow> fst (hd (clone_entries ?ps)) = fst (hd ?ps)" for k by (cases ?ps) auto
  show ?thesis
  proof (cases "map_of ?ps INTENT_FIELD")
    case None
    have e: "(INTENT_FIELD, JObj [(''type'', JStr ''string'')]) # clone_entries ?ps = clone_entries ((INTENT_FIELD, JObj [(''type'', JStr ''string'')]) # ?ps)"
      by simp
    show ?thesis using None
      by (simp only: JObj cloneJson.simps injectIntentIntoSchema.simps clone_properties clone_required clone_lookup Let_def
          option.map option.case e clone_set_properties clone_set_required if_distrib [of JObj] if_distrib [of cloneJson]
          if_distrib [of clone_entries, symmetric])
  next
    case (Some v)
    have e: "(INTENT_FIELD, cloneJson v) # map_delete INTENT_FIELD (clone_entries ?ps) = clone_entries ((INTENT_FIELD, v) # map_delete INTENT_FIELD ?ps)"
      by (simp add: clone_delete)
    have h: "fst (hd (clone_entries ?ps)) = fst (hd ?ps)" using hd [of INTENT_FIELD] Some by simp
    show ?thesis using Some
      by (auto simp: JObj clone_properties clone_required clone_lookup Let_def h e clone_set_properties clone_set_required
          simp del: list.map)
  qed
qed simp_all

definition has_intent :: "intent_mode \<Rightarrow> (string \<times> json) list \<Rightarrow> bool" where
  "has_intent mode r \<longleftrightarrow>
     (\<exists>v ps. schema_properties r = (INTENT_FIELD, v) # ps) \<and> (mode = ModeRequire \<longrightarrow> INTENT_FIELD \<in> set (schema_required r))"

lemma schema_set [simp]:
  "schema_properties (set_properties ps r) = ps" "schema_properties (set_required rs r) = schema_properties r"
  "schema_required (set_properties ps r) = schema_required r" "schema_required (set_required rs r) = rs"
proof -
  have "concat (map (\<lambda>x. case x of JStr s \<Rightarrow> [s] | _ \<Rightarrow> []) (map JStr rs)) = rs" by (induction rs) auto
  then show "schema_required (set_required rs r) = rs" by (simp add: schema_required_def set_required_def)
qed (simp_all add: schema_properties_def schema_required_def set_properties_def set_required_def)

lemma inject_has_intent: "\<exists>r'. injectIntentIntoSchema mode (JObj r) = JObj r' \<and> has_intent mode r'"
proof (cases "map_of (schema_properties r) INTENT_FIELD")
  case None
  then show ?thesis by (simp add: has_intent_def Let_def)
next
  case (Some v)
  then obtain k w ps where p: "schema_properties r = (k, w) # ps" by (cases "schema_properties r") auto
  then show ?thesis using Some by (auto simp: has_intent_def Let_def)
qed

lemma inject_done: "has_intent mode r \<Longrightarrow> injectIntentIntoSchema mode (JObj r) = JObj r"
  by (auto simp: has_intent_def Let_def)

lemma inject_idem: "injectIntentIntoSchema mode (injectIntentIntoSchema mode j) = injectIntentIntoSchema mode j"
proof (cases j)
  case (JObj r)
  then show ?thesis using inject_has_intent [of mode r] inject_done by auto
qed simp_all

text \<open>Normalised tools keep their bytes through an export and an import, unless a function said how to show the intent.\<close>

definition same_bytes :: "tool \<Rightarrow> tool \<Rightarrow> bool" where
  "same_bytes a b \<longleftrightarrow>
     tl_name a = tl_name b \<and> tl_description a = tl_description b \<and>
     stringify (parameters_json (tl_parameters a)) = stringify (parameters_json (tl_parameters b)) \<and> tl_strict a = tl_strict b \<and>
     map_option stringify (tl_customFormat a) = map_option stringify (tl_customFormat b) \<and> tl_customWireName a = tl_customWireName b"

lemma same_bytes_json: "same_bytes a b \<Longrightarrow> stringify (tool_json a) = stringify (tool_json b)"
  by (auto simp: same_bytes_def tool_json_def opt_entry_def split: option.splits)

definition normalize_tool :: "bool \<Rightarrow> tool \<Rightarrow> tool" where
  "normalize_tool inject t =
     t\<lparr>tl_parameters := normalize_parameters inject (resolveIntentMode (tl_intent t)) (tl_parameters t),
       tl_description := Some (case tl_description t of None \<Rightarrow> [] | Some d \<Rightarrow> d)\<rparr>"

lemma normalizeTools_map: "normalizeTools noIntent ts i = map (normalize_tool (i \<and> \<not> noIntent)) ts"
  by (simp add: normalizeTools_def normalize_tool_def)

lemma clone_same_bytes: "same_bytes (clone_tool t) t"
  by (auto simp: same_bytes_def clone_tool_def parameters_json_def option.map_comp comp_def split: tool_parameters.splits)

lemma same_bytes_trans: "same_bytes a b \<Longrightarrow> same_bytes b c \<Longrightarrow> same_bytes a c"
  by (simp add: same_bytes_def)

lemma renormalize_same_bytes:
  assumes "\<not> inject \<or> tl_intent t \<noteq> IntentFunction"
  shows "same_bytes (normalize_tool inject (clone_tool (clone_tool (normalize_tool inject t)))) (normalize_tool inject t)"
proof (cases "inject \<and> resolveIntentMode (tl_intent t) \<noteq> ModeOmit")
  case True
  then have keep: "tl_intent t \<noteq> IntentFunction" using assms by auto
  obtain j where j: "tl_parameters (normalize_tool inject t) = PJson (injectIntentIntoSchema (resolveIntentMode (tl_intent t)) j)"
    using True by (cases "tl_parameters t") (auto simp: normalize_tool_def normalize_parameters_def)
  have "tl_parameters (normalize_tool inject (clone_tool (clone_tool (normalize_tool inject t)))) =
      PJson (cloneJson (cloneJson (injectIntentIntoSchema (resolveIntentMode (tl_intent t)) j)))"
    unfolding normalize_tool_def [of inject "clone_tool (clone_tool (normalize_tool inject t))"]
    using True keep j by (simp add: normalize_parameters_def clone_tool_def parameters_json_def inject_clone inject_idem normalize_tool_def)
  then show ?thesis
    using j by (auto simp: same_bytes_def parameters_json_def normalize_tool_def clone_tool_def option.map_comp comp_def)
next
  case False
  then have "normalize_parameters inject (resolveIntentMode (tl_intent t)) p = p" for p by (auto simp: normalize_parameters_def)
  moreover have "inject \<Longrightarrow> resolveIntentMode (tl_intent (clone_tool (clone_tool t))) = ModeOmit"
    using False assms by (auto simp: clone_tool_def)
  ultimately show ?thesis
    by (auto simp: same_bytes_def normalize_tool_def clone_tool_def parameters_json_def normalize_parameters_def option.map_comp comp_def
        split: tool_parameters.splits)
qed

lemma payload_same_bytes:
  assumes "list_all2 same_bytes as bs"
  shows "computeFingerprint sp as i = computeFingerprint sp bs i"
proof -
  have "map stringify (map tool_json as) = map stringify (map tool_json bs)"
    using assms by (induction rule: list_all2_induct) (auto dest: same_bytes_json)
  then show ?thesis by (simp add: computeFingerprint_def fingerprint_payload_def del: map_map)
qed

text \<open>A fork can import what its parent exported: with the same options the import of an exported prefix is
  accepted and gives the same fingerprint, system prompt and tool bytes, as long as no tool shows its intent
  by a function (or intents are not traced).
\<close>
theorem exported_prefix_imports:
  assumes "build_prefix noIntent cx i p0 = (True, p)" "exportSnapshot p = Some s"
    and "\<not> (i \<and> \<not> noIntent) \<or> (\<forall>t\<in>set (cx_tools cx). tl_intent t \<noteq> IntentFunction)"
  shows "\<exists>q' s'. importSnapshot noIntent s i q = (None, q') \<and> fingerprint_of q' = fingerprint_of p \<and> sp_snapshot q' = Some s' \<and>
           ss_systemPrompt s' = cx_systemPrompt cx \<and>
           map (stringify \<circ> tool_json) (ss_tools s') = map (stringify \<circ> tool_json) (normalizeTools noIntent (cx_tools cx) i)"
proof -
  let ?inj = "i \<and> \<not> noIntent" and ?ts = "cx_tools cx"
  let ?norm = "map (normalize_tool ?inj) ?ts"
  have p: "sp_snapshot p = Some (takeSnapshot noIntent cx i)" using assms(1) by (auto simp: build_prefix_def Let_def split: if_splits)
  have s: "s = (takeSnapshot noIntent cx i)\<lparr>ss_tools := map clone_tool ?norm\<rparr>"
    using assms(2) p by (auto simp: exportSnapshot_def takeSnapshot_def normalizeTools_map Let_def)
  let ?imp = "map (\<lambda>t. clone_tool (normalize_tool ?inj (clone_tool (clone_tool (normalize_tool ?inj t))))) ?ts"
  have same: "list_all2 same_bytes ?imp ?norm"
    using assms(3) by (auto simp: list_all2_conv_all_nth intro: same_bytes_trans [OF clone_same_bytes renormalize_same_bytes])
  have imp: "normalizeImportedTools noIntent (ss_tools s) i = ?imp" by (simp add: s normalizeImportedTools_def normalizeTools_map)
  have "map (stringify \<circ> tool_json) ?imp = map (stringify \<circ> tool_json) ?norm"
    using same by (induction rule: list_all2_induct) (auto dest: same_bytes_json)
  then show ?thesis
    using payload_same_bytes [OF same, of "cx_systemPrompt cx" i]
    by (simp add: importSnapshot_def Let_def imp fingerprint_of_def p normalizeTools_map)
      (simp add: s takeSnapshot_def normalizeTools_map Let_def)
qed

section \<open>Where the fingerprint fails\<close>

definition sample_tool :: "tool_intent \<Rightarrow> tool" where
  "sample_tool i = \<lparr>tl_name = ''eval'', tl_description = None, tl_parameters = PJson (JObj [(''type'', JStr ''object'')]), tl_strict = None,
     tl_customFormat = None, tl_customWireName = None, tl_intent = i\<rparr>"

definition sample_payload :: "bool \<Rightarrow> string" where
  "sample_payload b = ''{'' @ quote_str ''s'' @ '':['' @ quote_str ''p'' @ ''],'' @ quote_str ''t'' @ '':[{'' @ quote_str ''n'' @ '':'' @ quote_str ''eval'' @ '','' @
     quote_str ''d'' @ '':'' @ quote_str [] @ '','' @ quote_str ''p'' @ '':{'' @ quote_str ''type'' @ '':'' @ quote_str ''object'' @
     (if b then '','' @ quote_str ''properties'' @ '':{'' @ quote_str ''_i'' @ '':{'' @ quote_str ''type'' @ '':'' @ quote_str ''string'' @ ''}}'' else []) @
     ''}}],'' @ quote_str ''i'' @ '':true}''"

definition sample_context :: "string \<Rightarrow> tool_intent \<Rightarrow> agent_context" where
  "sample_context prompt i = \<lparr>cx_promptRef = length prompt, cx_systemPrompt = [prompt], cx_toolsRef = 0, cx_tools = [sample_tool i]\<rparr>"

lemma build_new_prefix:
  "build_prefix noIntent cx i new_prefix =
     (True, \<lparr>sp_snapshot = Some (takeSnapshot noIntent cx i), sp_version = 1, sp_source = Some (source_of cx i)\<rparr>)"
  by (simp add: build_prefix_def new_prefix_def Let_def)

lemma sample_context_sel: "cx_systemPrompt (sample_context prompt i) = [prompt]" "cx_tools (sample_context prompt i) = [sample_tool i]"
  by (simp_all add: sample_context_def)

lemma base36_char_inj: "d < 36 \<Longrightarrow> e < 36 \<Longrightarrow> base36_char d = base36_char e \<Longrightarrow> d = e"
proof -
  assume d: "d < 36" "e < 36" and eq: "base36_char d = base36_char e"
  have val: "(of_char (base36_char k) :: nat) = (if k < 10 then 48 + k else 87 + k)" if "k < 36" for k
    using that by (simp add: base36_char_def)
  have "(if d < 10 then 48 + d else 87 + d) = (if e < 10 then 48 + e else 87 + e)"
    unfolding val [OF d(1), symmetric] val [OF d(2), symmetric] eq by (rule refl)
  then show "d = e" by (simp split: if_splits)
qed

lemma base36_inj: "base36 m = base36 n \<Longrightarrow> m = n"
proof (induction m arbitrary: n rule: base36.induct)
  case (1 m)
  have ne: "base36 k \<noteq> []" for k by (subst base36.simps) simp
  show ?case
  proof (cases "m < 36")
    case True
    then have "[base36_char m] = base36 n" using "1.prems" by (simp add: base36.simps [of m])
    then show ?thesis using True ne [of "n div 36"] by (subst (asm) base36.simps) (auto split: if_splits dest: base36_char_inj)
  next
    case False
    then have e: "base36 (m div 36) @ [base36_char (m mod 36)] = base36 n" using "1.prems" by (simp add: base36.simps [of m])
    then have n: "\<not> n < 36" using ne [of "m div 36"] by (auto simp: base36.simps [of n])
    then have "base36 (m div 36) = base36 (n div 36)" "base36_char (m mod 36) = base36_char (n mod 36)"
      using e by (simp_all add: base36.simps [of n])
    then have "m div 36 = n div 36" "m mod 36 = n mod 36" using "1.IH" [OF False] base36_char_inj by simp_all
    then show ?thesis by (metis div_mult_mod_eq)
  qed
qed

text \<open>The hash as a recursion on numbers.\<close>

fun hash_nat :: "string \<Rightarrow> nat \<Rightarrow> nat" where
  "hash_nat [] h = h"
| "hash_nat (c # cs) h = hash_nat cs ((31 * h + of_char c) mod 4294967296)"

lemma hash_step_31: "hash_step c h = 31 * h + word_of_nat (of_char c)"
proof -
  have "push_bit 5 h = 32 * h" by (simp add: push_bit_eq_mult)
  then show ?thesis by (simp add: hash_step_def algebra_simps)
qed

lemma hash_nat_word: "unat (fold hash_step s h) = hash_nat s (unat h)"
proof (induction s arbitrary: h)
  case (Cons c s)
  have "unat (hash_step c h) = (31 * unat h + of_char c) mod 4294967296"
    by (simp add: hash_step_31 unat_word_ariths unat_of_nat mod_simps take_bit_eq_mod)
  then show ?case using Cons.IH by simp
qed simp

lemma hash_differs: "hash_nat s 0 \<noteq> hash_nat t 0 \<Longrightarrow> hashString32 s \<noteq> hashString32 t"
  using hash_nat_word [of s 0] hash_nat_word [of t 0] by (auto simp: hashString32_def)


text \<open>The hash cannot tell the pairs of letters apart, whatever is around them.\<close>

lemma hash_collision: "hashString32 (u @ ''Aa'' @ v) = hashString32 (u @ ''BB'' @ v)"
proof -
  have "hash_step CHR ''a'' (hash_step CHR ''A'' h) = hash_step CHR ''B'' (hash_step CHR ''B'' h)" for h
    by (simp add: hash_step_31 algebra_simps)
  then show ?thesis by (simp add: hashString32_def)
qed

lemma payload_split:
  "fingerprint_payload [u @ x @ v] tools i =
     (''{'' @ quote_str ''s'' @ '':['' @ [CHR 0x22] @ concat (map quote_char u)) @ concat (map quote_char x) @
     (concat (map quote_char v) @ [CHR 0x22] @ ''],'' @ quote_str ''t'' @ '':'' @ stringify (JArr (map tool_json tools)) @ '','' @
      quote_str ''i'' @ '':'' @ stringify (JBool i) @ ''}'')"
  by (simp add: fingerprint_payload_def quote_str_def)

lemma fingerprint_collision: "computeFingerprint [u @ ''Aa'' @ v] tools i = computeFingerprint [u @ ''BB'' @ v] tools i"
proof -
  have "concat (map quote_char ''Aa'') = ''Aa''" "concat (map quote_char ''BB'') = ''BB''" by (simp_all add: quote_char_def)
  then have "hashString32 (fingerprint_payload [u @ ''Aa'' @ v] tools i) = hashString32 (fingerprint_payload [u @ ''BB'' @ v] tools i)"
    unfolding payload_split by (metis hash_collision)
  then show ?thesis by (simp only: computeFingerprint_def)
qed

text \<open>The fingerprint cannot tell apart prompts that differ in certain pairs of letters, whatever is around them:
  after such a change of the system prompt the prefix counts as unchanged, and the old prompt is sent on.
\<close>
theorem changed_prompt_goes_unnoticed:
  assumes "cx_systemPrompt old = [u @ ''Aa'' @ v]" "cx_systemPrompt new = [u @ ''BB'' @ v]" "cx_tools new = cx_tools old"
    and "build_prefix noIntent old i p0 = (True, p1)" "build_prefix noIntent new i p1 = (changed, p2)"
  shows "\<not> changed \<and> (\<exists>tools. prefix_toContext p2 = Inr ([u @ ''Aa'' @ v], tools)) \<and> cx_systemPrompt new \<noteq> [u @ ''Aa'' @ v]"
proof -
  have p1: "sp_snapshot p1 = Some (takeSnapshot noIntent old i)" using assms(4) by (auto simp: build_prefix_def Let_def split: if_splits)
  have "ss_fingerprint (takeSnapshot noIntent old i) = ss_fingerprint (takeSnapshot noIntent new i)"
    using assms(1-3) fingerprint_collision [of u v] by (simp add: takeSnapshot_def Let_def)
  then have "\<not> changed" "sp_snapshot p2 = sp_snapshot p1" using assms(5) p1 by (auto simp: build_prefix_def Let_def split: if_splits)
  then show ?thesis using p1 assms(1,2) by (simp add: prefix_toContext_def takeSnapshot_def Let_def)
qed

section \<open>Applications\<close>

theorem log_is_provider_context_witness:
  "cm_log (syncMessages (Some length) [JNull, JStr ''a''] (syncMessages (Some length) [JNull] new_context_manager)) = [JNull, JStr ''a'']"
proof -
  let ?m = "syncMessages (Some length) [JNull] new_context_manager"
  have l: "cm_log ?m = [JNull]"
    by (simp add: syncMessages_def messages_to_sync_def new_context_manager_def append_tail_def Let_def)
  have "reach (\<lambda>m. m = new_context_manager) (cm_step (Some length) False) ?m"
    by (rule reach_step, rule reach_init, rule refl) (rule cm_step.sync)
  moreover have "collision_free (Some length) (set (cm_log ?m) \<union> set [JNull, JStr ''a''])"
    by (auto simp: collision_free_def l hashSource_def inj_on_def quote_str_def quote_char_def)
  ultimately show ?thesis using log_is_provider_context [of "Some length" False ?m "[JNull, JStr ''a'']"] l by simp
qed

theorem exported_prefix_imports_witness:
  "\<exists>s q'. exportSnapshot (snd (build_prefix False (sample_context ''p'' IntentUnset) True new_prefix)) = Some s \<and>
     importSnapshot False s True new_prefix = (None, q')"
proof -
  let ?cx = "sample_context ''p'' IntentUnset"
  obtain p where p: "build_prefix False ?cx True new_prefix = (True, p)" by (simp add: build_new_prefix)
  obtain s where s: "exportSnapshot p = Some s" using p by (auto simp: build_new_prefix exportSnapshot_def)
  have "\<forall>t\<in>set (cx_tools ?cx). tl_intent t \<noteq> IntentFunction" by (simp add: sample_context_def sample_tool_def)
  then show ?thesis using exported_prefix_imports [OF p s, of new_prefix] p s by auto
qed

theorem changed_prompt_goes_unnoticed_witness:
  "fst (build_prefix False (sample_context ''BB'' IntentUnset) True (snd (build_prefix False (sample_context ''Aa'' IntentUnset) True new_prefix))) = False"
proof -
  let ?old = "sample_context ''Aa'' IntentUnset" and ?new = "sample_context ''BB'' IntentUnset"
  obtain p1 where p1: "build_prefix False ?old True new_prefix = (True, p1)" by (simp add: build_new_prefix)
  obtain changed p2 where p2: "build_prefix False ?new True p1 = (changed, p2)" by fastforce
  have "cx_systemPrompt ?old = [[] @ ''Aa'' @ []]" "cx_systemPrompt ?new = [[] @ ''BB'' @ []]" "cx_tools ?new = cx_tools ?old"
    by (simp_all add: sample_context_def)
  from changed_prompt_goes_unnoticed [OF this p1 p2] show ?thesis using p1 p2 by simp
qed

end
