(* ===== verification/Secrets.thy ===== *)
theory Secrets
  imports JS_Prelude
begin

text \<open>
  Secret obfuscation (\<open>secrets/obfuscator.ts\<close>, \<open>secrets/regex.ts\<close>): configured secrets are replaced
  by placeholders in what goes out to a model and put back in what comes in. Parameters are the keyed hash,
  once as the tag of a placeholder (the base64url text of its first sixteen bytes) and once as the stream of
  bytes behind replacements, and the regular expressions of the language, as the matches they find in a text
  in order, or \<open>None\<close> where a pattern does not compile. The combined expression for plain secrets, which
  the class caches until the mappings change, is computed from the mappings.
\<close>

section \<open>Configuration\<close>

datatype secret_kind = Plain | Pattern

datatype secret_mode = Obfuscate | Replace

record secret_entry =
  se_kind :: secret_kind
  se_content :: string
  se_mode :: "secret_mode option"
  se_replacement :: "string option"
  se_flags :: "string option"

record secret_env =
  sv_tag :: "string \<Rightarrow> string"
  sv_stream :: "string \<Rightarrow> nat \<Rightarrow> nat"
  sv_regexp :: "string \<Rightarrow> string \<Rightarrow> (string \<Rightarrow> string list) option"

text \<open>\<open>compileSecretRegex\<close>: a pattern written as a literal between slashes brings its own flags.\<close>

fun literal_body :: "string \<Rightarrow> string \<Rightarrow> (string \<times> string) option" where
  "literal_body acc [] = None"
| "literal_body acc [c] = (if c = CHR ''/'' then Some (acc, []) else None)"
| "literal_body acc (c # d # cs) =
     (if c = CHR ''/'' then Some (acc, d # cs)
      else if c = CHR 0x5C then (if d = CHR 0x0A \<or> d = CHR 0x0D then None else literal_body (acc @ [c, d]) cs)
      else literal_body (acc @ [c]) (d # cs))"

definition literal_match :: "string \<Rightarrow> (string \<times> string) option" where
  "literal_match pattern =
     (case pattern of
        c # cs \<Rightarrow>
          (case (if c = CHR ''/'' then literal_body [] cs else None) of
             Some (body, flags) \<Rightarrow> if list_all (\<lambda>f. f \<in> set '' gimsuy'') flags then Some (body, flags) else None
           | None \<Rightarrow> None)
      | [] \<Rightarrow> None)"

fun dedup :: "string \<Rightarrow> string \<Rightarrow> string" where
  "dedup seen [] = []"
| "dedup seen (c # cs) = (if c \<in> set seen then dedup seen cs else c # dedup (seen @ [c]) cs)"

definition enforceGlobalFlag :: "string \<Rightarrow> string" where
  "enforceGlobalFlag flags = (if CHR ''g'' \<in> set flags then flags else flags @ ''g'')"

definition compileSecretRegex :: "secret_env \<Rightarrow> string \<Rightarrow> string option \<Rightarrow> (string \<Rightarrow> string list) option" where
  "compileSecretRegex sv pattern flags =
     (let fl = (case flags of None \<Rightarrow> [] | Some f \<Rightarrow> f);
          (p, f) = (case literal_match pattern of None \<Rightarrow> (pattern, fl) | Some (body, lf) \<Rightarrow> (body, dedup [] (fl @ lf)))
      in if CHR ''y'' \<in> set f then None else sv_regexp sv p (enforceGlobalFlag f))"

section \<open>Replacements and placeholders\<close>

definition REPLACEMENT_CHARS :: string where
  "REPLACEMENT_CHARS = ''ABCDEFGHIJKLMNOPQRSTUVWXYZabcdefghijklmnopqrstuvwxyz0123456789''"

definition REPLACEMENT_REJECT_THRESHOLD :: nat where
  "REPLACEMENT_REJECT_THRESHOLD = 248"

text \<open>The loop reads the stream from a position until it has the characters it needs; it may not end.\<close>

partial_function (option) replacement_loop :: "(nat \<Rightarrow> nat) \<Rightarrow> nat \<Rightarrow> nat \<Rightarrow> string \<Rightarrow> string option" where
  "replacement_loop bytes needed pos chars =
     (if needed \<le> length chars then Some chars
      else let byte = bytes pos
           in if REPLACEMENT_REJECT_THRESHOLD \<le> byte then replacement_loop bytes needed (pos + 1) chars
              else replacement_loop bytes needed (pos + 1) (chars @ [REPLACEMENT_CHARS ! (byte mod 62)]))"

definition generateDeterministicReplacement :: "secret_env \<Rightarrow> string \<Rightarrow> string option" where
  "generateDeterministicReplacement sv secret = replacement_loop (sv_stream sv secret) (length secret) 0 []"

definition buildPlaceholder :: "secret_env \<Rightarrow> string \<Rightarrow> string" where
  "buildPlaceholder sv secret = ''#SKC1_'' @ sv_tag sv secret @ ''#''"

definition tag_char :: "char \<Rightarrow> bool" where
  "tag_char c \<longleftrightarrow> is_word_char c \<or> c = CHR ''-''"

text \<open>\<open>PLACEHOLDER_RE\<close> at the start of a text.\<close>

definition placeholder_at :: "string \<Rightarrow> bool" where
  "placeholder_at t \<longleftrightarrow>
     starts_with t ''#SKC1_'' \<and> 29 \<le> length t \<and> list_all tag_char (take 22 (drop 6 t)) \<and> t ! 28 = CHR ''#''"

section \<open>Replacing text\<close>

text \<open>\<open>text.split(search).join(replacement)\<close> for a search text that is not empty.\<close>

fun replace_from :: "nat \<Rightarrow> string \<Rightarrow> string \<Rightarrow> string \<Rightarrow> string" where
  "replace_from skip search r [] = []"
| "replace_from (Suc k) search r (c # cs) = replace_from k search r cs"
| "replace_from 0 search r (c # cs) =
     (if starts_with (c # cs) search then r @ replace_from (length search - 1) search r cs
      else c # replace_from 0 search r cs)"

definition replaceAll :: "string \<Rightarrow> string \<Rightarrow> string \<Rightarrow> string" where
  "replaceAll txt search r = (if search = [] \<or> \<not> str_includes txt search then txt else replace_from 0 search r txt)"

text \<open>
  A global replacement by the alternatives of a list of texts, the first one that matches at a place; an empty
  alternative matches without taking a character.
\<close>

definition first_match :: "(string \<times> string) list \<Rightarrow> string \<Rightarrow> (string \<times> string) option" where
  "first_match ms t = find (\<lambda>(s, r). starts_with t s) ms"

fun replace_any :: "nat \<Rightarrow> (string \<times> string) list \<Rightarrow> string \<Rightarrow> string" where
  "replace_any 0 ms [] = (case first_match ms [] of None \<Rightarrow> [] | Some (s, r) \<Rightarrow> r)"
| "replace_any (Suc k) ms [] = []"
| "replace_any (Suc k) ms (c # cs) = replace_any k ms cs"
| "replace_any 0 ms (c # cs) =
     (case first_match ms (c # cs) of
        None \<Rightarrow> c # replace_any 0 ms cs
      | Some (s, r) \<Rightarrow> if s = [] then r @ c # replace_any 0 ms cs else r @ replace_any (length s - 1) ms cs)"

section \<open>The obfuscator\<close>

record pattern_entry =
  pe_matches :: "string \<Rightarrow> string list"
  pe_mode :: secret_mode
  pe_replacement :: "string option"

record obfuscator =
  ob_hasAny :: bool
  ob_nextIndex :: nat
  ob_indexBySecret :: "(string, nat) js_map"
  ob_mappings :: "(nat, string \<times> string) js_map"
  ob_deobfuscate :: "(string, string) js_map"
  ob_sortedReplace :: "(string \<times> string) list"
  ob_sortedObfuscate :: "(string \<times> nat \<times> string) list"
  ob_patterns :: "pattern_entry list"

text \<open>The loop of the constructor over the entries: plain secrets with their index, replacements, patterns.\<close>

record ob_build =
  bb_index :: nat
  bb_plain :: "(string, nat) js_map"
  bb_mappings :: "(nat, string \<times> string) js_map"
  bb_deobfuscate :: "(string, string) js_map"
  bb_replace :: "(string, string) js_map"
  bb_patterns :: "pattern_entry list"

definition mode_of :: "secret_entry \<Rightarrow> secret_mode" where
  "mode_of e = (case se_mode e of None \<Rightarrow> Obfuscate | Some m \<Rightarrow> m)"

definition add_entry :: "secret_env \<Rightarrow> secret_entry \<Rightarrow> ob_build \<Rightarrow> ob_build option" where
  "add_entry sv e b =
     (if se_kind e = Plain then
        if mode_of e = Obfuscate then
          let placeholder = buildPlaceholder sv (se_content e)
          in Some (b\<lparr>bb_index := bb_index b + 1, bb_plain := map_set (se_content e) (bb_index b) (bb_plain b),
                     bb_mappings := map_set (bb_index b) (se_content e, placeholder) (bb_mappings b),
                     bb_deobfuscate := map_set placeholder (se_content e) (bb_deobfuscate b)\<rparr>)
        else
          map_option (\<lambda>r. b\<lparr>bb_replace := map_set (se_content e) r (bb_replace b)\<rparr>)
            (case se_replacement e of Some r \<Rightarrow> Some r | None \<Rightarrow> generateDeterministicReplacement sv (se_content e))
      else Some (case compileSecretRegex sv (se_content e) (se_flags e) of
                   None \<Rightarrow> b
                 | Some mt \<Rightarrow> b\<lparr>bb_patterns := bb_patterns b @ [\<lparr>pe_matches = mt, pe_mode = mode_of e, pe_replacement = se_replacement e\<rparr>]\<rparr>))"

fun add_entries :: "secret_env \<Rightarrow> secret_entry list \<Rightarrow> ob_build \<Rightarrow> ob_build option" where
  "add_entries sv [] b = Some b"
| "add_entries sv (e # es) b = Option.bind (add_entry sv e b) (add_entries sv es)"

definition placeholder_of :: "(nat, string \<times> string) js_map \<Rightarrow> nat \<Rightarrow> string" where
  "placeholder_of mp i = (case map_get mp i of Some (_, p) \<Rightarrow> p | None \<Rightarrow> [])"

definition new_obfuscator :: "secret_env \<Rightarrow> secret_entry list \<Rightarrow> obfuscator option" where
  "new_obfuscator sv entries =
     map_option (\<lambda>b.
       \<lparr>ob_hasAny = (entries \<noteq> []), ob_nextIndex = bb_index b, ob_indexBySecret = bb_plain b, ob_mappings = bb_mappings b,
        ob_deobfuscate = bb_deobfuscate b, ob_sortedReplace = sort_key (\<lambda>m. - int (length (fst m))) (bb_replace b),
        ob_sortedObfuscate = map (\<lambda>(s, i). (s, i, placeholder_of (bb_mappings b) i)) (sort_key (\<lambda>m. - int (length (fst m))) (bb_plain b)),
        ob_patterns = bb_patterns b\<rparr>)
       (add_entries sv entries \<lparr>bb_index = 0, bb_plain = [], bb_mappings = [], bb_deobfuscate = [], bb_replace = [], bb_patterns = []\<rparr>)"

definition plain_pairs :: "obfuscator \<Rightarrow> (string \<times> string) list" where
  "plain_pairs ob = ob_sortedReplace ob @ map (\<lambda>(s, i, p). (s, p)) (ob_sortedObfuscate ob)"

text \<open>Whether replacing in one pass could differ from replacing one after the other.\<close>

definition useSequentialPlainReplacement :: "(string \<times> string) list \<Rightarrow> bool" where
  "useSequentialPlainReplacement ms =
     list_ex (\<lambda>i. list_ex (\<lambda>j.
       fst (ms ! j) \<noteq> [] \<and>
       (str_includes (snd (ms ! i)) (fst (ms ! j)) \<or>
        (i \<noteq> j \<and> (str_includes (fst (ms ! i)) (fst (ms ! j)) \<or> str_includes (fst (ms ! j)) (fst (ms ! i))))))
       [0..<length ms]) [0..<length ms]"

definition obfuscatePlainMappingsSequential :: "(string \<times> string) list \<Rightarrow> string \<Rightarrow> string" where
  "obfuscatePlainMappingsSequential ms t = fold (\<lambda>(s, r) t. replaceAll t s r) ms t"

definition obfuscatePlainMappings :: "obfuscator \<Rightarrow> string \<Rightarrow> string" where
  "obfuscatePlainMappings ob t =
     (let ms = plain_pairs ob
      in if useSequentialPlainReplacement ms then obfuscatePlainMappingsSequential ms t
         else if ms = [] then t else replace_any 0 ms t)"

text \<open>A new mapping goes after all that are at least as long, at the place that a binary search finds.\<close>

function insert_position :: "(string \<times> nat \<times> string) list \<Rightarrow> nat \<Rightarrow> nat \<Rightarrow> nat \<Rightarrow> nat" where
  "insert_position ms n lo hi =
     (if lo < hi then
        let mid = (lo + hi) div 2
        in if length (fst (ms ! mid)) < n then insert_position ms n lo mid else insert_position ms n (mid + 1) hi
      else lo)"
  by pat_completeness auto
termination by (relation "measure (\<lambda>(ms, n, lo, hi). hi - lo)") auto

declare insert_position.simps [simp del]

definition insertSorted :: "string \<times> nat \<times> string \<Rightarrow> (string \<times> nat \<times> string) list \<Rightarrow> (string \<times> nat \<times> string) list" where
  "insertSorted m ms = (let lo = insert_position ms (length (fst m)) 0 (length ms) in take lo ms @ m # drop lo ms)"

definition known_placeholder :: "secret_env \<Rightarrow> string \<Rightarrow> obfuscator \<Rightarrow> string \<times> obfuscator" where
  "known_placeholder sv v ob =
     (case map_get (ob_indexBySecret ob) v of
        Some i \<Rightarrow> (placeholder_of (ob_mappings ob) i, ob)
      | None \<Rightarrow>
          let i = ob_nextIndex ob; p = buildPlaceholder sv v
          in (p, ob\<lparr>ob_nextIndex := i + 1, ob_mappings := map_set i (v, p) (ob_mappings ob),
                    ob_deobfuscate := map_set p v (ob_deobfuscate ob), ob_indexBySecret := map_set v i (ob_indexBySecret ob),
                    ob_sortedObfuscate := insertSorted (v, i, p) (ob_sortedObfuscate ob)\<rparr>))"

fun replace_matches :: "secret_env \<Rightarrow> pattern_entry \<Rightarrow> string list \<Rightarrow> string \<times> obfuscator \<Rightarrow> (string \<times> obfuscator) option" where
  "replace_matches sv pe [] st = Some st"
| "replace_matches sv pe (v # vs) (t, ob) =
     (if pe_mode pe = Replace then
        Option.bind (case pe_replacement pe of Some r \<Rightarrow> Some r | None \<Rightarrow> generateDeterministicReplacement sv v)
          (\<lambda>r. replace_matches sv pe vs (replaceAll t v r, ob))
      else let (p, ob') = known_placeholder sv v ob in replace_matches sv pe vs (replaceAll t v p, ob'))"

text \<open>The set of the matches in the order in which they were found; empty matches are skipped.\<close>

definition distinct_matches :: "string list \<Rightarrow> string list" where
  "distinct_matches vs = filter (\<lambda>v. v \<noteq> []) (rev (remdups (rev vs)))"

fun obfuscate_patterns :: "secret_env \<Rightarrow> pattern_entry list \<Rightarrow> string \<times> obfuscator \<Rightarrow> (string \<times> obfuscator) option" where
  "obfuscate_patterns sv [] st = Some st"
| "obfuscate_patterns sv (pe # pes) (t, ob) =
     Option.bind (replace_matches sv pe (distinct_matches (pe_matches pe t)) (t, ob)) (obfuscate_patterns sv pes)"

definition obfuscate :: "secret_env \<Rightarrow> string \<Rightarrow> obfuscator \<Rightarrow> (string \<times> obfuscator) option" where
  "obfuscate sv t ob =
     (if \<not> ob_hasAny ob then Some (t, ob) else obfuscate_patterns sv (ob_patterns ob) (obfuscatePlainMappings ob t, ob))"

fun deobfuscate_from :: "nat \<Rightarrow> (string, string) js_map \<Rightarrow> string \<Rightarrow> string" where
  "deobfuscate_from skip d [] = []"
| "deobfuscate_from (Suc k) d (c # cs) = deobfuscate_from k d cs"
| "deobfuscate_from 0 d (c # cs) =
     (if placeholder_at (c # cs)
      then (case map_get d (take 29 (c # cs)) of Some s \<Rightarrow> s | None \<Rightarrow> take 29 (c # cs)) @ deobfuscate_from 28 d cs
      else c # deobfuscate_from 0 d cs)"

definition deobfuscate :: "obfuscator \<Rightarrow> string \<Rightarrow> string" where
  "deobfuscate ob t = (if \<not> ob_hasAny ob \<or> CHR ''#'' \<notin> set t then t else deobfuscate_from 0 (ob_deobfuscate ob) t)"

section \<open>Messages\<close>

fun deepWalkStrings :: "(string \<Rightarrow> string) \<Rightarrow> json \<Rightarrow> json" where
  "deepWalkStrings f (JStr s) = JStr (f s)"
| "deepWalkStrings f (JArr xs) = JArr (map (deepWalkStrings f) xs)"
| "deepWalkStrings f (JObj kvs) = JObj (map (\<lambda>(k, v). (k, deepWalkStrings f v)) kvs)"
| "deepWalkStrings f j = j"

datatype msg_block = TextBlock string | ThinkingBlock string | ToolCallBlock string json | ImageBlock string

datatype content = ContentString string | ContentBlocks "msg_block list"

text \<open>All strings of a message content, those of tool-call arguments included.\<close>

fun deobfuscate_block :: "obfuscator \<Rightarrow> msg_block \<Rightarrow> msg_block" where
  "deobfuscate_block ob (TextBlock t) = TextBlock (deobfuscate ob t)"
| "deobfuscate_block ob (ThinkingBlock t) = ThinkingBlock (deobfuscate ob t)"
| "deobfuscate_block ob (ToolCallBlock n args) = ToolCallBlock (deobfuscate ob n) (deepWalkStrings (deobfuscate ob) args)"
| "deobfuscate_block ob (ImageBlock d) = ImageBlock (deobfuscate ob d)"

definition deobfuscateSessionContext :: "obfuscator \<Rightarrow> content list \<Rightarrow> content list" where
  "deobfuscateSessionContext ob ms =
     (if \<not> ob_hasAny ob then ms
      else map (\<lambda>m. case m of ContentString t \<Rightarrow> ContentString (deobfuscate ob t)
                              | ContentBlocks bs \<Rightarrow> ContentBlocks (map (deobfuscate_block ob) bs)) ms)"

fun obfuscate_blocks :: "secret_env \<Rightarrow> msg_block list \<Rightarrow> obfuscator \<Rightarrow> (msg_block list \<times> obfuscator) option" where
  "obfuscate_blocks sv [] ob = Some ([], ob)"
| "obfuscate_blocks sv (TextBlock t # bs) ob =
     Option.bind (obfuscate sv t ob) (\<lambda>(t', ob').
       map_option (\<lambda>(bs', ob''). (TextBlock t' # bs', ob'')) (obfuscate_blocks sv bs ob'))"
| "obfuscate_blocks sv (b # bs) ob = map_option (\<lambda>(bs', ob'). (b # bs', ob')) (obfuscate_blocks sv bs ob)"

fun obfuscateMessages :: "secret_env \<Rightarrow> content list \<Rightarrow> obfuscator \<Rightarrow> (content list \<times> obfuscator) option" where
  "obfuscateMessages sv [] ob = Some ([], ob)"
| "obfuscateMessages sv (ContentString t # ms) ob =
     map_option (\<lambda>(ms', ob'). (ContentString t # ms', ob')) (obfuscateMessages sv ms ob)"
| "obfuscateMessages sv (ContentBlocks bs # ms) ob =
     Option.bind (obfuscate_blocks sv bs ob) (\<lambda>(bs', ob').
       map_option (\<lambda>(ms', ob''). (ContentBlocks bs' # ms', ob'')) (obfuscateMessages sv ms ob'))"

section \<open>Loading the configuration\<close>

text \<open>
  \<open>secrets/index.ts\<close>. A file is the parsed value, or \<open>None\<close> where it is missing or does not parse; the
  scope of the agent directory is an argument.
\<close>

datatype secrets_scope = GlobalScope | ProjectScope

definition isRegexEntry :: "json \<Rightarrow> bool" where
  "isRegexEntry e \<longleftrightarrow> is_plain_object e \<and> jget e ''type'' = Some (JStr ''regex'')"

fun string_or_absent :: "json option \<Rightarrow> bool" where
  "string_or_absent None = True"
| "string_or_absent (Some (JStr s)) = True"
| "string_or_absent (Some _) = False"

definition validateEntry :: "secret_env \<Rightarrow> json \<Rightarrow> bool" where
  "validateEntry sv e \<longleftrightarrow>
     is_plain_object e \<and> jget e ''type'' \<in> {Some (JStr ''plain''), Some (JStr ''regex'')} \<and>
     (case jget e ''content'' of Some (JStr c) \<Rightarrow> c \<noteq> [] | _ \<Rightarrow> False) \<and>
     jget e ''mode'' \<in> {None, Some (JStr ''obfuscate''), Some (JStr ''replace'')} \<and>
     string_or_absent (jget e ''replacement'') \<and> string_or_absent (jget e ''flags'') \<and>
     (jget e ''type'' = Some (JStr ''regex'') \<longrightarrow>
        (case as_str (jget e ''content'') of
           Some c \<Rightarrow> compileSecretRegex sv c (as_str (jget e ''flags'')) \<noteq> None
         | None \<Rightarrow> False))"

definition entry_of :: "json \<Rightarrow> secret_entry" where
  "entry_of e =
     \<lparr>se_kind = (if jget e ''type'' = Some (JStr ''plain'') then Plain else Pattern),
      se_content = (case as_str (jget e ''content'') of Some c \<Rightarrow> c | None \<Rightarrow> []),
      se_mode = Some (if jget e ''mode'' = Some (JStr ''replace'') then Replace else Obfuscate),
      se_replacement = as_str (jget e ''replacement''), se_flags = as_str (jget e ''flags'')\<rparr>"

definition loadSecretsFile :: "secret_env \<Rightarrow> secrets_scope \<Rightarrow> json option \<Rightarrow> secret_entry list" where
  "loadSecretsFile sv scope raw =
     (case raw of
        Some (JArr es) \<Rightarrow> map entry_of (filter (\<lambda>e. \<not> (scope = ProjectScope \<and> isRegexEntry e) \<and> validateEntry sv e) es)
      | _ \<Rightarrow> [])"

definition loadSecrets :: "secret_env \<Rightarrow> secrets_scope \<Rightarrow> json option \<Rightarrow> json option \<Rightarrow> secret_entry list" where
  "loadSecrets sv agentScope globalFile projectFile =
     (let globalEntries = loadSecretsFile sv agentScope globalFile;
          projectEntries = loadSecretsFile sv ProjectScope projectFile;
          projectPlainContents = set (map se_content (filter (\<lambda>e. se_kind e = Plain) projectEntries))
      in if globalEntries = [] then projectEntries
         else if projectEntries = [] then globalEntries
         else filter (\<lambda>e. se_kind e = Pattern \<or> se_content e \<notin> projectPlainContents) globalEntries @ projectEntries)"

definition secret_name_here :: "string \<Rightarrow> bool" where
  "secret_name_here t \<longleftrightarrow>
     list_ex (\<lambda>w. starts_with t w \<and> (drop (length w) t = [] \<or> hd (drop (length w) t) = CHR ''_''))
       [''key'', ''secret'', ''token'', ''password'', ''pass'', ''auth'', ''credential'', ''private'', ''oauth'']"

fun secret_name :: "string \<Rightarrow> bool" where
  "secret_name [] = False"
| "secret_name (c # cs) \<longleftrightarrow> secret_name_here (c # cs) \<or> secret_name cs"

fun env_secrets :: "string list \<Rightarrow> (string \<times> string) list \<Rightarrow> secret_entry list" where
  "env_secrets seen [] = []"
| "env_secrets seen ((name, v) # env) =
     (if length v < 8 \<or> \<not> secret_name (map lower name) \<or> v \<in> set seen then env_secrets seen env
      else \<lparr>se_kind = Plain, se_content = v, se_mode = Some Obfuscate, se_replacement = None, se_flags = None\<rparr> # env_secrets (v # seen) env)"

definition collectEnvSecrets :: "(string \<times> string) list \<Rightarrow> secret_entry list" where
  "collectEnvSecrets env = env_secrets [] env"

text \<open>The obfuscator of a session: environment first, then files; none without entries.\<close>

definition session_obfuscator ::
  "secret_env \<Rightarrow> bool \<Rightarrow> (string \<times> string) list \<Rightarrow> secrets_scope \<Rightarrow> json option \<Rightarrow> json option \<Rightarrow> obfuscator option option" where
  "session_obfuscator sv enabled env agentScope globalFile projectFile =
     (let allEntries = collectEnvSecrets env @ loadSecrets sv agentScope globalFile projectFile
      in if enabled \<and> allEntries \<noteq> [] then map_option Some (new_obfuscator sv allEntries) else Some None)"

section \<open>The order of the mappings\<close>

definition longest_first :: "(string \<times> nat \<times> string) list \<Rightarrow> bool" where
  "longest_first ms \<longleftrightarrow> sorted_wrt (\<lambda>a b. length (fst b) \<le> length (fst a)) ms"

definition splits_at :: "(string \<times> nat \<times> string) list \<Rightarrow> nat \<Rightarrow> nat \<Rightarrow> nat \<Rightarrow> bool" where
  "splits_at ms n lo hi \<longleftrightarrow>
     lo \<le> hi \<and> hi \<le> length ms \<and> (\<forall>i<lo. n \<le> length (fst (ms ! i))) \<and> (\<forall>i<length ms. hi \<le> i \<longrightarrow> length (fst (ms ! i)) < n)"

lemma insert_position_splits:
  "longest_first ms \<Longrightarrow> splits_at ms n lo hi \<Longrightarrow> splits_at ms n (insert_position ms n lo hi) (insert_position ms n lo hi)"
proof (induction ms n lo hi rule: insert_position.induct)
  case (1 ms n lo hi)
  show ?case
  proof (cases "lo < hi")
    case True
    let ?m = "(lo + hi) div 2"
    have m: "lo \<le> ?m" "?m < hi" "hi \<le> length ms" using True "1.prems"(2) by (auto simp: splits_at_def)
    have ord: "length (fst (ms ! j)) \<le> length (fst (ms ! i))" if "i < j" "j < length ms" for i j
      using "1.prems"(1) that by (simp add: longest_first_def sorted_wrt_iff_nth_less)
    show ?thesis
    proof (cases "length (fst (ms ! ?m)) < n")
      case short: True
      have "length (fst (ms ! i)) < n" if "i < length ms" "?m \<le> i" for i
        using ord [of ?m i] short that by (cases "i = ?m") auto
      then have "splits_at ms n lo ?m" using "1.prems"(2) m by (auto simp: splits_at_def)
      then show ?thesis using "1.IH"(1) [OF True refl short] "1.prems"(1) True short by (simp add: insert_position.simps [of ms n lo hi] Let_def)
    next
      case long: False
      have "n \<le> length (fst (ms ! i))" if "i < ?m + 1" for i
        using ord [of i ?m] long that m by (cases "i = ?m") auto
      then have "splits_at ms n (?m + 1) hi" using "1.prems"(2) m by (auto simp: splits_at_def)
      then show ?thesis using "1.IH"(2) [OF True refl long] "1.prems"(1) True long by (simp add: insert_position.simps [of ms n lo hi] Let_def)
    qed
  next
    case False
    then have "lo = hi" using "1.prems"(2) by (simp add: splits_at_def)
    then show ?thesis using "1.prems"(2) by (simp add: insert_position.simps)
  qed
qed

lemma insertSorted_keeps_order:
  assumes "longest_first ms"
  shows "longest_first (insertSorted m ms)"
proof -
  let ?p = "insert_position ms (length (fst m)) 0 (length ms)"
  have p: "splits_at ms (length (fst m)) ?p ?p" using assms by (intro insert_position_splits) (simp_all add: splits_at_def)
  have srt: "sorted_wrt (\<lambda>a b. length (fst b) \<le> length (fst a)) (take ?p ms @ drop ?p ms)" using assms by (simp add: longest_first_def)
  have "length (fst m) \<le> length (fst x)" if "x \<in> set (take ?p ms)" for x
    using that p by (auto simp: in_set_conv_nth splits_at_def)
  moreover have "length (fst x) \<le> length (fst m)" if d: "x \<in> set (drop ?p ms)" for x
  proof -
    obtain i where "x = ms ! (?p + i)" "?p + i < length ms" using d by (auto simp: in_set_conv_nth)
    then show ?thesis using p by (simp add: splits_at_def less_imp_le)
  qed
  ultimately show ?thesis
    using srt by (auto simp: insertSorted_def Let_def longest_first_def sorted_wrt_append simp del: append_take_drop_id)
qed

text \<open>Matches that patterns find are inserted in order, so the mappings stay longest first.\<close>

lemma known_placeholder_order:
  "longest_first (ob_sortedObfuscate ob) \<Longrightarrow> longest_first (ob_sortedObfuscate (snd (known_placeholder sv v ob)))"
  by (auto simp: known_placeholder_def Let_def insertSorted_keeps_order split: option.splits)

lemma replace_matches_order:
  "replace_matches sv pe vs (t, ob) = Some (t', ob') \<Longrightarrow> longest_first (ob_sortedObfuscate ob) \<Longrightarrow> longest_first (ob_sortedObfuscate ob')"
proof (induction vs arbitrary: t ob)
  case (Cons v vs)
  then show ?case using known_placeholder_order [of ob sv v]
    by (auto split: if_splits prod.splits simp: bind_eq_Some_conv)
qed simp

lemma obfuscate_patterns_order:
  "obfuscate_patterns sv pes (t, ob) = Some (t', ob') \<Longrightarrow> longest_first (ob_sortedObfuscate ob) \<Longrightarrow> longest_first (ob_sortedObfuscate ob')"
proof (induction pes arbitrary: t ob)
  case (Cons pe pes)
  then show ?case using replace_matches_order by (fastforce simp: bind_eq_Some_conv)
qed simp

lemma obfuscate_keeps_longest_first:
  "obfuscate sv t ob = Some (t', ob') \<Longrightarrow> longest_first (ob_sortedObfuscate ob) \<Longrightarrow> longest_first (ob_sortedObfuscate ob')"
  by (auto simp: obfuscate_def dest: obfuscate_patterns_order split: if_splits)

lemma new_obfuscator_longest_first:
  assumes "new_obfuscator sv entries = Some ob"
  shows "longest_first (ob_sortedObfuscate ob)"
proof -
  have "sorted_wrt (\<lambda>a b. length (fst b) \<le> length (fst a)) (sort_key (\<lambda>m. - int (length (fst m))) xs)" for xs :: "(string \<times> nat) list"
    using sorted_sort_key [of "\<lambda>m. - int (length (fst m))" xs] by (simp add: sorted_map)
  then show ?thesis using assms by (auto simp: new_obfuscator_def longest_first_def sorted_wrt_map case_prod_beta)
qed

section \<open>Text as characters and placeholders\<close>

datatype token = Chr char | Ph string

definition tok_str :: "secret_env \<Rightarrow> token \<Rightarrow> string" where
  "tok_str sv t = (case t of Chr c \<Rightarrow> [c] | Ph s \<Rightarrow> buildPlaceholder sv s)"

definition tok_txt :: "token \<Rightarrow> string" where
  "tok_txt t = (case t of Chr c \<Rightarrow> [c] | Ph s \<Rightarrow> s)"

definition tok_render :: "secret_env \<Rightarrow> token list \<Rightarrow> string" where
  "tok_render sv ts = concat (map (tok_str sv) ts)"

definition expand :: "token list \<Rightarrow> string" where
  "expand ts = concat (map tok_txt ts)"

lemma tok_render_simps [simp]:
  "tok_render sv [] = []" "tok_render sv (Chr c # ts) = c # tok_render sv ts" "tok_render sv (Ph s # ts) = buildPlaceholder sv s @ tok_render sv ts"
  by (simp_all add: tok_render_def tok_str_def)

lemma expand_simps [simp]: "expand [] = []" "expand (Chr c # ts) = c # expand ts" "expand (Ph s # ts) = s @ expand ts"
  by (simp_all add: expand_def tok_txt_def)

lemma chr_text [simp]: "tok_render sv (map Chr t) = t" "expand (map Chr t) = t"
  by (induction t) simp_all

definition tok_starts :: "token list \<Rightarrow> string \<Rightarrow> bool" where
  "tok_starts ts w \<longleftrightarrow> take (length w) ts = map Chr w"

lemma tok_starts_simps [simp]:
  "tok_starts ts []" "\<not> tok_starts [] (a # w)" "tok_starts (Chr c # ts) (a # w) \<longleftrightarrow> c = a \<and> tok_starts ts w" "\<not> tok_starts (Ph s # ts) (a # w)"
  by (auto simp: tok_starts_def)

fun tok_has :: "token list \<Rightarrow> string \<Rightarrow> bool" where
  "tok_has [] w \<longleftrightarrow> w = []"
| "tok_has (t # ts) w \<longleftrightarrow> tok_starts (t # ts) w \<or> tok_has ts w"

lemma starts_with_simps [simp]:
  "starts_with t []" "\<not> starts_with [] (a # w)" "starts_with (c # t) (a # w) \<longleftrightarrow> c = a \<and> starts_with t w"
  by (auto simp: starts_with_def)

lemma tok_starts_chr: "tok_starts (map Chr t) w \<longleftrightarrow> starts_with t w"
  by (induction w arbitrary: t) (case_tac t; auto)+

lemma tok_has_chr: "tok_has (map Chr t) w \<longleftrightarrow> str_includes t w"
proof (induction t)
  case (Cons c t)
  then show ?case using tok_starts_chr [of "c # t" w] by simp
qed simp

text \<open>Replacement on tokens.\<close>

fun tok_any :: "nat \<Rightarrow> string list \<Rightarrow> token list \<Rightarrow> token list" where
  "tok_any k ms [] = []"
| "tok_any (Suc k) ms (t # ts) = tok_any k ms ts"
| "tok_any 0 ms (Ph s # ts) = Ph s # tok_any 0 ms ts"
| "tok_any 0 ms (Chr c # ts) =
     (case find (tok_starts (Chr c # ts)) ms of
        None \<Rightarrow> Chr c # tok_any 0 ms ts
      | Some s \<Rightarrow> Ph s # tok_any (length s - 1) ms ts)"

lemma tok_any_drop: "tok_any k ms ts = tok_any 0 ms (drop k ts)"
  by (induction k ms ts rule: tok_any.induct) auto

lemma replace_any_drop: "k \<le> length t \<Longrightarrow> replace_any k ms t = replace_any 0 ms (drop k t)"
  by (induction k arbitrary: t) (case_tac t; auto)+

lemma tok_starts_drop: "tok_starts ts s \<Longrightarrow> length s \<le> length ts \<and> ts = map Chr s @ drop (length s) ts"
  by (metis append_take_drop_id length_map length_take min.cobounded1 tok_starts_def)

lemma tok_any_starts: "tok_starts (tok_any 0 ms ts) w \<Longrightarrow> tok_starts ts w"
proof (induction w arbitrary: ts)
  case (Cons a w)
  then show ?case by (cases "(0::nat, ms, ts)" rule: tok_any.cases) (auto split: option.splits)
qed simp

lemma tok_has_step: "w \<noteq> [] \<Longrightarrow> tok_has (tok_any 0 ms ts) w \<Longrightarrow> tok_has ts w"
proof (induction ts rule: length_induct)
  case (1 ts)
  have sub: "tok_has (drop k us) w \<Longrightarrow> tok_has us w" for k us
    by (induction k arbitrary: us) (case_tac us; auto)+
  show ?case
  proof (cases ts)
    case (Cons t us)
    have IH: "tok_has (tok_any 0 ms (drop k us)) w \<Longrightarrow> tok_has us w" for k
      using "1.IH" "1.prems"(1) Cons sub by (metis drop_Cons' length_drop length_Cons less_Suc_eq_le diff_le_self)
    show ?thesis
    proof (cases t)
      case (Ph s)
      then show ?thesis using "1.prems" IH [of 0] Cons by (cases w) auto
    next
      case (Chr c)
      show ?thesis
      proof (cases "find (tok_starts (Chr c # us)) ms")
        case None
        then have e: "tok_any 0 ms ts = Chr c # tok_any 0 ms us" using Cons Chr by simp
        then show ?thesis using "1.prems" IH [of 0] tok_any_starts [of ms ts w] Cons by (auto simp: e)
      next
        case (Some s)
        then show ?thesis using "1.prems" IH [of "length s - 1"] Cons Chr tok_any_drop [of "length s - 1" ms us]
          by (cases w) auto
      qed
    qed
  qed (use "1.prems" in simp)
qed

lemma tok_any_clears: "s \<in> set ms \<Longrightarrow> s \<noteq> [] \<Longrightarrow> \<not> tok_has (tok_any 0 ms ts) s"
proof (induction ts rule: length_induct)
  case (1 ts)
  have no: "\<not> tok_starts (tok_any 0 ms us) s" for us
  proof
    assume a: "tok_starts (tok_any 0 ms us) s"
    then have b: "tok_starts us s" by (rule tok_any_starts)
    then obtain c vs where us: "us = Chr c # vs" using "1.prems"(2) by (cases s; cases us) (auto simp: tok_starts_def)
    then have "find (tok_starts us) ms \<noteq> None" using b "1.prems"(1) by (auto simp: find_None_iff)
    then show False using a us "1.prems"(2) by (cases s) (auto split: option.splits)
  qed
  show ?case
  proof (cases ts)
    case (Cons t us)
    have IH: "\<not> tok_has (tok_any 0 ms (drop k us)) s" for k using "1.IH" "1.prems" Cons by simp
    obtain v k where e: "tok_any 0 ms ts = v # tok_any 0 ms (drop k us)"
    proof (cases t)
      case (Ph x)
      then show ?thesis using that [of "Ph x" 0] Cons by simp
    next
      case (Chr c)
      show ?thesis
      proof (cases "find (tok_starts (Chr c # us)) ms")
        case None
        then show ?thesis using that [of "Chr c" 0] Cons Chr by simp
      next
        case (Some x)
        then show ?thesis using that [of "Ph x" "length x - 1"] Cons Chr tok_any_drop [of "length x - 1" ms us] by simp
      qed
    qed
    then show ?thesis using IH no [of ts] by simp
  qed (use "1.prems" in simp)
qed

lemma expand_tok_any: "(\<forall>s\<in>set ms. s \<noteq> []) \<Longrightarrow> expand (tok_any 0 ms ts) = expand ts"
proof (induction ts rule: length_induct)
  case (1 ts)
  show ?case
  proof (cases ts)
    case (Cons t us)
    show ?thesis
    proof (cases t)
      case (Ph x)
      then show ?thesis using "1" Cons by simp
    next
      case (Chr c)
      show ?thesis
      proof (cases "find (tok_starts (Chr c # us)) ms")
        case None
        then show ?thesis using "1" Cons Chr by simp
      next
        case (Some s)
        then have s: "s \<in> set ms" "tok_starts ts s" using Cons Chr by (auto simp: find_Some_iff)
        then have "s \<noteq> []" using "1.prems" by blast
        then obtain a w where w: "s = a # w" by (cases s) auto
        have "ts = map Chr s @ drop (length s) ts" using tok_starts_drop [OF s(2)] by simp
        then have "expand ts = s @ expand (drop (length s) ts)" by (metis chr_text(2) expand_def concat_append map_append)
        moreover have "tok_any 0 ms ts = Ph s # tok_any 0 ms (drop (length s) ts)"
          using Some Cons Chr tok_any_drop [of "length s - 1" ms us] w by simp
        moreover have "expand (tok_any 0 ms (drop (length s) ts)) = expand (drop (length s) ts)" using "1" Cons w by simp
        ultimately show ?thesis by simp
      qed
    qed
  qed simp
qed

section \<open>Replacement of text is replacement of tokens\<close>

text \<open>A search text without \<open>#\<close> is found in the text of tokens where it is found in the tokens.\<close>

definition hash_free :: "string \<Rightarrow> bool" where
  "hash_free w \<longleftrightarrow> CHR ''#'' \<notin> set w"

lemma hash_free_simps [simp]: "hash_free []" "hash_free (c # w) \<longleftrightarrow> c \<noteq> CHR ''#'' \<and> hash_free w"
  by (auto simp: hash_free_def)

definition phs :: "token list \<Rightarrow> string set" where
  "phs ts = {x. Ph x \<in> set ts}"

lemma phs_simps [simp]: "phs [] = {}" "phs (Chr c # ts) = phs ts" "phs (Ph x # ts) = insert x (phs ts)" "phs (map Chr t) = {}"
  by (auto simp: phs_def)

lemma starts_render: "hash_free w \<Longrightarrow> starts_with (tok_render sv ts) w \<longleftrightarrow> tok_starts ts w"
proof (induction w arbitrary: ts)
  case (Cons a w)
  then show ?case
  proof (cases ts)
    case (Cons t us)
    then show ?thesis using Cons.prems Cons.IH [of us] by (cases t) (auto simp: buildPlaceholder_def)
  qed simp
qed simp

lemma starts_hash: "hash_free w \<Longrightarrow> starts_with (p @ CHR ''#'' # u) w \<longleftrightarrow> starts_with p w"
proof (induction w arbitrary: p)
  case (Cons a w)
  then show ?case by (cases p) auto
qed simp

lemma includes_hash:
  "hash_free w \<Longrightarrow> w \<noteq> [] \<Longrightarrow> str_includes (p @ CHR ''#'' # u) w \<longleftrightarrow> str_includes p w \<or> str_includes u w"
proof (induction p)
  case Nil
  then show ?case by (cases w) auto
next
  case (Cons c p)
  then show ?case using starts_hash [of w "c # p" u] by simp
qed

lemma placeholder_split: "\<exists>p. buildPlaceholder sv x = p @ ''#''"
  unfolding buildPlaceholder_def by (metis append.assoc)

lemma includes_placeholder:
  assumes "hash_free w" "w \<noteq> []"
  shows "str_includes (buildPlaceholder sv x @ u) w \<longleftrightarrow> str_includes (buildPlaceholder sv x) w \<or> str_includes u w"
proof -
  obtain p where "buildPlaceholder sv x = p @ ''#''" using placeholder_split by blast
  then show ?thesis using includes_hash [OF assms, of p u] includes_hash [OF assms, of p "[]"] assms(2) by simp
qed

lemma includes_render:
  assumes "hash_free w" "w \<noteq> []"
  shows "(\<forall>x\<in>phs ts. \<not> str_includes (buildPlaceholder sv x) w) \<Longrightarrow> str_includes (tok_render sv ts) w \<Longrightarrow> tok_has ts w"
proof (induction ts)
  case (Cons t ts)
  show ?case
  proof (cases t)
    case (Chr c)
    then show ?thesis using Cons starts_render [OF assms(1), of sv "Chr c # ts"] by auto
  next
    case (Ph x)
    then show ?thesis using Cons includes_placeholder [OF assms, of sv x "tok_render sv ts"] by auto
  qed
qed simp

abbreviation ph_pairs :: "secret_env \<Rightarrow> string list \<Rightarrow> (string \<times> string) list" where
  "ph_pairs sv ms \<equiv> map (\<lambda>s. (s, buildPlaceholder sv s)) ms"

lemma first_match_pairs: "first_match (ph_pairs sv ms) t = map_option (\<lambda>s. (s, buildPlaceholder sv s)) (find (starts_with t) ms)"
  by (induction ms) (auto simp: first_match_def)

lemma replace_any_copies:
  assumes "\<forall>s\<in>set ms. s \<noteq> [] \<and> hash_free s \<and> \<not> str_includes p s"
  shows "replace_any 0 (ph_pairs sv ms) (p @ CHR ''#'' # u) = p @ CHR ''#'' # replace_any 0 (ph_pairs sv ms) u"
  using assms
proof (induction p)
  case Nil
  have "\<not> starts_with (CHR ''#'' # u) s" if "s \<in> set ms" for s using Nil that by (cases s) auto
  then have "find (starts_with (CHR ''#'' # u)) ms = None" by (simp add: find_None_iff)
  then show ?case by (simp add: first_match_pairs)
next
  case (Cons c p)
  have "\<not> starts_with (c # p @ CHR ''#'' # u) s" if "s \<in> set ms" for s
    using Cons.prems that starts_hash [of s "c # p" u] by auto
  then have "find (starts_with (c # p @ CHR ''#'' # u)) ms = None" by (simp add: find_None_iff)
  then show ?case using Cons by (simp add: first_match_pairs)
qed

lemma replace_any_placeholder:
  assumes "\<forall>s\<in>set ms. s \<noteq> [] \<and> hash_free s \<and> \<not> str_includes (buildPlaceholder sv x) s"
  shows "replace_any 0 (ph_pairs sv ms) (buildPlaceholder sv x @ u) = buildPlaceholder sv x @ replace_any 0 (ph_pairs sv ms) u"
proof -
  obtain p where p: "buildPlaceholder sv x = p @ ''#''" using placeholder_split by blast
  have "\<forall>s\<in>set ms. s \<noteq> [] \<and> hash_free s \<and> \<not> str_includes p s" using assms includes_hash [of _ p "[]"] p by auto
  from replace_any_copies [OF this, of sv u] show ?thesis using p by simp
qed

lemma replace_any_render:
  "(\<forall>s\<in>set ms. s \<noteq> [] \<and> hash_free s \<and> (\<forall>x\<in>phs ts. \<not> str_includes (buildPlaceholder sv x) s)) \<Longrightarrow>
   replace_any 0 (ph_pairs sv ms) (tok_render sv ts) = tok_render sv (tok_any 0 ms ts)"
proof (induction ts rule: length_induct)
  case (1 ts)
  show ?case
  proof (cases ts)
    case Nil
    have "find (starts_with []) ms = None" using "1.prems" by (auto simp: find_None_iff starts_with_def)
    then show ?thesis using Nil by (simp add: first_match_pairs)
  next
    case (Cons t us)
    have sub: "phs (drop k us) \<subseteq> phs ts" for k using Cons by (auto simp: phs_def dest: in_set_dropD)
    have IH: "replace_any 0 (ph_pairs sv ms) (tok_render sv (drop k us)) = tok_render sv (tok_any 0 ms (drop k us))" for k
      using "1.IH" "1.prems" sub [of k] Cons by (simp add: subset_iff)
    show ?thesis
    proof (cases t)
      case (Ph x)
      then show ?thesis using replace_any_placeholder [of ms sv x "tok_render sv us"] "1.prems" Cons IH [of 0] by simp
    next
      case (Chr c)
      have st: "starts_with (c # tok_render sv us) s \<longleftrightarrow> tok_starts (Chr c # us) s" if "s \<in> set ms" for s
        using starts_render [of s sv "Chr c # us"] "1.prems" that by simp
      have f: "find (starts_with (c # tok_render sv us)) ms = find (tok_starts (Chr c # us)) ms"
        using st by (intro find_cong) auto
      show ?thesis
      proof (cases "find (tok_starts (Chr c # us)) ms")
        case None
        then show ?thesis using f Cons Chr IH [of 0] by (simp add: first_match_pairs)
      next
        case (Some s)
        then have s: "s \<in> set ms" "tok_starts ts s" using Cons Chr by (auto simp: find_Some_iff)
        then have "s \<noteq> []" using "1.prems" by blast
        then obtain a w where w: "s = a # w" by (cases s) auto
        then have us: "us = map Chr w @ drop (length w) us" using tok_starts_drop [OF s(2)] Cons Chr by simp
        then have r: "tok_render sv us = w @ tok_render sv (drop (length w) us)" by (metis chr_text(1) tok_render_def concat_append map_append)
        then have "replace_any (length w) (ph_pairs sv ms) (tok_render sv us) = replace_any 0 (ph_pairs sv ms) (tok_render sv (drop (length w) us))"
          using replace_any_drop [of "length w" "tok_render sv us"] by simp
        then show ?thesis using Some f Cons Chr w IH [of "length w"] tok_any_drop [of "length w" ms us]
          by (simp add: first_match_pairs)
      qed
    qed
  qed
qed

text \<open>Splitting and joining is the replacement by one alternative.\<close>

lemma replace_from_any: "s \<noteq> [] \<Longrightarrow> replace_from k s r t = replace_any k [(s, r)] t"
proof (induction k s r t rule: replace_from.induct)
  case (1 k s r)
  then show ?case by (cases k; cases s) (auto simp: first_match_def)
qed (auto simp: first_match_def)

lemma replace_from_absent: "s \<noteq> [] \<Longrightarrow> \<not> str_includes t s \<Longrightarrow> replace_from 0 s r t = t"
  by (induction t) auto

lemma replaceAll_any: "s \<noteq> [] \<Longrightarrow> replaceAll t s r = replace_any 0 [(s, r)] t"
  unfolding replaceAll_def by (auto simp: replace_from_any [symmetric] replace_from_absent)

lemma phs_tok_any: "phs (tok_any k ms ts) \<subseteq> phs ts \<union> set ms"
proof (induction k ms ts rule: tok_any.induct)
  case (4 ms c ts)
  then show ?case by (auto split: option.splits simp: find_Some_iff)
qed (auto simp: phs_def)

text \<open>One secret after the other.\<close>

definition tok_seq :: "string list \<Rightarrow> token list \<Rightarrow> token list" where
  "tok_seq ms ts = fold (\<lambda>s. tok_any 0 [s]) ms ts"

lemma tok_seq_simps [simp]: "tok_seq [] ts = ts" "tok_seq (s # ms) ts = tok_seq ms (tok_any 0 [s] ts)"
  by (simp_all add: tok_seq_def)

lemma sequential_render:
  "(\<forall>s\<in>set ms. s \<noteq> [] \<and> hash_free s \<and> (\<forall>x\<in>phs ts \<union> set ms. \<not> str_includes (buildPlaceholder sv x) s)) \<Longrightarrow>
   obfuscatePlainMappingsSequential (ph_pairs sv ms) (tok_render sv ts) = tok_render sv (tok_seq ms ts)"
proof (induction ms arbitrary: ts)
  case Nil
  then show ?case by (simp add: obfuscatePlainMappingsSequential_def)
next
  case (Cons s ms)
  have "replaceAll (tok_render sv ts) s (buildPlaceholder sv s) = tok_render sv (tok_any 0 [s] ts)"
    using Cons.prems replace_any_render [of "[s]" ts sv] by (simp add: replaceAll_any)
  moreover have "obfuscatePlainMappingsSequential (ph_pairs sv ms) (tok_render sv (tok_any 0 [s] ts)) = tok_render sv (tok_seq ms (tok_any 0 [s] ts))"
    using Cons.prems phs_tok_any [of 0 "[s]" ts] by (intro Cons.IH) auto
  ultimately show ?case by (simp add: obfuscatePlainMappingsSequential_def)
qed

lemma tok_seq_facts:
  shows "phs (tok_seq ms ts) \<subseteq> phs ts \<union> set ms"
    and "w \<noteq> [] \<Longrightarrow> tok_has (tok_seq ms ts) w \<Longrightarrow> tok_has ts w"
    and "(\<forall>s\<in>set ms. s \<noteq> []) \<Longrightarrow> expand (tok_seq ms ts) = expand ts"
proof -
  show "phs (tok_seq ms ts) \<subseteq> phs ts \<union> set ms"
  proof (induction ms arbitrary: ts)
    case (Cons s ms)
    then show ?case using phs_tok_any [of 0 "[s]" ts] by fastforce
  qed simp
  show "w \<noteq> [] \<Longrightarrow> tok_has (tok_seq ms ts) w \<Longrightarrow> tok_has ts w"
  proof (induction ms arbitrary: ts)
    case (Cons s ms)
    then show ?case using tok_has_step [of w "[s]" ts] by simp
  qed simp
  show "(\<forall>s\<in>set ms. s \<noteq> []) \<Longrightarrow> expand (tok_seq ms ts) = expand ts"
    by (induction ms arbitrary: ts) (simp_all add: expand_tok_any)
qed

lemma tok_seq_clears: "s \<in> set ms \<Longrightarrow> s \<noteq> [] \<Longrightarrow> \<not> tok_has (tok_seq ms ts) s"
proof (induction ms arbitrary: ts)
  case (Cons m ms)
  then show ?case using tok_seq_facts(2) [of s ms "tok_any 0 [m] ts"] tok_any_clears [of s "[m]" ts] by auto
qed simp

section \<open>Putting the secrets back\<close>

lemma placeholder_at_placeholder:
  assumes "length (sv_tag sv x) = 22" "list_all tag_char (sv_tag sv x)"
  shows "placeholder_at (buildPlaceholder sv x @ u)" "length (buildPlaceholder sv x) = 29"
  using assms by (simp_all add: placeholder_at_def buildPlaceholder_def nth_append)

lemma deobfuscate_drop: "deobfuscate_from k d t = deobfuscate_from 0 d (drop k t)"
  by (induction k d t rule: deobfuscate_from.induct) auto

lemma deobfuscate_plain: "hash_free t \<Longrightarrow> deobfuscate_from 0 d t = t"
  by (induction t) (auto simp: placeholder_at_def)

lemma deobfuscate_placeholder:
  assumes "length (sv_tag sv x) = 22" "list_all tag_char (sv_tag sv x)" "map_get d (buildPlaceholder sv x) = Some x"
  shows "deobfuscate_from 0 d (buildPlaceholder sv x @ u) = x @ deobfuscate_from 0 d u"
proof -
  note ph = placeholder_at_placeholder [OF assms(1,2)]
  obtain c q where q: "buildPlaceholder sv x = c # q" by (simp add: buildPlaceholder_def)
  then have "length q = 28" using ph(2) by simp
  then show ?thesis using ph(1) [of u] q assms(3) deobfuscate_drop [of 28 d "q @ u"] by simp
qed

lemma deobfuscate_render:
  "\<not> tok_has ts ''#SKC1_'' \<Longrightarrow>
   (\<forall>x\<in>phs ts. length (sv_tag sv x) = 22 \<and> list_all tag_char (sv_tag sv x) \<and> map_get d (buildPlaceholder sv x) = Some x) \<Longrightarrow>
   deobfuscate_from 0 d (tok_render sv ts) = expand ts"
proof (induction ts)
  case (Cons t ts)
  show ?case
  proof (cases t)
    case (Ph x)
    then show ?thesis using Cons by (simp add: deobfuscate_placeholder)
  next
    case (Chr c)
    have "\<not> starts_with (c # tok_render sv ts) ''#SKC1_''"
      using Cons.prems(1) Chr starts_render [of "''SKC1_''" sv ts] by auto
    then have "\<not> placeholder_at (c # tok_render sv ts)" unfolding placeholder_at_def by blast
    then show ?thesis using Cons Chr by simp
  qed
qed simp

section \<open>Obfuscators of plain secrets\<close>

definition plain_entry :: "secret_entry \<Rightarrow> bool" where
  "plain_entry e \<longleftrightarrow> se_kind e = Plain \<and> mode_of e = Obfuscate"

text \<open>What the hash and the choice of secrets have to give: tags of 22 characters of base64url, different for
  different secrets; no secret is empty, has a \<open>#\<close> or is part of a placeholder.\<close>

definition secrets_apart :: "secret_env \<Rightarrow> string list \<Rightarrow> bool" where
  "secrets_apart sv ms \<longleftrightarrow>
     list_all (\<lambda>s. s \<noteq> [] \<and> hash_free s \<and> length (sv_tag sv s) = 22 \<and> list_all tag_char (sv_tag sv s) \<and>
       list_all (\<lambda>x. \<not> str_includes (buildPlaceholder sv x) s \<and> (sv_tag sv x = sv_tag sv s \<longrightarrow> x = s)) ms) ms"

definition build_ok :: "secret_env \<Rightarrow> string set \<Rightarrow> ob_build \<Rightarrow> bool" where
  "build_ok sv S b \<longleftrightarrow>
     bb_replace b = [] \<and> bb_patterns b = [] \<and> fst ` set (bb_plain b) = S \<and>
     (\<forall>(s, i)\<in>set (bb_plain b). i < bb_index b \<and> map_get (bb_mappings b) i = Some (s, buildPlaceholder sv s)) \<and>
     (\<forall>s\<in>S. map_get (bb_deobfuscate b) (buildPlaceholder sv s) = Some s)"

lemma set_update_subset: "set (map_set k v m) \<subseteq> insert (k, v) (set m)"
  by (induction m) auto

lemma add_entry_ok:
  assumes "plain_entry e" "build_ok sv S b" "\<forall>s\<in>S. sv_tag sv s = sv_tag sv (se_content e) \<longrightarrow> s = se_content e"
  shows "\<exists>b'. add_entry sv e b = Some b' \<and> build_ok sv (insert (se_content e) S) b'"
proof -
  let ?c = "se_content e"
  have inj: "buildPlaceholder sv s = buildPlaceholder sv ?c \<Longrightarrow> s \<in> S \<Longrightarrow> s = ?c" for s
    using assms(3) by (simp add: buildPlaceholder_def)
  have "fst ` set (map_set ?c (bb_index b) (bb_plain b)) = insert ?c S"
    using assms(2) by (simp add: build_ok_def map_set_keys)
  moreover have "i < bb_index b + 1 \<and>
      map_get (map_set (bb_index b) (?c, buildPlaceholder sv ?c) (bb_mappings b)) i = Some (s, buildPlaceholder sv s)"
    if m: "(s, i) \<in> set (map_set ?c (bb_index b) (bb_plain b))" for s i
  proof -
    consider "s = ?c" "i = bb_index b" | "(s, i) \<in> set (bb_plain b)"
      using m set_update_subset [of ?c "bb_index b" "bb_plain b"] by blast
    then show ?thesis using assms(2) by cases (auto simp: build_ok_def)
  qed
  moreover have "map_get (map_set (buildPlaceholder sv ?c) ?c (bb_deobfuscate b)) (buildPlaceholder sv s) = Some s"
    if "s \<in> insert ?c S" for s
  proof (cases "s = ?c")
    case False
    then have "s \<in> S" "buildPlaceholder sv s \<noteq> buildPlaceholder sv ?c" using that inj [of s] by auto
    then show ?thesis using assms(2) by (simp add: build_ok_def)
  qed simp
  ultimately have "build_ok sv (insert ?c S) (b\<lparr>bb_index := bb_index b + 1, bb_plain := map_set ?c (bb_index b) (bb_plain b),
      bb_mappings := map_set (bb_index b) (?c, buildPlaceholder sv ?c) (bb_mappings b),
      bb_deobfuscate := map_set (buildPlaceholder sv ?c) ?c (bb_deobfuscate b)\<rparr>)"
    using assms(2) unfolding build_ok_def by (intro conjI ballI) (auto simp del: map_get_set)
  then show ?thesis using assms(1) by (simp add: add_entry_def plain_entry_def Let_def)
qed

lemma add_entries_ok:
  "list_all plain_entry es \<Longrightarrow> build_ok sv S b \<Longrightarrow>
   inj_on (sv_tag sv) (S \<union> se_content ` set es) \<Longrightarrow>
   \<exists>b'. add_entries sv es b = Some b' \<and> build_ok sv (S \<union> se_content ` set es) b'"
proof (induction es arbitrary: b S)
  case (Cons e es)
  obtain b1 where b1: "add_entry sv e b = Some b1" "build_ok sv (insert (se_content e) S) b1"
    using add_entry_ok [of e sv S b] Cons.prems by (auto simp: inj_on_def)
  have u: "insert (se_content e) S \<union> se_content ` set es = S \<union> se_content ` set (e # es)" by auto
  have "\<exists>b'. add_entries sv es b1 = Some b' \<and> build_ok sv (insert (se_content e) S \<union> se_content ` set es) b'"
    using Cons.prems b1(2) u by (intro Cons.IH) auto
  then show ?case using b1(1) u by simp
qed simp

lemma plain_obfuscator:
  assumes "list_all plain_entry es" "secrets_apart sv (map se_content es)"
  shows "\<exists>ob ms. new_obfuscator sv es = Some ob \<and> ob_hasAny ob = (es \<noteq> []) \<and> ob_patterns ob = [] \<and> plain_pairs ob = ph_pairs sv ms \<and>
    set ms = se_content ` set es \<and> (\<forall>s\<in>set ms. map_get (ob_deobfuscate ob) (buildPlaceholder sv s) = Some s)"
proof -
  let ?b0 = "\<lparr>bb_index = 0, bb_plain = [], bb_mappings = [], bb_deobfuscate = [], bb_replace = [], bb_patterns = []\<rparr>"
  have "build_ok sv {} ?b0" by (simp add: build_ok_def)
  then obtain b where b: "add_entries sv es ?b0 = Some b" "build_ok sv (se_content ` set es) b"
    using add_entries_ok [of es sv "{}" ?b0] assms by (auto simp: secrets_apart_def list_all_iff inj_on_def)
  let ?srt = "sort_key (\<lambda>m. - int (length (fst m))) (bb_plain b)"
  have "map (\<lambda>(s, i). (s, placeholder_of (bb_mappings b) i)) ?srt = map (\<lambda>(s, i). (s, buildPlaceholder sv s)) ?srt"
    using b(2) by (intro map_cong) (auto simp: build_ok_def placeholder_of_def)
  then show ?thesis using b
    by (intro exI [of _ "map fst ?srt"] exI)
       (auto simp: new_obfuscator_def plain_pairs_def build_ok_def comp_def case_prod_beta)
qed

text \<open>
  C18. Obfuscation hides and restores. An obfuscator of plain secrets that are apart (none empty, with a \<open>#\<close> or
  inside a placeholder, and different tags for different secrets) returns for every text one in which no secret
  occurs, and when the text had no placeholder prefix of its own, deobfuscation gives the text back: in one pass or
  with one secret replaced after the other, however the secrets overlap.
\<close>

theorem secrets_hidden_and_restored:
  assumes "list_all plain_entry entries" "secrets_apart sv (map se_content entries)"
  shows "\<exists>ob t'. new_obfuscator sv entries = Some ob \<and> obfuscate sv t ob = Some (t', ob) \<and>
    (\<forall>e\<in>set entries. \<not> str_includes t' (se_content e)) \<and> (\<not> str_includes t ''#SKC1_'' \<longrightarrow> deobfuscate ob t' = t)"
proof (cases "entries = []")
  case True
  then show ?thesis by (simp add: new_obfuscator_def obfuscate_def deobfuscate_def)
next
  case False
  obtain ob ms where ob: "new_obfuscator sv entries = Some ob" "ob_hasAny ob" "ob_patterns ob = []" "plain_pairs ob = ph_pairs sv ms"
    "set ms = se_content ` set entries" "\<forall>s\<in>set ms. map_get (ob_deobfuscate ob) (buildPlaceholder sv s) = Some s"
    using plain_obfuscator [OF assms] False by auto
  have ap: "s \<noteq> [] \<and> hash_free s \<and> length (sv_tag sv s) = 22 \<and> list_all tag_char (sv_tag sv s) \<and>
      (\<forall>x\<in>set ms. \<not> str_includes (buildPlaceholder sv x) s)" if "s \<in> set ms" for s
    using assms(2) that ob(5) by (auto simp: secrets_apart_def list_all_iff)
  have ne: "ms \<noteq> []" using ob(5) False by auto
  define ts where "ts = (if useSequentialPlainReplacement (ph_pairs sv ms) then tok_seq ms (map Chr t) else tok_any 0 ms (map Chr t))"
  have r: "obfuscatePlainMappings ob t = tok_render sv ts"
    using ap ne sequential_render [of ms "map Chr t" sv] replace_any_render [of ms "map Chr t" sv] ob(4)
    by (simp add: obfuscatePlainMappings_def ts_def Let_def)
  have ph: "phs ts \<subseteq> set ms" using phs_tok_any [of 0 ms "map Chr t"] tok_seq_facts(1) [of ms "map Chr t"] by (auto simp: ts_def)
  have hid: "\<not> tok_has ts s" if "s \<in> set ms" for s using that ap tok_any_clears tok_seq_clears by (simp add: ts_def)
  have h: "\<not> str_includes (tok_render sv ts) s" if "s \<in> set ms" for s using includes_render [of s ts sv] hid [OF that] ap [OF that] ph by blast
  have ex: "expand ts = t" using ap tok_seq_facts(3) [of ms "map Chr t"] expand_tok_any [of ms "map Chr t"] by (simp add: ts_def)
  have "deobfuscate ob (tok_render sv ts) = t" if "\<not> str_includes t ''#SKC1_''"
  proof -
    have "\<not> tok_has ts ''#SKC1_''"
      using that tok_has_step [of "''#SKC1_''" ms "map Chr t"] tok_seq_facts(2) [of "''#SKC1_''" ms "map Chr t"]
      by (auto simp: ts_def tok_has_chr split: if_splits)
    then have "deobfuscate_from 0 (ob_deobfuscate ob) (tok_render sv ts) = t"
      using deobfuscate_render [of ts sv "ob_deobfuscate ob"] ph ap ob(6) ex by blast
    then show ?thesis using deobfuscate_plain [of "tok_render sv ts" "ob_deobfuscate ob"] ob(2) by (auto simp: deobfuscate_def hash_free_def)
  qed
  then show ?thesis using ob h r by (auto simp: obfuscate_def)
qed

text \<open>Two entries, one inside the other, over tags made of the length of the secret.\<close>

definition len_env :: secret_env where
  "len_env = \<lparr>sv_tag = (\<lambda>s. replicate 22 (if length s = 4 then CHR ''q'' else CHR ''w'')),
              sv_stream = (\<lambda>_ _. 0), sv_regexp = (\<lambda>_ _. None)\<rparr>"

definition plain_of :: "string \<Rightarrow> secret_entry" where
  "plain_of s = \<lparr>se_kind = Plain, se_content = s, se_mode = None, se_replacement = None, se_flags = None\<rparr>"

theorem secrets_hidden_and_restored_witness:
  "\<exists>ob t'. new_obfuscator len_env [plain_of ''pass'', plain_of ''password''] = Some ob \<and>
    obfuscate len_env ''my password'' ob = Some (t', ob) \<and>
    (\<forall>e\<in>set [plain_of ''pass'', plain_of ''password'']. \<not> str_includes t' (se_content e)) \<and> deobfuscate ob t' = ''my password''"
proof -
  have "list_all plain_entry [plain_of ''pass'', plain_of ''password'']" by code_simp
  moreover have "secrets_apart len_env (map se_content [plain_of ''pass'', plain_of ''password''])" by code_simp
  moreover have "\<not> str_includes ''my password'' ''#SKC1_''" by code_simp
  ultimately show ?thesis using secrets_hidden_and_restored [of "[plain_of ''pass'', plain_of ''password'']" len_env "''my password''"] by auto
qed

section \<open>Loaded entries\<close>

text \<open>Secrets of the environment are plain, to be obfuscated, of eight characters at least and distinct.\<close>

lemma env_secrets_ok:
  "e \<in> set (env_secrets seen env) \<Longrightarrow> plain_entry e \<and> 8 \<le> length (se_content e) \<and> se_content e \<notin> set seen"
  by (induction seen env rule: env_secrets.induct) (auto simp: plain_entry_def mode_of_def split: if_splits)

lemma env_secrets_distinct: "distinct (map se_content (env_secrets seen env))"
proof (induction seen env rule: env_secrets.induct)
  case (2 seen name v env)
  have "v \<notin> se_content ` set (env_secrets (v # seen) env)" using env_secrets_ok by fastforce
  then show ?case using 2 by simp
qed simp

lemma loaded_entry:
  assumes "e \<in> set (loadSecretsFile sv scope raw)"
  shows "se_content e \<noteq> []" "se_kind e = Pattern \<Longrightarrow> scope = GlobalScope \<and> compileSecretRegex sv (se_content e) (se_flags e) \<noteq> None"
proof -
  obtain j where j: "e = entry_of j" "\<not> (scope = ProjectScope \<and> isRegexEntry j)" "validateEntry sv j"
    using assms by (auto simp: loadSecretsFile_def split: option.splits json.splits)
  then show "se_content e \<noteq> []" by (auto simp: validateEntry_def entry_of_def split: option.splits json.splits)
  show "scope = GlobalScope \<and> compileSecretRegex sv (se_content e) (se_flags e) \<noteq> None" if "se_kind e = Pattern"
    using that j by (cases scope) (auto simp: validateEntry_def entry_of_def isRegexEntry_def split: option.splits json.splits if_splits)
qed


definition key_file :: json where
  "key_file = JArr [JObj [(''type'', JStr ''plain''), (''content'', JStr ''hunter2'')]]"

definition hunter :: secret_entry where
  "hunter = (plain_of ''hunter2'')\<lparr>se_mode := Some Obfuscate\<rparr>"


section \<open>Replacements\<close>

definition replacement_ok :: "nat \<Rightarrow> string option \<Rightarrow> bool" where
  "replacement_ok n x \<longleftrightarrow> (\<exists>r. x = Some r \<and> length r = n \<and> list_all (\<lambda>c. c \<in> set REPLACEMENT_CHARS) r)"

lemma replacement_loop_step:
  "length chars < needed \<Longrightarrow> replacement_loop bytes needed pos chars =
    (if 248 \<le> bytes pos then replacement_loop bytes needed (pos + 1) chars
     else replacement_loop bytes needed (pos + 1) (chars @ [REPLACEMENT_CHARS ! (bytes pos mod 62)]))"
  by (subst replacement_loop.simps) (simp add: Let_def REPLACEMENT_REJECT_THRESHOLD_def)

lemma replacement_loop_ends:
  assumes often: "\<forall>n. \<exists>m\<ge>n. bytes m < 248"
  shows "length chars \<le> needed \<Longrightarrow> list_all (\<lambda>c. c \<in> set REPLACEMENT_CHARS) chars \<Longrightarrow>
    replacement_ok needed (replacement_loop bytes needed pos chars)"
proof (induction "needed - length chars" arbitrary: chars pos)
  case 0
  then show ?case by (simp add: replacement_loop.simps replacement_ok_def)
next
  case (Suc n)
  have short: "length chars < needed" using Suc.hyps(2) by simp
  have push: "replacement_ok needed (replacement_loop bytes needed (p + 1) (chars @ [REPLACEMENT_CHARS ! (bytes p mod 62)]))" for p
  proof (rule Suc.hyps(1))
    have "REPLACEMENT_CHARS ! (bytes p mod 62) \<in> set REPLACEMENT_CHARS" by (rule nth_mem) (simp add: REPLACEMENT_CHARS_def)
    then show "list_all (\<lambda>c. c \<in> set REPLACEMENT_CHARS) (chars @ [REPLACEMENT_CHARS ! (bytes p mod 62)])" using Suc.prems(2) by simp
  qed (use Suc.hyps(2) short in auto)
  obtain m where "pos \<le> m" "bytes m < 248" using often by blast
  then show ?case
  proof (induction "m - pos" arbitrary: pos)
    case 0
    then show ?case using push [of pos] short by (simp add: replacement_loop_step)
  next
    case (Suc k)
    then have "replacement_ok needed (replacement_loop bytes needed (pos + 1) chars)" by (intro Suc.hyps(1)) auto
    then show ?case using push [of pos] short by (simp add: replacement_loop_step)
  qed
qed

text \<open>
  Replacements keep the length. Where the stream of hash bytes has an accepted byte after every position, the
  replacement of a secret is found, it has the length of the secret and consists of the 62 letters and digits.
\<close>

theorem replacement_keeps_length:
  assumes "\<forall>n. \<exists>m\<ge>n. sv_stream sv secret m < 248"
  shows "\<exists>r. generateDeterministicReplacement sv secret = Some r \<and> length r = length secret \<and>
    list_all (\<lambda>c. c \<in> set REPLACEMENT_CHARS) r"
  using replacement_loop_ends [OF assms, of "[]" "length secret" 0]
  by (simp add: generateDeterministicReplacement_def replacement_ok_def)

theorem replacement_keeps_length_witness:
  "\<exists>r. generateDeterministicReplacement len_env ''hunter2'' = Some r \<and> length r = 7"
proof -
  have "\<forall>n. \<exists>m\<ge>n. sv_stream len_env ''hunter2'' m < 248" by (auto simp: len_env_def)
  from replacement_keeps_length [OF this] show ?thesis by auto
qed

section \<open>Where secrets and placeholders meet\<close>

text \<open>
  A replacement wins over the environment. A secret found in the environment and listed in a file in replace mode
  is replaced, and not obfuscated by the mapping of the environment that comes first in the entries.
\<close>

theorem replace_mode_wins:
  assumes "s \<noteq> []" "\<not> str_includes r s"
  shows "map_option (\<lambda>ob. map_option fst (obfuscate sv s ob))
      (new_obfuscator sv [plain_of s, (plain_of s)\<lparr>se_mode := Some Replace, se_replacement := Some r\<rparr>]) = Some (Some r)"
proof -
  have sw: "starts_with s s" by (simp add: starts_with_def)
  then have inc: "str_includes s s" using assms(1) by (cases s) auto
  have "replace_from 0 s r s = r"
  proof (cases s)
    case (Cons c cs)
    have "replace_from (length cs) (c # cs) r cs = []" for cs'
      using replace_any_drop [of "length cs" cs "[(c # cs, r)]"]
      by (simp add: replace_from_any first_match_def)
    then show ?thesis using Cons sw by simp
  qed (use assms in simp)
  then have a: "replaceAll s s r = r" "replaceAll r s p = r" for p using assms inc by (simp_all add: replaceAll_def)
  show ?thesis
    using assms(1) inc a
    by (simp add: new_obfuscator_def plain_of_def add_entry_def mode_of_def Let_def obfuscate_def obfuscatePlainMappings_def
        plain_pairs_def useSequentialPlainReplacement_def obfuscatePlainMappingsSequential_def placeholder_of_def)
qed

theorem replace_mode_wins_witness:
  "map_option (\<lambda>ob. map_option fst (obfuscate len_env ''hunter2'' ob))
    (new_obfuscator len_env [plain_of ''hunter2'', (plain_of ''hunter2'')\<lparr>se_mode := Some Replace, se_replacement := Some ''***''\<rparr>]) = Some (Some ''***'')"
  by (rule replace_mode_wins) code_simp+

text \<open>
  C19. Tool calls go out in plain. A session context with a placeholder in the arguments of a tool call, restored for
  display and handed back as outgoing messages, leaves with the secret in plain: outgoing obfuscation does not touch
  tool-call blocks.
\<close>

theorem tool_call_goes_out_plain:
  assumes "list_all plain_entry entries" "secrets_apart sv (map se_content entries)" "e \<in> set entries" "hash_free name"
  shows "\<exists>ob. new_obfuscator sv entries = Some ob \<and>
    obfuscateMessages sv
      (deobfuscateSessionContext ob [ContentBlocks [ToolCallBlock name (JObj [(k, JStr (buildPlaceholder sv (se_content e)))])]]) ob =
    Some ([ContentBlocks [ToolCallBlock name (JObj [(k, JStr (se_content e))])]], ob)"
proof -
  obtain ob ms where ob: "new_obfuscator sv entries = Some ob" "ob_hasAny ob" "set ms = se_content ` set entries"
    "\<forall>s\<in>set ms. map_get (ob_deobfuscate ob) (buildPlaceholder sv s) = Some s"
    using plain_obfuscator [OF assms(1,2)] assms(3) by auto
  have n: "deobfuscate ob name = name" using assms(4) by (simp add: deobfuscate_def hash_free_def)
  have "length (sv_tag sv (se_content e)) = 22" "list_all tag_char (sv_tag sv (se_content e))"
    using assms(2,3) by (auto simp: secrets_apart_def list_all_iff)
  then have "deobfuscate_from 0 (ob_deobfuscate ob) (buildPlaceholder sv (se_content e)) = se_content e"
    using deobfuscate_placeholder [of sv "se_content e" "ob_deobfuscate ob" "[]"] ob(3,4) assms(3) by simp
  then have "deobfuscate ob (buildPlaceholder sv (se_content e)) = se_content e"
    using ob(2) by (simp add: deobfuscate_def) (simp add: buildPlaceholder_def)
  then show ?thesis using ob(1,2) n by (simp add: deobfuscateSessionContext_def)
qed

theorem tool_call_goes_out_plain_witness:
  "\<exists>ob. new_obfuscator len_env [plain_of ''hunter2''] = Some ob \<and>
    obfuscateMessages len_env
      (deobfuscateSessionContext ob [ContentBlocks [ToolCallBlock ''bash'' (JObj [(''command'', JStr (buildPlaceholder len_env ''hunter2''))])]]) ob =
    Some ([ContentBlocks [ToolCallBlock ''bash'' (JObj [(''command'', JStr ''hunter2'')])]], ob)"
proof -
  have "list_all plain_entry [plain_of ''hunter2'']" by code_simp
  moreover have "secrets_apart len_env (map se_content [plain_of ''hunter2''])" by code_simp
  ultimately show ?thesis
    using tool_call_goes_out_plain [of "[plain_of ''hunter2'']" len_env "plain_of ''hunter2''" "''bash''" "''command''"]
    by (simp add: plain_of_def)
qed

text \<open>
  The matches of \<open>[A-Za-z0-9_-]{20,}\<close>, a usual pattern for tokens: the maximal runs of at least twenty characters.
\<close>

fun long_runs :: "string \<Rightarrow> string \<Rightarrow> string list" where
  "long_runs run [] = (if 20 \<le> length run then [run] else [])"
| "long_runs run (c # cs) =
     (if tag_char c then long_runs (run @ [c]) cs else (if 20 \<le> length run then [run] else []) @ long_runs [] cs)"

definition token_env :: secret_env where
  "token_env = len_env\<lparr>sv_regexp := (\<lambda>_ _. Some (long_runs []))\<rparr>"

definition token_entries :: "secret_entry list" where
  "token_entries = [plain_of ''pass'', (plain_of ''[A-Za-z0-9_-]{20,}'')\<lparr>se_kind := Pattern\<rparr>]"

text \<open>
  A pattern may match a placeholder. With a plain secret and a pattern for tokens, the pattern matches inside the
  placeholder that has just been put in; the placeholder of the match is nested in it, and deobfuscation, which
  reads the text once, gives the placeholder back and not the secret.
\<close>

theorem pattern_nests_placeholders:
  "\<exists>ob t' ob'. new_obfuscator token_env token_entries = Some ob \<and> obfuscate token_env ''pass'' ob = Some (t', ob') \<and>
    deobfuscate ob' t' = buildPlaceholder token_env ''pass'' \<and> deobfuscate ob' t' \<noteq> ''pass''"
proof -
  have "(case new_obfuscator token_env token_entries of None \<Rightarrow> False | Some ob \<Rightarrow>
      (case obfuscate token_env ''pass'' ob of None \<Rightarrow> False | Some (t', ob') \<Rightarrow> deobfuscate ob' t' = buildPlaceholder token_env ''pass''))"
    by code_simp
  moreover have "buildPlaceholder token_env ''pass'' \<noteq> ''pass''" by code_simp
  ultimately show ?thesis by (auto split: option.splits)
qed

end
