(* ===== verification/Spec2Isabelle.thy ===== *)
theory Spec2Isabelle
  imports JS_Prelude Harness_Core Harness_Receipts Harness_Rollup Harness_Finalize Harness_Operate
    Session_Lease Goals Timeout_Guard Agent_Scopes Bash_Policy Unattended UI_Broker Gate_Schema Ask_Gate
    Gate_Store Gate_Broker Gate_Lifecycle Gate_Refinement Hashline_Text Hashline_Parse Hashline_Apply
    Hashline_Splice Hashline_Input Hashline_Diff Hashline_Recovery Hashline_Execute Worker_Pool Task_Ids
    Fallback_Chain Tool_Choice Append_Only Secrets
begin

text \<open>
  A verification of the control core of Sayknow CLI, the coding agent under
  \<open>src/packages/coding-agent/src\<close>. All paths below are relative to that directory, except for the package
  \<open>packages/agent\<close> beside it.

  \<^bold>\<open>The program's parts.\<close> An agent session can be driven by a detached owner process, the harness. Its
  loop (\<open>harness-control-plane/operate.ts\<close>) observes the session, classifies what it sees
  (\<open>classifier.ts\<close>), preserves the work tree before anything destructive (\<open>preserve.ts\<close>),
  writes receipts (\<open>receipts.ts\<close>, \<open>storage.ts\<close>) and decides completion on evidence only
  (\<open>finalize.ts\<close>). One process at a time owns a session through a lease (\<open>session-lease.ts\<close>).
  Receipts that arrive from outside move the lifecycle (\<open>receipt-ingest.ts\<close>,
  \<open>lifecycle-reconciliation.ts\<close>), and the receipts of a phase are summed up in a rollup
  (\<open>phase-rollup.ts\<close>). Goal mode (\<open>goals/\<close>) keeps an objective with its token and time
  accounting and guards against continuing into the same time-out. When nobody watches, a run controller
  (\<open>modes/shared/agent-wire/unattended-run-controller.ts\<close>) negotiates a budget and scopes,
  classifies shell commands (\<open>unattended-action-policy.ts\<close>) and aborts on a breach. Where a human has
  to decide, the agent opens a workflow gate: a question (\<open>workflow-gate-types.ts\<close>) with an answer
  schema (\<open>workflow-gate-schema.ts\<close>), kept by a broker (\<open>workflow-gate-broker.ts\<close>) that
  validates an answer, records it, and drives it through its hooks; simple dialogs go through the UI
  request broker (\<open>ui-request-broker.ts\<close>). The agent changes files through its edit tool
  (\<open>hashline/\<close>, \<open>edit/\<close>): every line it is shown carries a number and a hash, a patch names
  lines by these anchors, stale anchors are refused or recovered from what the model had seen
  (\<open>edit/file-read-cache.ts\<close>, \<open>hashline/recovery.ts\<close>), and a call over several files is
  checked as a whole before it is written (\<open>hashline/execute.ts\<close>). Subagents run in a worker pool or
  behind a semaphore (\<open>task/parallel.ts\<close>) and write outputs under numbered ids
  (\<open>task/output-manager.ts\<close>). A session falls back along a chain of models when requests fail
  (\<open>session/fallback-chain-controller.ts\<close>), forces tool choices through a queue
  (\<open>session/tool-choice-queue.ts\<close>), and keeps the bytes of its prompt stable for the caches of the
  providers (\<open>packages/agent/src/append-only-context.ts\<close>). Configured secrets are replaced in what
  goes out to a model and put back in what comes in (\<open>secrets/\<close>).

  \<^bold>\<open>Theories.\<close>
  \<^item> \<open>JS_Prelude\<close>: what the sources use of TypeScript and its library: numbers, JSON values with
    ordered keys, strings and their trimming, \<open>Map\<close> as an association list, \<open>andThen\<close> and
    \<open>for_each\<close> for code that throws inside a loop, reachable states, and the locale
    \<open>machine_invariant\<close> for state machines.
  \<^item> \<open>Harness_Core\<close>: \<open>types.ts\<close>, \<open>state-machine.ts\<close>, \<open>classifier.ts\<close>,
    \<open>lifecycle-reconciliation.ts\<close>, \<open>seams.ts\<close>. Recovery never discards a dirty work tree.
  \<^item> \<open>Harness_Receipts\<close>: \<open>receipts.ts\<close>, \<open>receipt-ingest.ts\<close>, \<open>phase-rollup.ts\<close>.
    Canonical JSON does not depend on key order, receipts move a lifecycle only by proof, a rollup is
    what its children say; \<open>Harness_Rollup\<close> shows that builder and validator agree.
  \<^item> \<open>Harness_Finalize\<close>: the receipt store and \<open>finalize.ts\<close>. Written receipts never change
    (locale \<open>write_once\<close>, interpreted on the store); completion is claimed only on evidence.
  \<^item> \<open>Harness_Operate\<close>: \<open>operate.ts\<close> with \<open>session-transport.ts\<close> and
    \<open>preserve.ts\<close>. The loop is bounded, vanish receipts come before destructive actions, and a run
    is completed only by the finalizer.
  \<^item> \<open>Session_Lease\<close>: the lease as a state machine whose epochs fence former owners.
  \<^item> \<open>Goals\<close>, \<open>Timeout_Guard\<close>: \<open>goals/state.ts\<close>, \<open>goals/runtime.ts\<close>,
    \<open>goals/continuation-timeout-guard.ts\<close>. Usage is counted once, counters reach the log, the text
    that is shown to the model is escaped.
  \<^item> \<open>Agent_Scopes\<close>, \<open>Bash_Policy\<close>, \<open>Unattended\<close>: \<open>scopes.ts\<close>,
    \<open>approval-gate.ts\<close>, \<open>unattended-action-policy.ts\<close>,
    \<open>unattended-run-controller.ts\<close>. A command is as severe as its worst statement (locale
    \<open>worst_of\<close>), budgets hold in every reachable state, negotiation fails closed.
  \<^item> \<open>UI_Broker\<close>: every request is settled exactly once, and answers come from the controller.
  \<^item> \<open>Gate_Schema\<close>, \<open>Ask_Gate\<close>: the schema dialect, the validator, and the agreement of the
    published schema of a question with the decoder of its answers.
  \<^item> \<open>Gate_Store\<close>, \<open>Gate_Broker\<close>, \<open>Gate_Lifecycle\<close>, \<open>Gate_Refinement\<close>: the
    records and the in-memory store (locale \<open>gate_store\<close>), the broker as a machine over events, its
    invariant, and the refinement of an abstract specification: pending, accepted once, completed or
    quarantined for good.
  \<^item> \<open>Hashline_Text\<close>, \<open>Hashline_Parse\<close>: text as UTF-16 units, the line hash of
    \<open>hashline/hash.ts\<close> and the patch parser of \<open>hashline/parser.ts\<close>. Well-formed patches are
    read back as the edits they stand for; parsed edits are well formed; shown lines can be pasted as anchors.
  \<^item> \<open>Hashline_Apply\<close>, \<open>Hashline_Splice\<close>: \<open>hashline/apply.ts\<close>, and its equivalence
    with the reading of a patch in which all edits refer to the original lines. Stale edits are refused,
    lines that no edit deletes survive, and the first changed line bounds the change.
  \<^item> \<open>Hashline_Input\<close>: \<open>hashline/input.ts\<close> and the merge of sections. Sections survive the
    input format.
  \<^item> \<open>Hashline_Diff\<close>: \<open>generateDiffString\<close>, \<open>hashline/diff-preview.ts\<close> and
    \<open>hashline/stream.ts\<close>. The anchors of a preview are those of the file after the edit; the chunks of
    a stream are its anchored lines within their limits.
  \<^item> \<open>Hashline_Recovery\<close>: \<open>edit/normalize.ts\<close>, \<open>edit/file-read-cache.ts\<close> and
    \<open>hashline/recovery.ts\<close>. Snapshots stay coherent, and recovery never guesses.
  \<^item> \<open>Hashline_Execute\<close>: \<open>hashline/execute.ts\<close> with \<open>tools/plan-mode-guard.ts\<close>. A
    failed check writes nothing, a checked batch over different files lands completely, plan mode protects
    every other file; two spellings of one path defeat the check.
  \<^item> \<open>Worker_Pool\<close>: \<open>task/parallel.ts\<close>. Under every interleaving of the workers the pool
    ends, stays within its limit, starts nothing after an abort or a failure, and returns all results in
    place when it was not aborted; the semaphore counts its holders and serves callers in order. Both read a
    limit of zero differently.
  \<^item> \<open>Task_Ids\<close>: \<open>task/id.ts\<close>, \<open>task/output-manager.ts\<close>. Ids never clash with each
    other or with the outputs found, also when calls race with the scan, and an id names its parent, number
    and task.
  \<^item> \<open>Fallback_Chain\<close>: \<open>session/fallback-chain-controller.ts\<close>. No model loses attempts to
    another, only quota and authentication failures move to the next model, and a failing turn ends; the
    delays stay within their caps.
  \<^item> \<open>Tool_Choice\<close>: \<open>session/tool-choice-queue.ts\<close> as a refinement of a list of choices;
    forced choices survive failed turns.
  \<^item> \<open>Append_Only\<close>: \<open>packages/agent/src/append-only-context.ts\<close> and the normalization of
    tools. The log is the context of the provider, and an exported prefix can be imported; where the
    fingerprint and the copy of a tool fail is proved as well.
  \<^item> \<open>Secrets\<close>: \<open>secrets/obfuscator.ts\<close>, \<open>secrets/regex.ts\<close>, \<open>secrets/index.ts\<close>. Texts are
    compared with lists of characters and placeholders: plain secrets are hidden and restored, whichever
    way they are replaced and however they overlap. Mappings stay longest first, replacements keep the
    length, workspace files bring no patterns; tool calls that go out in plain, patterns that match
    placeholders and the precedence of replacements are proved as well.

  \<^bold>\<open>How code becomes definitions.\<close> A definition has the name of the function it translates; helpers that
  name a part of a longer function map to those lines. Interfaces and classes are records, string unions
  are datatypes, \<open>throw\<close> is the left side of a sum, a class with mutable fields is a record that its
  methods return updated. An \<open>async\<close> method of the gate broker is cut at its awaits: every outcome of
  a hook is an event, and a task map remembers where a resolution stands, so that all interleavings over
  different gates are runs of \<open>gb_step\<close>. Operations that the code runs under a lock are one step. The
  edit tool returns its result together with the files it leaves behind, so that writes before an error
  remain visible. The workers of a pool and the calls of the output manager are cut at their awaits in the
  same way.

  \<^bold>\<open>Parameters.\<close> SHA-256 (\<open>sha\<close>), regular expressions given as data (\<open>rx\<close>,
  \<open>rx_error\<close>), the recognizers of interview question texts (\<open>isDI\<close>, \<open>text_readers\<close>), the
  hooks of the broker, git and the transport of the harness, process probes, clocks and identifier
  sources, and \<open>localeCompare\<close> are arguments. For the edit tool these are xxHash32 (\<open>xx\<close>), the
  routines of the diff package (\<open>diff_library\<close>), the working directory of the process
  (\<open>pcwd\<close>), what the LRU container evicts, and the session around a call (\<open>exec_env\<close>); for
  the pool the calls it makes (\<open>F\<close>, what a call can return), and for the append-only log
  \<open>Bun.hash\<close>; for secrets the keyed hash and the regular expressions (\<open>secret_env\<close>). Theorems that need more of them than totality say so as
  hypotheses, and their instances use concrete functions.

  \<^bold>\<open>Bounds.\<close> No definition has fuel of its own: the operate loop recurses on the iterations that
  \<open>maxIterations\<close> allows, schema checks on the depth the code itself limits, everything else on its
  data. The one loop that need not end, the search for accepted hash bytes behind a replacement, is a
  partial function into \<open>option\<close>, shown to return where accepted bytes keep coming. An accepted answer is completed by at most six further steps, a run of the worker pool has at most two
  steps for each item and one for each worker and the signal, and a failing turn has fewer requests than one
  more than the configured attempts for each model.

  \<^bold>\<open>Limits of the model.\<close> Strings of the JSON world are lists of code units up to 255; the edit tool has
  lists of UTF-16 units, and its paths are POSIX paths. Numbers are exact
  rationals with the non-finite values of JavaScript, so rounding is not modelled. An operation
  reads the clock once. The order in which waiting callers obtain a gate lock is not fixed. The gate store
  is the in-memory one.

  \<^bold>\<open>Not modelled.\<close> Processes, sockets, timers and files: the owner process and its transports, the
  file gate store and its migrations, the receipt spool, the promises of waiting callers in the gate
  emitter. Of the edit tool: the other edit modes, notebooks, diagnostics, the rendering of messages and the
  stripping of echoed prefixes. The session manager and the rest of the agent session, the SDK bus, the workflow runtimes, the
  execution of subagents, the other tools, terminal interface, language servers and the rest of the packages
  beside the coding agent are outside this development: they are mostly orchestration of processes, files
  and network streams.
\<close>

end
